(* ===== verification/Py_Prelude.thy ===== *)
theory Py_Prelude
  imports Main
begin

text \<open>
  What every theory of the development shares: the exceptions a Python program can raise as a
  datatype, results that are either an exception or a value, the loops of the sources as
  combinators on such results, and dictionaries as association lists (Python 2 iterates a
  dictionary in some order that the program cannot rely on; here it is the order of the list).
  The lemmas that unfold and invert results are collected in \<open>res_simps\<close>, those on
  dictionaries in \<open>dict_simps\<close>.
\<close>

named_theorems res_simps
named_theorems dict_simps

section \<open>Exceptions and results\<close>

text \<open>
  \<open>RecursionLimit\<close> is Python 2's \<open>RuntimeError: maximum recursion depth exceeded\<close>; the other
  constructors carry the message or the missing key; \<open>PyException\<close> is \<open>Exception\<close> itself, and
  \<open>SystemExit\<close> has what was printed before \<open>sys.exit(1)\<close>. \<open>OutOfFuel\<close> is the outcome of a loop
  of the model whose bound on the number of turns was too small. \<open>Diverges\<close> is no exception: it is the outcome of
  a loop that was proved to run for ever.
\<close>

datatype py_error =
    IndexError
  | KeyError string
  | TypeError string
  | ValueError string
  | AttributeError string
  | AssertionError
  | RecursionLimit
  | ReError
  | GypError string
  | CircularException string
  | SyntaxError string
  | RuntimeError string
  | OSError string
  | PyException string
  | NameError string
  | SystemExit string
  | OutOfFuel
  | Diverges

type_synonym 'a res = "py_error + 'a"

definition res_bind :: "'a res \<Rightarrow> ('a \<Rightarrow> 'b res) \<Rightarrow> 'b res" where
  "res_bind m f = (case m of Inl e \<Rightarrow> Inl e | Inr x \<Rightarrow> f x)"

lemma res_bind_Inl [simp, res_simps]: "res_bind (Inl e) f = Inl e"
  by (simp add: res_bind_def)

lemma res_bind_Inr [simp, res_simps]: "res_bind (Inr x) f = f x"
  by (simp add: res_bind_def)

lemma res_bind_eq_Inr [res_simps]:
  "res_bind m f = Inr y \<longleftrightarrow> (\<exists>x. m = Inr x \<and> f x = Inr y)"
  by (cases m) auto

lemma res_bind_eq_Inl [res_simps]:
  "res_bind m f = Inl e \<longleftrightarrow> m = Inl e \<or> (\<exists>x. m = Inr x \<and> f x = Inl e)"
  by (cases m) auto

lemma res_bind_cong [fundef_cong]:
  "m = m' \<Longrightarrow> (\<And>x. m' = Inr x \<Longrightarrow> f x = f' x) \<Longrightarrow> res_bind m f = res_bind m' f'"
  by (cases m') auto

lemma res_bind_assoc: "res_bind (res_bind m f) g = res_bind m (\<lambda>x. res_bind (f x) g)"
  by (cases m) auto

definition assert_res :: "bool \<Rightarrow> py_error \<Rightarrow> unit res" where
  "assert_res b e = (if b then Inr () else Inl e)"

lemma assert_res_eq [simp, res_simps]:
  "assert_res b e = Inr u \<longleftrightarrow> b"
  "assert_res b e = Inl e' \<longleftrightarrow> \<not> b \<and> e' = e"
  by (auto simp: assert_res_def)

text \<open>A \<open>for\<close> loop that threads a state, and one that collects a result per item; both stop at
  the first exception.\<close>

fun foldM :: "('s \<Rightarrow> 'a \<Rightarrow> 's res) \<Rightarrow> 's \<Rightarrow> 'a list \<Rightarrow> 's res" where
  "foldM f s [] = Inr s"
| "foldM f s (x # xs) = res_bind (f s x) (\<lambda>s'. foldM f s' xs)"

fun mapM :: "('a \<Rightarrow> 'b res) \<Rightarrow> 'a list \<Rightarrow> 'b list res" where
  "mapM f [] = Inr []"
| "mapM f (x # xs) = res_bind (f x) (\<lambda>y. res_bind (mapM f xs) (\<lambda>ys. Inr (y # ys)))"

lemma foldM_append: "foldM f s (xs @ ys) = res_bind (foldM f s xs) (\<lambda>s'. foldM f s' ys)"
  by (induction xs arbitrary: s) (auto simp: res_bind_assoc)

lemma foldM_cong [fundef_cong]:
  "s = s' \<Longrightarrow> xs = ys \<Longrightarrow> (\<And>st x. x \<in> set ys \<Longrightarrow> f st x = g st x) \<Longrightarrow> foldM f s xs = foldM g s' ys"
proof (induction xs arbitrary: s s' ys)
  case Nil
  then show ?case by simp
next
  case (Cons x xs)
  then have fx: "f s x = g s x" by auto
  have "foldM f st xs = foldM g st xs" for st
    using Cons.prems Cons.IH [of st st xs] by auto
  with fx Cons.prems show ?case by auto
qed

lemma mapM_cong [fundef_cong]:
  "xs = ys \<Longrightarrow> (\<And>x. x \<in> set ys \<Longrightarrow> f x = g x) \<Longrightarrow> mapM f xs = mapM g ys"
proof (induction xs arbitrary: ys)
  case Nil
  then show ?case by simp
next
  case (Cons x xs)
  then show ?case using Cons.IH [of xs] by auto
qed

text \<open>An invariant of the loop body is an invariant of the loop.\<close>

lemma foldM_invariant:
  assumes "foldM f s xs = Inr s'" and "P s"
    and "\<And>st x st'. x \<in> set xs \<Longrightarrow> P st \<Longrightarrow> f st x = Inr st' \<Longrightarrow> P st'"
  shows "P s'"
  using assms
proof (induction xs arbitrary: s)
  case Nil
  then show ?case by simp
next
  case (Cons x xs)
  from Cons.prems(1) obtain t where t: "f s x = Inr t" "foldM f t xs = Inr s'"
    by (auto simp: res_simps)
  have "P t" using Cons.prems(2) Cons.prems(3) [of x s t] t(1) by simp
  then show ?case
    by (rule Cons.IH [OF t(2)]) (use Cons.prems(3) in auto)
qed

lemma mapM_Inr_length: "mapM f xs = Inr ys \<Longrightarrow> length ys = length xs"
  by (induction xs arbitrary: ys) (auto simp: res_simps)

lemma mapM_Inr_nth: "mapM f xs = Inr ys \<Longrightarrow> i < length xs \<Longrightarrow> f (xs ! i) = Inr (ys ! i)"
proof (induction xs arbitrary: ys i)
  case Nil
  then show ?case by simp
next
  case (Cons x xs)
  then obtain y zs where "f x = Inr y" "mapM f xs = Inr zs" "ys = y # zs"
    by (auto simp: res_simps)
  with Cons show ?case by (cases i) auto
qed

lemma mapM_Inr_mem: "mapM f xs = Inr ys \<Longrightarrow> y \<in> set ys \<Longrightarrow> \<exists>x\<in>set xs. f x = Inr y"
  using mapM_Inr_nth [of f xs ys] mapM_Inr_length [of f xs ys] by (force simp: in_set_conv_nth)

lemma mapM_pure: "mapM (\<lambda>x. Inr (f x)) xs = Inr (map f xs)"
  by (induction xs) auto

section \<open>Dictionaries\<close>

type_synonym ('k, 'v) dict = "('k \<times> 'v) list"

definition dget :: "('k, 'v) dict \<Rightarrow> 'k \<Rightarrow> 'v option" where
  "dget d k = map_of d k"

definition dhas :: "('k, 'v) dict \<Rightarrow> 'k \<Rightarrow> bool" where
  "dhas d k = (k \<in> fst ` set d)"

text \<open>\<open>d[k] = v\<close>: an existing key keeps its place, a new one goes to the end.\<close>

fun dset :: "('k, 'v) dict \<Rightarrow> 'k \<Rightarrow> 'v \<Rightarrow> ('k, 'v) dict" where
  "dset [] k v = [(k, v)]"
| "dset ((k', v') # d) k v = (if k' = k then (k, v) # d else (k', v') # dset d k v)"

text \<open>\<open>del d[k]\<close>.\<close>

definition ddel :: "('k, 'v) dict \<Rightarrow> 'k \<Rightarrow> ('k, 'v) dict" where
  "ddel d k = filter (\<lambda>p. fst p \<noteq> k) d"

definition dkeys :: "('k, 'v) dict \<Rightarrow> 'k list" where
  "dkeys d = map fst d"

text \<open>\<open>d[k]\<close> with a string key: \<open>KeyError\<close> when it is missing.\<close>

definition dict_get :: "(string, 'v) dict \<Rightarrow> string \<Rightarrow> 'v res" where
  "dict_get d k = (case dget d k of None \<Rightarrow> Inl (KeyError k) | Some v \<Rightarrow> Inr v)"

text \<open>Well-formed: a key occurs once.\<close>

definition wf_dict :: "('k, 'v) dict \<Rightarrow> bool" where
  "wf_dict d = distinct (map fst d)"

lemma dget_Nil [simp, dict_simps]: "dget [] k = None"
  by (simp add: dget_def)

lemma dget_Cons [simp, dict_simps]: "dget ((k', v) # d) k = (if k' = k then Some v else dget d k)"
  by (simp add: dget_def)

lemma dget_dset [simp, dict_simps]: "dget (dset d k v) k' = (if k' = k then Some v else dget d k')"
  by (induction d k v rule: dset.induct) auto

lemma dget_ddel [simp, dict_simps]: "dget (ddel d k) k' = (if k' = k then None else dget d k')"
  by (induction d) (auto simp: ddel_def)

lemma dhas_iff_dget [dict_simps]: "dhas d k \<longleftrightarrow> dget d k \<noteq> None"
  by (induction d) (auto simp: dhas_def)

lemma dkeys_dset: "dkeys (dset d k v) = (if k \<in> set (dkeys d) then dkeys d else dkeys d @ [k])"
  by (induction d k v rule: dset.induct) (auto simp: dkeys_def)

lemma set_dkeys_dset [simp, dict_simps]: "set (dkeys (dset d k v)) = insert k (set (dkeys d))"
  by (auto simp: dkeys_dset)

lemma wf_dict_Nil [simp]: "wf_dict []"
  by (simp add: wf_dict_def)

lemma wf_dict_dset [simp]: "wf_dict d \<Longrightarrow> wf_dict (dset d k v)"
  using dkeys_dset [of d k v] by (auto simp: wf_dict_def dkeys_def)

lemma dkeys_ddel: "dkeys (ddel d k) = filter (\<lambda>x. x \<noteq> k) (dkeys d)"
  by (simp add: dkeys_def ddel_def filter_map comp_def)

lemma wf_dict_ddel [simp]: "wf_dict d \<Longrightarrow> wf_dict (ddel d k)"
  by (induction d) (auto simp: wf_dict_def ddel_def)

lemma dget_in_set: "dget d k = Some v \<Longrightarrow> (k, v) \<in> set d"
  by (simp add: dget_def map_of_SomeD)

lemma wf_dict_dget: "wf_dict d \<Longrightarrow> (k, v) \<in> set d \<Longrightarrow> dget d k = Some v"
  by (simp add: wf_dict_def dget_def)

lemma dkeys_iff_dget: "k \<in> set (dkeys d) \<longleftrightarrow> dget d k \<noteq> None"
  by (induction d) (auto simp: dkeys_def)

lemma dict_get_Inr [res_simps]: "dict_get d k = Inr v \<longleftrightarrow> dget d k = Some v"
  by (simp add: dict_get_def split: option.splits)

lemma dict_get_Inl [res_simps]: "dict_get d k = Inl e \<longleftrightarrow> dget d k = None \<and> e = KeyError k"
  by (auto simp: dict_get_def split: option.splits)

text \<open>The map interface the components use, and its laws on association lists.\<close>

locale py_dict =
  fixes get :: "'d \<Rightarrow> 'k \<Rightarrow> 'v option"
    and put :: "'d \<Rightarrow> 'k \<Rightarrow> 'v \<Rightarrow> 'd"
    and del :: "'d \<Rightarrow> 'k \<Rightarrow> 'd"
    and ok :: "'d \<Rightarrow> bool"
  assumes get_put: "get (put d k v) k' = (if k' = k then Some v else get d k')"
    and get_del: "get (del d k) k' = (if k' = k then None else get d k')"
    and ok_put: "ok d \<Longrightarrow> ok (put d k v)"
    and ok_del: "ok d \<Longrightarrow> ok (del d k)"
begin

lemma get_foldl_put:
  "get (foldl (\<lambda>d (k, v). put d k v) d kvs) k = (case map_of (rev kvs) k of None \<Rightarrow> get d k | Some v \<Rightarrow> Some v)"
  by (induction kvs arbitrary: d)
    (auto simp: get_put map_add_def split: option.splits)

lemma ok_foldl_put: "ok d \<Longrightarrow> ok (foldl (\<lambda>d (k, v). put d k v) d kvs)"
  by (induction kvs arbitrary: d) (auto simp: ok_put)

lemma get_foldl_del:
  "get (foldl del d ks) k = (if k \<in> set ks then None else get d k)"
  by (induction ks arbitrary: d) (auto simp: get_del)

end

interpretation adict: py_dict dget dset ddel wf_dict
  by unfold_locales auto

section \<open>Lists\<close>

text \<open>An ordered set that grows at the end (\<open>OrderedSet.add\<close>, \<open>if x not in l: l.append(x)\<close>).\<close>

definition add_new :: "'a list \<Rightarrow> 'a \<Rightarrow> 'a list" where
  "add_new xs x = (if x \<in> set xs then xs else xs @ [x])"

lemma set_add_new [simp]: "set (add_new xs x) = insert x (set xs)"
  by (auto simp: add_new_def)

lemma distinct_add_new [simp]: "distinct xs \<Longrightarrow> distinct (add_new xs x)"
  by (auto simp: add_new_def)

text \<open>\<open>xs[i]\<close> for \<open>i \<ge> 0\<close>.\<close>

definition nth_res :: "'a list \<Rightarrow> nat \<Rightarrow> 'a res" where
  "nth_res xs i = (if i < length xs then Inr (xs ! i) else Inl IndexError)"

lemma nth_res_eq [res_simps]:
  "nth_res xs i = Inr x \<longleftrightarrow> i < length xs \<and> x = xs ! i"
  "nth_res xs i = Inl e \<longleftrightarrow> length xs \<le> i \<and> e = IndexError"
  by (auto simp: nth_res_def)

end
