(* ===== verification/Py_Str.thy ===== *)
theory Py_Str
  imports Py_Prelude
begin

text \<open>
  Python 2 byte strings as \<open>string\<close>, and the \<open>str\<close> methods the sources call (in the C locale):
  character classes, \<open>lower\<close>, \<open>strip\<close>, \<open>split\<close>, \<open>join\<close>, \<open>startswith\<close>, \<open>endswith\<close>, \<open>find\<close>,
  \<open>replace\<close> and the decimal \<open>str\<close> of an integer, with the laws the components rely on.
\<close>

named_theorems str_simps

section \<open>Characters\<close>

definition ord :: "char \<Rightarrow> nat" where
  "ord c = of_char c"

definition is_space :: "char \<Rightarrow> bool" where
  "is_space c = (ord c = 32 \<or> 9 \<le> ord c \<and> ord c \<le> 13)"

definition is_digit :: "char \<Rightarrow> bool" where
  "is_digit c = (48 \<le> ord c \<and> ord c \<le> 57)"

definition is_upper :: "char \<Rightarrow> bool" where
  "is_upper c = (65 \<le> ord c \<and> ord c \<le> 90)"

definition is_lower :: "char \<Rightarrow> bool" where
  "is_lower c = (97 \<le> ord c \<and> ord c \<le> 122)"

definition is_alpha :: "char \<Rightarrow> bool" where
  "is_alpha c = (is_upper c \<or> is_lower c)"

definition lower_char :: "char \<Rightarrow> char" where
  "lower_char c = (if is_upper c then char_of (ord c + 32) else c)"

definition lower :: "string \<Rightarrow> string" where
  "lower s = map lower_char s"

text \<open>The character class \<open>\w\<close> of \<open>re\<close>.\<close>

definition is_word :: "char \<Rightarrow> bool" where
  "is_word c = (is_alpha c \<or> is_digit c \<or> c = CHR ''_'')"

lemmas char_defs = ord_def is_space_def is_digit_def is_upper_def is_lower_def is_alpha_def
  is_word_def

lemma is_word_not_space [simp]: "is_word c \<Longrightarrow> \<not> is_space c"
  by (auto simp: char_defs)

lemma ord_lower_char: "ord (lower_char c) = (if is_upper c then ord c + 32 else ord c)"
  by (auto simp: lower_char_def ord_def is_upper_def)

lemma is_word_lower_char [simp]: "is_word (lower_char c) = is_word c"
proof (cases "is_upper c")
  case True
  then have "is_lower (lower_char c)"
    using ord_lower_char [of c] by (simp add: is_lower_def is_upper_def)
  with True show ?thesis by (simp add: is_word_def is_alpha_def)
next
  case False
  then show ?thesis by (simp add: lower_char_def)
qed

lemma lower_char_idem [simp]: "lower_char (lower_char c) = lower_char c"
proof (cases "is_upper c")
  case True
  then have "\<not> is_upper (lower_char c)"
    using ord_lower_char [of c] by (auto simp: is_upper_def)
  then show ?thesis by (simp add: lower_char_def [of "lower_char c"])
next
  case False
  then show ?thesis by (simp add: lower_char_def)
qed

lemma lower_idem [simp]: "lower (lower s) = lower s"
  by (simp add: lower_def comp_def)

lemma length_lower [simp]: "length (lower s) = length s"
  by (simp add: lower_def)

section \<open>Stripping\<close>

definition lstrip :: "string \<Rightarrow> string" where
  "lstrip s = dropWhile is_space s"

definition rstrip :: "string \<Rightarrow> string" where
  "rstrip s = rev (dropWhile is_space (rev s))"

definition strip :: "string \<Rightarrow> string" where
  "strip s = rstrip (lstrip s)"

lemma dropWhile_id_hd: "xs = [] \<or> \<not> P (hd xs) \<Longrightarrow> dropWhile P xs = xs"
  by (cases xs) auto

lemma rstrip_hd: "rstrip s \<noteq> [] \<Longrightarrow> hd (rstrip s) = hd s"
proof -
  assume ne: "rstrip s \<noteq> []"
  have "rev s = takeWhile is_space (rev s) @ dropWhile is_space (rev s)" by simp
  then have "s = rev (dropWhile is_space (rev s)) @ rev (takeWhile is_space (rev s))"
    by (metis rev_append rev_rev_ident)
  with ne show ?thesis unfolding rstrip_def by (metis hd_append2)
qed

lemma strip_ends:
  assumes "strip s \<noteq> []"
  shows "\<not> is_space (hd (strip s))" and "\<not> is_space (last (strip s))"
proof -
  have ne: "rstrip (lstrip s) \<noteq> []" using assms by (simp add: strip_def)
  then have "lstrip s \<noteq> []" by (auto simp: rstrip_def)
  then have "\<not> is_space (hd (lstrip s))" by (simp add: lstrip_def hd_dropWhile)
  then show "\<not> is_space (hd (strip s))" using rstrip_hd [OF ne] by (simp add: strip_def)
  have "dropWhile is_space (rev (lstrip s)) \<noteq> []" using ne by (simp add: rstrip_def)
  then have "\<not> is_space (hd (dropWhile is_space (rev (lstrip s))))" by (rule hd_dropWhile)
  then show "\<not> is_space (last (strip s))" using ne by (simp add: strip_def rstrip_def last_rev)
qed

lemma strip_id:
  assumes "s = [] \<or> \<not> is_space (hd s) \<and> \<not> is_space (last s)"
  shows "strip s = s"
proof -
  have "dropWhile is_space s = s" "dropWhile is_space (rev s) = rev s"
    using assms by (auto intro!: dropWhile_id_hd simp: hd_rev)
  then show ?thesis by (simp add: strip_def lstrip_def rstrip_def)
qed

section \<open>Substrings\<close>

definition startswith :: "string \<Rightarrow> string \<Rightarrow> bool" where
  "startswith s p = (take (length p) s = p)"

definition endswith :: "string \<Rightarrow> string \<Rightarrow> bool" where
  "endswith s p = (length p \<le> length s \<and> drop (length s - length p) s = p)"

text \<open>\<open>s[:-n]\<close> and \<open>s[-n:]\<close> for \<open>n > 0\<close>.\<close>

definition drop_last :: "nat \<Rightarrow> 'a list \<Rightarrow> 'a list" where
  "drop_last n s = take (length s - n) s"

definition take_last :: "nat \<Rightarrow> 'a list \<Rightarrow> 'a list" where
  "take_last n s = drop (length s - n) s"

fun find_from :: "string \<Rightarrow> string \<Rightarrow> nat option" where
  "find_from [] p = (if p = [] then Some 0 else None)"
| "find_from (c # s) p = (if startswith (c # s) p then Some 0 else map_option Suc (find_from s p))"

text \<open>\<open>s.find(p)\<close>: the least offset of an occurrence, \<open>-1\<close> if there is none.\<close>

definition find :: "string \<Rightarrow> string \<Rightarrow> int" where
  "find s p = (case find_from s p of None \<Rightarrow> - 1 | Some i \<Rightarrow> int i)"

lemma find_from_Some: "find_from s p = Some i \<Longrightarrow> startswith (drop i s) p"
  by (induction s p arbitrary: i rule: find_from.induct)
    (auto simp: startswith_def split: if_splits)

lemma find_from_least: "find_from s p = Some i \<Longrightarrow> j < i \<Longrightarrow> \<not> startswith (drop j s) p"
proof (induction s p arbitrary: i j rule: find_from.induct)
  case (1 p)
  then show ?case by (auto split: if_splits)
next
  case (2 c s p)
  then show ?case by (cases j) (auto split: if_splits)
qed

lemma find_from_bound: "find_from s p = Some i \<Longrightarrow> i + length p \<le> length s"
  by (induction s p arbitrary: i rule: find_from.induct)
    (auto simp: startswith_def split: if_splits dest: arg_cong [where f = length])

lemma find_from_None: "find_from s p = None \<Longrightarrow> j \<le> length s \<Longrightarrow> \<not> startswith (drop j s) p"
proof (induction s p arbitrary: j rule: find_from.induct)
  case (1 p)
  then show ?case by (auto simp: startswith_def split: if_splits)
next
  case (2 c s p)
  then show ?case by (cases j) (auto split: if_splits)
qed

text \<open>\<open>s.replace(old, new)\<close>: occurrences from left to right, not overlapping; an empty \<open>old\<close>
  matches before every character and at the end.\<close>

function replace :: "string \<Rightarrow> string \<Rightarrow> string \<Rightarrow> string" where
  "replace [] old new = (if old = [] then new else [])"
| "replace (c # s) old new =
     (if old = [] then new @ c # replace s old new
      else if startswith (c # s) old then new @ replace (drop (length old - 1) s) old new
      else c # replace s old new)"
  by pat_completeness auto
termination
  by (relation "measure (\<lambda>(s, old, new). length s)") auto

lemma replace_no_occurrence: "old \<noteq> [] \<Longrightarrow> find_from s old = None \<Longrightarrow> replace s old new = s"
  by (induction s old new rule: replace.induct) auto

section \<open>Splitting and joining\<close>

text \<open>\<open>s.split(c)\<close> for a one-character separator, and \<open>sep.join(parts)\<close>.\<close>

fun split_on :: "char \<Rightarrow> string \<Rightarrow> string list" where
  "split_on c [] = [[]]"
| "split_on c (x # xs) =
     (if x = c then [] # split_on c xs
      else case split_on c xs of [] \<Rightarrow> [[x]] | y # ys \<Rightarrow> (x # y) # ys)"

fun join :: "string \<Rightarrow> string list \<Rightarrow> string" where
  "join sep [] = []"
| "join sep [x] = x"
| "join sep (x # y # ys) = x @ sep @ join sep (y # ys)"

lemma split_on_ne [simp]: "split_on c s \<noteq> []"
  by (induction s) (auto split: list.splits)

lemma join_Cons_ne: "ys \<noteq> [] \<Longrightarrow> join sep (x # ys) = x @ sep @ join sep ys"
  by (cases ys) auto

lemma join_split_on [simp]: "join [c] (split_on c s) = s"
proof (induction s)
  case Nil
  then show ?case by simp
next
  case (Cons x s)
  obtain y ys where s: "split_on c s = y # ys" by (metis neq_Nil_conv split_on_ne)
  with Cons show ?case by (cases ys) auto
qed

lemma split_on_parts: "p \<in> set (split_on c s) \<Longrightarrow> c \<notin> set p"
  by (induction s arbitrary: p) (auto split: if_splits list.splits)

lemma split_on_no_sep: "c \<notin> set s \<Longrightarrow> split_on c s = [s]"
  by (induction s) auto

lemma split_on_append: "c \<notin> set p \<Longrightarrow> split_on c (p @ c # s) = p # split_on c s"
  by (induction p) auto

lemma split_on_join:
  "xs \<noteq> [] \<Longrightarrow> (\<And>x. x \<in> set xs \<Longrightarrow> c \<notin> set x) \<Longrightarrow> split_on c (join [c] xs) = xs"
proof (induction xs rule: list_nonempty_induct)
  case (single x)
  then show ?case by (simp add: split_on_no_sep)
next
  case (cons x xs)
  then show ?case by (simp add: join_Cons_ne split_on_append)
qed

text \<open>\<open>s.split()\<close>: the maximal runs of non-space characters.\<close>

function split_ws :: "string \<Rightarrow> string list" where
  "split_ws s =
     (let t = dropWhile is_space s
      in if t = [] then []
         else takeWhile (Not \<circ> is_space) t # split_ws (dropWhile (Not \<circ> is_space) t))"
  by pat_completeness auto
termination
proof (relation "measure length", simp)
  fix s t :: string
  assume t: "t = dropWhile is_space s" and *: "t \<noteq> []"
  let ?t = "t"
  have "\<not> is_space (hd ?t)" using * hd_dropWhile unfolding t by blast
  then have "length (dropWhile (Not \<circ> is_space) ?t) \<le> length (tl ?t)"
    using * by (cases ?t) (auto simp: length_dropWhile_le)
  also have "\<dots> < length ?t" using * by simp
  also have "\<dots> \<le> length s" by (simp add: t length_dropWhile_le)
  finally show "(dropWhile (Not \<circ> is_space) t, s) \<in> measure length" by simp
qed

declare split_ws.simps [simp del]

section \<open>Decimal\<close>

text \<open>\<open>str(n)\<close>.\<close>

fun nat_str :: "nat \<Rightarrow> string" where
  "nat_str n = (if n < 10 then [char_of (48 + n)] else nat_str (n div 10) @ [char_of (48 + n mod 10)])"

declare nat_str.simps [simp del]

definition int_str :: "int \<Rightarrow> string" where
  "int_str i = (if i < 0 then CHR ''-'' # nat_str (nat (- i)) else nat_str (nat i))"

lemma ord_char_of_digit [simp]: "n < 10 \<Longrightarrow> ord (char_of (48 + n)) = 48 + n"
  by (simp add: ord_def)

lemma nat_str_digits: "c \<in> set (nat_str n) \<Longrightarrow> is_digit c"
  by (induction n arbitrary: c rule: nat_str.induct)
    (subst (asm) (2) nat_str.simps, auto simp: is_digit_def split: if_splits)

lemma nat_str_ne [simp]: "nat_str n \<noteq> []"
  by (subst nat_str.simps) simp

text \<open>The value of a string of digits: the inverse of \<open>nat_str\<close>.\<close>

definition digits_val :: "string \<Rightarrow> nat" where
  "digits_val s = foldl (\<lambda>v c. 10 * v + (ord c - 48)) 0 s"

lemma digits_val_nat_str [simp]: "digits_val (nat_str n) = n"
proof (induction n rule: nat_str.induct)
  case (1 n)
  show ?case
  proof (cases "n < 10")
    case True
    then show ?thesis by (subst nat_str.simps) (simp add: digits_val_def)
  next
    case False
    then have "digits_val (nat_str (n div 10)) = n div 10" using 1 by simp
    then have "digits_val (nat_str n) = 10 * (n div 10) + n mod 10"
      using False by (subst nat_str.simps) (simp add: digits_val_def)
    then show ?thesis by simp
  qed
qed

lemma nat_str_inject [simp]: "nat_str m = nat_str n \<longleftrightarrow> m = n"
  by (metis digits_val_nat_str)

lemma int_str_inject [simp]: "int_str i = int_str j \<longleftrightarrow> i = j"
proof
  assume eq: "int_str i = int_str j"
  have minus: "CHR ''-'' # xs \<noteq> nat_str n" for xs n
  proof
    assume "CHR ''-'' # xs = nat_str n"
    then have "CHR ''-'' \<in> set (nat_str n)" by (metis list.set_intros(1))
    then have "is_digit (CHR ''-'')" by (rule nat_str_digits)
    then show False by (simp add: char_defs)
  qed
  show "i = j"
    using eq minus minus [symmetric] by (auto simp: int_str_def split: if_splits)
qed auto

end
