(* ===== verification/Test_Expr.thy ===== *)
theory Test_Expr
  imports Py_Str
begin

text \<open>
  The status-file expressions of the test runner (\<open>src/tools/test.py\<close>): the outcome sets
  (\<open>ListSet\<close>, \<open>Everything\<close>, \<open>Nothing\<close>) and the expression classes with \<open>Evaluate\<close> and
  \<open>GetOutcomes\<close>. Shown here: the sets implement intersection, union and emptiness, and
  well-typed expressions over acyclic definitions evaluate without an exception.
\<close>

section \<open>Outcome sets\<close>

text \<open>An outcome is a string; \<open>None\<close> is Python's \<open>None\<close>, which \<open>utils.GuessOS\<close> may put into
  the environment.\<close>

type_synonym atom = "string option"

datatype oset = ListSet "atom list" | Everything | Nothing

function (sequential) Set_Intersect :: "oset \<Rightarrow> oset \<Rightarrow> oset" where
  "Set_Intersect (ListSet elms) (ListSet that) = ListSet (filter (\<lambda>x. x \<in> set that) elms)"
| "Set_Intersect (ListSet elms) that = Set_Intersect that (ListSet elms)"
| "Set_Intersect Everything that = that"
| "Set_Intersect Nothing that = Nothing"
  by pat_completeness auto
termination
  by (relation "measure (\<lambda>(self, that). case self of ListSet _ \<Rightarrow> 1 | _ \<Rightarrow> 0)") auto

function (sequential) Set_Union :: "oset \<Rightarrow> oset \<Rightarrow> oset" where
  "Set_Union (ListSet elms) (ListSet that) = ListSet (elms @ filter (\<lambda>x. x \<notin> set elms) that)"
| "Set_Union (ListSet elms) that = Set_Union that (ListSet elms)"
| "Set_Union Everything that = Everything"
| "Set_Union Nothing that = that"
  by pat_completeness auto
termination
  by (relation "measure (\<lambda>(self, that). case self of ListSet _ \<Rightarrow> 1 | _ \<Rightarrow> 0)") auto

fun Set_IsEmpty :: "oset \<Rightarrow> bool" where
  "Set_IsEmpty (ListSet elms) = (length elms = 0)"
| "Set_IsEmpty Everything = False"
| "Set_IsEmpty Nothing = True"

text \<open>What a set stands for, and the contract of the three classes.\<close>

fun den :: "oset \<Rightarrow> atom set" where
  "den (ListSet elms) = set elms"
| "den Everything = UNIV"
| "den Nothing = {}"

locale outcome_set =
  fixes inter :: "'s \<Rightarrow> 's \<Rightarrow> 's" and union :: "'s \<Rightarrow> 's \<Rightarrow> 's" and is_empty :: "'s \<Rightarrow> bool"
    and \<alpha> :: "'s \<Rightarrow> 'a set"
  assumes inter: "\<alpha> (inter s t) = \<alpha> s \<inter> \<alpha> t"
    and union: "\<alpha> (union s t) = \<alpha> s \<union> \<alpha> t"
    and is_empty: "is_empty s \<longleftrightarrow> \<alpha> s = {}"
begin

lemma meets_commute: "is_empty (inter s t) \<longleftrightarrow> is_empty (inter t s)"
  by (simp add: is_empty inter Int_commute)

lemma union_assoc_\<alpha>: "\<alpha> (union (union s t) u) = \<alpha> (union s (union t u))"
  by (simp add: union Un_assoc)

lemma is_empty_union: "is_empty (union s t) \<longleftrightarrow> is_empty s \<and> is_empty t"
  by (simp add: is_empty union)

end

interpretation oset: outcome_set Set_Intersect Set_Union Set_IsEmpty den
proof
  show "den (Set_Intersect s t) = den s \<inter> den t" for s t
    by (induction s t rule: Set_Intersect.induct) auto
  show "den (Set_Union s t) = den s \<union> den t" for s t
    by (induction s t rule: Set_Union.induct) auto
  show "Set_IsEmpty s \<longleftrightarrow> den s = {}" for s
    by (cases s) auto
qed

section \<open>Expressions\<close>

datatype expr = Constant bool | Variable string | Outcome string | Operation expr string expr

type_synonym env = "(string, atom) dict"
type_synonym defs = "(string, expr) dict"

text \<open>
  The first argument is the number of stack frames left: each method call takes one, and Python
  raises when there is none. \<open>Variable\<close> and \<open>Outcome\<close> have no \<open>Evaluate\<close>, \<open>Constant\<close> has no
  \<open>GetOutcomes\<close>.
\<close>

fun Evaluate :: "nat \<Rightarrow> env \<Rightarrow> defs \<Rightarrow> expr \<Rightarrow> bool res"
  and GetOutcomes :: "nat \<Rightarrow> env \<Rightarrow> defs \<Rightarrow> expr \<Rightarrow> oset res" where
  "Evaluate 0 env defs e = Inl RecursionLimit"
| "Evaluate (Suc n) env defs (Constant value) = Inr value"
| "Evaluate (Suc n) env defs (Variable name) = Inl (AttributeError ''Evaluate'')"
| "Evaluate (Suc n) env defs (Outcome name) = Inl (AttributeError ''Evaluate'')"
| "Evaluate (Suc n) env defs (Operation left op right) =
     (if op = ''||'' \<or> op = '','' then
        res_bind (Evaluate n env defs left) (\<lambda>b. if b then Inr True else Evaluate n env defs right)
      else if op = ''if'' then Inr False
      else if op = ''=='' then
        res_bind (GetOutcomes n env defs left) (\<lambda>s.
        res_bind (GetOutcomes n env defs right) (\<lambda>t.
        Inr (\<not> Set_IsEmpty (Set_Intersect s t))))
      else if op = ''&&'' then
        res_bind (Evaluate n env defs left) (\<lambda>b. if b then Evaluate n env defs right else Inr False)
      else Inl AssertionError)"
| "GetOutcomes 0 env defs e = Inl RecursionLimit"
| "GetOutcomes (Suc n) env defs (Constant value) = Inl (AttributeError ''GetOutcomes'')"
| "GetOutcomes (Suc n) env defs (Variable name) =
     (case dget env name of Some v \<Rightarrow> Inr (ListSet [v]) | None \<Rightarrow> Inr Nothing)"
| "GetOutcomes (Suc n) env defs (Outcome name) =
     (case dget defs name of Some e \<Rightarrow> GetOutcomes n env defs e | None \<Rightarrow> Inr (ListSet [Some name]))"
| "GetOutcomes (Suc n) env defs (Operation left op right) =
     (if op = ''||'' \<or> op = '','' then
        res_bind (GetOutcomes n env defs left) (\<lambda>s.
        res_bind (GetOutcomes n env defs right) (\<lambda>t. Inr (Set_Union s t)))
      else if op = ''if'' then
        res_bind (Evaluate n env defs right) (\<lambda>b.
          if b then GetOutcomes n env defs left else Inr Nothing)
      else if op = ''&&'' then
        res_bind (GetOutcomes n env defs left) (\<lambda>s.
        res_bind (GetOutcomes n env defs right) (\<lambda>t. Inr (Set_Intersect s t)))
      else Inl AssertionError)"

section \<open>Evaluation of well-typed expressions\<close>

text \<open>Which expressions are conditions (have \<open>Evaluate\<close>) and which denote outcomes.\<close>

fun is_cond :: "expr \<Rightarrow> bool" and is_out :: "expr \<Rightarrow> bool" where
  "is_cond (Constant b) = True"
| "is_cond (Variable n) = False"
| "is_cond (Outcome n) = False"
| "is_cond (Operation l op r) =
     (if op \<in> {''||'', '','', ''&&''} then is_cond l \<and> is_cond r
      else if op = ''=='' then is_out l \<and> is_out r else op = ''if'')"
| "is_out (Constant b) = False"
| "is_out (Variable n) = True"
| "is_out (Outcome n) = True"
| "is_out (Operation l op r) =
     (if op \<in> {''||'', '','', ''&&''} then is_out l \<and> is_out r
      else op = ''if'' \<and> is_out l \<and> is_cond r)"

fun outcome_names :: "expr \<Rightarrow> string set" where
  "outcome_names (Constant b) = {}"
| "outcome_names (Variable n) = {}"
| "outcome_names (Outcome n) = {n}"
| "outcome_names (Operation l op r) = outcome_names l \<union> outcome_names r"

text \<open>Definitions that refer to definitions of smaller rank only: no cycle.\<close>

definition ranked :: "defs \<Rightarrow> (string \<Rightarrow> nat) \<Rightarrow> bool" where
  "ranked defs rank =
     (\<forall>(k, e) \<in> set defs. \<forall>n \<in> outcome_names e. dhas defs n \<longrightarrow> rank n < rank k)"

definition wt_defs :: "defs \<Rightarrow> bool" where
  "wt_defs defs = (\<forall>(k, e) \<in> set defs. is_out e)"

text \<open>The result is the same for every number of frames from some point on.\<close>

definition settles :: "(nat \<Rightarrow> 'a res) \<Rightarrow> 'a \<Rightarrow> bool" where
  "settles f x = (\<exists>N. \<forall>n\<ge>N. f n = Inr x)"

lemma settles_Suc: "settles (\<lambda>n. f (Suc n)) x \<Longrightarrow> settles f x"
  unfolding settles_def by (metis Suc_le_D Suc_le_mono)

lemma settles_const: "settles (\<lambda>n. Inr x) x"
  by (simp add: settles_def)

lemma settles_bind:
  assumes "settles m x" and "settles (\<lambda>n. f n x) y"
  shows "settles (\<lambda>n. res_bind (m n) (f n)) y"
proof -
  from assms obtain N M where "\<forall>n\<ge>N. m n = Inr x" "\<forall>n\<ge>M. f n x = Inr y"
    unfolding settles_def by blast
  then have "\<forall>n\<ge>max N M. res_bind (m n) (f n) = Inr y" by simp
  then show ?thesis unfolding settles_def by blast
qed

definition names_below :: "defs \<Rightarrow> (string \<Rightarrow> nat) \<Rightarrow> nat \<Rightarrow> expr \<Rightarrow> bool" where
  "names_below defs rank k e = (\<forall>n \<in> outcome_names e. dhas defs n \<longrightarrow> rank n < k)"

lemma names_below_Operation [simp]:
  "names_below defs rank k (Operation l op r) \<longleftrightarrow> names_below defs rank k l \<and> names_below defs rank k r"
  by (auto simp: names_below_def)

text \<open>What each operator gives, from what its operands give.\<close>

lemma settles_cond_op:
  assumes "op \<in> {''||'', '','', ''&&''}"
    and a: "settles (\<lambda>n. Evaluate n env defs l) a" and b: "settles (\<lambda>n. Evaluate n env defs r) b"
  shows "settles (\<lambda>n. Evaluate n env defs (Operation l op r)) (if op = ''&&'' then a \<and> b else a \<or> b)"
proof (rule settles_Suc)
  have "settles (\<lambda>n. res_bind (Evaluate n env defs l)
      (\<lambda>b. if b then Inr True else Evaluate n env defs r)) (a \<or> b)"
    using b by (intro settles_bind [OF a]) (cases a; simp add: settles_const)
  moreover have "settles (\<lambda>n. res_bind (Evaluate n env defs l)
      (\<lambda>b. if b then Evaluate n env defs r else Inr False)) (a \<and> b)"
    using b by (intro settles_bind [OF a]) (cases a; simp add: settles_const)
  ultimately show "settles (\<lambda>n. Evaluate (Suc n) env defs (Operation l op r))
      (if op = ''&&'' then a \<and> b else a \<or> b)"
    using assms(1) by auto
qed

lemma settles_cond_eq:
  assumes s: "settles (\<lambda>n. GetOutcomes n env defs l) s" and t: "settles (\<lambda>n. GetOutcomes n env defs r) t"
  shows "settles (\<lambda>n. Evaluate n env defs (Operation l ''=='' r)) (den s \<inter> den t \<noteq> {})"
proof (rule settles_Suc)
  have "settles (\<lambda>n. res_bind (GetOutcomes n env defs l) (\<lambda>s.
      res_bind (GetOutcomes n env defs r) (\<lambda>t. Inr (\<not> Set_IsEmpty (Set_Intersect s t)))))
      (\<not> Set_IsEmpty (Set_Intersect s t))"
    by (rule settles_bind [OF s], rule settles_bind [OF t]) (rule settles_const)
  then show "settles (\<lambda>n. Evaluate (Suc n) env defs (Operation l ''=='' r)) (den s \<inter> den t \<noteq> {})"
    by (simp add: oset.is_empty oset.inter)
qed

lemma settles_cond_if: "settles (\<lambda>n. Evaluate n env defs (Operation l ''if'' r)) False"
  by (rule settles_Suc) (simp add: settles_const)

lemma settles_out_op:
  assumes "op \<in> {''||'', '','', ''&&''}"
    and s: "settles (\<lambda>n. GetOutcomes n env defs l) s" and t: "settles (\<lambda>n. GetOutcomes n env defs r) t"
  shows "settles (\<lambda>n. GetOutcomes n env defs (Operation l op r))
    (if op = ''&&'' then Set_Intersect s t else Set_Union s t)"
proof (rule settles_Suc)
  have "settles (\<lambda>n. res_bind (GetOutcomes n env defs l) (\<lambda>s.
      res_bind (GetOutcomes n env defs r) (\<lambda>t. Inr (f s t)))) (f s t)" for f :: "oset \<Rightarrow> oset \<Rightarrow> oset"
    by (rule settles_bind [OF s], rule settles_bind [OF t]) (rule settles_const)
  then show "settles (\<lambda>n. GetOutcomes (Suc n) env defs (Operation l op r))
      (if op = ''&&'' then Set_Intersect s t else Set_Union s t)"
    using assms(1) by auto
qed

lemma settles_out_if:
  assumes b: "settles (\<lambda>n. Evaluate n env defs r) b" and s: "settles (\<lambda>n. GetOutcomes n env defs l) s"
  shows "settles (\<lambda>n. GetOutcomes n env defs (Operation l ''if'' r)) (if b then s else Nothing)"
proof (rule settles_Suc)
  have "settles (\<lambda>n. res_bind (Evaluate n env defs r)
      (\<lambda>b. if b then GetOutcomes n env defs l else Inr Nothing)) (if b then s else Nothing)"
    using s by (intro settles_bind [OF b]) (cases b; simp add: settles_const)
  then show "settles (\<lambda>n. GetOutcomes (Suc n) env defs (Operation l ''if'' r)) (if b then s else Nothing)"
    by simp
qed

lemma settles_leaf:
  "settles (\<lambda>n. Evaluate n env defs (Constant b)) b"
  "settles (\<lambda>n. GetOutcomes n env defs (Variable x))
     (case dget env x of Some v \<Rightarrow> ListSet [v] | None \<Rightarrow> Nothing)"
  "dget defs x = None \<Longrightarrow> settles (\<lambda>n. GetOutcomes n env defs (Outcome x)) (ListSet [Some x])"
  by (rule settles_Suc, simp add: settles_const split: option.splits)+

lemma settles_def_use:
  "dget defs x = Some e \<Longrightarrow> settles (\<lambda>n. GetOutcomes n env defs e) s \<Longrightarrow>
    settles (\<lambda>n. GetOutcomes n env defs (Outcome x)) s"
  by (rule settles_Suc) simp

definition settles_typed :: "env \<Rightarrow> defs \<Rightarrow> expr \<Rightarrow> bool" where
  "settles_typed env defs e \<longleftrightarrow>
     (is_cond e \<longrightarrow> (\<exists>b. settles (\<lambda>n. Evaluate n env defs e) b)) \<and>
     (is_out e \<longrightarrow> (\<exists>s. settles (\<lambda>n. GetOutcomes n env defs e) s))"

lemma settles_typed_Operation:
  assumes l: "settles_typed env defs l" and r: "settles_typed env defs r"
  shows "settles_typed env defs (Operation l op r)"
  unfolding settles_typed_def
proof (intro conjI impI)
  assume c: "is_cond (Operation l op r)"
  then consider "op \<in> {''||'', '','', ''&&''}" "is_cond l" "is_cond r"
    | "op = ''==''" "is_out l" "is_out r" | "op = ''if''"
    unfolding is_cond.simps by meson
  then show "\<exists>b. settles (\<lambda>n. Evaluate n env defs (Operation l op r)) b"
  proof cases
    case 1
    with l r obtain a b where "settles (\<lambda>n. Evaluate n env defs l) a"
      "settles (\<lambda>n. Evaluate n env defs r) b" unfolding settles_typed_def by blast
    from settles_cond_op [OF 1(1) this] show ?thesis by (rule exI)
  next
    case 2
    with l r obtain s t where "settles (\<lambda>n. GetOutcomes n env defs l) s"
      "settles (\<lambda>n. GetOutcomes n env defs r) t" unfolding settles_typed_def by blast
    from settles_cond_eq [OF this] show ?thesis unfolding 2(1) by (rule exI)
  next
    case 3
    show ?thesis unfolding 3 by (rule exI, rule settles_cond_if)
  qed
next
  assume c: "is_out (Operation l op r)"
  then consider "op \<in> {''||'', '','', ''&&''}" "is_out l" "is_out r" | "op = ''if''" "is_out l" "is_cond r"
    unfolding is_out.simps by meson
  then show "\<exists>s. settles (\<lambda>n. GetOutcomes n env defs (Operation l op r)) s"
  proof cases
    case 1
    with l r obtain s t where "settles (\<lambda>n. GetOutcomes n env defs l) s"
      "settles (\<lambda>n. GetOutcomes n env defs r) t" unfolding settles_typed_def by blast
    from settles_out_op [OF 1(1) this] show ?thesis by (rule exI)
  next
    case 2
    with l r obtain b s where "settles (\<lambda>n. Evaluate n env defs r) b"
      "settles (\<lambda>n. GetOutcomes n env defs l) s" unfolding settles_typed_def by blast
    from settles_out_if [OF this] show ?thesis unfolding 2(1) by (rule exI)
  qed
qed

lemma expr_settles:
  assumes "ranked defs rank" and "wt_defs defs"
  shows "names_below defs rank k e \<Longrightarrow> settles_typed env defs e"
proof (induction k arbitrary: e rule: less_induct)
  case (less k)
  from less.prems show ?case
  proof (induction e)
    case (Constant b)
    then show ?case using settles_leaf(1) by (auto simp: settles_typed_def)
  next
    case (Variable x)
    then show ?case using settles_leaf(2) by (auto simp: settles_typed_def)
  next
    case (Outcome x)
    show ?case
    proof (cases "dget defs x")
      case None
      then show ?thesis using settles_leaf(3) by (auto simp: settles_typed_def)
    next
      case (Some e)
      then have mem: "(x, e) \<in> set defs" by (rule dget_in_set)
      have "rank x < k" using Outcome Some by (simp add: names_below_def dhas_iff_dget)
      moreover have "names_below defs rank (rank x) e" "is_out e"
        using assms mem by (auto simp: names_below_def ranked_def wt_defs_def)
      ultimately obtain s where "settles (\<lambda>n. GetOutcomes n env defs e) s"
        using less.IH by (auto simp: settles_typed_def)
      then show ?thesis using settles_def_use [OF Some] by (auto simp: settles_typed_def)
    qed
  next
    case (Operation l op r)
    then show ?case by (intro settles_typed_Operation) auto
  qed
qed

section \<open>Properties\<close>

text \<open>
  Well-typed expressions do not go wrong: when the definitions are acyclic (\<open>ranked\<close>) and
  denote outcomes, evaluating a condition or the outcomes of an expression returns a value, the
  same one for every recursion limit from some bound on; in particular neither a missing method
  (\<open>AttributeError\<close>), nor a failed \<open>assert\<close>, nor an infinite recursion can happen.
\<close>

theorem typed_evaluates:
  assumes "ranked defs rank" and "wt_defs defs"
  shows "(is_cond e \<longrightarrow> (\<exists>b N. \<forall>n\<ge>N. Evaluate n env defs e = Inr b)) \<and>
         (is_out e \<longrightarrow> (\<exists>s N. \<forall>n\<ge>N. GetOutcomes n env defs e = Inr s))"
proof -
  have "finite (outcome_names e)" by (induction e) auto
  then obtain k where "\<forall>n \<in> outcome_names e. rank n < k"
    by (metis finite_nat_set_iff_bounded finite_imageI imageI)
  then have "settles_typed env defs e"
    using expr_settles [OF assms, of k e env] by (simp add: names_below_def)
  then show ?thesis unfolding settles_typed_def settles_def by blast
qed

definition ex_defs :: defs where
  "ex_defs = [(''flaky'', Operation (Outcome ''pass'') '','' (Outcome ''slow_fail'')), (''slow_fail'', Outcome ''fail'')]"

theorem typed_evaluates_witness:
  "ranked ex_defs (\<lambda>n. if n = ''flaky'' then 1 else 0) \<and> wt_defs ex_defs \<and>
   (\<exists>s N. \<forall>n\<ge>N. GetOutcomes n [] ex_defs (Outcome ''flaky'') = Inr s)"
proof -
  have r: "ranked ex_defs (\<lambda>n. if n = ''flaky'' then 1 else 0)" and w: "wt_defs ex_defs"
    by (simp_all add: ranked_def wt_defs_def ex_defs_def dhas_def)
  show ?thesis using r w typed_evaluates [OF r w, of "Outcome ''flaky''" "[]"] by simp
qed

text \<open>
  A self-referential definition is not evaluated: for every recursion limit the call ends in
  Python's recursion error.
\<close>

theorem cyclic_def_diverges:
  "GetOutcomes n env ((d, Outcome d) # defs) (Outcome d) = Inl RecursionLimit"
  by (induction n) auto

end
