(* ===== verification/Test_Lexer.thy ===== *)
theory Test_Lexer
  imports Test_Expr
begin

text \<open>
  The tokenizer of status-file expressions (class \<open>Tokenizer\<close> of \<open>src/tools/test.py\<close>). Shown
  here: it is equivalent to a lexer on lists, loses nothing but spaces and inverts joining its
  tokens with spaces.
\<close>

section \<open>Tokenizer\<close>

definition IsAlpha :: "string \<Rightarrow> bool" where
  "IsAlpha s = list_all (\<lambda>c. is_alpha c \<or> is_digit c \<or> c = CHR ''_'') s"

record tokenizer =
  tk_index :: nat
  tk_expr :: string
  tk_length :: nat
  tk_tokens :: "string list"

definition Tokenizer_init :: "string \<Rightarrow> tokenizer" where
  "Tokenizer_init expr = \<lparr>tk_index = 0, tk_expr = expr, tk_length = length expr, tk_tokens = []\<rparr>"

definition Tokenizer_HasMore :: "nat \<Rightarrow> tokenizer \<Rightarrow> bool" where
  "Tokenizer_HasMore len t = (tk_index t < tk_length t + (len - 1))"

definition Tokenizer_Current :: "nat \<Rightarrow> tokenizer \<Rightarrow> string" where
  "Tokenizer_Current len t =
     (if \<not> Tokenizer_HasMore len t then [] else take len (drop (tk_index t) (tk_expr t)))"

definition Tokenizer_Advance :: "nat \<Rightarrow> tokenizer \<Rightarrow> tokenizer" where
  "Tokenizer_Advance count t = t\<lparr>tk_index := tk_index t + count\<rparr>"

definition Tokenizer_AddToken :: "string \<Rightarrow> tokenizer \<Rightarrow> tokenizer" where
  "Tokenizer_AddToken token t = t\<lparr>tk_tokens := tk_tokens t @ [token]\<rparr>"

definition str_isspace :: "string \<Rightarrow> bool" where
  "str_isspace s = (s \<noteq> [] \<and> list_all is_space s)"

lemmas tk_defs = Tokenizer_HasMore_def Tokenizer_Current_def Tokenizer_Advance_def
  Tokenizer_AddToken_def

function Tokenizer_SkipSpaces :: "tokenizer \<Rightarrow> tokenizer" where
  "Tokenizer_SkipSpaces t =
     (if Tokenizer_HasMore 1 t \<and> str_isspace (Tokenizer_Current 1 t)
      then Tokenizer_SkipSpaces (Tokenizer_Advance 1 t) else t)"
  by pat_completeness auto
termination
  by (relation "measure (\<lambda>t. tk_length t - tk_index t)") (auto simp: tk_defs)

declare Tokenizer_SkipSpaces.simps [simp del]

text \<open>The inner loop of \<open>Tokenize\<close> that gathers a word in \<open>buf\<close>.\<close>

function Tokenize_word :: "string \<Rightarrow> tokenizer \<Rightarrow> string \<times> tokenizer" where
  "Tokenize_word buf t =
     (if Tokenizer_HasMore 1 t \<and> IsAlpha (Tokenizer_Current 1 t)
      then Tokenize_word (buf @ Tokenizer_Current 1 t) (Tokenizer_Advance 1 t) else (buf, t))"
  by pat_completeness auto
termination
  by (relation "measure (\<lambda>(buf, t). tk_length t - tk_index t)") (auto simp: tk_defs)

declare Tokenize_word.simps [simp del]

lemma Tokenizer_SkipSpaces_frame:
  "tk_length (Tokenizer_SkipSpaces t) = tk_length t \<and> tk_expr (Tokenizer_SkipSpaces t) = tk_expr t
   \<and> tk_tokens (Tokenizer_SkipSpaces t) = tk_tokens t \<and> tk_index t \<le> tk_index (Tokenizer_SkipSpaces t)"
  by (induction t rule: Tokenizer_SkipSpaces.induct)
    (subst (1 2 3 4) Tokenizer_SkipSpaces.simps, auto simp: Tokenizer_Advance_def)

lemma Tokenize_word_frame:
  "tk_length (snd (Tokenize_word buf t)) = tk_length t \<and> tk_expr (snd (Tokenize_word buf t)) = tk_expr t
   \<and> tk_tokens (snd (Tokenize_word buf t)) = tk_tokens t \<and> tk_index t \<le> tk_index (snd (Tokenize_word buf t))"
  by (induction buf t rule: Tokenize_word.induct)
    (subst (1 2 3 4) Tokenize_word.simps, auto simp: Tokenizer_Advance_def)

lemma Tokenize_word_progress:
  assumes "Tokenizer_HasMore 1 t" and "IsAlpha (Tokenizer_Current 1 t)"
  shows "tk_index t < tk_index (snd (Tokenize_word buf t))"
  using assms Tokenize_word_frame [of "buf @ Tokenizer_Current 1 t" "Tokenizer_Advance 1 t"]
  by (subst Tokenize_word.simps) (simp add: Tokenizer_Advance_def)

text \<open>The outer loop; \<open>None\<close> is the source's \<open>return None\<close>.\<close>

function Tokenize_loop :: "tokenizer \<Rightarrow> string list option" where
  "Tokenize_loop t =
     (if \<not> Tokenizer_HasMore 1 t then Some (tk_tokens t)
      else let t1 = Tokenizer_SkipSpaces t; cur = Tokenizer_Current 1 t1 in
        if \<not> Tokenizer_HasMore 1 t1 then None
        else if cur = ''('' then Tokenize_loop (Tokenizer_Advance 1 (Tokenizer_AddToken ''('' t1))
        else if cur = '')'' then Tokenize_loop (Tokenizer_Advance 1 (Tokenizer_AddToken '')'' t1))
        else if cur = ''$'' then Tokenize_loop (Tokenizer_Advance 1 (Tokenizer_AddToken ''$'' t1))
        else if cur = '','' then Tokenize_loop (Tokenizer_Advance 1 (Tokenizer_AddToken '','' t1))
        else if IsAlpha cur then
          Tokenize_loop (Tokenizer_AddToken (fst (Tokenize_word [] t1)) (snd (Tokenize_word [] t1)))
        else if Tokenizer_Current 2 t1 = ''&&'' then
          Tokenize_loop (Tokenizer_Advance 2 (Tokenizer_AddToken ''&&'' t1))
        else if Tokenizer_Current 2 t1 = ''||'' then
          Tokenize_loop (Tokenizer_Advance 2 (Tokenizer_AddToken ''||'' t1))
        else if Tokenizer_Current 2 t1 = ''=='' then
          Tokenize_loop (Tokenizer_Advance 2 (Tokenizer_AddToken ''=='' t1))
        else None)"
  by pat_completeness auto
termination
proof (relation "measure (\<lambda>t. tk_length t - tk_index t)", goal_cases)
  case (6 t t1 cur)
  then show ?case
    using Tokenizer_SkipSpaces_frame [of t] Tokenize_word_frame [of "[]" t1]
      Tokenize_word_progress [of t1 "[]"]
    by (auto simp: Tokenizer_AddToken_def Tokenizer_HasMore_def)
qed (auto simp: Tokenizer_AddToken_def Tokenizer_Advance_def Tokenizer_HasMore_def
    Tokenizer_SkipSpaces_frame intro!: diff_less_mono2 le_imp_less_Suc le_SucI)

declare Tokenize_loop.simps [simp del]

definition Tokenize :: "string \<Rightarrow> string list option" where
  "Tokenize expr = Tokenize_loop ((Tokenizer_init expr)\<lparr>tk_tokens := []\<rparr>)"

section \<open>The tokenizer against a lexer on lists\<close>

function lex_tokens :: "string \<Rightarrow> string list option" where
  "lex_tokens s =
     (if s = [] then Some []
      else case dropWhile is_space s of
        [] \<Rightarrow> None
      | c # r \<Rightarrow>
          if c \<in> set ''()$,'' then map_option ((#) [c]) (lex_tokens r)
          else if is_word c then map_option ((#) (c # takeWhile is_word r)) (lex_tokens (dropWhile is_word r))
          else if take 2 (c # r) \<in> {''&&'', ''||'', ''==''}
          then map_option ((#) (take 2 (c # r))) (lex_tokens (drop 1 r))
          else None)"
  by pat_completeness auto
termination
proof (relation "measure length", simp, goal_cases)
  case (1 s c r)
  then have "length (c # r) \<le> length s" by (metis length_dropWhile_le)
  then show ?case by simp
next
  case (2 s c r)
  then have "length (c # r) \<le> length s" by (metis length_dropWhile_le)
  then show ?case using length_dropWhile_le [of is_word r] by simp
next
  case (3 s c r)
  then have "length (c # r) \<le> length s" by (metis length_dropWhile_le)
  then show ?case by simp
qed

declare lex_tokens.simps [simp del]

definition tk_rem :: "tokenizer \<Rightarrow> string" where
  "tk_rem t = drop (tk_index t) (tk_expr t)"

definition tk_wf :: "tokenizer \<Rightarrow> bool" where
  "tk_wf t = (tk_length t = length (tk_expr t))"

lemma tk_rem_HasMore: "tk_wf t \<Longrightarrow> Tokenizer_HasMore (Suc 0) t \<longleftrightarrow> tk_rem t \<noteq> []"
  by (auto simp: tk_wf_def tk_rem_def Tokenizer_HasMore_def)

lemma tk_rem_Current1: "tk_wf t \<Longrightarrow> tk_rem t = c # r \<Longrightarrow> Tokenizer_Current (Suc 0) t = [c]"
  by (auto simp: tk_wf_def tk_rem_def Tokenizer_HasMore_def Tokenizer_Current_def)
     (metis drop_all leI list.distinct(1))

lemma tk_rem_Current2: "tk_wf t \<Longrightarrow> tk_rem t = c # r \<Longrightarrow> Tokenizer_Current 2 t = take 2 (c # r)"
  by (auto simp: tk_wf_def tk_rem_def Tokenizer_HasMore_def Tokenizer_Current_def)
     (metis drop_all leI list.distinct(1) less_Suc_eq)

lemma tk_rem_Advance: "tk_rem (Tokenizer_Advance n t) = drop n (tk_rem t)"
  by (simp add: tk_rem_def Tokenizer_Advance_def add.commute)

lemma tk_rem_AddToken [simp]: "tk_rem (Tokenizer_AddToken tok t) = tk_rem t"
  by (simp add: tk_rem_def Tokenizer_AddToken_def)

lemma tk_wf_ops [simp]:
  "tk_wf (Tokenizer_Advance n t) = tk_wf t"
  "tk_wf (Tokenizer_AddToken tok t) = tk_wf t"
  "tk_wf (Tokenizer_SkipSpaces t) = tk_wf t"
  "tk_wf (snd (Tokenize_word buf t)) = tk_wf t"
  by (simp_all add: tk_wf_def Tokenizer_Advance_def Tokenizer_AddToken_def
      Tokenizer_SkipSpaces_frame Tokenize_word_frame)

lemma tk_tokens_ops [simp]:
  "tk_tokens (Tokenizer_Advance n t) = tk_tokens t"
  "tk_tokens (Tokenizer_AddToken tok t) = tk_tokens t @ [tok]"
  "tk_tokens (Tokenizer_SkipSpaces t) = tk_tokens t"
  "tk_tokens (snd (Tokenize_word buf t)) = tk_tokens t"
  by (simp_all add: Tokenizer_Advance_def Tokenizer_AddToken_def
      Tokenizer_SkipSpaces_frame Tokenize_word_frame)

lemma tk_rem_SkipSpaces: "tk_wf t \<Longrightarrow> tk_rem (Tokenizer_SkipSpaces t) = dropWhile is_space (tk_rem t)"
proof (induction t rule: Tokenizer_SkipSpaces.induct)
  case (1 t)
  show ?case
  proof (cases "tk_rem t")
    case Nil
    with 1 show ?thesis by (subst Tokenizer_SkipSpaces.simps) (simp add: tk_rem_HasMore)
  next
    case (Cons c r)
    with 1 show ?thesis
      by (subst Tokenizer_SkipSpaces.simps)
        (auto simp: tk_rem_HasMore tk_rem_Current1 str_isspace_def tk_rem_Advance)
  qed
qed

lemma IsAlpha_single [simp]: "IsAlpha [c] = is_word c"
  by (simp add: IsAlpha_def is_word_def)

lemma IsAlpha_iff: "IsAlpha s \<longleftrightarrow> (\<forall>c\<in>set s. is_word c)"
  by (simp add: IsAlpha_def is_word_def list_all_iff)

lemma Tokenize_word_rem:
  "tk_wf t \<Longrightarrow> fst (Tokenize_word buf t) = buf @ takeWhile is_word (tk_rem t)
     \<and> tk_rem (snd (Tokenize_word buf t)) = dropWhile is_word (tk_rem t)"
proof (induction buf t rule: Tokenize_word.induct)
  case (1 buf t)
  show ?case
  proof (cases "tk_rem t")
    case Nil
    with 1 show ?thesis by (subst (1 2) Tokenize_word.simps) (simp add: tk_rem_HasMore)
  next
    case (Cons c r)
    with 1 show ?thesis
      by (subst (1 2) Tokenize_word.simps)
        (auto simp: tk_rem_HasMore tk_rem_Current1 tk_rem_Advance)
  qed
qed

lemma Tokenize_loop_lex:
  "tk_wf t \<Longrightarrow> Tokenize_loop t = map_option ((@) (tk_tokens t)) (lex_tokens (tk_rem t))"
proof (induction t rule: Tokenize_loop.induct)
  case (1 t)
  let ?t = "Tokenizer_SkipSpaces t"
  have wf: "tk_wf ?t" using 1(9) by simp
  show ?case
  proof (cases "tk_rem t = []")
    case True
    then show ?thesis using 1(9) by (subst Tokenize_loop.simps, subst lex_tokens.simps) (simp add: tk_rem_HasMore)
  next
    case False
    note more = this
    have skip: "tk_rem ?t = dropWhile is_space (tk_rem t)" using 1(9) by (rule tk_rem_SkipSpaces)
    show ?thesis
    proof (cases "tk_rem ?t")
      case Nil
      then show ?thesis using 1(9) more skip wf
        by (subst Tokenize_loop.simps, subst lex_tokens.simps) (simp add: tk_rem_HasMore Let_def)
    next
      case (Cons c r)
      note cur = tk_rem_Current1 [OF wf Cons] tk_rem_Current2 [OF wf Cons]
      have hm: "Tokenizer_HasMore (Suc 0) t" "Tokenizer_HasMore (Suc 0) ?t"
        using 1(9) wf more Cons by (simp_all add: tk_rem_HasMore)
      note IH = 1(1-8) [OF _ refl refl, simplified, unfolded cur, simplified hm, simplified]
      show ?thesis
        using hm cur wf Cons skip more IH Tokenize_word_rem [OF wf, of "[]"]
        by (subst Tokenize_loop.simps, subst lex_tokens.simps)
          (auto simp: Let_def tk_rem_Advance option.map_comp comp_def is_word_def)
    qed
  qed
qed

lemma Tokenize_eq_lex: "Tokenize s = lex_tokens s"
proof -
  have "tk_wf ((Tokenizer_init s)\<lparr>tk_tokens := []\<rparr>)" "tk_rem ((Tokenizer_init s)\<lparr>tk_tokens := []\<rparr>) = s"
    by (simp_all add: tk_wf_def tk_rem_def Tokenizer_init_def)
  then show ?thesis
    by (cases "lex_tokens s") (simp_all add: Tokenize_def Tokenize_loop_lex Tokenizer_init_def)
qed


text \<open>What the tokenizer can produce.\<close>

definition is_token :: "string \<Rightarrow> bool" where
  "is_token tok = (tok \<in> {''('', '')'', ''$'', '','', ''&&'', ''||'', ''==''} \<or> tok \<noteq> [] \<and> IsAlpha tok)"

lemma lex_tokens_Some_cases:
  assumes "lex_tokens s = Some ts" and "s \<noteq> []"
  obtains tok rest ts' where "is_token tok" "dropWhile is_space s = tok @ rest"
    "lex_tokens rest = Some ts'" "ts = tok # ts'" "length rest < length s"
proof -
  obtain c r where cr: "dropWhile is_space s = c # r"
    using assms by (subst (asm) lex_tokens.simps) (auto split: list.splits)
  have len: "length (c # r) \<le> length s" using cr by (metis length_dropWhile_le)
  have eq: "lex_tokens s =
      (if c \<in> set ''()$,'' then map_option ((#) [c]) (lex_tokens r)
       else if is_word c then map_option ((#) (c # takeWhile is_word r)) (lex_tokens (dropWhile is_word r))
       else if take 2 (c # r) \<in> {''&&'', ''||'', ''==''}
       then map_option ((#) (take 2 (c # r))) (lex_tokens (drop 1 r)) else None)"
    using assms(2) cr by (subst lex_tokens.simps) simp
  show thesis
  proof (cases "c \<in> set ''()$,''")
    case True
    with eq assms(1) have "map_option ((#) [c]) (lex_tokens r) = Some ts" by simp
    then obtain ts' where "ts = [c] # ts'" "lex_tokens r = Some ts'" by auto
    with True cr len show thesis by (intro that [of "[c]" r]) (auto simp: is_token_def)
  next
    case notp: False
    show thesis
    proof (cases "is_word c")
      case True
      with notp eq assms(1)
      have "map_option ((#) (c # takeWhile is_word r)) (lex_tokens (dropWhile is_word r)) = Some ts"
        by simp
      then obtain ts' where
        "ts = (c # takeWhile is_word r) # ts'" "lex_tokens (dropWhile is_word r) = Some ts'" by auto
      with True cr len length_dropWhile_le [of is_word r] show thesis
        by (intro that [of "c # takeWhile is_word r" "dropWhile is_word r"])
          (auto simp: is_token_def IsAlpha_iff dest: set_takeWhileD)
    next
      case False
      have two: "take 2 (c # r) \<in> {''&&'', ''||'', ''==''}"
        using False notp eq assms(1) by (auto split: if_splits)
      with False notp eq assms(1)
      have "map_option ((#) (take 2 (c # r))) (lex_tokens (drop 1 r)) = Some ts"
        by (auto split: if_splits)
      then obtain ts' where "ts = take 2 (c # r) # ts'" "lex_tokens (drop 1 r) = Some ts'" by auto
      moreover have "c # r = take 2 (c # r) @ drop 1 r" by (simp add: numeral_2_eq_2)
      ultimately show thesis using two cr len
        by (intro that [of "take 2 (c # r)" "drop 1 r"]) (auto simp: is_token_def)
    qed
  qed
qed

lemma lex_tokens_Some_induct [consumes 1, case_names Nil Cons]:
  assumes "lex_tokens s = Some ts"
    and nil: "P [] []"
    and cons: "\<And>s tok rest ts. is_token tok \<Longrightarrow> dropWhile is_space s = tok @ rest \<Longrightarrow>
      lex_tokens rest = Some ts \<Longrightarrow> P rest ts \<Longrightarrow> P s (tok # ts)"
  shows "P s ts"
  using assms(1)
proof (induction "length s" arbitrary: s ts rule: less_induct)
  case less
  show ?case
  proof (cases "s = []")
    case True
    then show ?thesis using less.prems nil by (simp add: lex_tokens.simps)
  next
    case False
    then obtain tok rest ts' where "is_token tok" "dropWhile is_space s = tok @ rest"
      "lex_tokens rest = Some ts'" "ts = tok # ts'" "length rest < length s"
      using lex_tokens_Some_cases [OF less.prems] by metis
    then show ?thesis using less.hyps cons by blast
  qed
qed

lemma lex_tokens_is_token: "lex_tokens s = Some ts \<Longrightarrow> tok \<in> set ts \<Longrightarrow> is_token tok"
  by (induction s ts rule: lex_tokens_Some_induct) auto

lemma filter_not_space_dropWhile: "filter (\<lambda>c. \<not> is_space c) (dropWhile is_space s) = filter (\<lambda>c. \<not> is_space c) s"
  by (induction s) auto

lemma is_token_no_space: "is_token tok \<Longrightarrow> filter (\<lambda>c. \<not> is_space c) tok = tok"
  by (auto simp: is_token_def IsAlpha_iff char_defs intro!: filter_True)

lemma lex_tokens_concat: "lex_tokens s = Some ts \<Longrightarrow> concat ts = filter (\<lambda>c. \<not> is_space c) s"
proof (induction s ts rule: lex_tokens_Some_induct)
  case (Cons s tok rest ts)
  then have "filter (\<lambda>c. \<not> is_space c) s = filter (\<lambda>c. \<not> is_space c) (tok @ rest)"
    by (metis filter_not_space_dropWhile)
  with Cons show ?case by (simp add: is_token_no_space)
qed simp

lemma lex_tokens_space: "u \<noteq> [] \<Longrightarrow> lex_tokens (CHR '' '' # u) = lex_tokens u"
  by (subst (1 2) lex_tokens.simps) (simp add: char_defs)

lemma lex_tokens_append:
  assumes "is_token t" and "rest = [] \<or> \<not> is_word (hd rest)"
  shows "lex_tokens (t @ rest) = map_option ((#) t) (lex_tokens rest)"
proof (cases "t \<noteq> [] \<and> IsAlpha t")
  case True
  then obtain c w where t: "t = c # w" and c: "is_word c" "\<forall>d\<in>set w. is_word d"
    by (cases t) (auto simp: IsAlpha_iff)
  have w: "takeWhile is_word (w @ rest) = w" "dropWhile is_word (w @ rest) = rest"
    using c(2) assms(2) by (auto simp: takeWhile_append dropWhile_append dropWhile_id_hd takeWhile_eq_Nil_iff)
  have ne: "c \<notin> set ''()$,''" using c(1) by (auto simp: char_defs)
  show ?thesis using t c ne w by (subst lex_tokens.simps) auto
next
  case False
  with assms(1) have "t \<in> {''('', '')'', ''$'', '','', ''&&'', ''||'', ''==''}"
    by (auto simp: is_token_def)
  then show ?thesis
    by (elim insertE) (subst lex_tokens.simps, simp add: char_defs)+
qed

lemma is_token_ne: "is_token t \<Longrightarrow> t \<noteq> []"
  by (auto simp: is_token_def)

lemma lex_tokens_join: "(\<And>t. t \<in> set ts \<Longrightarrow> is_token t) \<Longrightarrow> lex_tokens (join '' '' ts) = Some ts"
proof (induction ts)
  case Nil
  then show ?case by (simp add: lex_tokens.simps)
next
  case (Cons t ts)
  have IH: "lex_tokens (join '' '' ts) = Some ts" using Cons by simp
  have t: "is_token t" using Cons.prems by simp
  show ?case
  proof (cases ts)
    case Nil
    then show ?thesis using lex_tokens_append [OF t, of "[]"] by (simp add: lex_tokens.simps)
  next
    case (Cons u us)
    then have "join '' '' ts \<noteq> []" using Cons.prems is_token_ne [of u] by (cases us) auto
    then have "lex_tokens ('' '' @ join '' '' ts) = Some ts" using IH lex_tokens_space by simp
    then show ?thesis
      using lex_tokens_append [OF t, of "'' '' @ join '' '' ts"] Cons by (simp add: char_defs)
  qed
qed

section \<open>Properties\<close>

text \<open>
  The tokenizer loses nothing but white space and invents nothing: when it succeeds, the
  tokens joined together are the input without its white-space characters, and every token is
  one of the fixed symbols or a non-empty word.
\<close>

theorem Tokenize_lossless:
  assumes "Tokenize s = Some ts"
  shows "concat ts = filter (\<lambda>c. \<not> is_space c) s \<and> list_all is_token ts"
  using assms lex_tokens_concat [of s ts] lex_tokens_is_token [of s ts]
  by (simp add: Tokenize_eq_lex list_all_iff)

theorem Tokenize_lossless_witness:
  "Tokenize ''$a ==b'' = Some [''$'', ''a'', ''=='', ''b''] \<and>
   concat [''$'', ''a'', ''=='', ''b''] = filter (\<lambda>c. \<not> is_space c) ''$a ==b''"
proof -
  have t: "Tokenize ''$a ==b'' = Some [''$'', ''a'', ''=='', ''b'']" by code_simp
  show ?thesis using t Tokenize_lossless [OF t] by simp
qed

text \<open>
  Round trip: tokens written with one space between them are read back as the same tokens.
\<close>

theorem Tokenize_join:
  assumes "list_all is_token ts"
  shows "Tokenize (join '' '' ts) = Some ts"
  using assms lex_tokens_join by (simp add: Tokenize_eq_lex list_all_iff)

theorem Tokenize_join_witness:
  "Tokenize (join '' '' [''('', ''a'', ''||'', ''b_1'', '')'']) = Some [''('', ''a'', ''||'', ''b_1'', '')'']"
proof -
  have t: "list_all is_token [''('', ''a'', ''||'', ''b_1'', '')'']"
    by (simp add: is_token_def IsAlpha_def char_defs)
  show ?thesis by (rule Tokenize_join [OF t])
qed

end
