(* ===== verification/Test_Parser.thy ===== *)
theory Test_Parser
  imports Test_Lexer
begin

text \<open>
  The scanner and the recursive-descent parser of status-file expressions with \<open>ParseCondition\<close>
  (\<open>src/tools/test.py\<close>). Shown here: the parser always stops, raises nothing but
  \<open>IndexError\<close>, and inverts a printer.
\<close>

section \<open>Scanner and parser\<close>

record scanner =
  sc_tokens :: "string list"
  sc_length :: nat
  sc_index :: nat

definition Scanner_init :: "string list \<Rightarrow> scanner" where
  "Scanner_init tokens = \<lparr>sc_tokens = tokens, sc_length = length tokens, sc_index = 0\<rparr>"

definition Scanner_HasMore :: "scanner \<Rightarrow> bool" where
  "Scanner_HasMore s = (sc_index s < sc_length s)"

definition Scanner_Current :: "scanner \<Rightarrow> string res" where
  "Scanner_Current s = nth_res (sc_tokens s) (sc_index s)"

definition Scanner_Advance :: "scanner \<Rightarrow> scanner" where
  "Scanner_Advance s = s\<lparr>sc_index := sc_index s + 1\<rparr>"

text \<open>\<open>scan.HasMore() and (scan.Current() in ops)\<close>.\<close>

definition scan_at :: "string list \<Rightarrow> scanner \<Rightarrow> bool res" where
  "scan_at ops s =
     (if Scanner_HasMore s then res_bind (Scanner_Current s) (\<lambda>c. Inr (c \<in> set ops)) else Inr False)"

definition BINARIES :: "string list" where
  "BINARIES = [''=='']"

definition LOGICALS :: "string list" where
  "LOGICALS = [''&&'', ''||'', '','']"

type_synonym parse = "(expr option \<times> scanner) res"

text \<open>
  Each parsing function is a function of its own, and so is each of their \<open>while\<close> loops (with the
  suffix \<open>_loop\<close>, taking the current \<open>left\<close>). The first argument bounds the calls; the bound
  used by \<open>ParseCondition\<close> is shown to be enough.
\<close>

fun ParseAtomicExpression :: "nat \<Rightarrow> scanner \<Rightarrow> parse"
  and ParseOperatorExpression :: "nat \<Rightarrow> scanner \<Rightarrow> parse"
  and ParseOperatorExpression_loop :: "nat \<Rightarrow> expr \<Rightarrow> scanner \<Rightarrow> parse"
  and ParseConditionalExpression :: "nat \<Rightarrow> scanner \<Rightarrow> parse"
  and ParseConditionalExpression_loop :: "nat \<Rightarrow> expr \<Rightarrow> scanner \<Rightarrow> parse"
  and ParseLogicalExpression :: "nat \<Rightarrow> scanner \<Rightarrow> parse"
  and ParseLogicalExpression_loop :: "nat \<Rightarrow> expr \<Rightarrow> scanner \<Rightarrow> parse" where
  "ParseAtomicExpression 0 s = Inl RecursionLimit"
| "ParseAtomicExpression (Suc n) s =
     res_bind (Scanner_Current s) (\<lambda>cur.
       if cur = ''true'' then Inr (Some (Constant True), Scanner_Advance s)
       else if cur = ''false'' then Inr (Some (Constant False), Scanner_Advance s)
       else if IsAlpha cur then Inr (Some (Outcome (lower cur)), Scanner_Advance s)
       else if cur = ''$'' then
         let s1 = Scanner_Advance s in
         res_bind (Scanner_Current s1) (\<lambda>name.
           if \<not> IsAlpha name then Inr (None, s1)
           else Inr (Some (Variable (lower name)), Scanner_Advance s1))
       else if cur = ''('' then
         res_bind (ParseLogicalExpression n (Scanner_Advance s)) (\<lambda>(result, s1).
           case result of
             None \<Rightarrow> Inr (None, s1)
           | Some e \<Rightarrow> res_bind (Scanner_Current s1) (\<lambda>c.
               if c \<noteq> '')'' then Inr (None, s1) else Inr (Some e, Scanner_Advance s1)))
       else Inr (None, s))"
| "ParseOperatorExpression 0 s = Inl RecursionLimit"
| "ParseOperatorExpression (Suc n) s =
     res_bind (ParseAtomicExpression n s) (\<lambda>(left, s1).
       case left of None \<Rightarrow> Inr (None, s1) | Some l \<Rightarrow> ParseOperatorExpression_loop n l s1)"
| "ParseOperatorExpression_loop 0 left s = Inl RecursionLimit"
| "ParseOperatorExpression_loop (Suc n) left s =
     res_bind (scan_at BINARIES s) (\<lambda>more.
       if \<not> more then Inr (Some left, s)
       else res_bind (Scanner_Current s) (\<lambda>op.
         res_bind (ParseOperatorExpression n (Scanner_Advance s)) (\<lambda>(right, s1).
           case right of
             None \<Rightarrow> Inr (None, s1)
           | Some r \<Rightarrow> ParseOperatorExpression_loop n (Operation left op r) s1)))"
| "ParseConditionalExpression 0 s = Inl RecursionLimit"
| "ParseConditionalExpression (Suc n) s =
     res_bind (ParseOperatorExpression n s) (\<lambda>(left, s1).
       case left of None \<Rightarrow> Inr (None, s1) | Some l \<Rightarrow> ParseConditionalExpression_loop n l s1)"
| "ParseConditionalExpression_loop 0 left s = Inl RecursionLimit"
| "ParseConditionalExpression_loop (Suc n) left s =
     res_bind (scan_at [''if''] s) (\<lambda>more.
       if \<not> more then Inr (Some left, s)
       else
         res_bind (ParseOperatorExpression n (Scanner_Advance s)) (\<lambda>(right, s1).
           case right of
             None \<Rightarrow> Inr (None, s1)
           | Some r \<Rightarrow> ParseConditionalExpression_loop n (Operation left ''if'' r) s1))"
| "ParseLogicalExpression 0 s = Inl RecursionLimit"
| "ParseLogicalExpression (Suc n) s =
     res_bind (ParseConditionalExpression n s) (\<lambda>(left, s1).
       case left of None \<Rightarrow> Inr (None, s1) | Some l \<Rightarrow> ParseLogicalExpression_loop n l s1)"
| "ParseLogicalExpression_loop 0 left s = Inl RecursionLimit"
| "ParseLogicalExpression_loop (Suc n) left s =
     res_bind (scan_at LOGICALS s) (\<lambda>more.
       if \<not> more then Inr (Some left, s)
       else res_bind (Scanner_Current s) (\<lambda>op.
         res_bind (ParseConditionalExpression n (Scanner_Advance s)) (\<lambda>(right, s1).
           case right of
             None \<Rightarrow> Inr (None, s1)
           | Some r \<Rightarrow> ParseLogicalExpression_loop n (Operation left op r) s1)))"

definition parse_fuel :: "string list \<Rightarrow> nat" where
  "parse_fuel tokens = 4 * length tokens + 4"

definition ParseCondition :: "string \<Rightarrow> expr option res" where
  "ParseCondition expr =
     (case Tokenize expr of
        None \<Rightarrow> Inr None
      | Some tokens \<Rightarrow>
          if tokens = [] then Inr None
          else res_bind (ParseLogicalExpression (parse_fuel tokens) (Scanner_init tokens))
            (\<lambda>(ast, scan). case ast of
                None \<Rightarrow> Inr None
              | Some e \<Rightarrow> if Scanner_HasMore scan then Inr None else Inr (Some e)))"

section \<open>The parser stops\<close>

definition sc_wf :: "scanner \<Rightarrow> bool" where
  "sc_wf s = (sc_length s = length (sc_tokens s))"

definition sc_left :: "scanner \<Rightarrow> nat" where
  "sc_left s = sc_length s - sc_index s"

lemma sc_wf_Advance [simp]: "sc_wf (Scanner_Advance s) = sc_wf s"
  by (simp add: sc_wf_def Scanner_Advance_def)

lemma sc_left_Advance [simp]: "sc_left (Scanner_Advance s) = sc_left s - 1"
  by (simp add: sc_left_def Scanner_Advance_def)

lemma Scanner_Current_Inr_left: "sc_wf s \<Longrightarrow> Scanner_Current s = Inr c \<Longrightarrow> 0 < sc_left s"
  by (simp add: sc_wf_def sc_left_def Scanner_Current_def res_simps)

lemma Scanner_Current_not_limit [simp]: "Scanner_Current s \<noteq> Inl RecursionLimit"
  by (simp add: Scanner_Current_def res_simps)

lemma scan_at_Inr: "sc_wf s \<Longrightarrow> scan_at ops s = Inr True \<Longrightarrow> 0 < sc_left s"
  by (auto simp: sc_wf_def sc_left_def scan_at_def Scanner_HasMore_def split: if_splits)

lemma scan_at_total: "sc_wf s \<Longrightarrow> \<exists>b. scan_at ops s = Inr b"
  by (auto simp: scan_at_def Scanner_HasMore_def sc_wf_def Scanner_Current_def nth_res_def)

text \<open>A call that returns an expression has consumed a token, a loop never gives any back.\<close>

definition consumes :: "nat \<Rightarrow> scanner \<Rightarrow> parse \<Rightarrow> bool" where
  "consumes k s r = (\<forall>e s'. r = Inr (e, s') \<longrightarrow>
     sc_wf s' \<and> sc_left s' \<le> sc_left s \<and> (e \<noteq> None \<longrightarrow> sc_left s' + k \<le> sc_left s))"

lemma parser_consumes:
  "sc_wf s \<Longrightarrow> consumes 1 s (ParseAtomicExpression n s)"
  "sc_wf s \<Longrightarrow> consumes 1 s (ParseOperatorExpression n s)"
  "sc_wf s \<Longrightarrow> consumes 0 s (ParseOperatorExpression_loop n l s)"
  "sc_wf s \<Longrightarrow> consumes 1 s (ParseConditionalExpression n s)"
  "sc_wf s \<Longrightarrow> consumes 0 s (ParseConditionalExpression_loop n l s)"
  "sc_wf s \<Longrightarrow> consumes 1 s (ParseLogicalExpression n s)"
  "sc_wf s \<Longrightarrow> consumes 0 s (ParseLogicalExpression_loop n l s)"
proof (induction n s and n s and n l s and n s and n l s and n s and n l s
    rule: ParseAtomicExpression_ParseOperatorExpression_ParseOperatorExpression_loop_ParseConditionalExpression_ParseConditionalExpression_loop_ParseLogicalExpression_ParseLogicalExpression_loop.induct)
  case (2 n s)
  show ?case
    unfolding consumes_def
  proof (intro allI impI)
    fix e s'
    assume r: "ParseAtomicExpression (Suc n) s = Inr (e, s')"
    then obtain cur where cur: "Scanner_Current s = Inr cur" by (auto simp: res_simps)
    then have pos: "0 < sc_left s" using 2 Scanner_Current_Inr_left by blast
    have IH: "consumes 1 (Scanner_Advance s) (ParseLogicalExpression n (Scanner_Advance s))"
      if "cur = ''(''"
      using 2(1) [OF cur] 2(2) that by (simp add: IsAlpha_def char_defs)
    show "sc_wf s' \<and> sc_left s' \<le> sc_left s \<and> (e \<noteq> None \<longrightarrow> sc_left s' + 1 \<le> sc_left s)"
      using r cur 2(2) pos IH
      by (auto simp: res_simps Let_def consumes_def split: if_splits option.splits)
  qed
next
  case (4 n s)
  then show ?case by (fastforce simp: consumes_def res_simps split: option.splits)
next
  case (6 n l s)
  then show ?case using scan_at_Inr [OF \<open>sc_wf s\<close>, of BINARIES]
    by (fastforce simp: consumes_def res_simps split: option.splits if_splits)
next
  case (8 n s)
  then show ?case by (fastforce simp: consumes_def res_simps split: option.splits)
next
  case (10 n l s)
  then show ?case using scan_at_Inr [OF \<open>sc_wf s\<close>, of "[''if'']"]
    by (fastforce simp: consumes_def res_simps split: option.splits if_splits)
next
  case (12 n s)
  then show ?case by (fastforce simp: consumes_def res_simps split: option.splits)
next
  case (14 n l s)
  then show ?case using scan_at_Inr [OF \<open>sc_wf s\<close>, of LOGICALS]
    by (fastforce simp: consumes_def res_simps split: option.splits if_splits)
qed (simp_all add: consumes_def)

lemma consumesE:
  assumes "consumes k s r" and "r = Inr (e, s')"
  shows "sc_wf s'" and "e \<noteq> None \<Longrightarrow> sc_left s' + k \<le> sc_left s"
  using assms by (auto simp: consumes_def)

lemma res_bind_neq_Inl:
  "m \<noteq> Inl e \<Longrightarrow> (\<And>x. m = Inr x \<Longrightarrow> f x \<noteq> Inl e) \<Longrightarrow> res_bind m f \<noteq> Inl e"
  by (cases m) auto

lemma parse_then_loop:
  assumes "p \<noteq> Inl RecursionLimit" and "consumes k s p"
    and "\<And>e s'. p = Inr (Some e, s') \<Longrightarrow> sc_wf s' \<Longrightarrow> sc_left s' + k \<le> sc_left s \<Longrightarrow>
      f e s' \<noteq> Inl RecursionLimit"
  shows "res_bind p (\<lambda>(e, s'). case e of None \<Rightarrow> Inr (None, s') | Some e \<Rightarrow> f e s')
    \<noteq> (Inl RecursionLimit :: parse)"
proof (rule res_bind_neq_Inl [OF assms(1)])
  fix x
  assume x: "p = Inr x"
  obtain e s' where es: "x = (e, s')" by (cases x)
  show "(case x of (e, s') \<Rightarrow> case e of None \<Rightarrow> Inr (None, s') | Some e \<Rightarrow> f e s') \<noteq> Inl RecursionLimit"
    using assms(3) consumesE [OF assms(2), of e s'] x es by (cases e) auto
qed

text \<open>One more turn of a loop that has read an operator.\<close>

lemma loop_turn_stops:
  assumes wf: "sc_wf s"
    and "\<And>op. scan_at ops s = Inr True \<Longrightarrow> Scanner_Current s = Inr op \<Longrightarrow> body op \<noteq> Inl RecursionLimit"
  shows "res_bind (scan_at ops s) (\<lambda>more. if \<not> more then Inr (Some l, s)
      else res_bind (Scanner_Current s) body) \<noteq> (Inl RecursionLimit :: parse)"
proof -
  obtain b where b: "scan_at ops s = Inr b" using scan_at_total [OF wf] by blast
  then show ?thesis using assms(2) by (cases b) (auto simp: res_simps)
qed

lemma parser_stops:
  "sc_wf s \<Longrightarrow> 4 * sc_left s + 1 \<le> n \<Longrightarrow> ParseAtomicExpression n s \<noteq> Inl RecursionLimit"
  "sc_wf s \<Longrightarrow> 4 * sc_left s + 2 \<le> n \<Longrightarrow> ParseOperatorExpression n s \<noteq> Inl RecursionLimit"
  "sc_wf s \<Longrightarrow> 4 * sc_left s + 3 \<le> n \<Longrightarrow> ParseOperatorExpression_loop n l s \<noteq> Inl RecursionLimit"
  "sc_wf s \<Longrightarrow> 4 * sc_left s + 3 \<le> n \<Longrightarrow> ParseConditionalExpression n s \<noteq> Inl RecursionLimit"
  "sc_wf s \<Longrightarrow> 4 * sc_left s + 3 \<le> n \<Longrightarrow> ParseConditionalExpression_loop n l s \<noteq> Inl RecursionLimit"
  "sc_wf s \<Longrightarrow> 4 * sc_left s + 4 \<le> n \<Longrightarrow> ParseLogicalExpression n s \<noteq> Inl RecursionLimit"
  "sc_wf s \<Longrightarrow> 4 * sc_left s + 4 \<le> n \<Longrightarrow> ParseLogicalExpression_loop n l s \<noteq> Inl RecursionLimit"
proof (induction n arbitrary: s l)
  case (Suc n)
  note IH = Suc
  { case 1
    have "ParseLogicalExpression n (Scanner_Advance s) \<noteq> Inl RecursionLimit" if "0 < sc_left s"
      using 1 that by (intro IH(6)) auto
    with 1 show ?case
      by (auto simp: res_simps Let_def split: option.splits if_splits dest!: Scanner_Current_Inr_left)
  next
    case 2
    then show ?case
      unfolding ParseOperatorExpression.simps
      by (intro parse_then_loop [OF IH(1) parser_consumes(1)] IH(3)) auto
  next
    case 3
    note wf = 3(1)
    have "0 < sc_left s" if "scan_at BINARIES s = Inr True" using scan_at_Inr wf that by blast
    with 3 show ?case
      unfolding ParseOperatorExpression_loop.simps
      by (intro loop_turn_stops parse_then_loop [OF IH(2) parser_consumes(2)] IH(3)) auto
  next
    case 4
    then show ?case
      unfolding ParseConditionalExpression.simps
      by (intro parse_then_loop [OF IH(2) parser_consumes(2)] IH(5)) auto
  next
    case 5
    note wf = 5(1)
    obtain b where b: "scan_at [''if''] s = Inr b" using scan_at_total [OF wf] by blast
    show ?case
    proof (cases b)
      case False
      with b show ?thesis by simp
    next
      case True
      then have "0 < sc_left s" using scan_at_Inr [OF wf] b by simp
      then have "res_bind (ParseOperatorExpression n (Scanner_Advance s)) (\<lambda>(right, s1).
          case right of None \<Rightarrow> Inr (None, s1)
          | Some r \<Rightarrow> ParseConditionalExpression_loop n (Operation l ''if'' r) s1) \<noteq> Inl RecursionLimit"
        using 5 by (intro parse_then_loop [OF IH(2) parser_consumes(2)] IH(5)) auto
      with b True show ?thesis by simp
    qed
  next
    case 6
    then show ?case
      unfolding ParseLogicalExpression.simps
      by (intro parse_then_loop [OF IH(4) parser_consumes(4)] IH(7)) auto
  next
    case 7
    note wf = 7(1)
    have "0 < sc_left s" if "scan_at LOGICALS s = Inr True" using scan_at_Inr wf that by blast
    with 7 show ?case
      unfolding ParseLogicalExpression_loop.simps
      by (intro loop_turn_stops parse_then_loop [OF IH(4) parser_consumes(4)] IH(7)) auto
  }
qed simp_all

section \<open>The parser inverts a printer\<close>

fun show_tokens :: "expr \<Rightarrow> string list" where
  "show_tokens (Constant b) = [if b then ''true'' else ''false'']"
| "show_tokens (Variable n) = [''$'', n]"
| "show_tokens (Outcome n) = [n]"
| "show_tokens (Operation l op r) = [''(''] @ show_tokens l @ [op] @ show_tokens r @ ['')'']"

definition OPERATORS :: "string list" where
  "OPERATORS = [''=='', ''if'', ''&&'', ''||'', '','']"

fun printable :: "expr \<Rightarrow> bool" where
  "printable (Constant b) = True"
| "printable (Variable n) = (n \<noteq> [] \<and> IsAlpha n \<and> lower n = n)"
| "printable (Outcome n) = (n \<noteq> [] \<and> IsAlpha n \<and> lower n = n \<and> n \<noteq> ''true'' \<and> n \<noteq> ''false'')"
| "printable (Operation l op r) = (op \<in> set OPERATORS \<and> printable l \<and> printable r)"

definition sc_rem :: "scanner \<Rightarrow> string list" where
  "sc_rem s = drop (sc_index s) (sc_tokens s)"

definition sc_adv :: "nat \<Rightarrow> scanner \<Rightarrow> scanner" where
  "sc_adv k s = s\<lparr>sc_index := sc_index s + k\<rparr>"

lemma sc_adv_simps [simp]:
  "sc_adv 0 s = s" "sc_adv k (sc_adv j s) = sc_adv (j + k) s" "Scanner_Advance s = sc_adv 1 s"
  "sc_wf (sc_adv k s) = sc_wf s" "sc_rem (sc_adv k s) = drop k (sc_rem s)"
  by (simp_all add: sc_adv_def Scanner_Advance_def sc_wf_def sc_rem_def add_ac)

lemma sc_rem_Cons:
  assumes "sc_wf s" and "sc_rem s = t # ts"
  shows "Scanner_Current s = Inr t" and "scan_at ops s = Inr (t \<in> set ops)"
proof -
  have "sc_index s < length (sc_tokens s)" using assms(2) by (auto simp: sc_rem_def intro: ccontr)
  moreover from this have "sc_tokens s ! sc_index s = t"
    using assms(2) by (metis sc_rem_def nth_via_drop)
  ultimately show "Scanner_Current s = Inr t" "scan_at ops s = Inr (t \<in> set ops)"
    using assms(1) by (simp_all add: Scanner_Current_def nth_res_def scan_at_def Scanner_HasMore_def sc_wf_def)
qed

lemma sc_rem_Nil: "sc_wf s \<Longrightarrow> sc_rem s = [] \<Longrightarrow> scan_at ops s = Inr False"
  by (simp add: sc_rem_def scan_at_def Scanner_HasMore_def sc_wf_def)

definition parses :: "nat \<Rightarrow> (nat \<Rightarrow> scanner \<Rightarrow> parse) \<Rightarrow> expr \<Rightarrow> scanner \<Rightarrow> nat \<Rightarrow> bool" where
  "parses m p e s k = (\<forall>n\<ge>m. p n s = Inr (Some e, sc_adv k s))"

lemma loops_stop:
  "scan_at BINARIES s = Inr False \<Longrightarrow> 0 < n \<Longrightarrow> ParseOperatorExpression_loop n l s = Inr (Some l, s)"
  "scan_at [''if''] s = Inr False \<Longrightarrow> 0 < n \<Longrightarrow> ParseConditionalExpression_loop n l s = Inr (Some l, s)"
  "scan_at LOGICALS s = Inr False \<Longrightarrow> 0 < n \<Longrightarrow> ParseLogicalExpression_loop n l s = Inr (Some l, s)"
  by (cases n; simp)+

lemma parses_Operator:
  assumes "parses m ParseAtomicExpression e s k" and "scan_at BINARIES (sc_adv k s) = Inr False" and "0 < m"
  shows "parses (Suc m) ParseOperatorExpression e s k"
  unfolding parses_def
proof (intro allI impI)
  fix n assume "Suc m \<le> n"
  then obtain n' where n: "n = Suc n'" "m \<le> n'" by (cases n) auto
  with assms show "ParseOperatorExpression n s = Inr (Some e, sc_adv k s)"
    by (simp add: parses_def loops_stop)
qed

lemma parses_Conditional:
  assumes "parses m ParseOperatorExpression e s k" and "scan_at [''if''] (sc_adv k s) = Inr False" and "0 < m"
  shows "parses (Suc m) ParseConditionalExpression e s k"
  unfolding parses_def
proof (intro allI impI)
  fix n assume "Suc m \<le> n"
  then obtain n' where n: "n = Suc n'" "m \<le> n'" by (cases n) auto
  with assms show "ParseConditionalExpression n s = Inr (Some e, sc_adv k s)"
    by (simp add: parses_def loops_stop)
qed

lemma parses_Logical:
  assumes "parses m ParseConditionalExpression e s k" and "scan_at LOGICALS (sc_adv k s) = Inr False" and "0 < m"
  shows "parses (Suc m) ParseLogicalExpression e s k"
  unfolding parses_def
proof (intro allI impI)
  fix n assume "Suc m \<le> n"
  then obtain n' where n: "n = Suc n'" "m \<le> n'" by (cases n) auto
  with assms show "ParseLogicalExpression n s = Inr (Some e, sc_adv k s)"
    by (simp add: parses_def loops_stop)
qed

text \<open>Inside parentheses: \<open>l op r\<close> where both operands are atomic and nothing continues the
  expression.\<close>


text \<open>Inside parentheses: \<open>l op r\<close> where both operands are atomic and nothing continues the
  expression.\<close>

lemma parses_binary:
  assumes wf: "sc_wf s"
    and l: "parses m ParseAtomicExpression l s k"
    and op: "op \<in> set OPERATORS" "sc_rem (sc_adv k s) = op # ts"
    and r: "parses m ParseAtomicExpression r (sc_adv (Suc k) s) j"
    and stop: "\<And>ops. ops \<in> {BINARIES, [''if''], LOGICALS} \<Longrightarrow> scan_at ops (sc_adv (Suc k + j) s) = Inr False"
    and m: "0 < m"
  shows "parses (m + 5) ParseLogicalExpression (Operation l op r) s (Suc k + j)"
proof -
  have at: "Scanner_Current (sc_adv k s) = Inr op" "\<And>ops. scan_at ops (sc_adv k s) = Inr (op \<in> set ops)"
    using sc_rem_Cons [of "sc_adv k s"] wf op(2) by simp_all
  have stop': "scan_at BINARIES (sc_adv (Suc (k + j)) s) = Inr False"
    "scan_at [''if''] (sc_adv (Suc (k + j)) s) = Inr False"
    "scan_at LOGICALS (sc_adv (Suc (k + j)) s) = Inr False"
    using stop by simp_all
  have rO: "parses (Suc m) ParseOperatorExpression r (sc_adv (Suc k) s) j"
    using parses_Operator [OF r _ m] stop' by simp
  have rC: "parses (Suc (Suc m)) ParseConditionalExpression r (sc_adv (Suc k) s) j"
    using parses_Conditional [OF rO] stop' by simp
  note unf = parses_def at stop' loops_stop LOGICALS_def BINARIES_def
  from op(1) consider "op = ''==''" | "op = ''if''" | "op \<in> set LOGICALS"
    by (auto simp: OPERATORS_def LOGICALS_def)
  then show ?thesis
  proof cases
    case 1
    have "parses (m + 3) ParseOperatorExpression (Operation l op r) s (Suc k + j)"
      unfolding parses_def
    proof (intro allI impI)
      fix n assume "m + 3 \<le> n"
      then obtain i where i: "n = Suc (Suc i)" "Suc m \<le> i"
        by (cases n; cases "n - 1") auto
      have "ParseAtomicExpression (Suc i) s = Inr (Some l, sc_adv k s)"
        "ParseOperatorExpression i (sc_adv (Suc k) s) = Inr (Some r, sc_adv (Suc (k + j)) s)"
        using l rO i by (simp_all add: parses_def del: ParseAtomicExpression.simps)
      then show "ParseOperatorExpression n s = Inr (Some (Operation l op r), sc_adv (Suc k + j) s)"
        unfolding i(1) ParseOperatorExpression.simps
        using 1 m at stop' i(2) by (simp add: loops_stop BINARIES_def del: ParseAtomicExpression.simps)
    qed
    then have "parses (Suc (m + 3)) ParseConditionalExpression (Operation l op r) s (Suc k + j)"
      using stop' by (intro parses_Conditional) auto
    then have "parses (Suc (Suc (m + 3))) ParseLogicalExpression (Operation l op r) s (Suc k + j)"
      using stop' by (intro parses_Logical) auto
    then show ?thesis by (simp add: eval_nat_numeral)
  next
    case 2
    have lO: "parses (Suc m) ParseOperatorExpression l s k"
      using parses_Operator [OF l _ m] at 2 by (simp add: BINARIES_def)
    have "parses (m + 4) ParseConditionalExpression (Operation l op r) s (Suc k + j)"
      unfolding parses_def
    proof (intro allI impI)
      fix n assume "m + 4 \<le> n"
      then obtain i where i: "n = Suc (Suc i)" "Suc m \<le> i"
        by (cases n; cases "n - 1") auto
      have "ParseOperatorExpression (Suc i) s = Inr (Some l, sc_adv k s)"
        "ParseOperatorExpression i (sc_adv (Suc k) s) = Inr (Some r, sc_adv (Suc (k + j)) s)"
        using lO rO i by (simp_all add: parses_def del: ParseOperatorExpression.simps)
      then show "ParseConditionalExpression n s = Inr (Some (Operation l op r), sc_adv (Suc k + j) s)"
        unfolding i(1) ParseConditionalExpression.simps
        using 2 m at stop' i(2) by (simp add: loops_stop del: ParseOperatorExpression.simps)
    qed
    then have "parses (Suc (m + 4)) ParseLogicalExpression (Operation l op r) s (Suc k + j)"
      using stop' by (intro parses_Logical) auto
    then show ?thesis by (simp add: eval_nat_numeral)
  next
    case 3
    have lO: "parses (Suc m) ParseOperatorExpression l s k"
      using parses_Operator [OF l _ m] at 3 by (auto simp: BINARIES_def LOGICALS_def)
    have lC: "parses (Suc (Suc m)) ParseConditionalExpression l s k"
      using parses_Conditional [OF lO] at 3 by (auto simp: LOGICALS_def)
    show ?thesis
      unfolding parses_def
    proof (intro allI impI)
      fix n assume "m + 5 \<le> n"
      then obtain i where i: "n = Suc (Suc i)" "Suc (Suc m) \<le> i"
        by (cases n; cases "n - 1") auto
      have "ParseConditionalExpression (Suc i) s = Inr (Some l, sc_adv k s)"
        "ParseConditionalExpression i (sc_adv (Suc k) s) = Inr (Some r, sc_adv (Suc (k + j)) s)"
        using lC rC i by (simp_all add: parses_def del: ParseConditionalExpression.simps)
      then show "ParseLogicalExpression n s = Inr (Some (Operation l op r), sc_adv (Suc k + j) s)"
        unfolding i(1) ParseLogicalExpression.simps
        using 3 m at stop' i(2) by (simp add: loops_stop del: ParseConditionalExpression.simps)
    qed
  qed
qed


lemma show_tokens_ne [simp]: "show_tokens e \<noteq> []"
  by (cases e) auto

lemma parses_AtomicI:
  assumes "\<And>n. m \<le> Suc n \<Longrightarrow> ParseAtomicExpression (Suc n) s = Inr (Some e, sc_adv k s)" and "0 < m"
  shows "parses m ParseAtomicExpression e s k"
  unfolding parses_def using assms by (metis Suc_pred less_le_trans)

text \<open>A printed expression is read back as an atomic expression, whatever follows it.\<close>

lemma parses_show_tokens:
  "printable e \<Longrightarrow> sc_wf s \<Longrightarrow> sc_rem s = show_tokens e @ ts \<Longrightarrow>
     parses (4 * length (show_tokens e)) ParseAtomicExpression e s (length (show_tokens e))"
proof (induction e arbitrary: s ts)
  case (Constant b)
  then show ?case
    using sc_rem_Cons [of s] by (intro parses_AtomicI) (auto split: if_splits)
next
  case (Variable x)
  have "Scanner_Current s = Inr ''$''" "Scanner_Current (sc_adv (Suc 0) s) = Inr x"
    using Variable sc_rem_Cons [of s] sc_rem_Cons [of "sc_adv (Suc 0) s"] by simp_all
  then show ?case
    using Variable by (intro parses_AtomicI) (auto simp: IsAlpha_def char_defs Let_def numeral_2_eq_2)
next
  case (Outcome x)
  then show ?case
    using sc_rem_Cons [of s] by (intro parses_AtomicI) auto
next
  case (Operation l op r)
  let ?L = "length (show_tokens l)" and ?R = "length (show_tokens r)"
  let ?m = "4 * (?L + ?R)"
  let ?s = "sc_adv (Suc 0) s"
  have wf: "sc_wf ?s" using Operation by simp
  have rem: "sc_rem ?s = show_tokens l @ op # show_tokens r @ '')'' # ts"
    using Operation by simp
  have l: "parses ?m ParseAtomicExpression l ?s ?L"
    using Operation.IH(1) [OF _ wf rem] Operation.prems by (simp add: parses_def)
  have remR: "sc_rem (sc_adv (Suc ?L) ?s) = show_tokens r @ '')'' # ts"
    using Operation.prems(3) by simp
  have r: "parses ?m ParseAtomicExpression r (sc_adv (Suc ?L) ?s) ?R"
    using Operation.IH(2) [OF _ _ remR] Operation.prems by (simp add: parses_def)
  have remE: "sc_rem (sc_adv (Suc ?L + ?R) ?s) = '')'' # ts"
    using Operation.prems(3) by simp
  have stop: "scan_at ops (sc_adv (Suc ?L + ?R) ?s) = Inr False"
    if "ops \<in> {BINARIES, [''if''], LOGICALS}" for ops
    using sc_rem_Cons(2) [OF _ remE, of ops] wf that by (auto simp: BINARIES_def LOGICALS_def)
  have m: "0 < ?m" by (cases "show_tokens l") simp_all
  have log: "parses (?m + 5) ParseLogicalExpression (Operation l op r) ?s (Suc ?L + ?R)"
    using Operation.prems by (intro parses_binary [OF wf l _ _ r stop m]) (auto simp: rem)
  have cur: "Scanner_Current s = Inr ''(''"
    "Scanner_Current (sc_adv (Suc (Suc ?L + ?R)) s) = Inr '')''"
    using sc_rem_Cons [of s] sc_rem_Cons(1) [OF _ remE] wf Operation.prems by simp_all
  show ?case
  proof (rule parses_AtomicI)
    fix n assume "4 * length (show_tokens (Operation l op r)) \<le> Suc n"
    then have "ParseLogicalExpression n ?s = Inr (Some (Operation l op r), sc_adv (Suc ?L + ?R) ?s)"
      using log by (simp add: parses_def)
    with cur show "ParseAtomicExpression (Suc n) s =
        Inr (Some (Operation l op r), sc_adv (length (show_tokens (Operation l op r))) s)"
      by (simp add: IsAlpha_def char_defs)
  qed simp
qed


lemma parse_show_tokens:
  assumes "printable e"
  shows "ParseLogicalExpression (parse_fuel (show_tokens e)) (Scanner_init (show_tokens e)) =
    Inr (Some e, sc_adv (length (show_tokens e)) (Scanner_init (show_tokens e)))"
proof -
  let ?s = "Scanner_init (show_tokens e)" and ?k = "length (show_tokens e)"
  have wf: "sc_wf ?s" "sc_rem ?s = show_tokens e @ []"
    by (simp_all add: Scanner_init_def sc_wf_def sc_rem_def)
  have k: "0 < 4 * ?k" by (cases "show_tokens e") simp_all
  have stop: "scan_at ops (sc_adv ?k ?s) = Inr False" for ops
    using wf by (intro sc_rem_Nil) simp_all
  have "parses (Suc (4 * ?k)) ParseOperatorExpression e ?s ?k"
    by (rule parses_Operator [OF parses_show_tokens [OF assms wf] stop k])
  then have "parses (Suc (Suc (4 * ?k))) ParseConditionalExpression e ?s ?k"
    by (rule parses_Conditional) (use stop in auto)
  then have "parses (Suc (Suc (Suc (4 * ?k)))) ParseLogicalExpression e ?s ?k"
    by (rule parses_Logical) (use stop in auto)
  then show ?thesis by (simp add: parses_def parse_fuel_def)
qed

lemma parser_errors:
  "ParseAtomicExpression n s = Inl e \<Longrightarrow> e \<in> {IndexError, RecursionLimit}"
  "ParseOperatorExpression n s = Inl e \<Longrightarrow> e \<in> {IndexError, RecursionLimit}"
  "ParseOperatorExpression_loop n l s = Inl e \<Longrightarrow> e \<in> {IndexError, RecursionLimit}"
  "ParseConditionalExpression n s = Inl e \<Longrightarrow> e \<in> {IndexError, RecursionLimit}"
  "ParseConditionalExpression_loop n l s = Inl e \<Longrightarrow> e \<in> {IndexError, RecursionLimit}"
  "ParseLogicalExpression n s = Inl e \<Longrightarrow> e \<in> {IndexError, RecursionLimit}"
  "ParseLogicalExpression_loop n l s = Inl e \<Longrightarrow> e \<in> {IndexError, RecursionLimit}"
proof (induction n arbitrary: s l)
  case (Suc n)
  note IH = Suc
  { case 1
    then show ?case using IH(6)
      by (auto simp: res_simps Let_def Scanner_Current_def split: if_splits option.splits)
  next
    case 2
    then show ?case using IH(1,3) by (auto simp: res_simps split: option.splits)
  next
    case 3
    then show ?case using IH(2,3)
      by (auto simp: res_simps Scanner_Current_def scan_at_def split: if_splits option.splits)
  next
    case 4
    then show ?case using IH(2,5) by (auto simp: res_simps split: option.splits)
  next
    case 5
    then show ?case using IH(2,5)
      by (auto simp: res_simps Scanner_Current_def scan_at_def split: if_splits option.splits)
  next
    case 6
    then show ?case using IH(4,7) by (auto simp: res_simps split: option.splits)
  next
    case 7
    then show ?case using IH(4,7)
      by (auto simp: res_simps Scanner_Current_def scan_at_def split: if_splits option.splits)
  }
qed simp_all

lemma is_token_OPERATORS: "op \<in> set OPERATORS \<Longrightarrow> is_token op"
proof (cases "op = ''if''")
  case True
  then show ?thesis by (simp add: is_token_def IsAlpha_def char_defs)
next
  case False
  moreover assume "op \<in> set OPERATORS"
  ultimately show ?thesis by (auto simp: is_token_def OPERATORS_def)
qed

lemma show_tokens_are_tokens: "printable e \<Longrightarrow> list_all is_token (show_tokens e)"
proof (induction e)
  case (Constant b)
  then show ?case by (simp add: is_token_def IsAlpha_def char_defs)
next
  case (Operation l op r)
  then show ?case using is_token_OPERATORS [of op] by (simp add: is_token_def)
qed (simp_all add: is_token_def)

section \<open>Properties\<close>

text \<open>
  Parsing a condition always ends: for every string, \<open>ParseCondition\<close> returns an expression
  or \<open>None\<close>, or raises \<open>IndexError\<close> (tokens that end inside an operand or a parenthesis); the
  bound on the number of calls is never reached.
\<close>

theorem ParseCondition_stops:
  "ParseCondition s = Inl IndexError \<or> (\<exists>r. ParseCondition s = Inr r)"
proof (cases "ParseCondition s")
  case (Inl e)
  then obtain ts where ts: "ParseLogicalExpression (parse_fuel ts) (Scanner_init ts) = Inl e"
    by (auto simp: ParseCondition_def res_simps split: option.splits if_splits)
  have "sc_wf (Scanner_init ts)" "sc_left (Scanner_init ts) = length ts"
    by (simp_all add: Scanner_init_def sc_wf_def sc_left_def)
  then have "e \<noteq> RecursionLimit"
    using parser_stops(6) [of "Scanner_init ts" "parse_fuel ts"] ts by (auto simp: parse_fuel_def)
  with parser_errors(6) [OF ts] Inl show ?thesis by simp
qed simp

text \<open>
  C40. Round trip: an expression printed with parentheses around every operation is parsed back to
  itself.
\<close>

theorem ParseCondition_show:
  assumes "printable e"
  shows "ParseCondition (join '' '' (show_tokens e)) = Inr (Some e)"
proof -
  have "Tokenize (join '' '' (show_tokens e)) = Some (show_tokens e)"
    using show_tokens_are_tokens [OF assms] lex_tokens_join
    by (simp add: Tokenize_eq_lex list_all_iff)
  moreover have "\<not> Scanner_HasMore (sc_adv (length (show_tokens e)) (Scanner_init (show_tokens e)))"
    by (simp add: Scanner_HasMore_def sc_adv_def Scanner_init_def)
  ultimately show ?thesis by (simp add: ParseCondition_def parse_show_tokens [OF assms])
qed

theorem ParseCondition_show_witness:
  "ParseCondition ''( fail if ( $ system == win32 ) )'' =
     Inr (Some (Operation (Outcome ''fail'') ''if'' (Operation (Variable ''system'') ''=='' (Outcome ''win32''))))"
proof -
  let ?e = "Operation (Outcome ''fail'') ''if'' (Operation (Variable ''system'') ''=='' (Outcome ''win32''))"
  have p: "printable ?e" by (simp add: OPERATORS_def IsAlpha_def lower_def lower_char_def char_defs)
  show ?thesis using ParseCondition_show [OF p] by simp
qed

end
