(* ===== verification/Py_Regex.thy ===== *)
theory Py_Regex
  imports Py_Str
begin

text \<open>
  The part of Python's \<open>re\<close> that the sources apply to patterns taken from their input: literals,
  \<open>.\<close>, character classes, the escapes \<open>\d \w \s\<close> and their complements, grouping, alternation,
  the quantifiers \<open>* + ?\<close> (greedy or lazy: only whether there is a match is observed) and the
  anchors \<open>^ $\<close>. A syntax error is \<open>ReError\<close>; so is a construct outside this part (counted
  repetition, look-around, back references). Matching is given by the list of end positions of a
  match, and shown to agree with an inductive match relation.
\<close>

datatype rx =
    REps
  | RAny
  | RLit char
  | RSet bool "(char \<times> char) list"
  | RSeq rx rx
  | RAlt rx rx
  | RStar rx
  | RBegin
  | REnd

abbreviation newline :: char where
  "newline \<equiv> CHR 0x0A"

definition in_ranges :: "(char \<times> char) list \<Rightarrow> char \<Rightarrow> bool" where
  "in_ranges rs c = list_ex (\<lambda>(lo, hi). ord lo \<le> ord c \<and> ord c \<le> ord hi) rs"

fun star_ends :: "(nat \<Rightarrow> nat list) \<Rightarrow> nat \<Rightarrow> nat \<Rightarrow> nat list" where
  "star_ends f 0 i = [i]"
| "star_ends f (Suc n) i = i # concat (map (star_ends f n) (filter (\<lambda>j. i < j) (f i)))"

fun ends :: "rx \<Rightarrow> string \<Rightarrow> nat \<Rightarrow> nat list" where
  "ends REps s i = [i]"
| "ends RAny s i = (if i < length s \<and> s ! i \<noteq> newline then [Suc i] else [])"
| "ends (RLit c) s i = (if i < length s \<and> s ! i = c then [Suc i] else [])"
| "ends (RSet neg rs) s i = (if i < length s \<and> in_ranges rs (s ! i) \<noteq> neg then [Suc i] else [])"
| "ends (RSeq a b) s i = concat (map (ends b s) (ends a s i))"
| "ends (RAlt a b) s i = ends a s i @ ends b s i"
| "ends (RStar a) s i = star_ends (ends a s) (length s - i) i"
| "ends RBegin s i = (if i = 0 then [i] else [])"
| "ends REnd s i = (if i = length s \<or> Suc i = length s \<and> s ! i = newline then [i] else [])"

definition re_match :: "rx \<Rightarrow> string \<Rightarrow> bool" where
  "re_match r s = (ends r s 0 \<noteq> [])"

definition re_search :: "rx \<Rightarrow> string \<Rightarrow> bool" where
  "re_search r s = list_ex (\<lambda>i. ends r s i \<noteq> []) [0..<Suc (length s)]"

section \<open>Agreement with the match relation\<close>

inductive rmatch :: "rx \<Rightarrow> string \<Rightarrow> nat \<Rightarrow> nat \<Rightarrow> bool" where
  eps: "rmatch REps s i i"
| any: "i < length s \<Longrightarrow> s ! i \<noteq> newline \<Longrightarrow> rmatch RAny s i (Suc i)"
| lit: "i < length s \<Longrightarrow> s ! i = c \<Longrightarrow> rmatch (RLit c) s i (Suc i)"
| set: "i < length s \<Longrightarrow> in_ranges rs (s ! i) \<noteq> neg \<Longrightarrow> rmatch (RSet neg rs) s i (Suc i)"
| seq: "rmatch a s i j \<Longrightarrow> rmatch b s j k \<Longrightarrow> rmatch (RSeq a b) s i k"
| alt1: "rmatch a s i j \<Longrightarrow> rmatch (RAlt a b) s i j"
| alt2: "rmatch b s i j \<Longrightarrow> rmatch (RAlt a b) s i j"
| star0: "rmatch (RStar a) s i i"
| star1: "rmatch a s i j \<Longrightarrow> rmatch (RStar a) s j k \<Longrightarrow> rmatch (RStar a) s i k"
| beg: "rmatch RBegin s 0 0"
| fin: "i = length s \<or> Suc i = length s \<and> s ! i = newline \<Longrightarrow> rmatch REnd s i i"

inductive_simps rmatch_simps:
  "rmatch REps s i j" "rmatch RAny s i j" "rmatch (RLit c) s i j" "rmatch (RSet neg rs) s i j"
  "rmatch (RSeq a b) s i j" "rmatch (RAlt a b) s i j" "rmatch RBegin s i j" "rmatch REnd s i j"

lemma rmatch_bounds: "rmatch r s i j \<Longrightarrow> i \<le> length s \<Longrightarrow> i \<le> j \<and> j \<le> length s"
  by (induction rule: rmatch.induct) auto

lemma star_ends_sound:
  assumes "\<And>i j. j \<in> set (f i) \<Longrightarrow> rmatch a s i j"
  shows "j \<in> set (star_ends f n i) \<Longrightarrow> rmatch (RStar a) s i j"
  by (induction n arbitrary: i) (auto intro: rmatch.star0 rmatch.star1 dest!: assms)

lemma ends_sound: "j \<in> set (ends r s i) \<Longrightarrow> rmatch r s i j"
proof (induction r arbitrary: i j)
  case (RStar r)
  then show ?case using star_ends_sound [of "ends r s" r s j] by auto
next
  case (RSeq a b)
  then obtain m where "m \<in> set (ends a s i)" "j \<in> set (ends b s m)" by auto
  with RSeq show ?case by (blast intro: rmatch.seq)
qed (auto simp: rmatch_simps split: if_splits)

lemma rmatch_star_induct:
  assumes "rmatch (RStar a) s i k" and "\<And>i. P i i"
    and "\<And>i j k. rmatch a s i j \<Longrightarrow> rmatch (RStar a) s j k \<Longrightarrow> P j k \<Longrightarrow> P i k"
  shows "P i k"
proof -
  have "rmatch r t i k \<Longrightarrow> r = RStar a \<Longrightarrow> t = s \<Longrightarrow> P i k" for r t
    by (induction rule: rmatch.induct) (auto intro: assms(2,3))
  then show ?thesis using assms(1) by blast
qed

lemma star_ends_self: "i \<in> set (star_ends f n i)"
  by (cases n) auto

lemma star_ends_complete:
  assumes step: "\<And>i j. rmatch a s i j \<Longrightarrow> i \<le> length s \<Longrightarrow> j \<in> set (f i)"
  shows "rmatch (RStar a) s i k \<Longrightarrow> i \<le> length s \<Longrightarrow> length s - i \<le> n \<Longrightarrow> k \<in> set (star_ends f n i)"
proof (induction arbitrary: n rule: rmatch_star_induct [of a s i k, consumes 1, case_names refl step])
  case (refl i)
  show ?case by (rule star_ends_self)
next
  case (step i j k)
  have ij: "i \<le> j" "j \<le> length s" using rmatch_bounds step by blast+
  show ?case
  proof (cases "i = j")
    case True
    then show ?thesis using step by simp
  next
    case False
    with ij step.prems obtain m where n: "n = Suc m" "length s - j \<le> m" by (cases n) auto
    then have "k \<in> set (star_ends f m j)" using step ij by blast
    moreover have "j \<in> set (f i)" using assms step by blast
    ultimately show ?thesis using n False ij by auto
  qed
qed

lemma ends_complete: "rmatch r s i j \<Longrightarrow> i \<le> length s \<Longrightarrow> j \<in> set (ends r s i)"
proof (induction r arbitrary: i j)
  case (RSeq a b)
  then show ?case using rmatch_bounds by (fastforce simp: rmatch_simps)
next
  case (RStar a)
  then show ?case using star_ends_complete [of a s "ends a s"] by simp
qed (auto simp: rmatch_simps)

lemma re_match_iff: "re_match r s \<longleftrightarrow> (\<exists>j. rmatch r s 0 j)"
  unfolding re_match_def using ends_sound ends_complete
  by (metis empty_iff empty_set equals0I set_empty zero_le)

lemma re_search_iff: "re_search r s \<longleftrightarrow> (\<exists>i\<le>length s. \<exists>j. rmatch r s i j)"
proof -
  have "ends r s i \<noteq> [] \<longleftrightarrow> (\<exists>j. rmatch r s i j)" if "i \<le> length s" for i
    using ends_sound [of _ r s i] ends_complete [of r s i] that by (cases "ends r s i") fastforce+
  then show ?thesis
    unfolding re_search_def list_ex_iff set_upt by (metis atLeastLessThan_iff less_Suc_eq_le zero_le)
qed

section \<open>Compiling a pattern\<close>

definition digit_ranges :: "(char \<times> char) list" where
  "digit_ranges = [(CHR ''0'', CHR ''9'')]"

definition word_ranges :: "(char \<times> char) list" where
  "word_ranges = [(CHR ''a'', CHR ''z''), (CHR ''A'', CHR ''Z''), (CHR ''0'', CHR ''9''), (CHR ''_'', CHR ''_'')]"

definition space_ranges :: "(char \<times> char) list" where
  "space_ranges = [(CHR '' '', CHR '' ''), (CHR 0x09, CHR 0x0D)]"

definition escape_class :: "char \<Rightarrow> (bool \<times> (char \<times> char) list) option" where
  "escape_class c =
     (if c = CHR ''d'' then Some (False, digit_ranges) else if c = CHR ''D'' then Some (True, digit_ranges)
      else if c = CHR ''w'' then Some (False, word_ranges) else if c = CHR ''W'' then Some (True, word_ranges)
      else if c = CHR ''s'' then Some (False, space_ranges) else if c = CHR ''S'' then Some (True, space_ranges)
      else if is_alpha c \<or> is_digit c then None
      else Some (False, [(c, c)]))"

text \<open>The items of a class, after the opening bracket and a possible \<open>^\<close>.\<close>

function (sequential) class_items :: "bool \<Rightarrow> string \<Rightarrow> ((char \<times> char) list \<times> string) option" where
  "class_items first [] = None"
| "class_items first (c # t) =
     (if c = CHR '']'' \<and> \<not> first then Some ([], t)
      else if c = CHR 0x5C then
        (case t of
           [] \<Rightarrow> None
         | e # t' \<Rightarrow> (case escape_class e of
             Some (False, rs) \<Rightarrow> map_option (\<lambda>(rs', r). (rs @ rs', r)) (class_items False t')
           | _ \<Rightarrow> None))
      else if take 1 t = ''-'' \<and> length t \<ge> 2 \<and> t ! 1 \<noteq> CHR '']'' then
        (if t ! 1 = CHR 0x5C \<or> ord (t ! 1) < ord c then None
         else map_option (\<lambda>(rs', r). ((c, t ! 1) # rs', r)) (class_items False (drop 2 t)))
      else map_option (\<lambda>(rs', r). ((c, c) # rs', r)) (class_items False t))"
  by pat_completeness auto
termination
  by (relation "measure (\<lambda>(_, s). length s)") auto

text \<open>An optional quantifier after an atom.\<close>

fun quantify :: "rx \<Rightarrow> string \<Rightarrow> rx \<times> string" where
  "quantify a (q # t) =
     (let lazy = (\<lambda>t. if take 1 t = ''?'' then drop 1 t else t) in
      if q = CHR ''*'' then (RStar a, lazy t)
      else if q = CHR ''+'' then (RSeq a (RStar a), lazy t)
      else if q = CHR ''?'' then (RAlt a REps, lazy t)
      else (a, q # t))"
| "quantify a [] = (a, [])"

fun parse_alt :: "nat \<Rightarrow> string \<Rightarrow> (rx \<times> string) option"
  and parse_seq :: "nat \<Rightarrow> string \<Rightarrow> (rx \<times> string) option"
  and parse_atom :: "nat \<Rightarrow> char \<Rightarrow> string \<Rightarrow> (rx \<times> string) option" where
  "parse_alt 0 s = None"
| "parse_alt (Suc n) s =
     (case parse_seq n s of
        None \<Rightarrow> None
      | Some (a, rest) \<Rightarrow>
          if take 1 rest = ''|'' then map_option (\<lambda>(b, r). (RAlt a b, r)) (parse_alt n (drop 1 rest))
          else Some (a, rest))"
| "parse_seq 0 s = None"
| "parse_seq (Suc n) s =
     (case s of
        [] \<Rightarrow> Some (REps, [])
      | c # t \<Rightarrow>
          if c = CHR ''|'' \<or> c = CHR '')'' then Some (REps, s)
          else (case parse_atom n c t of
              None \<Rightarrow> None
            | Some (a, rest) \<Rightarrow>
                (case quantify a rest of (a', rest') \<Rightarrow>
                   if rest' \<noteq> [] \<and> hd rest' \<in> set ''*+?{'' then None
                   else map_option (\<lambda>(b, r). (RSeq a' b, r)) (parse_seq n rest'))))"
| "parse_atom 0 c t = None"
| "parse_atom (Suc n) c t =
     (if c = CHR ''('' then
        (if take 1 t = ''?'' \<and> take 2 t \<noteq> ''?:'' then None
         else (case parse_alt n (if take 2 t = ''?:'' then drop 2 t else t) of
             Some (a, r) \<Rightarrow> if take 1 r = '')'' then Some (a, drop 1 r) else None
           | None \<Rightarrow> None))
      else if c = CHR ''['' then
        (let neg = (take 1 t = ''^'') in
         map_option (\<lambda>(rs, r). (RSet neg rs, r)) (class_items True (if neg then drop 1 t else t)))
      else if c = CHR ''.'' then Some (RAny, t)
      else if c = CHR ''^'' then Some (RBegin, t)
      else if c = CHR ''$'' then Some (REnd, t)
      else if c = CHR 0x5C then
        (case t of
           [] \<Rightarrow> None
         | e # t' \<Rightarrow> map_option (\<lambda>(neg, rs). (RSet neg rs, t')) (escape_class e))
      else if c \<in> set ''*+?{'' then None
      else Some (RLit c, t))"

definition re_compile :: "string \<Rightarrow> rx res" where
  "re_compile p =
     (case parse_alt (3 * length p + 3) p of
        Some (r, []) \<Rightarrow> Inr r
      | _ \<Rightarrow> Inl ReError)"

end
