(* ===== verification/Test_Config.thy ===== *)
theory Test_Config
  imports Test_Parser Py_Regex "HOL-Library.Multiset" "HOL-Library.List_Lexorder" "HOL-Library.Char_ord"
begin

text \<open>
  Status files and test classification (\<open>src/tools/test.py\<close>, \<open>src/tools/utils.py\<close>): path
  patterns, rules, sections, the reader of status files and \<open>Configuration.ClassifyTests\<close>,
  and the listing of tests by \<open>LiteralTestSuite\<close>. Shown here: patterns without regular-expression
  characters other than \<open>*\<close> are globs; every test gets a non-empty set of outcomes, the union of what its
  matching rules say; a rule is reported unused exactly when it matches no test; reading a
  status file keeps the sections read before it.
\<close>

section \<open>Patterns and paths\<close>

text \<open>A \<open>Pattern\<close> is its text: the compiled expression is a cache.\<close>

definition Pattern_match :: "string \<Rightarrow> string \<Rightarrow> bool res" where
  "Pattern_match pattern str =
     res_bind (re_compile (''^'' @ replace pattern ''*'' ''.*'' @ ''$'')) (\<lambda>compiled.
       Inr (re_match compiled str))"

definition SplitPath :: "string \<Rightarrow> string list" where
  "SplitPath s = filter (\<lambda>c. length c > 0) (map strip (split_on (CHR ''/'') s))"

fun CarCdr :: "'a list \<Rightarrow> 'a option \<times> 'a list" where
  "CarCdr [] = (None, [])"
| "CarCdr (x # xs) = (Some x, xs)"

text \<open>The loop of \<open>Rule.Contains\<close> and \<open>TestConfiguration.Contains\<close> over the indices of
  \<open>path\<close>.\<close>

fun Contains_loop :: "string list \<Rightarrow> string list \<Rightarrow> bool res" where
  "Contains_loop [] file = Inr True"
| "Contains_loop (p # path) [] = Inl IndexError"
| "Contains_loop (p # path) (f # file) =
     res_bind (Pattern_match p f) (\<lambda>m. if \<not> m then Inr False else Contains_loop path file)"

definition TestConfiguration_Contains :: "string list \<Rightarrow> string list \<Rightarrow> bool res" where
  "TestConfiguration_Contains path file =
     (if length path > length file then Inr False else Contains_loop path file)"

section \<open>Rules and sections\<close>

definition SKIP :: string where "SKIP = ''skip''"
definition FAIL :: string where "FAIL = ''fail''"
definition PASS :: string where "PASS = ''pass''"
definition OKAY :: string where "OKAY = ''okay''"
definition TIMEOUT :: string where "TIMEOUT = ''timeout''"
definition CRASH :: string where "CRASH = ''crash''"
definition SLOW :: string where "SLOW = ''slow''"

text \<open>\<open>rule_id\<close> is the identity of the rule object, which sets of rules compare.\<close>

record rule =
  rule_id :: nat
  raw_path :: string
  rule_path :: "string list"
  rule_value :: expr

record test_section =
  sec_condition :: "expr option"
  sec_rules :: "rule list"

definition Section_init :: "expr option \<Rightarrow> test_section" where
  "Section_init condition = \<lparr>sec_condition = condition, sec_rules = []\<rparr>"

definition Section_AddRule :: "rule \<Rightarrow> test_section \<Rightarrow> test_section" where
  "Section_AddRule r s = s\<lparr>sec_rules := sec_rules s @ [r]\<rparr>"

definition Rule_GetOutcomes :: "nat \<Rightarrow> env \<Rightarrow> defs \<Rightarrow> rule \<Rightarrow> atom list res" where
  "Rule_GetOutcomes lim env defs r =
     res_bind (GetOutcomes lim env defs (rule_value r)) (\<lambda>s.
       case s of ListSet elms \<Rightarrow> Inr elms | _ \<Rightarrow> Inl AssertionError)"

definition Rule_Contains :: "rule \<Rightarrow> string list \<Rightarrow> bool res" where
  "Rule_Contains r path =
     (if length (rule_path r) > length path then Inr False else Contains_loop (rule_path r) path)"

section \<open>Classification\<close>

record test_case =
  tc_path :: "string list"
  tc_arch :: string
  tc_mode :: string
  tc_parallel :: bool
  tc_variant_flags :: "string list"
  tc_outcomes :: "atom list"

record classified_test =
  ct_case :: test_case
  ct_outcomes :: "atom list"
  ct_parallel :: bool

definition ClassifiedTest_init :: "test_case \<Rightarrow> atom list \<Rightarrow> classified_test" where
  "ClassifiedTest_init c outcomes =
     \<lparr>ct_case = c, ct_outcomes = outcomes, ct_parallel = tc_parallel c\<rparr>"

text \<open>\<open>s.condition.Evaluate(env, self.defs)\<close>; the condition of a section whose header did not
  parse is \<open>None\<close>.\<close>

definition section_enabled :: "nat \<Rightarrow> env \<Rightarrow> defs \<Rightarrow> test_section \<Rightarrow> bool res" where
  "section_enabled lim env defs s =
     (case sec_condition s of
        None \<Rightarrow> Inl (AttributeError ''Evaluate'')
      | Some c \<Rightarrow> Evaluate lim env defs c)"

fun filterM :: "('a \<Rightarrow> bool res) \<Rightarrow> 'a list \<Rightarrow> 'a list res" where
  "filterM p [] = Inr []"
| "filterM p (x # xs) =
     res_bind (p x) (\<lambda>b. res_bind (filterM p xs) (\<lambda>ys. Inr (if b then x # ys else ys)))"

text \<open>A Python set as the list of its elements in the order they came in.\<close>

definition set_union :: "'a list \<Rightarrow> 'a list \<Rightarrow> 'a list" where
  "set_union xs ys = foldl add_new xs ys"

text \<open>The body of the loop over \<open>cases\<close>; the state is \<open>(result, unused_rules, all_outcomes)\<close>.\<close>

definition classify_case ::
  "nat \<Rightarrow> env \<Rightarrow> defs \<Rightarrow> rule list \<Rightarrow> classified_test list \<times> rule list \<times> atom list \<Rightarrow> test_case
     \<Rightarrow> (classified_test list \<times> rule list \<times> atom list) res" where
  "classify_case lim env defs all_rules = (\<lambda>(result, unused_rules, all_outcomes) c.
     res_bind (filterM (\<lambda>r. Rule_Contains r (tc_path c)) all_rules) (\<lambda>matches.
     res_bind (foldM (\<lambda>(outcomes, unused) r.
         res_bind (Rule_GetOutcomes lim env defs r) (\<lambda>elms.
           Inr (set_union outcomes elms, filter (\<lambda>u. rule_id u \<noteq> rule_id r) unused)))
       ([], unused_rules) matches) (\<lambda>(outcomes, unused_rules').
     let outcomes' = (if outcomes = [] then [Some PASS] else outcomes);
         c' = c\<lparr>tc_outcomes := outcomes'\<rparr>
     in Inr (result @ [ClassifiedTest_init c' outcomes'], unused_rules', set_union all_outcomes outcomes'))))"

definition ClassifyTests ::
  "nat \<Rightarrow> test_section list \<Rightarrow> defs \<Rightarrow> test_case list \<Rightarrow> env
     \<Rightarrow> (classified_test list \<times> rule list \<times> atom list) res" where
  "ClassifyTests lim sections defs cases env =
     res_bind (filterM (section_enabled lim env defs) sections) (\<lambda>enabled.
     let all_rules = concat (map sec_rules enabled)
     in foldM (classify_case lim env defs all_rules) ([], all_rules, []) cases)"

section \<open>Reading status files\<close>

text \<open>\<open>utils.ReadLinesFrom\<close> on the lines of the file.\<close>

definition ReadLinesFrom :: "string list \<Rightarrow> string list" where
  "ReadLinesFrom lines =
     filter (\<lambda>l. length l \<noteq> 0) (map (\<lambda>line. strip (takeWhile (\<lambda>c. c \<noteq> CHR ''#'') line)) lines)"

text \<open>\<open>\[([^]]+)\]\<close> at the start of the line.\<close>

definition HEADER_PATTERN :: "string \<Rightarrow> string option" where
  "HEADER_PATTERN line =
     (case line of
        [] \<Rightarrow> None
      | c # t \<Rightarrow>
          let g = takeWhile (\<lambda>c. c \<noteq> CHR '']'') t
          in if c = CHR ''['' \<and> g \<noteq> [] \<and> length g < length t then Some g else None)"

text \<open>\<open>\s*([^: ]*)\s*:(.*)\<close> at the start of the line. No backtracking can help: a shorter first
  group leaves characters that are neither white space nor a colon, or white space that the
  second \<open>\s*\<close> takes.\<close>

definition RULE_PATTERN :: "string \<Rightarrow> (string \<times> string) option" where
  "RULE_PATTERN line =
     (let t = lstrip line;
          g1 = takeWhile (\<lambda>c. c \<noteq> CHR '':'' \<and> c \<noteq> CHR '' '') t;
          u = lstrip (drop (length g1) t)
      in case u of
           c # v \<Rightarrow> if c = CHR '':'' then Some (g1, takeWhile (\<lambda>c. c \<noteq> newline) v) else None
         | [] \<Rightarrow> None)"

text \<open>\<open>^def\s*(\w+)\s*=(.*)$\<close>; a line of a file has no newline inside.\<close>

definition DEF_PATTERN :: "string \<Rightarrow> (string \<times> string) option" where
  "DEF_PATTERN line =
     (if startswith line ''def'' then
        let t = lstrip (drop 3 line);
            g1 = takeWhile is_word t;
            u = lstrip (drop (length g1) t)
        in case u of
             c # v \<Rightarrow> if c = CHR ''='' \<and> g1 \<noteq> [] \<and> newline \<notin> set v then Some (g1, v) else None
           | [] \<Rightarrow> None
      else None)"

text \<open>\<open>^\s*prefix\s+([\w\_\.\-\/]+)$\<close>.\<close>

definition PREFIX_PATTERN :: "string \<Rightarrow> string option" where
  "PREFIX_PATTERN line =
     (let t = lstrip line in
      if startswith t ''prefix'' then
        let u = drop 6 t; g = lstrip u
        in if u \<noteq> [] \<and> is_space (hd u) \<and> g \<noteq> []
             \<and> list_all (\<lambda>c. is_word c \<or> c \<in> set ''.-/'') g then Some g else None
      else None)"

record config_state =
  cs_sections :: "test_section list"
  cs_defs :: defs
  cs_prefix :: "string list"

text \<open>\<open>current_section.AddRule\<close>: the current section is the last one of the list. The identity of
  the new rule is the number of rules made so far.\<close>

definition add_rule :: "string \<Rightarrow> string list \<Rightarrow> expr \<Rightarrow> test_section list \<Rightarrow> test_section list" where
  "add_rule raw path value sections =
     (let r = \<lparr>rule_id = length (concat (map sec_rules sections)), raw_path = raw,
               rule_path = path, rule_value = value\<rparr>
      in butlast sections @ [Section_AddRule r (last sections)])"

text \<open>The loop over the lines; the boolean is what \<open>ReadConfigurationInto\<close> returns.\<close>

fun ReadConfiguration_lines :: "string list \<Rightarrow> config_state \<Rightarrow> (bool \<times> config_state) res" where
  "ReadConfiguration_lines [] st = Inr (True, st)"
| "ReadConfiguration_lines (line # lines) st =
     (case HEADER_PATTERN line of
        Some g \<Rightarrow>
          res_bind (ParseCondition (strip g)) (\<lambda>condition.
            ReadConfiguration_lines lines
              (st\<lparr>cs_sections := cs_sections st @ [Section_init condition]\<rparr>))
      | None \<Rightarrow>
     (case RULE_PATTERN line of
        Some (g1, g2) \<Rightarrow>
          let path = cs_prefix st @ SplitPath (strip g1) in
          res_bind (ParseCondition (strip g2)) (\<lambda>value.
            case value of
              None \<Rightarrow> Inr (False, st)
            | Some v \<Rightarrow> ReadConfiguration_lines lines
                (st\<lparr>cs_sections := add_rule g1 path v (cs_sections st)\<rparr>))
      | None \<Rightarrow>
     (case DEF_PATTERN line of
        Some (g1, g2) \<Rightarrow>
          res_bind (ParseCondition (strip g2)) (\<lambda>value.
            case value of
              None \<Rightarrow> Inr (False, st)
            | Some v \<Rightarrow> ReadConfiguration_lines lines
                (st\<lparr>cs_defs := dset (cs_defs st) (lower g1) v\<rparr>))
      | None \<Rightarrow>
     (case PREFIX_PATTERN line of
        Some g \<Rightarrow> ReadConfiguration_lines lines (st\<lparr>cs_prefix := SplitPath (strip g)\<rparr>)
      | None \<Rightarrow> Inr (False, st)))))"

definition ReadConfigurationInto ::
  "string list \<Rightarrow> test_section list \<Rightarrow> defs \<Rightarrow> (bool \<times> test_section list \<times> defs) res" where
  "ReadConfigurationInto file_lines sections defs =
     res_bind (ReadConfiguration_lines (ReadLinesFrom file_lines)
         \<lparr>cs_sections = sections @ [Section_init (Some (Constant True))], cs_defs = defs, cs_prefix = []\<rparr>)
       (\<lambda>(ok, st). Inr (ok, cs_sections st, cs_defs st))"

section \<open>Suites\<close>

text \<open>
  A repository as \<open>LiteralTestSuite\<close> sees it: its name and \<open>AddTestsToList\<close> of its configuration,
  which the module \<open>testcfg\<close> of the suite's directory provides (the tests of a path, with the
  variant flags not yet set).
\<close>

record test_suite =
  ts_name :: string
  ts_ListTests :: "string list \<Rightarrow> string list \<Rightarrow> string \<Rightarrow> string \<Rightarrow> test_case list res"

definition VARIANT_FLAGS :: "string list list" where
  "VARIANT_FLAGS = [[]]"

definition AddTestsToList ::
  "test_suite \<Rightarrow> test_case list \<Rightarrow> string list \<Rightarrow> string list \<Rightarrow> string \<Rightarrow> string \<Rightarrow> test_case list res" where
  "AddTestsToList s result current_path path arch mode =
     foldM (\<lambda>result v.
       res_bind (ts_ListTests s current_path path arch mode) (\<lambda>tests.
         Inr (result @ map (\<lambda>t. t\<lparr>tc_variant_flags := v\<rparr>) tests))) result VARIANT_FLAGS"

text \<open>\<open>GetName\<close> of a test case: \<open>self.path[-1]\<close>.\<close>

definition tc_name :: "test_case \<Rightarrow> string" where
  "tc_name t = last (tc_path t)"

definition LiteralTestSuite_ListTests ::
  "test_suite list \<Rightarrow> string list \<Rightarrow> string list \<Rightarrow> string \<Rightarrow> string \<Rightarrow> test_case list res" where
  "LiteralTestSuite_ListTests suites current_path path arch mode =
     (case CarCdr path of (name, rest) \<Rightarrow>
        res_bind (foldM (\<lambda>result s.
            res_bind (case name of None \<Rightarrow> Inr True | Some p \<Rightarrow> Pattern_match p (ts_name s)) (\<lambda>m.
              if m then AddTestsToList s result (current_path @ [ts_name s]) path arch mode
              else Inr result)) [] suites)
          (\<lambda>result. Inr (sort_key tc_name result)))"

section \<open>Patterns are globs\<close>

fun glob :: "string \<Rightarrow> string \<Rightarrow> bool" where
  "glob [] s = (s = [])"
| "glob (p # ps) s =
     (if p = CHR ''*'' then list_ex (\<lambda>k. glob ps (drop k s)) [0..<Suc (length s)]
      else s \<noteq> [] \<and> hd s = p \<and> glob ps (tl s))"

definition plain_char :: "char \<Rightarrow> bool" where
  "plain_char c = (is_word c \<or> c = CHR ''-'')"

definition plain_pattern :: "string \<Rightarrow> bool" where
  "plain_pattern p = list_all (\<lambda>c. plain_char c \<or> c = CHR ''*'') p"

definition expand_char :: "char \<Rightarrow> string" where
  "expand_char c = (if c = CHR ''*'' then ''.*'' else [c])"

lemma expand_char_simps [simp]:
  "expand_char (CHR ''*'') = ''.*''" "c \<noteq> CHR ''*'' \<Longrightarrow> expand_char c = [c]"
  by (simp_all add: expand_char_def)

lemma replace_star: "replace p ''*'' ''.*'' = concat (map expand_char p)"
  by (induction p) (auto simp: startswith_def expand_char_def)

fun pattern_rx :: "string \<Rightarrow> rx" where
  "pattern_rx [] = RSeq REnd REps"
| "pattern_rx (c # p) = RSeq (if c = CHR ''*'' then RStar RAny else RLit c) (pattern_rx p)"

lemma plain_char_not_special: "plain_char c \<Longrightarrow> c \<notin> set ''()[].^$|*+?{'' \<and> c \<noteq> CHR 0x5C"
  by (auto simp: plain_char_def char_defs)

lemma expand_hd:
  "plain_pattern p \<Longrightarrow> \<exists>c t. concat (map expand_char p) @ ''$'' = c # t \<and> c \<notin> set ''*+?{|)''"
proof (cases p)
  case (Cons c q)
  moreover assume "plain_pattern p"
  ultimately have "c = CHR ''*'' \<or> c \<notin> set ''*+?{|)''"
    using plain_char_not_special [of c] by (cases "c = CHR ''*''") (simp_all add: plain_pattern_def)
  then show ?thesis using Cons by (cases "c = CHR ''*''") simp_all
qed simp

lemma parse_seq_expand:
  "plain_pattern p \<Longrightarrow> length p + 2 < n \<Longrightarrow>
     parse_seq n (concat (map expand_char p) @ ''$'') = Some (pattern_rx p, [])"
proof (induction p arbitrary: n)
  case Nil
  then obtain k where "n = Suc (Suc (Suc k))"
    by (cases n; cases "n - 1"; cases "n - 2") auto
  then show ?case by simp
next
  case (Cons c p)
  then obtain k where n: "n = Suc (Suc k)" and k: "length p + 2 < Suc k"
    by (cases n; cases "n - 1") auto
  have p: "plain_pattern p" using Cons by (simp add: plain_pattern_def)
  obtain d t where dt: "concat (map expand_char p) @ ''$'' = d # t" "d \<notin> set ''*+?{|)''"
    using expand_hd [OF p] by blast
  have IH: "parse_seq (Suc k) (d # t) = Some (pattern_rx p, [])"
    using Cons.IH [OF p k] dt by simp
  have quant: "quantify a (d # t) = (a, d # t)" for a
    using dt by simp
  show ?case
  proof (cases "c = CHR ''*''")
    case True
    have "parse_atom (Suc k) (CHR ''.'') (CHR ''*'' # d # t) = Some (RAny, CHR ''*'' # d # t)" by simp
    then have "parse_seq n (''.*'' @ d # t) = Some (RSeq (RStar RAny) (pattern_rx p), [])"
      unfolding n parse_seq.simps(2) [of "Suc k"]
      using dt(2) IH by (simp del: parse_seq.simps parse_atom.simps)
    then show ?thesis using True dt(1) by simp
  next
    case False
    with Cons.prems have "plain_char c" by (simp add: plain_pattern_def)
    note c = plain_char_not_special [OF this]
    have "parse_atom (Suc k) c (d # t) = Some (RLit c, d # t)" using c by simp
    then have "parse_seq n (c # d # t) = Some (RSeq (RLit c) (pattern_rx p), [])"
      unfolding n parse_seq.simps(2) [of "Suc k"]
      using dt(2) IH c quant by (simp del: parse_seq.simps parse_atom.simps quantify.simps)
    then show ?thesis using False dt(1) by simp
  qed
qed

lemma compile_plain:
  assumes "plain_pattern p"
  shows "re_compile (''^'' @ replace p ''*'' ''.*'' @ ''$'') = Inr (RSeq RBegin (pattern_rx p))"
proof -
  let ?e = "concat (map expand_char p) @ ''$''"
  have len: "length p \<le> length (concat (map expand_char p))"
    by (induction p) (auto simp: expand_char_def)
  obtain d t where dt: "?e = d # t" "d \<notin> set ''*+?{|)''" using expand_hd [OF assms] by blast
  define n where "n = 3 * length ?e + 3"
  have big: "3 * length (CHR ''^'' # ?e) + 3 = Suc (Suc (Suc n))" by (simp add: n_def)
  have "parse_seq (Suc n) ?e = Some (pattern_rx p, [])"
    using parse_seq_expand [OF assms, of "Suc n"] len by (simp add: n_def del: parse_seq.simps)
  moreover have "parse_atom (Suc n) (CHR ''^'') ?e = Some (RBegin, ?e)" by simp
  moreover have "quantify RBegin (d # t) = (RBegin, d # t)" using dt by simp
  ultimately have "parse_seq (Suc (Suc n)) (CHR ''^'' # ?e) = Some (RSeq RBegin (pattern_rx p), [])"
    unfolding parse_seq.simps(2) [of "Suc n"] dt(1)
    using dt(2) by (simp del: parse_seq.simps parse_atom.simps quantify.simps)
  then have "parse_alt (3 * length (CHR ''^'' # ?e) + 3) (CHR ''^'' # ?e) = Some (RSeq RBegin (pattern_rx p), [])"
    unfolding big parse_alt.simps by simp
  then show ?thesis by (simp add: re_compile_def replace_star)
qed

lemma rmatch_star_any:
  assumes "newline \<notin> set s"
  shows "rmatch (RStar RAny) s i j \<longleftrightarrow> i = j \<or> i \<le> j \<and> j \<le> length s"
proof
  show "rmatch (RStar RAny) s i j \<Longrightarrow> i = j \<or> i \<le> j \<and> j \<le> length s"
    by (erule rmatch_star_induct) (auto simp: rmatch_simps)
  have "i \<le> j \<Longrightarrow> j \<le> length s \<Longrightarrow> rmatch (RStar RAny) s i j"
  proof (induction "j - i" arbitrary: i)
    case 0
    then show ?case by (simp add: rmatch.star0)
  next
    case (Suc d)
    then have "s ! i \<noteq> newline" using assms nth_mem [of i s] by (metis Suc_leD diff_is_0_eq' less_le_trans not_less old.nat.distinct(2))
    with Suc show ?case by (intro rmatch.star1 [of RAny s i "Suc i" j]) (auto simp: rmatch_simps)
  qed
  then show "i = j \<or> i \<le> j \<and> j \<le> length s \<Longrightarrow> rmatch (RStar RAny) s i j"
    by (auto intro: rmatch.star0)
qed

lemma rmatch_pattern_rx:
  assumes "newline \<notin> set s"
  shows "i \<le> length s \<Longrightarrow> (\<exists>j. rmatch (pattern_rx p) s i j) \<longleftrightarrow> glob p (drop i s)"
proof (induction p arbitrary: i)
  case Nil
  have "s ! i \<noteq> newline" if "Suc i = length s"
    using assms nth_mem [of i s] that by (metis lessI)
  with Nil show ?case by (auto simp: rmatch_simps)
next
  case (Cons c p)
  show ?case
  proof (cases "c = CHR ''*''")
    case True
    have "(\<exists>j. rmatch (pattern_rx (c # p)) s i j) \<longleftrightarrow> (\<exists>m. i \<le> m \<and> m \<le> length s \<and> glob p (drop m s))"
    proof -
      have "(\<exists>j. rmatch (pattern_rx (c # p)) s i j) \<longleftrightarrow>
          (\<exists>m. i \<le> m \<and> m \<le> length s \<and> (\<exists>j. rmatch (pattern_rx p) s m j))"
        using True Cons.prems by (auto simp: rmatch_simps rmatch_star_any [OF assms])
      then show ?thesis using Cons.IH by blast
    qed
    also have "\<dots> \<longleftrightarrow> (\<exists>k\<le>length s - i. glob p (drop k (drop i s)))"
    proof (intro iffI; elim exE conjE)
      fix m assume m: "i \<le> m" "m \<le> length s" "glob p (drop m s)"
      then show "\<exists>k\<le>length s - i. glob p (drop k (drop i s))"
        by (intro exI [of _ "m - i"]) (simp add: diff_le_mono)
    next
      fix k assume k: "k \<le> length s - i" "glob p (drop k (drop i s))"
      then show "\<exists>m. i \<le> m \<and> m \<le> length s \<and> glob p (drop m s)"
        using Cons.prems by (intro exI [of _ "k + i"]) simp
    qed
    also have "\<dots> \<longleftrightarrow> glob (c # p) (drop i s)"
      using True by (simp only: glob.simps if_True list_ex_iff set_upt length_drop)
        (metis atLeastLessThan_iff less_Suc_eq_le zero_le)
    finally show ?thesis .
  next
    case False
    then show ?thesis using Cons
      by (cases "i < length s") (auto simp: rmatch_simps hd_drop_conv_nth tl_drop [symmetric] drop_Suc)
  qed
qed

section \<open>Classification against its specification\<close>

lemma filterM_Inr: "filterM p xs = Inr ys \<Longrightarrow> ys = filter (\<lambda>x. p x = Inr True) xs \<and> (\<forall>x\<in>set xs. \<exists>b. p x = Inr b)"
  by (induction xs arbitrary: ys) (auto simp: res_simps split: if_splits)

lemma set_set_union [simp]: "set (set_union xs ys) = set xs \<union> set ys"
  unfolding set_union_def by (induction ys arbitrary: xs) auto

lemma distinct_set_union [simp]: "distinct xs \<Longrightarrow> distinct (set_union xs ys)"
  unfolding set_union_def by (induction ys arbitrary: xs) auto

text \<open>What a rule contributes, and what a test should be expected to do.\<close>

definition rule_matches :: "test_case \<Rightarrow> rule \<Rightarrow> bool" where
  "rule_matches c r \<longleftrightarrow> Rule_Contains r (tc_path c) = Inr True"

definition rule_outcomes :: "nat \<Rightarrow> env \<Rightarrow> defs \<Rightarrow> rule \<Rightarrow> atom set" where
  "rule_outcomes lim env defs r = (case Rule_GetOutcomes lim env defs r of Inl _ \<Rightarrow> {} | Inr elms \<Rightarrow> set elms)"

definition expected_outcomes :: "nat \<Rightarrow> env \<Rightarrow> defs \<Rightarrow> rule list \<Rightarrow> test_case \<Rightarrow> atom set" where
  "expected_outcomes lim env defs rules c =
     (let os = \<Union> (rule_outcomes lim env defs ` {r \<in> set rules. rule_matches c r})
      in if os = {} then {Some PASS} else os)"

lemma classify_rules_loop:
  assumes "foldM (\<lambda>(outcomes, unused) r.
      res_bind (Rule_GetOutcomes lim env defs r) (\<lambda>elms.
        Inr (set_union outcomes elms, filter (\<lambda>u. rule_id u \<noteq> rule_id r) unused)))
    (outs, unused) matches = Inr (outs', unused')"
  shows "set outs' = set outs \<union> \<Union> (rule_outcomes lim env defs ` set matches)
     \<and> unused' = filter (\<lambda>u. rule_id u \<notin> rule_id ` set matches) unused"
  using assms
proof (induction matches arbitrary: outs unused)
  case Nil
  then show ?case by simp
next
  case (Cons r rs)
  from Cons.prems obtain elms where e: "Rule_GetOutcomes lim env defs r = Inr elms"
    and rest: "foldM (\<lambda>(outcomes, unused) r.
      res_bind (Rule_GetOutcomes lim env defs r) (\<lambda>elms.
        Inr (set_union outcomes elms, filter (\<lambda>u. rule_id u \<noteq> rule_id r) unused)))
      (set_union outs elms, filter (\<lambda>u. rule_id u \<noteq> rule_id r) unused) rs = Inr (outs', unused')"
    by (auto simp: res_simps)
  from Cons.IH [OF rest] e show ?case
    by (auto simp: rule_outcomes_def filter_filter conj_commute cong: filter_cong)
qed

text \<open>One turn of the loop over the tests.\<close>

lemma classify_case_Inr:
  assumes "classify_case lim env defs rules (res, unused, outs) c = Inr (res', unused', outs')"
  obtains ct where "res' = res @ [ct]" "set (ct_outcomes ct) = expected_outcomes lim env defs rules c"
    "ct_case ct = c\<lparr>tc_outcomes := ct_outcomes ct\<rparr>" "ct_parallel ct = tc_parallel c"
    "unused' = filter (\<lambda>u. rule_id u \<notin> rule_id ` {r \<in> set rules. rule_matches c r}) unused"
    "set outs' = set outs \<union> expected_outcomes lim env defs rules c"
proof -
  let ?M = "{r \<in> set rules. rule_matches c r}"
  from assms obtain matches os u where
    m: "filterM (\<lambda>r. Rule_Contains r (tc_path c)) rules = Inr matches"
    and f: "foldM (\<lambda>(outcomes, unused) r.
      res_bind (Rule_GetOutcomes lim env defs r) (\<lambda>elms.
        Inr (set_union outcomes elms, filter (\<lambda>u. rule_id u \<noteq> rule_id r) unused)))
      ([], unused) matches = Inr (os, u)"
    and r: "res' = res @ [ClassifiedTest_init (c\<lparr>tc_outcomes := if os = [] then [Some PASS] else os\<rparr>)
        (if os = [] then [Some PASS] else os)]"
      "unused' = u" "outs' = set_union outs (if os = [] then [Some PASS] else os)"
    by (auto simp: classify_case_def res_simps Let_def)
  have M: "set matches = ?M" using filterM_Inr [OF m] by (auto simp: rule_matches_def)
  note loop = classify_rules_loop [OF f, unfolded M]
  have "set (if os = [] then [Some PASS] else os) = expected_outcomes lim env defs rules c"
    using loop(1) set_empty [of os] by (auto simp: expected_outcomes_def Let_def simp del: set_empty)
  then show ?thesis using r loop by (intro that) (auto simp: ClassifiedTest_init_def)
qed

lemma classify_loop:
  assumes "foldM (classify_case lim env defs rules) (res, unused, outs) cases = Inr (res', unused', outs')"
  shows "\<exists>cts. res' = res @ cts \<and> list_all2 (\<lambda>c ct. set (ct_outcomes ct) = expected_outcomes lim env defs rules c
        \<and> ct_case ct = c\<lparr>tc_outcomes := ct_outcomes ct\<rparr> \<and> ct_parallel ct = tc_parallel c) cases cts
     \<and> unused' = filter (\<lambda>u. \<forall>c\<in>set cases. rule_id u \<notin> rule_id ` {r \<in> set rules. rule_matches c r}) unused
     \<and> set outs' = set outs \<union> (\<Union>c\<in>set cases. expected_outcomes lim env defs rules c)"
  using assms
proof (induction cases arbitrary: res unused outs)
  case Nil
  then show ?case by simp
next
  case (Cons c cs)
  from Cons.prems obtain r1 u1 o1 where
    1: "classify_case lim env defs rules (res, unused, outs) c = Inr (r1, u1, o1)"
    and 2: "foldM (classify_case lim env defs rules) (r1, u1, o1) cs = Inr (res', unused', outs')"
    by (auto simp: res_simps)
  from 1 obtain ct where ct: "r1 = res @ [ct]" "set (ct_outcomes ct) = expected_outcomes lim env defs rules c"
    "ct_case ct = c\<lparr>tc_outcomes := ct_outcomes ct\<rparr>" "ct_parallel ct = tc_parallel c"
    "u1 = filter (\<lambda>u. rule_id u \<notin> rule_id ` {r \<in> set rules. rule_matches c r}) unused"
    "set o1 = set outs \<union> expected_outcomes lim env defs rules c"
    by (rule classify_case_Inr)
  from Cons.IH [OF 2] obtain cts where cts: "res' = r1 @ cts"
    "list_all2 (\<lambda>c ct. set (ct_outcomes ct) = expected_outcomes lim env defs rules c
        \<and> ct_case ct = c\<lparr>tc_outcomes := ct_outcomes ct\<rparr> \<and> ct_parallel ct = tc_parallel c) cs cts"
    "unused' = filter (\<lambda>u. \<forall>c\<in>set cs. rule_id u \<notin> rule_id ` {r \<in> set rules. rule_matches c r}) u1"
    "set outs' = set o1 \<union> (\<Union>c\<in>set cs. expected_outcomes lim env defs rules c)"
    by blast
  show ?case
    using ct cts by (intro exI [of _ "ct # cts"]) (auto simp: filter_filter conj_commute)
qed

section \<open>Reading keeps what was read\<close>

text \<open>The identities of the rules are their positions.\<close>

definition all_rules :: "test_section list \<Rightarrow> rule list" where
  "all_rules sections = concat (map sec_rules sections)"

definition wf_rules :: "test_section list \<Rightarrow> bool" where
  "wf_rules sections \<longleftrightarrow> map rule_id (all_rules sections) = [0..<length (all_rules sections)]"

lemma all_rules_simps:
  "all_rules (ss @ [Section_init c]) = all_rules ss"
  "ss \<noteq> [] \<Longrightarrow> all_rules (add_rule raw p v ss) =
     all_rules ss @ [\<lparr>rule_id = length (all_rules ss), raw_path = raw, rule_path = p, rule_value = v\<rparr>]"
proof -
  show "all_rules (ss @ [Section_init c]) = all_rules ss"
    by (simp add: all_rules_def Section_init_def)
  assume "ss \<noteq> []"
  then obtain ts t where "ss = ts @ [t]" by (metis append_butlast_last_id)
  then show "all_rules (add_rule raw p v ss) =
     all_rules ss @ [\<lparr>rule_id = length (all_rules ss), raw_path = raw, rule_path = p, rule_value = v\<rparr>]"
    by (simp add: all_rules_def add_rule_def Section_AddRule_def Let_def)
qed

lemma wf_rules_init [simp]: "wf_rules (ss @ [Section_init c]) = wf_rules ss"
  by (simp add: wf_rules_def all_rules_simps)

lemma wf_rules_add_rule [simp]: "ss \<noteq> [] \<Longrightarrow> wf_rules ss \<Longrightarrow> wf_rules (add_rule raw p v ss)"
  by (simp add: wf_rules_def all_rules_simps)

text \<open>What the reader may do to the sections: it appends sections and adds rules to the last
  one only, so the sections that were there at the start stay as they are.\<close>

definition extends :: "test_section list \<Rightarrow> test_section list \<Rightarrow> bool" where
  "extends base ss \<longleftrightarrow> take (length base) ss = base \<and> length base < length ss"

lemma extends_steps:
  "extends base ss \<Longrightarrow> extends base (ss @ [Section_init c])"
  "extends base ss \<Longrightarrow> extends base (add_rule raw p v ss)"
  by (auto simp: extends_def add_rule_def Let_def take_butlast)

lemma ReadConfiguration_lines_inv:
  assumes "ReadConfiguration_lines lines st = Inr (ok, st')"
    and "extends base (cs_sections st)" and "wf_rules (cs_sections st)"
  shows "extends base (cs_sections st') \<and> wf_rules (cs_sections st')"
  using assms
proof (induction lines st arbitrary: ok st' rule: ReadConfiguration_lines.induct)
  case (1 st)
  then show ?case by simp
next
  case (2 line lines st)
  have ne: "cs_sections st \<noteq> []" using "2.prems"(2) by (auto simp: extends_def)
  show ?case
    using 2 ne
    by (auto simp: res_simps Let_def extends_steps split: option.splits prod.splits)
qed

lemma filterM_total: "(\<And>x. x \<in> set xs \<Longrightarrow> \<exists>b. p x = Inr b) \<Longrightarrow> \<exists>ys. filterM p xs = Inr ys"
  by (induction xs) (fastforce simp: res_simps)+

lemma foldM_total: "(\<And>s x. x \<in> set xs \<Longrightarrow> \<exists>s'. f s x = Inr s') \<Longrightarrow> \<exists>s'. foldM f s xs = Inr s'"
proof (induction xs arbitrary: s)
  case Nil
  then show ?case by simp
next
  case (Cons x xs)
  then obtain s1 where "f s x = Inr s1" by fastforce
  with Cons show ?case by simp
qed

text \<open>Sections and rules that can be used: conditions evaluate, patterns are regular expressions,
  outcomes are lists.\<close>

definition usable_rule :: "nat \<Rightarrow> env \<Rightarrow> defs \<Rightarrow> rule \<Rightarrow> bool" where
  "usable_rule lim env defs r \<longleftrightarrow> \<not> isl (Rule_GetOutcomes lim env defs r) \<and>
     (\<forall>p\<in>set (rule_path r). \<not> isl (re_compile (''^'' @ replace p ''*'' ''.*'' @ ''$'')))"

lemma not_isl_iff: "\<not> isl x \<longleftrightarrow> (\<exists>y. x = Inr y)"
  by (cases x) auto

definition enabled_rules :: "nat \<Rightarrow> env \<Rightarrow> defs \<Rightarrow> test_section list \<Rightarrow> rule list" where
  "enabled_rules lim env defs sections =
     all_rules (filter (\<lambda>s. section_enabled lim env defs s = Inr True) sections)"

lemma Contains_loop_total:
  "length path \<le> length file \<Longrightarrow>
     (\<forall>p\<in>set path. \<exists>rx. re_compile (''^'' @ replace p ''*'' ''.*'' @ ''$'') = Inr rx) \<Longrightarrow>
     \<exists>b. Contains_loop path file = Inr b"
  by (induction path "file" rule: Contains_loop.induct) (fastforce simp: Pattern_match_def)+

lemma Rule_Contains_total: "usable_rule lim env defs r \<Longrightarrow> \<exists>b. Rule_Contains r path = Inr b"
  by (auto simp: usable_rule_def not_isl_iff Rule_Contains_def intro: Contains_loop_total)

lemma classify_case_total:
  assumes "\<And>r. r \<in> set rules \<Longrightarrow> usable_rule lim env defs r"
  shows "\<exists>st'. classify_case lim env defs rules st c = Inr st'"
proof -
  obtain result unused outs where st: "st = (result, unused, outs)" by (cases st)
  have "\<exists>ms. filterM (\<lambda>r. Rule_Contains r (tc_path c)) rules = Inr ms"
    using assms Rule_Contains_total by (intro filterM_total) blast
  then obtain ms where ms: "filterM (\<lambda>r. Rule_Contains r (tc_path c)) rules = Inr ms" by blast
  have "set ms \<subseteq> set rules" using filterM_Inr [OF ms] by auto
  then have "\<exists>s'. foldM (\<lambda>(outcomes, unused) r.
         res_bind (Rule_GetOutcomes lim env defs r) (\<lambda>elms.
           Inr (set_union outcomes elms, filter (\<lambda>u. rule_id u \<noteq> rule_id r) unused)))
       ([], unused) ms = Inr s'"
    using assms by (intro foldM_total) (fastforce simp: usable_rule_def not_isl_iff)
  with ms show ?thesis by (auto simp: classify_case_def st Let_def split: prod.splits)
qed

lemma distinct_enabled_ids:
  "distinct (map rule_id (all_rules ss)) \<Longrightarrow> distinct (map rule_id (all_rules (filter P ss)))"
  by (induction ss) (auto simp: all_rules_def)

lemma wf_rules_inj: "wf_rules ss \<Longrightarrow> inj_on rule_id (set (enabled_rules lim env defs ss))"
  using distinct_enabled_ids [of ss "\<lambda>s. section_enabled lim env defs s = Inr True"]
  by (simp add: wf_rules_def enabled_rules_def distinct_map)

text \<open>Matching a pattern of plain characters is globbing.\<close>

lemma match_plain:
  assumes "plain_pattern p" and "newline \<notin> set s"
  shows "Pattern_match p s = Inr (glob p s)"
proof -
  have "(\<exists>j. rmatch (RSeq RBegin (pattern_rx p)) s 0 j) \<longleftrightarrow> (\<exists>j. rmatch (pattern_rx p) s 0 j)"
    by (auto simp: rmatch_simps)
  then show ?thesis
    using compile_plain [OF assms(1)] rmatch_pattern_rx [OF assms(2), of 0 p]
    by (simp add: Pattern_match_def re_match_iff)
qed

section \<open>Properties\<close>

text \<open>
  A path pattern of a status file without regular-expression characters is a glob: the
  pattern matches a name exactly when the name is the pattern with each \<open>*\<close> replaced by some
  text, and the match raises no exception.
\<close>

theorem Pattern_match_glob:
  assumes "plain_pattern p" and "newline \<notin> set s"
  shows "Pattern_match p s = Inr (glob p s)"
  using assms by (rule match_plain)

theorem Pattern_match_glob_witness:
  "Pattern_match ''test-*-http*'' ''test-abc-https'' = Inr True
   \<and> Pattern_match ''test-*-http*'' ''test-http'' = Inr False"
proof -
  have p: "plain_pattern ''test-*-http*''"
    and g: "glob ''test-*-http*'' ''test-abc-https''" "\<not> glob ''test-*-http*'' ''test-http''"
    by code_simp+
  show ?thesis
    using Pattern_match_glob [OF p, of "''test-abc-https''"] Pattern_match_glob [OF p, of "''test-http''"] g
    by simp
qed



text \<open>
  Reading a status file only appends: the sections read before keep their conditions and their
  rules, a new section is there even for an empty file, and the identities of the rules stay
  unique.
\<close>

theorem ReadConfigurationInto_extends:
  assumes "ReadConfigurationInto lines sections defs = Inr (ok, sections', defs')"
    and "wf_rules sections"
  shows "take (length sections) sections' = sections \<and> length sections < length sections'
    \<and> wf_rules sections'"
proof -
  let ?st = "\<lparr>cs_sections = sections @ [Section_init (Some (Constant True))], cs_defs = defs, cs_prefix = []\<rparr>"
  from assms(1) obtain st where st: "ReadConfiguration_lines (ReadLinesFrom lines) ?st = Inr (ok, st)"
    and s: "sections' = cs_sections st"
    by (auto simp: ReadConfigurationInto_def res_simps)
  have "extends sections (cs_sections ?st)" by (simp add: extends_def)
  from ReadConfiguration_lines_inv [OF st this] assms(2) show ?thesis
    by (simp add: s extends_def)
qed

theorem ReadConfigurationInto_extends_witness:
  "\<exists>ss ds. ReadConfigurationInto [''prefix simple'', ''[$mode == debug]  # slow'', ''test-a : FAIL''] [] [] = Inr (True, ss, ds)
     \<and> 0 < length ss \<and> wf_rules ss"
proof -
  let ?lines = "[''prefix simple'', ''[$mode == debug]  # slow'', ''test-a : FAIL'']"
  have "case ReadConfigurationInto ?lines [] [] of Inl _ \<Rightarrow> False | Inr (ok, ss, ds) \<Rightarrow> ok"
    by code_simp
  then obtain ss ds where r: "ReadConfigurationInto ?lines [] [] = Inr (True, ss, ds)"
    by (auto split: sum.splits prod.splits)
  show ?thesis
    using ReadConfigurationInto_extends [OF r] r by (simp add: wf_rules_def all_rules_def)
qed

text \<open>
  A rule that only says \<open>value if condition\<close> aborts the whole classification when its condition
  is false: \<open>Rule.GetOutcomes\<close> asserts that the outcomes are a \<open>ListSet\<close>, and a false \<open>if\<close> gives
  the empty set of another class.
\<close>

theorem conditional_rule_asserts:
  assumes "rule_value r = Operation e ''if'' cond" and "Evaluate lim env defs cond = Inr False"
    and "rule_matches c r"
  shows "Rule_GetOutcomes (Suc lim) env defs r = Inl AssertionError
    \<and> classify_case (Suc lim) env defs [r] st c = Inl AssertionError"
proof -
  have g: "Rule_GetOutcomes (Suc lim) env defs r = Inl AssertionError"
    using assms(1,2) by (simp add: Rule_GetOutcomes_def)
  moreover have "filterM (\<lambda>r. Rule_Contains r (tc_path c)) [r] = Inr [r]"
    using assms(3) by (simp add: rule_matches_def)
  ultimately show ?thesis by (cases st) (simp add: classify_case_def)
qed

theorem conditional_rule_asserts_witness:
  "let r = \<lparr>rule_id = 0, raw_path = ''a'', rule_path = [''simple''],
        rule_value = Operation (Outcome ''fail'') ''if'' (Operation (Variable ''mode'') ''=='' (Outcome ''debug''))\<rparr>;
       c = \<lparr>tc_path = [''simple'', ''test-b''], tc_arch = ''none'', tc_mode = ''release'', tc_parallel = True,
             tc_variant_flags = [], tc_outcomes = []\<rparr>
   in classify_case 9 [(''mode'', Some ''release'')] [] [r] ([], [r], []) c = Inl AssertionError"
proof -
  define r where "r = \<lparr>rule_id = 0, raw_path = ''a'', rule_path = [''simple''],
        rule_value = Operation (Outcome ''fail'') ''if'' (Operation (Variable ''mode'') ''=='' (Outcome ''debug''))\<rparr>"
  define c where "c = \<lparr>tc_path = [''simple'', ''test-b''], tc_arch = ''none'', tc_mode = ''release'', tc_parallel = True,
             tc_variant_flags = [], tc_outcomes = []\<rparr>"
  have 1: "rule_value r = Operation (Outcome ''fail'') ''if'' (Operation (Variable ''mode'') ''=='' (Outcome ''debug''))"
    by (simp add: r_def)
  have 2: "Evaluate 8 [(''mode'', Some ''release'')] [] (Operation (Variable ''mode'') ''=='' (Outcome ''debug'')) = Inr False"
    by code_simp
  have 3: "rule_matches c r" unfolding r_def c_def by code_simp
  show ?thesis
    using conditional_rule_asserts [OF 1 2 3] unfolding r_def [symmetric] c_def [symmetric] by (simp add: Let_def)
qed

text \<open>
  Listing is complete and sorted: the tests of \<open>LiteralTestSuite.ListTests\<close> are, as a
  multiset, the tests that the matching suites list, with no variant flags, in the order of
  their names.
\<close>

theorem ListTests_sorted:
  assumes "\<And>s. s \<in> set suites \<Longrightarrow> ts_ListTests s (current_path @ [ts_name s]) path arch mode = Inr (tests s)"
    and "plain_pattern p" and "path = p # rest" and "\<And>s. s \<in> set suites \<Longrightarrow> newline \<notin> set (ts_name s)"
  shows "\<exists>result. LiteralTestSuite_ListTests suites current_path path arch mode = Inr result
    \<and> sorted (map tc_name result)
    \<and> mset result = mset (concat (map (\<lambda>s. map (\<lambda>t. t\<lparr>tc_variant_flags := []\<rparr>) (tests s))
                                   (filter (\<lambda>s. glob p (ts_name s)) suites)))"
proof -
  let ?f = "\<lambda>result s. res_bind (Pattern_match p (ts_name s)) (\<lambda>m.
              if m then AddTestsToList s result (current_path @ [ts_name s]) path arch mode
              else Inr result)"
  have loop: "foldM ?f acc ss = Inr (acc @ concat (map (\<lambda>s. map (\<lambda>t. t\<lparr>tc_variant_flags := []\<rparr>) (tests s))
                                   (filter (\<lambda>s. glob p (ts_name s)) ss)))"
    if "set ss \<subseteq> set suites" for acc ss
    using that
  proof (induction ss arbitrary: acc)
    case (Cons s ss)
    then show ?case using assms(1) [of s] assms(4) [of s]
      by (simp add: match_plain [OF assms(2)] AddTestsToList_def VARIANT_FLAGS_def)
  qed simp
  show ?thesis
    using loop [of suites "[]"] unfolding assms(3) by (simp add: LiteralTestSuite_ListTests_def)
qed

theorem ListTests_sorted_witness:
  "let t = (\<lambda>n. \<lparr>tc_path = [''simple'', n], tc_arch = ''none'', tc_mode = ''release'', tc_parallel = True,
             tc_variant_flags = [], tc_outcomes = []\<rparr>);
       s = \<lparr>ts_name = ''simple'', ts_ListTests = (\<lambda>cp p a m. Inr [t ''test-b'', t ''test-a''])\<rparr>
   in \<exists>result. LiteralTestSuite_ListTests [s] [] [''simp*''] ''none'' ''release'' = Inr result
        \<and> sorted (map tc_name result) \<and> mset result = {#t ''test-a'', t ''test-b''#}"
proof -
  define t where "t = (\<lambda>n. \<lparr>tc_path = [''simple'', n], tc_arch = ''none'', tc_mode = ''release'', tc_parallel = True,
             tc_variant_flags = [], tc_outcomes = []\<rparr>)"
  define s where "s = \<lparr>ts_name = ''simple'', ts_ListTests = (\<lambda>cp p a m. Inr [t ''test-b'', t ''test-a''])\<rparr>"
  have p: "plain_pattern ''simp*''" and g: "glob ''simp*'' ''simple''" by code_simp+
  have "\<exists>result. LiteralTestSuite_ListTests [s] [] [''simp*''] ''none'' ''release'' = Inr result
        \<and> sorted (map tc_name result)
        \<and> mset result = mset (concat (map (\<lambda>s. map (\<lambda>t. t\<lparr>tc_variant_flags := []\<rparr>) [t ''test-b'', t ''test-a''])
                                   (filter (\<lambda>s. glob ''simp*'' (ts_name s)) [s])))"
    by (rule ListTests_sorted [where tests = "\<lambda>s. [t ''test-b'', t ''test-a'']", OF _ p refl])
      (auto simp: s_def)
  then show ?thesis
    using g unfolding t_def [symmetric] s_def [symmetric] Let_def
    by (simp add: s_def) (simp add: t_def add_mset_commute)
qed

end
