(* ===== verification/Test_Output.thy ===== *)
theory Test_Output
  imports Test_Config Complex_Main "HOL-Library.Word"
begin

text \<open>
  Running one test (\<open>src/tools/test.py\<close>, \<open>src/tools/utils.py\<close>): guessing the platform, the
  \<open>Context\<close>, the polling loop of \<open>RunProcess\<close>, \<open>Execute\<close>, and how \<open>TestOutput\<close> turns an
  exit code into an outcome. What the operating system answers (the clock, \<open>poll\<close>, \<open>wait\<close>,
  \<open>unlink\<close>) is an argument. Seconds are rational numbers: the sources use floats, and rounding is
  left out. Shown here: the polling loop ends when there is a timeout, its sleeps stay between
  the initial and the maximal sleep time, and what its result says about the process; which exit
  codes count as crashes.
\<close>

unbundle bit_operations_syntax

section \<open>The platform\<close>

text \<open>\<open>system\<close> is \<open>platform.system()\<close>, \<open>machine\<close> is \<open>platform.machine()\<close>.\<close>

definition GuessOS :: "string \<Rightarrow> string option" where
  "GuessOS system =
     (if system = ''Linux'' then Some ''linux''
      else if system = ''Darwin'' then Some ''macos''
      else if find system ''CYGWIN'' \<ge> 0 then Some ''cygwin''
      else if system = ''Windows'' \<or> system = ''Microsoft'' then Some ''win32''
      else if system = ''FreeBSD'' then Some ''freebsd''
      else if system = ''OpenBSD'' then Some ''openbsd''
      else if system = ''SunOS'' then Some ''solaris''
      else if system = ''NetBSD'' then Some ''netbsd''
      else None)"

definition re_match_str :: "string \<Rightarrow> string \<Rightarrow> bool" where
  "re_match_str pat s = (case re_compile pat of Inl _ \<Rightarrow> False | Inr rx \<Rightarrow> re_match rx s)"

definition GuessArchitecture :: "string \<Rightarrow> string option" where
  "GuessArchitecture machine =
     (let id = lower machine in
      if startswith id ''arm'' \<or> id = ''aarch64'' then Some ''arm''
      else if id = [] \<or> re_match_str ''(x|i[3-6])86$'' id then Some ''ia32''
      else if id = ''i86pc'' then Some ''ia32''
      else if id = ''x86_64'' then Some ''ia32''
      else if id = ''amd64'' then Some ''ia32''
      else None)"

definition GuessWordsize :: "string \<Rightarrow> string" where
  "GuessWordsize machine = (if find machine ''64'' \<ge> 0 then ''64'' else ''32'')"

definition IsWindows :: "string \<Rightarrow> bool" where
  "IsWindows system = (GuessOS system = Some ''win32'')"

section \<open>The context\<close>

record test_context =
  cx_workspace :: string
  cx_buildspace :: string
  cx_verbose :: bool
  cx_vm_root :: string
  cx_timeout :: int
  cx_processor :: "string list \<Rightarrow> string list"
  cx_suppress_dialogs :: bool
  cx_store_unexpected_output :: bool

definition SUFFIX :: "(string, string) dict" where
  "SUFFIX = [(''debug'', ''_g''), (''release'', '''')]"

definition FLAGS :: "(string, string list) dict" where
  "FLAGS = [(''debug'', [''--enable-slow-asserts'', ''--debug-code'', ''--verify-heap'']), (''release'', [])]"

definition TIMEOUT_SCALEFACTOR :: "(string, (string, int) dict) dict" where
  "TIMEOUT_SCALEFACTOR =
     [(''arm'', [(''debug'', 8), (''release'', 2)]),
      (''ia32'', [(''debug'', 4), (''release'', 1)])]"

text \<open>\<open>out_dir_exists\<close> answers \<open>exists(out_dir)\<close>; \<open>os.path.abspath\<close> is an argument, as it reads the
  current directory.\<close>

definition Context_GetVm :: "string \<Rightarrow> bool \<Rightarrow> (string \<Rightarrow> string) \<Rightarrow> string \<Rightarrow> string \<Rightarrow> string" where
  "Context_GetVm system out_dir_exists abspath arch mode =
     (let name = (if arch = ''none'' then
                    (if mode = ''debug'' then ''out/Debug/iojs'' else ''out/Release/iojs'')
                  else ''out/'' @ arch @ ''.'' @ mode @ ''/iojs'')
      in if IsWindows system then
           (if \<not> out_dir_exists then
              (if mode = ''debug'' then abspath ''Debug/iojs.exe'' else abspath ''Release/iojs.exe'')
            else abspath (name @ ''.exe''))
         else name)"

definition Context_GetVmFlags :: "test_case \<Rightarrow> string \<Rightarrow> string list res" where
  "Context_GetVmFlags testcase mode =
     res_bind (dict_get FLAGS mode) (\<lambda>fl. Inr (tc_variant_flags testcase @ fl))"

definition Context_GetTimeout :: "test_context \<Rightarrow> string \<Rightarrow> string \<Rightarrow> int res" where
  "Context_GetTimeout cx machine mode =
     res_bind (dict_get TIMEOUT_SCALEFACTOR
         (case GuessArchitecture machine of None \<Rightarrow> ''ia32'' | Some a \<Rightarrow> if a = [] then ''ia32'' else a)) (\<lambda>d.
     res_bind (dict_get d mode) (\<lambda>k. Inr (cx_timeout cx * k)))"

section \<open>Running a process\<close>

definition MAX_SLEEP_TIME :: rat where "MAX_SLEEP_TIME = 1 / 10"
definition INITIAL_SLEEP_TIME :: rat where "INITIAL_SLEEP_TIME = 1 / 10000"
definition SLEEP_TIME_FACTOR :: rat where "SLEEP_TIME_FACTOR = 5 / 4"

definition next_sleep :: "rat \<Rightarrow> rat" where
  "next_sleep sleep_time =
     (let s = sleep_time * SLEEP_TIME_FACTOR in if s > MAX_SLEEP_TIME then MAX_SLEEP_TIME else s)"

text \<open>
  What the process and the clock do: \<open>pr_now i\<close> is \<open>time.time()\<close> and \<open>pr_poll i\<close> is
  \<open>process.poll()\<close> in turn \<open>i\<close> of the loop, \<open>pr_start\<close> the time when the end time is computed,
  \<open>pr_wait\<close> what \<open>process.wait()\<close> returns after the kill.
\<close>

record process =
  pr_start :: rat
  pr_now :: "nat \<Rightarrow> rat"
  pr_poll :: "nat \<Rightarrow> int option"
  pr_wait :: int

text \<open>The \<open>while\<close> loop from turn \<open>i\<close>; it returns the exit code, whether the process timed out and
  the times slept. No result is a loop that runs for ever.\<close>

partial_function (option) RunProcess_loop ::
  "process \<Rightarrow> rat option \<Rightarrow> nat \<Rightarrow> rat \<Rightarrow> rat list \<Rightarrow> (int \<times> bool \<times> rat list) option" where
  [code]: "RunProcess_loop p end_time i sleep_time slept =
     (if (case end_time of None \<Rightarrow> False | Some e \<Rightarrow> pr_now p i \<ge> e) then Some (pr_wait p, True, slept)
      else case pr_poll p i of
             Some exit_code \<Rightarrow> Some (exit_code, False, slept @ [sleep_time])
           | None \<Rightarrow> RunProcess_loop p end_time (Suc i) (next_sleep sleep_time) (slept @ [sleep_time]))"

definition RunProcess :: "process \<Rightarrow> rat option \<Rightarrow> (int \<times> bool \<times> rat list) option" where
  "RunProcess p timeout =
     RunProcess_loop p (case timeout of None \<Rightarrow> None | Some t \<Rightarrow> Some (pr_start p + t)) 0 INITIAL_SLEEP_TIME []"

text \<open>\<open>unlink i\<close> is the error number of attempt \<open>i\<close>, if it fails; the result is the number of
  attempts and the error that is printed.\<close>

definition EACCES :: int where "EACCES = 13"

partial_function (option) CheckedUnlink ::
  "string \<Rightarrow> (nat \<Rightarrow> int option) \<Rightarrow> nat \<Rightarrow> (nat \<times> int option) option" where
  [code]: "CheckedUnlink platform unlink i =
     (case unlink i of
        None \<Rightarrow> Some (Suc i, None)
      | Some errno \<Rightarrow>
          if platform = ''win32'' \<and> errno = EACCES then CheckedUnlink platform unlink (Suc i)
          else Some (Suc i, Some errno))"

section \<open>Outputs\<close>

record command_output =
  co_exit_code :: int
  co_timed_out :: bool
  co_stdout :: string
  co_stderr :: string
  co_failed :: "bool option"

definition CommandOutput_init :: "int \<Rightarrow> bool \<Rightarrow> string \<Rightarrow> string \<Rightarrow> command_output" where
  "CommandOutput_init exit_code timed_out out err =
     \<lparr>co_exit_code = exit_code, co_timed_out = timed_out, co_stdout = out, co_stderr = err, co_failed = None\<rparr>"

text \<open>The environment of the process, and what it leaves in the two temporary files.\<close>

definition extend_environ :: "(string, string) dict \<Rightarrow> (string, string) dict \<Rightarrow> (string, string) dict" where
  "extend_environ os_environ env = foldl (\<lambda>d (k, v). dset d k v) os_environ env"

text \<open>\<open>spawn\<close> starts the command in an environment: the process, and the contents of the files
  once it has ended.\<close>

definition Execute ::
  "(string list \<Rightarrow> (string, string) dict \<Rightarrow> process \<times> string \<times> string) \<Rightarrow> (string, string) dict
     \<Rightarrow> string list \<Rightarrow> rat option \<Rightarrow> (string, string) dict \<Rightarrow> command_output option" where
  "Execute spawn os_environ args timeout env =
     (let (p, output, errors) = spawn args (extend_environ os_environ env) in
      case RunProcess p timeout of
        None \<Rightarrow> None
      | Some (exit_code, timed_out, slept) \<Rightarrow> Some (CommandOutput_init exit_code timed_out output errors))"

definition ExecuteNoCapture ::
  "(string list \<Rightarrow> process) \<Rightarrow> string list \<Rightarrow> rat option \<Rightarrow> command_output option" where
  "ExecuteNoCapture spawn args timeout =
     (case RunProcess (spawn args) timeout of
        None \<Rightarrow> None
      | Some (exit_code, timed_out, slept) \<Rightarrow> Some (CommandOutput_init exit_code False '''' ''''))"

definition BuildRequirements ::
  "(string list \<Rightarrow> process) \<Rightarrow> test_context \<Rightarrow> string list \<Rightarrow> string list \<Rightarrow> string list \<Rightarrow> bool option" where
  "BuildRequirements spawn cx requirements mode scons_flags =
     (let command_line = [''scons'', ''-Y'', cx_workspace cx, ''mode='' @ join '','' mode] @ requirements @ scons_flags
      in case ExecuteNoCapture spawn command_line None of
           None \<Rightarrow> None
         | Some output \<Rightarrow> Some (co_exit_code output = 0))"

text \<open>What a subclass of \<open>TestCase\<close> may override, and the base class.\<close>

record case_class =
  cc_IsNegative :: bool
  cc_IsFailureOutput :: "command_output \<Rightarrow> bool"

definition TestCase_class :: case_class where
  "TestCase_class = \<lparr>cc_IsNegative = False, cc_IsFailureOutput = (\<lambda>output. co_exit_code output \<noteq> 0)\<rparr>"

record test_output =
  to_test :: test_case
  to_command :: "string list"
  to_output :: command_output
  to_store_unexpected_output :: bool

text \<open>\<open>DidFail\<close> stores its answer in the output.\<close>

definition DidFail :: "case_class \<Rightarrow> command_output \<Rightarrow> bool \<times> command_output" where
  "DidFail cc output =
     (case co_failed output of
        None \<Rightarrow> let b = cc_IsFailureOutput cc output in (b, output\<lparr>co_failed := Some b\<rparr>)
      | Some b \<Rightarrow> (b, output))"

definition SIGABRT :: int where "SIGABRT = 6"

definition HasCrashed :: "string \<Rightarrow> test_output \<Rightarrow> bool" where
  "HasCrashed system out =
     (if IsWindows system then
        0x80000000 AND co_exit_code (to_output out) \<noteq> 0 \<and> \<not> (0x3FFFFF00 AND co_exit_code (to_output out) \<noteq> 0)
      else if co_timed_out (to_output out) then False
      else co_exit_code (to_output out) < 0 \<and> co_exit_code (to_output out) \<noteq> - SIGABRT)"

definition HasTimedOut :: "test_output \<Rightarrow> bool" where
  "HasTimedOut out = co_timed_out (to_output out)"

definition HasFailed :: "case_class \<Rightarrow> test_output \<Rightarrow> bool \<times> test_output" where
  "HasFailed cc out =
     (let (execution_failed, output) = DidFail cc (to_output out); out' = out\<lparr>to_output := output\<rparr>
      in if cc_IsNegative cc then (\<not> execution_failed, out') else (execution_failed, out'))"

definition actual_outcome :: "string \<Rightarrow> case_class \<Rightarrow> test_output \<Rightarrow> string \<times> test_output" where
  "actual_outcome system cc out =
     (if HasCrashed system out then (CRASH, out)
      else if HasTimedOut out then (TIMEOUT, out)
      else case HasFailed cc out of (failed, out') \<Rightarrow> if failed then (FAIL, out') else (PASS, out'))"

definition UnexpectedOutput :: "string \<Rightarrow> case_class \<Rightarrow> test_output \<Rightarrow> bool \<times> test_output" where
  "UnexpectedOutput system cc out =
     (case actual_outcome system cc out of (outcome, out') \<Rightarrow>
        (Some outcome \<notin> set (tc_outcomes (to_test out)), out'))"

definition HasPreciousOutput :: "string \<Rightarrow> case_class \<Rightarrow> test_output \<Rightarrow> bool \<times> test_output" where
  "HasPreciousOutput system cc out =
     (case UnexpectedOutput system cc out of (u, out') \<Rightarrow> (u \<and> to_store_unexpected_output out, out'))"

text \<open>\<open>TestCase.Run\<close> with the command of the subclass; \<open>None\<close> when the process never ends.\<close>

definition TestCase_RunCommand ::
  "(string list \<Rightarrow> (string, string) dict \<Rightarrow> process \<times> string \<times> string) \<Rightarrow> (string, string) dict \<Rightarrow>
     test_context \<Rightarrow> string \<Rightarrow> test_case \<Rightarrow> string list \<Rightarrow> (string, string) dict \<Rightarrow> test_output option res" where
  "TestCase_RunCommand spawn os_environ cx machine c command env =
     (let full_command = cx_processor cx command in
      res_bind (Context_GetTimeout cx machine (tc_mode c)) (\<lambda>timeout.
      Inr (case Execute spawn os_environ full_command (Some (of_int timeout)) env of
             None \<Rightarrow> None
           | Some output \<Rightarrow> Some \<lparr>to_test = c, to_command = full_command, to_output = output,
                                  to_store_unexpected_output = cx_store_unexpected_output cx\<rparr>)))"

definition TestCase_Run ::
  "(string list \<Rightarrow> (string, string) dict \<Rightarrow> process \<times> string \<times> string) \<Rightarrow> (string, string) dict \<Rightarrow>
     test_context \<Rightarrow> string \<Rightarrow> test_case \<Rightarrow> nat \<Rightarrow> string list \<Rightarrow> test_output option res" where
  "TestCase_Run spawn os_environ cx machine c thread_id command =
     TestCase_RunCommand spawn os_environ cx machine c command [(''TEST_THREAD_ID'', nat_str thread_id)]"

section \<open>The polling loop\<close>

definition deadline :: "process \<Rightarrow> rat option \<Rightarrow> nat \<Rightarrow> bool" where
  "deadline p end_time i = (case end_time of None \<Rightarrow> False | Some e \<Rightarrow> pr_now p i \<ge> e)"

definition end_time_of :: "process \<Rightarrow> rat option \<Rightarrow> rat option" where
  "end_time_of p timeout = (case timeout of None \<Rightarrow> None | Some t \<Rightarrow> Some (pr_start p + t))"

text \<open>The time slept in turn \<open>i\<close>.\<close>

definition sleep_at :: "nat \<Rightarrow> rat" where
  "sleep_at i = (next_sleep ^^ i) INITIAL_SLEEP_TIME"

lemmas sleep_consts = MAX_SLEEP_TIME_def INITIAL_SLEEP_TIME_def SLEEP_TIME_FACTOR_def

lemma next_sleep_bounds:
  "INITIAL_SLEEP_TIME \<le> s \<Longrightarrow> s \<le> MAX_SLEEP_TIME \<Longrightarrow> INITIAL_SLEEP_TIME \<le> next_sleep s \<and> next_sleep s \<le> MAX_SLEEP_TIME"
  by (auto simp: next_sleep_def sleep_consts Let_def)

lemma sleep_at_bounds: "INITIAL_SLEEP_TIME \<le> sleep_at i \<and> sleep_at i \<le> MAX_SLEEP_TIME"
  unfolding sleep_at_def by (induction i) (auto simp: next_sleep_bounds, auto simp: sleep_consts)

lemma sleep_at_mono: "sleep_at i \<le> sleep_at (Suc i)"
proof -
  have "s \<le> next_sleep s" if "INITIAL_SLEEP_TIME \<le> s" "s \<le> MAX_SLEEP_TIME" for s
    using that by (auto simp: next_sleep_def sleep_consts Let_def)
  then show ?thesis using sleep_at_bounds [of i] by (simp add: sleep_at_def)
qed

text \<open>The loop stops in the first turn in which the deadline has passed or the process is seen to
  have ended.\<close>

lemma RunProcess_loop_first:
  assumes "i \<le> k" and "\<And>j. i \<le> j \<Longrightarrow> j < k \<Longrightarrow> \<not> deadline p e j \<and> pr_poll p j = None"
    and "deadline p e k \<or> pr_poll p k \<noteq> None"
  shows "RunProcess_loop p e i (sleep_at i) slept =
     (if deadline p e k then Some (pr_wait p, True, slept @ map sleep_at [i..<k])
      else Some (the (pr_poll p k), False, slept @ map sleep_at [i..<Suc k]))"
  using assms
proof (induction "k - i" arbitrary: i slept)
  case 0
  then have "i = k" by simp
  with 0 show ?case
    by (subst RunProcess_loop.simps) (auto simp: deadline_def)
next
  case (Suc d)
  then have i: "i < k" by simp
  then have now: "\<not> deadline p e i" "pr_poll p i = None" using Suc.prems(2) by auto
  have upt: "[i..<k] = i # [Suc i..<k]" "[i..<Suc k] = i # [Suc i..<Suc k]"
    using i by (simp_all add: upt_conv_Cons del: upt_Suc)
  have "RunProcess_loop p e i (sleep_at i) slept =
      RunProcess_loop p e (Suc i) (sleep_at (Suc i)) (slept @ [sleep_at i])"
    using now by (subst RunProcess_loop.simps) (simp add: deadline_def sleep_at_def)
  also have "\<dots> = (if deadline p e k then Some (pr_wait p, True, (slept @ [sleep_at i]) @ map sleep_at [Suc i..<k])
      else Some (the (pr_poll p k), False, (slept @ [sleep_at i]) @ map sleep_at [Suc i..<Suc k]))"
    using Suc by (intro Suc.hyps(1)) auto
  finally show ?case by (simp add: upt del: upt_Suc)
qed

lemma RunProcess_first_turn:
  assumes "\<And>j. j < k \<Longrightarrow> \<not> deadline p (end_time_of p timeout) j \<and> pr_poll p j = None"
    and "deadline p (end_time_of p timeout) k \<or> pr_poll p k \<noteq> None"
  shows "RunProcess p timeout =
     (if deadline p (end_time_of p timeout) k then Some (pr_wait p, True, map sleep_at [0..<k])
      else Some (the (pr_poll p k), False, map sleep_at [0..<Suc k]))"
  using RunProcess_loop_first [of 0 k p "end_time_of p timeout" "[]"] assms
  by (simp add: RunProcess_def end_time_of_def sleep_at_def)

text \<open>A clock that advances at least by the time slept passes every deadline.\<close>

lemma clock_passes:
  assumes "\<And>i. pr_now p i + sleep_at i \<le> pr_now p (Suc i)"
  shows "\<exists>k. deadline p (Some e) k"
proof -
  have grow: "pr_now p 0 + of_nat i * INITIAL_SLEEP_TIME \<le> pr_now p i" for i
  proof (induction i)
    case (Suc i)
    then show ?case using assms [of i] sleep_at_bounds [of i] by (simp add: algebra_simps)
  qed simp
  obtain k :: nat where "(e - pr_now p 0) / INITIAL_SLEEP_TIME < of_nat k"
    using reals_Archimedean2 by blast
  then have "e - pr_now p 0 < of_nat k * INITIAL_SLEEP_TIME"
    by (simp add: INITIAL_SLEEP_TIME_def field_simps)
  with grow [of k] have "pr_now p k \<ge> e" by linarith
  then show ?thesis by (auto simp: deadline_def)
qed

section \<open>Exit codes\<close>

lemma and_windows_masks:
  fixes e :: int
  shows "0x80000000 AND e = 0 \<longleftrightarrow> \<not> bit e 31"
    and "0x3FFFFF00 AND e = 0 \<longleftrightarrow> (e div 256) mod 2 ^ 22 = 0"
proof -
  have "(0x80000000 :: int) = 2 ^ 31" by simp
  then show "0x80000000 AND e = 0 \<longleftrightarrow> \<not> bit e 31"
    by (simp only: and_exp_eq_0_iff_not_bit and.commute)
  have m: "(0x3FFFFF00 :: int) = push_bit 8 (mask 22)"
    by (simp add: push_bit_eq_mult mask_eq_exp_minus_1)
  have "push_bit 8 (mask 22) AND e = push_bit 8 (take_bit 22 (drop_bit 8 e))"
    by (rule bit_eqI) (auto simp: bit_simps)
  then have "0x3FFFFF00 AND e = push_bit 8 (take_bit 22 (drop_bit 8 e))"
    by (simp only: m)
  then show "0x3FFFFF00 AND e = 0 \<longleftrightarrow> (e div 256) mod 2 ^ 22 = 0"
    by (simp add: push_bit_eq_0_iff take_bit_eq_mod drop_bit_eq_div)
qed

lemma crash_codes:
  fixes e :: int
  assumes "0 \<le> e" and "e < 4294967296"
  shows "2147483648 \<le> e \<and> (e div 256) mod 2 ^ 22 = 0 \<longleftrightarrow>
    e \<in> {0x80000000..0x800000FF} \<union> {0xC0000000..0xC00000FF}"
proof
  assume l: "2147483648 \<le> e \<and> (e div 256) mod 2 ^ 22 = 0"
  then obtain m where m: "e div 256 = 4194304 * m" by (auto simp: mod_eq_0_iff_dvd dvd_def)
  moreover have "e = 256 * (e div 256) + e mod 256" "0 \<le> e mod 256" "e mod 256 < 256" by simp_all
  ultimately have e: "1073741824 * m \<le> e" "e \<le> 1073741824 * m + 255" by linarith+
  then have "1 < m" "m < 4" using l assms by linarith+
  then have "m = 2 \<or> m = 3" by linarith
  with e show "e \<in> {0x80000000..0x800000FF} \<union> {0xC0000000..0xC00000FF}" by auto
next
  assume r: "e \<in> {0x80000000..0x800000FF} \<union> {0xC0000000..0xC00000FF}"
  then have "e div 256 = 8388608 \<or> e div 256 = 12582912"
    using int_div_pos_eq [of e 256 8388608 "e - 2147483648"]
      int_div_pos_eq [of e 256 12582912 "e - 3221225472"] by auto
  with r show "2147483648 \<le> e \<and> (e div 256) mod 2 ^ 22 = 0" by auto
qed

lemma bit31_iff: "0 \<le> e \<Longrightarrow> e < 4294967296 \<Longrightarrow> bit (e :: int) 31 \<longleftrightarrow> 2147483648 \<le> e"
proof -
  assume e: "0 \<le> e" "e < 4294967296"
  have "e div 2147483648 = (if 2147483648 \<le> e then 1 else 0)"
    using e int_div_pos_eq [of e 2147483648 1 "e - 2147483648"] by auto
  then show "bit e 31 \<longleftrightarrow> 2147483648 \<le> e" by (simp add: bit_iff_odd)
qed

lemma HasFailed_eq:
  "HasFailed cc out =
     (let b = (case co_failed (to_output out) of None \<Rightarrow> cc_IsFailureOutput cc (to_output out) | Some b \<Rightarrow> b)
      in (b \<noteq> cc_IsNegative cc, out\<lparr>to_output := (to_output out)\<lparr>co_failed := Some b\<rparr>\<rparr>))"
proof -
  have "co_failed (to_output out) = Some b \<Longrightarrow> (to_output out)\<lparr>co_failed := Some b\<rparr> = to_output out" for b
    by (cases "to_output out") simp
  then show ?thesis by (auto simp: HasFailed_def DidFail_def Let_def split: option.splits)
qed

section \<open>Properties\<close>

text \<open>
  The polling loop ends in the first turn in which the deadline has passed or the process has
  exited; it reports a timeout, with the code of the killed process, exactly when the deadline
  came first, and otherwise the exit code seen. It sleeps once per turn, never less than the
  initial and never more than the maximal sleep time.
\<close>

theorem RunProcess_first:
  assumes "\<And>j. j < k \<Longrightarrow> \<not> deadline p (end_time_of p timeout) j \<and> pr_poll p j = None"
    and "deadline p (end_time_of p timeout) k \<or> pr_poll p k \<noteq> None"
  shows "\<exists>slept. RunProcess p timeout =
       Some (if deadline p (end_time_of p timeout) k then (pr_wait p, True, slept)
             else (the (pr_poll p k), False, slept))
     \<and> k \<le> length slept \<and> length slept \<le> Suc k \<and> sorted slept
     \<and> list_all (\<lambda>s. INITIAL_SLEEP_TIME \<le> s \<and> s \<le> MAX_SLEEP_TIME) slept"
proof -
  have "sorted (map sleep_at [0..<n])" for n
    by (induction n) (auto simp: sorted_append intro: lift_Suc_mono_le [of sleep_at, OF sleep_at_mono])
  moreover have "list_all (\<lambda>s. INITIAL_SLEEP_TIME \<le> s \<and> s \<le> MAX_SLEEP_TIME) (map sleep_at xs)" for xs
    by (simp add: list_all_iff sleep_at_bounds)
  ultimately show ?thesis
    using RunProcess_first_turn [OF assms]
    by (intro exI [of _ "map sleep_at [0..<(if deadline p (end_time_of p timeout) k then k else Suc k)]"])
      (simp del: upt_Suc)
qed

theorem RunProcess_first_witness:
  "let p = \<lparr>pr_start = 0, pr_now = (\<lambda>i. of_nat i), pr_poll = (\<lambda>i. if i = 2 then Some 1 else None), pr_wait = - 15\<rparr>
   in \<exists>slept. RunProcess p (Some 60) = Some (1, False, slept)"
proof -
  define p where "p = \<lparr>pr_start = 0, pr_now = (\<lambda>i. of_nat i :: rat), pr_poll = (\<lambda>i. if i = 2 then Some 1 else None), pr_wait = - 15\<rparr>"
  have "\<not> deadline p (end_time_of p (Some 60)) j \<and> pr_poll p j = None" if "j < 2" for j
    using that by (auto simp: p_def deadline_def end_time_of_def)
  moreover have "pr_poll p 2 = Some 1" "\<not> deadline p (end_time_of p (Some 60)) 2"
    by (simp_all add: p_def deadline_def end_time_of_def)
  ultimately show ?thesis
    using RunProcess_first [of 2 p "Some 60"] unfolding p_def [symmetric] Let_def by auto
qed

text \<open>
  With a timeout every test process is disposed of: when sleeping takes at least the time asked
  for, \<open>RunProcess\<close> returns, whatever the process does.
\<close>

theorem RunProcess_returns:
  assumes "\<And>i. pr_now p i + sleep_at i \<le> pr_now p (Suc i)"
  shows "\<exists>r. RunProcess p (Some t) = Some r"
proof -
  let ?stop = "\<lambda>k. deadline p (end_time_of p (Some t)) k \<or> pr_poll p k \<noteq> None"
  have ex: "\<exists>k. ?stop k" using clock_passes [OF assms] by (auto simp: end_time_of_def)
  define k where "k = (LEAST k. ?stop k)"
  have "?stop k" unfolding k_def using ex by (rule LeastI_ex)
  moreover have "\<not> deadline p (end_time_of p (Some t)) j \<and> pr_poll p j = None" if "j < k" for j
    using not_less_Least [of j ?stop] that by (auto simp: k_def)
  ultimately show ?thesis using RunProcess_first_turn [of k p "Some t"] by auto
qed

theorem RunProcess_returns_witness:
  "\<exists>r. RunProcess \<lparr>pr_start = 0, pr_now = (\<lambda>i. of_nat i), pr_poll = (\<lambda>i. None), pr_wait = - 15\<rparr> (Some 60) = Some r"
proof (rule RunProcess_returns)
  show "pr_now \<lparr>pr_start = 0, pr_now = (\<lambda>i. of_nat i), pr_poll = (\<lambda>i. None), pr_wait = - 15\<rparr> i + sleep_at i
      \<le> pr_now \<lparr>pr_start = 0, pr_now = (\<lambda>i. of_nat i), pr_poll = (\<lambda>i. None), pr_wait = - 15\<rparr> (Suc i)" for i
    using sleep_at_bounds [of i] by (simp add: MAX_SLEEP_TIME_def)
qed

text \<open>
  On Windows an exit code, an unsigned 32-bit number, is a crash exactly when it is one of the
  256 codes from \<open>0x80000000\<close> or one of the 256 codes from \<open>0xC0000000\<close>.
\<close>

theorem HasCrashed_windows:
  assumes "0 \<le> co_exit_code (to_output out)" and "co_exit_code (to_output out) < 2 ^ 32"
    and "IsWindows system"
  shows "HasCrashed system out \<longleftrightarrow>
     co_exit_code (to_output out) \<in> {0x80000000..0x800000FF} \<union> {0xC0000000..0xC00000FF}"
proof -
  have e: "0 \<le> co_exit_code (to_output out)" "co_exit_code (to_output out) < 4294967296"
    using assms by simp_all
  show ?thesis
    using assms(3) and_windows_masks [of "co_exit_code (to_output out)"] crash_codes [OF e] bit31_iff [OF e]
    by (simp add: HasCrashed_def)
qed

theorem HasCrashed_windows_witness:
  "HasCrashed ''Windows'' \<lparr>to_test = \<lparr>tc_path = [], tc_arch = [], tc_mode = [], tc_parallel = False,
     tc_variant_flags = [], tc_outcomes = []\<rparr>, to_command = [],
     to_output = CommandOutput_init 0xC0000005 False [] [], to_store_unexpected_output = False\<rparr>"
proof -
  have w: "IsWindows ''Windows''" by (simp add: IsWindows_def GuessOS_def find_def startswith_def)
  show ?thesis
    by (subst HasCrashed_windows) (simp_all add: w CommandOutput_init_def)
qed

text \<open>
  The outcome of a test is decided the same way each time: a second call of
  \<open>UnexpectedOutput\<close>, after the first has stored whether the test failed, gives the same answer
  and changes nothing.
\<close>

theorem UnexpectedOutput_stable:
  assumes "UnexpectedOutput system cc out = (u, out')"
  shows "UnexpectedOutput system cc out' = (u, out') \<and> HasCrashed system out' = HasCrashed system out
    \<and> to_test out' = to_test out"
proof -
  have same: "HasCrashed system (out\<lparr>to_output := co\<rparr>) = HasCrashed system out"
    "HasTimedOut (out\<lparr>to_output := co\<rparr>) = HasTimedOut out"
    if "co = (to_output out)\<lparr>co_failed := f\<rparr>" for co f
    using that by (simp_all add: HasCrashed_def HasTimedOut_def)
  show ?thesis
  proof (cases "HasCrashed system out \<or> HasTimedOut out")
    case True
    then have "snd (actual_outcome system cc out) = out" by (auto simp: actual_outcome_def)
    then have "out' = out" using assms by (auto simp: UnexpectedOutput_def split: prod.splits)
    then show ?thesis using assms by simp
  next
    case False
    define b where "b = (case co_failed (to_output out) of None \<Rightarrow> cc_IsFailureOutput cc (to_output out) | Some b \<Rightarrow> b)"
    define mid where "mid = out\<lparr>to_output := (to_output out)\<lparr>co_failed := Some b\<rparr>\<rparr>"
    have f: "HasFailed cc out = (b \<noteq> cc_IsNegative cc, mid)"
      by (simp add: HasFailed_eq b_def mid_def Let_def)
    have o: "out' = mid" and u: "u = (Some (if b \<noteq> cc_IsNegative cc then FAIL else PASS) \<notin> set (tc_outcomes (to_test out)))"
      using assms False f by (simp_all add: UnexpectedOutput_def actual_outcome_def split: if_splits)
    have "HasFailed cc mid = (b \<noteq> cc_IsNegative cc, mid)"
      by (simp add: HasFailed_eq mid_def Let_def)
    moreover have "HasCrashed system mid = HasCrashed system out" "HasTimedOut mid = HasTimedOut out"
      "to_test mid = to_test out"
      using same [OF refl, of "Some b"] by (simp_all add: mid_def)
    ultimately show ?thesis using False by (simp add: UnexpectedOutput_def actual_outcome_def u o)
  qed
qed

theorem UnexpectedOutput_stable_witness:
  "let t = \<lparr>tc_path = [], tc_arch = [], tc_mode = [], tc_parallel = False, tc_variant_flags = [], tc_outcomes = [Some PASS]\<rparr>;
       out = \<lparr>to_test = t, to_command = [], to_output = CommandOutput_init 1 False [] [], to_store_unexpected_output = False\<rparr>;
       out' = out\<lparr>to_output := (to_output out)\<lparr>co_failed := Some True\<rparr>\<rparr>
   in UnexpectedOutput ''Linux'' TestCase_class out = (True, out')
      \<and> UnexpectedOutput ''Linux'' TestCase_class out' = (True, out')"
proof -
  define t where "t = \<lparr>tc_path = [], tc_arch = [], tc_mode = [], tc_parallel = False, tc_variant_flags = [], tc_outcomes = [Some PASS]\<rparr>"
  define out where "out = \<lparr>to_test = t, to_command = [], to_output = CommandOutput_init 1 False [] [], to_store_unexpected_output = False\<rparr>"
  have 1: "UnexpectedOutput ''Linux'' TestCase_class out = (True, out\<lparr>to_output := (to_output out)\<lparr>co_failed := Some True\<rparr>\<rparr>)"
    unfolding out_def t_def by code_simp
  show ?thesis
    using UnexpectedOutput_stable [OF 1] 1 unfolding t_def [symmetric] out_def [symmetric] Let_def by simp
qed

end
