(* ===== verification/Test_Progress.thy ===== *)
theory Test_Progress
  imports Test_Output
begin

text \<open>
  Running the tests (\<open>src/tools/test.py\<close>): the progress indicators and what they print, the threads
  of \<open>ProgressIndicator.Run\<close> as a step relation, the report, the special command and \<open>Main\<close>. What
  a test does when it runs is an argument. Shown here: the accounting of the indicator, that no
  test runs twice and none is forgotten when nothing is raised, that sequential tests are run by the
  main thread only, that the threads end, and where the run loses a test without saying so.
\<close>

section \<open>Formatting\<close>

definition pad_left :: "char \<Rightarrow> nat \<Rightarrow> string \<Rightarrow> string" where
  "pad_left c n s = replicate (n - length s) c @ s"

text \<open>\<open>%4d\<close>, \<open>% 4d\<close> (a space for the sign) and \<open>%02i\<close>.\<close>

definition fmt_4d :: "int \<Rightarrow> string" where
  "fmt_4d i = pad_left (CHR '' '') 4 (int_str i)"

definition fmt_sp4d :: "int \<Rightarrow> string" where
  "fmt_sp4d i = pad_left (CHR '' '') 4 (if i < 0 then int_str i else CHR '' '' # int_str i)"

definition fmt_0i :: "nat \<Rightarrow> int \<Rightarrow> string" where
  "fmt_0i n i = (if i < 0 then CHR ''-'' # pad_left (CHR ''0'') (n - 1) (int_str (- i))
                 else pad_left (CHR ''0'') n (int_str i))"

text \<open>\<open>str.splitlines()\<close>: the lines end with \<open>\n\<close>, \<open>\r\<close> or \<open>\r\n\<close>.\<close>

definition carriage_return :: char where "carriage_return = CHR 0x0D"

function splitlines :: "string \<Rightarrow> string list" where
  "splitlines s =
     (if s = [] then []
      else let l = takeWhile (\<lambda>c. c \<noteq> newline \<and> c \<noteq> carriage_return) s; r = drop (length l) s
           in l # (case r of
                     [] \<Rightarrow> []
                   | c # r' \<Rightarrow> if c = carriage_return \<and> r' \<noteq> [] \<and> hd r' = newline then splitlines (tl r')
                               else splitlines r'))"
  by pat_completeness auto

lemma drop_length_Cons:
  assumes "drop n s = c # r"
  shows "length r < length s"
proof -
  have "length s - n = Suc (length r)" using length_drop [of n s] unfolding assms by simp
  then show ?thesis by simp
qed

termination splitlines
proof (relation "measure length", goal_cases)
  case 1
  then show ?case by simp
next
  case (2 s l r c r')
  then have "length r' < length s" by (metis drop_length_Cons)
  then show ?case by (auto simp: less_le_trans)
next
  case (3 s l r c r')
  then show ?case by (metis drop_length_Cons in_measure)
qed

declare splitlines.simps [simp del]

definition basename :: "string \<Rightarrow> string" where
  "basename p = last (split_on (CHR ''/'') p)"

text \<open>\<open>s[:n]\<close>.\<close>

definition py_take :: "int \<Rightarrow> 'a list \<Rightarrow> 'a list" where
  "py_take n s = (if n \<ge> 0 then take (nat n) s else drop_last (nat (- n)) s)"

definition EscapeCommand :: "string list \<Rightarrow> string" where
  "EscapeCommand command =
     join '' '' (map (\<lambda>part. if CHR '' '' \<in> set part then ''\"'' @ part @ ''\"'' else part) command)"

text \<open>\<open>GetLabel\<close> of the test cases: mode and name.\<close>

definition tc_label :: "test_case \<Rightarrow> string" where
  "tc_label t = tc_mode t @ '' '' @ tc_name t"

section \<open>The indicator\<close>

record progress =
  pi_cases :: "classified_test list"
  pi_parallel_queue :: "classified_test list"
  pi_sequential_queue :: "classified_test list"
  pi_succeeded :: int
  pi_remaining :: int
  pi_total :: int
  pi_failed :: "test_output list"
  pi_crashed :: int
  pi_shutdown :: bool

definition ProgressIndicator_put :: "progress \<Rightarrow> classified_test \<Rightarrow> progress" where
  "ProgressIndicator_put st c =
     (if ct_parallel c then st\<lparr>pi_parallel_queue := pi_parallel_queue st @ [c]\<rparr>
      else st\<lparr>pi_sequential_queue := pi_sequential_queue st @ [c]\<rparr>)"

definition ProgressIndicator_init :: "classified_test list \<Rightarrow> progress" where
  "ProgressIndicator_init cases =
     (foldl ProgressIndicator_put
       \<lparr>pi_cases = cases, pi_parallel_queue = [], pi_sequential_queue = [],
        pi_succeeded = 0, pi_remaining = 0, pi_total = 0, pi_failed = [], pi_crashed = 0, pi_shutdown = False\<rparr>
       cases)
     \<lparr>pi_succeeded := 0, pi_remaining := int (length cases), pi_total := int (length cases),
      pi_failed := [], pi_crashed := 0\<rparr>"

text \<open>The second locked part of \<open>RunSingle\<close>, before \<open>HasRun\<close>.\<close>

definition record_output :: "string \<Rightarrow> case_class \<Rightarrow> test_output \<Rightarrow> progress \<Rightarrow> progress" where
  "record_output system cc out st =
     (case UnexpectedOutput system cc out of (u, out') \<Rightarrow>
        (if u then
           (let st1 = st\<lparr>pi_failed := pi_failed st @ [out']\<rparr>
            in if HasCrashed system out' then st1\<lparr>pi_crashed := pi_crashed st1 + 1\<rparr> else st1)
         else st\<lparr>pi_succeeded := pi_succeeded st + 1\<rparr>)
        \<lparr>pi_remaining := pi_remaining st - 1\<rparr>)"

definition PrintFailureHeader :: "case_class \<Rightarrow> test_case \<Rightarrow> string list" where
  "PrintFailureHeader cc t =
     [''=== '' @ tc_label t @ '' '' @ (if cc_IsNegative cc then ''[negative] '' else []) @ ''==='',
      ''Path: '' @ join ''/'' (tc_path t)]"

section \<open>What the indicators print\<close>

definition Simple_Starting :: "progress \<Rightarrow> string list" where
  "Simple_Starting st = [''Running '' @ int_str (int (length (pi_cases st))) @ '' tests'']"

definition Simple_failed_lines :: "string \<Rightarrow> case_class \<Rightarrow> test_output \<Rightarrow> string list" where
  "Simple_failed_lines system cc failed =
     PrintFailureHeader cc (to_test failed)
     @ (if co_stderr (to_output failed) \<noteq> [] then [''--- stderr ---'', strip (co_stderr (to_output failed))] else [])
     @ (if co_stdout (to_output failed) \<noteq> [] then [''--- stdout ---'', strip (co_stdout (to_output failed))] else [])
     @ [''Command: '' @ EscapeCommand (to_command failed)]
     @ (if HasCrashed system failed then [''--- CRASHED ---''] else [])
     @ (if HasTimedOut failed then [''--- TIMEOUT ---''] else [])"

definition Simple_Done :: "string \<Rightarrow> case_class \<Rightarrow> progress \<Rightarrow> string list" where
  "Simple_Done system cc st =
     [[]] @ concat (map (Simple_failed_lines system cc) (pi_failed st))
     @ (if length (pi_failed st) = 0 then [''==='', ''=== All tests succeeded'', ''==='']
        else [[], ''==='', ''=== '' @ int_str (int (length (pi_failed st))) @ '' tests failed'']
             @ (if pi_crashed st > 0 then [''=== '' @ int_str (pi_crashed st) @ '' tests CRASHED''] else [])
             @ [''===''])"

definition Verbose_AboutToRun :: "test_case \<Rightarrow> string" where
  "Verbose_AboutToRun c = ''Starting '' @ tc_label c @ ''...''"

definition Verbose_HasRun :: "string \<Rightarrow> case_class \<Rightarrow> test_output \<Rightarrow> string" where
  "Verbose_HasRun system cc out =
     ''Done running '' @ tc_label (to_test out) @ '': ''
     @ (if fst (UnexpectedOutput system cc out)
        then (if HasCrashed system out then ''CRASH'' else ''FAIL'') else ''pass'')"

definition Dots_HasRun :: "string \<Rightarrow> case_class \<Rightarrow> progress \<Rightarrow> test_output \<Rightarrow> string" where
  "Dots_HasRun system cc st out =
     (let total = pi_succeeded st + int (length (pi_failed st))
      in (if total > 1 \<and> total mod 50 = 1 then [newline] else [])
         @ (if fst (UnexpectedOutput system cc out) then
              (if HasCrashed system out then ''C'' else if HasTimedOut out then ''T'' else ''F'')
            else ''.''))"

text \<open>A \<open>timedelta\<close>: days, seconds and microseconds.\<close>

record timedelta =
  td_days :: int
  td_seconds :: int
  td_microseconds :: int

definition Tap_Starting :: "progress \<Rightarrow> string" where
  "Tap_Starting st = ''1..'' @ int_str (int (length (pi_cases st)))"

definition tap_duration :: "timedelta \<Rightarrow> string" where
  "tap_duration duration =
     (let total_seconds = (td_microseconds duration
             + (td_seconds duration + td_days duration * 24 * 3600) * 10 ^ 6) div 10 ^ 6
      in ''  duration_ms: '' @ int_str total_seconds @ ''.'' @ int_str (td_microseconds duration div 1000))"

text \<open>\<open>done\<close> is \<open>self._done\<close> before the call; the command has a last element.\<close>

definition Tap_HasRun ::
  "string \<Rightarrow> case_class \<Rightarrow> int \<Rightarrow> timedelta \<Rightarrow> test_output \<Rightarrow> int \<times> string list" where
  "Tap_HasRun system cc done duration out =
     (let n = done + 1; command = basename (last (to_command out))
      in (n, (if fst (UnexpectedOutput system cc out) then
                [''not ok '' @ int_str n @ '' - '' @ command]
                @ map (\<lambda>l. CHR ''#'' # l) (splitlines (co_stderr (to_output out)))
                @ map (\<lambda>l. CHR ''#'' # l) (splitlines (co_stdout (to_output out)))
              else [''ok '' @ int_str n @ '' - '' @ command])
             @ [''  ---'', tap_duration duration, ''  ...'']))"

definition Truncate :: "string \<Rightarrow> int \<Rightarrow> string" where
  "Truncate str length' =
     (if length' \<noteq> 0 \<and> int (length str) > length' - 3 then py_take (length' - 3) str @ ''...'' else str)"

text \<open>The templates of the two compact indicators; \<open>esc\<close> wraps a part in a colour (or does not).\<close>

datatype compact_kind = Color | Mono

definition colored :: "compact_kind \<Rightarrow> string \<Rightarrow> string \<Rightarrow> string" where
  "colored k code s =
     (case k of Color \<Rightarrow> [CHR 0x1B] @ ''['' @ code @ ''m'' @ s @ [CHR 0x1B] @ ''[0m'' | Mono \<Rightarrow> s)"

definition status_line :: "compact_kind \<Rightarrow> int \<Rightarrow> int \<Rightarrow> int \<Rightarrow> int \<Rightarrow> int \<Rightarrow> string \<Rightarrow> string" where
  "status_line k mins secs remaining passed failed test =
     ''['' @ fmt_0i 2 mins @ '':'' @ fmt_0i 2 secs @ ''|''
     @ colored k ''34'' (''%'' @ fmt_sp4d remaining) @ ''|''
     @ colored k ''32'' (''+'' @ fmt_sp4d passed) @ ''|''
     @ colored k ''31'' (''-'' @ fmt_sp4d failed) @ '']: '' @ test"

definition ClearLine :: "compact_kind \<Rightarrow> nat \<Rightarrow> string" where
  "ClearLine k last_line_length =
     (case k of
        Color \<Rightarrow> [CHR 0x1B] @ ''[1K'' @ [carriage_return]
      | Mono \<Rightarrow> [carriage_return] @ replicate last_line_length (CHR '' '') @ [carriage_return])"

text \<open>\<open>elapsed\<close> is \<open>int(elapsed)\<close>; the result is the new \<open>last_status_length\<close> and what is printed.
  Dividing by \<open>self.total\<close> raises an exception when there are no cases.\<close>

definition PrintProgress ::
  "compact_kind \<Rightarrow> progress \<Rightarrow> nat \<Rightarrow> int \<Rightarrow> string \<Rightarrow> (nat \<times> string list) res" where
  "PrintProgress k st last_status_length elapsed name =
     (if pi_total st = 0 then Inl (ValueError ''ZeroDivisionError'')
      else let status = Truncate (status_line k (elapsed div 60) (elapsed mod 60)
                (((pi_total st - pi_remaining st) * 100) div pi_total st)
                (pi_succeeded st) (int (length (pi_failed st))) name) 78
           in Inr (length status, [ClearLine k last_status_length, status]))"

definition Compact_HasRun :: "string \<Rightarrow> case_class \<Rightarrow> compact_kind \<Rightarrow> nat \<Rightarrow> test_output \<Rightarrow> string list" where
  "Compact_HasRun system cc k last_status_length out =
     (if fst (UnexpectedOutput system cc out) then
        [ClearLine k last_status_length] @ PrintFailureHeader cc (to_test out)
        @ (let s = strip (co_stdout (to_output out)) in if length s \<noteq> 0 then [colored k ''1'' s] else [])
        @ (let s = strip (co_stderr (to_output out)) in if length s \<noteq> 0 then [colored k ''31'' s] else [])
        @ [''Command: '' @ EscapeCommand (to_command out)]
        @ (if HasCrashed system out then [''--- CRASHED ---''] else [])
        @ (if HasTimedOut out then [''--- TIMEOUT ---''] else [])
      else [])"

datatype indicator = Verbose | Dots | Compact compact_kind | Tap

definition PROGRESS_INDICATORS :: "(string, indicator) dict" where
  "PROGRESS_INDICATORS = [(''verbose'', Verbose), (''dots'', Dots), (''color'', Compact Color),
     (''tap'', Tap), (''mono'', Compact Mono)]"

section \<open>The threads\<close>

datatype run_result = Output test_output | IOError | OtherException

text \<open>Where a thread is in \<open>RunSingle\<close>: at the test of the \<open>while\<close>, taking a test from the queues,
  running it, after the run, in the second locked part, returned.\<close>

datatype pc =
    PLoop
  | PGet
  | PRun classified_test
  | PHave classified_test test_output
  | PRecord classified_test test_output
  | PExit

text \<open>Thread 0 is the main thread, which calls \<open>RunSingle(False, 0)\<close>. \<open>rs_hasrun\<close> are the calls of
  \<open>HasRun\<close> so far, \<open>rs_lost\<close> the tests taken from a queue for which it will not be called.\<close>

record run_state =
  rs_progress :: progress
  rs_pcs :: "pc list"
  rs_hasrun :: "(classified_test \<times> test_output) list"
  rs_lost :: "classified_test list"

definition Run_init :: "classified_test list \<Rightarrow> nat \<Rightarrow> run_state" where
  "Run_init cases tasks =
     \<lparr>rs_progress = ProgressIndicator_init cases, rs_pcs = replicate (Suc (tasks - 1)) PLoop,
      rs_hasrun = [], rs_lost = []\<rparr>"

definition set_pc :: "nat \<Rightarrow> pc \<Rightarrow> run_state \<Rightarrow> run_state" where
  "set_pc i p rs = rs\<lparr>rs_pcs := (rs_pcs rs)[i := p]\<rparr>"

fun held :: "pc \<Rightarrow> classified_test list" where
  "held (PRun t) = [t]"
| "held (PHave t out) = [t]"
| "held (PRecord t out) = [t]"
| "held _ = []"

definition lose :: "classified_test list \<Rightarrow> run_state \<Rightarrow> run_state" where
  "lose ts rs = rs\<lparr>rs_lost := rs_lost rs @ ts\<rparr>"

definition shut_down :: "run_state \<Rightarrow> run_state" where
  "shut_down rs = rs\<lparr>rs_progress := (rs_progress rs)\<lparr>pi_shutdown := True\<rparr>\<rparr>"

text \<open>One step of thread \<open>i\<close>, or \<open>KeyboardInterrupt\<close> in the main thread, which may come at any time
  until the shutdown event is set (while the main thread runs a test or waits for the others).
  \<open>runs t r\<close>: running \<open>t\<close> may end with \<open>r\<close>.\<close>

inductive RunSingle_step ::
  "string \<Rightarrow> case_class \<Rightarrow> (classified_test \<Rightarrow> run_result \<Rightarrow> bool) \<Rightarrow> run_state \<Rightarrow> run_state \<Rightarrow> bool"
  for system cc runs where
  loop_exit: "i < length (rs_pcs rs) \<Longrightarrow> rs_pcs rs ! i = PLoop \<Longrightarrow> pi_shutdown (rs_progress rs) \<Longrightarrow>
     RunSingle_step system cc runs rs (set_pc i PExit rs)"
| loop_go: "i < length (rs_pcs rs) \<Longrightarrow> rs_pcs rs ! i = PLoop \<Longrightarrow> \<not> pi_shutdown (rs_progress rs) \<Longrightarrow>
     RunSingle_step system cc runs rs (set_pc i PGet rs)"
| get_parallel: "i < length (rs_pcs rs) \<Longrightarrow> rs_pcs rs ! i = PGet \<Longrightarrow>
     pi_parallel_queue (rs_progress rs) = t # q \<Longrightarrow>
     RunSingle_step system cc runs rs
       (set_pc i (PRun t) (rs\<lparr>rs_progress := (rs_progress rs)\<lparr>pi_parallel_queue := q\<rparr>\<rparr>))"
| get_sequential: "0 < length (rs_pcs rs) \<Longrightarrow> rs_pcs rs ! 0 = PGet \<Longrightarrow>
     pi_parallel_queue (rs_progress rs) = [] \<Longrightarrow> pi_sequential_queue (rs_progress rs) = t # q \<Longrightarrow>
     RunSingle_step system cc runs rs
       (set_pc 0 (PRun t) (rs\<lparr>rs_progress := (rs_progress rs)\<lparr>pi_sequential_queue := q\<rparr>\<rparr>))"
| get_empty: "i < length (rs_pcs rs) \<Longrightarrow> rs_pcs rs ! i = PGet \<Longrightarrow>
     pi_parallel_queue (rs_progress rs) = [] \<Longrightarrow> i \<noteq> 0 \<or> pi_sequential_queue (rs_progress rs) = [] \<Longrightarrow>
     RunSingle_step system cc runs rs (set_pc i PExit rs)"
| run_output: "i < length (rs_pcs rs) \<Longrightarrow> rs_pcs rs ! i = PRun t \<Longrightarrow> runs t (Output out) \<Longrightarrow>
     RunSingle_step system cc runs rs (set_pc i (PHave t out) rs)"
| run_ioerror: "i < length (rs_pcs rs) \<Longrightarrow> rs_pcs rs ! i = PRun t \<Longrightarrow> runs t IOError \<Longrightarrow>
     RunSingle_step system cc runs rs (set_pc i PExit (lose [t] rs))"
| run_raises_main: "0 < length (rs_pcs rs) \<Longrightarrow> rs_pcs rs ! 0 = PRun t \<Longrightarrow> runs t OtherException \<Longrightarrow>
     RunSingle_step system cc runs rs (set_pc 0 PExit (lose [t] (shut_down rs)))"
| run_raises: "i < length (rs_pcs rs) \<Longrightarrow> i \<noteq> 0 \<Longrightarrow> rs_pcs rs ! i = PRun t \<Longrightarrow> runs t OtherException \<Longrightarrow>
     RunSingle_step system cc runs rs (set_pc i PExit (lose [t] rs))"
| have_shutdown: "i < length (rs_pcs rs) \<Longrightarrow> rs_pcs rs ! i = PHave t out \<Longrightarrow> pi_shutdown (rs_progress rs) \<Longrightarrow>
     RunSingle_step system cc runs rs (set_pc i PExit (lose [t] rs))"
| have_go: "i < length (rs_pcs rs) \<Longrightarrow> rs_pcs rs ! i = PHave t out \<Longrightarrow> \<not> pi_shutdown (rs_progress rs) \<Longrightarrow>
     RunSingle_step system cc runs rs (set_pc i (PRecord t out) rs)"
| recorded: "i < length (rs_pcs rs) \<Longrightarrow> rs_pcs rs ! i = PRecord t out \<Longrightarrow>
     RunSingle_step system cc runs rs
       (set_pc i PLoop (rs\<lparr>rs_progress := record_output system cc out (rs_progress rs),
                           rs_hasrun := rs_hasrun rs @ [(t, out)]\<rparr>))"
| interrupt: "0 < length (rs_pcs rs) \<Longrightarrow> \<not> pi_shutdown (rs_progress rs) \<Longrightarrow>
     RunSingle_step system cc runs rs (set_pc 0 PExit (lose (held (rs_pcs rs ! 0)) (shut_down rs)))"

inductive Run_reachable ::
  "string \<Rightarrow> case_class \<Rightarrow> (classified_test \<Rightarrow> run_result \<Rightarrow> bool) \<Rightarrow> run_state \<Rightarrow> run_state \<Rightarrow> bool"
  for system cc runs rs0 where
  start: "Run_reachable system cc runs rs0 rs0"
| step: "Run_reachable system cc runs rs0 rs \<Longrightarrow> RunSingle_step system cc runs rs rs' \<Longrightarrow>
     Run_reachable system cc runs rs0 rs'"

text \<open>What \<open>Run\<close> returns when the threads have returned.\<close>

definition Run_result :: "run_state \<Rightarrow> bool" where
  "Run_result rs = (pi_failed (rs_progress rs) = [])"

section \<open>Reports and times\<close>

definition IsFailOk :: "atom list \<Rightarrow> bool" where
  "IsFailOk outs = (length outs = 2 \<and> Some FAIL \<in> set outs \<and> Some OKAY \<in> set outs)"

record report =
  rp_total :: nat
  rp_skipped :: nat
  rp_pass :: nat
  rp_fail_ok :: nat
  rp_fail :: nat

definition report_of :: "classified_test list \<Rightarrow> report" where
  "report_of cases =
     (let unskipped = filter (\<lambda>c. Some SKIP \<notin> set (ct_outcomes c)) cases
      in \<lparr>rp_total = length cases, rp_skipped = length cases - length unskipped,
          rp_pass = length (filter (\<lambda>t. ct_outcomes t = [Some PASS]) unskipped),
          rp_fail_ok = length (filter (\<lambda>t. IsFailOk (ct_outcomes t)) unskipped),
          rp_fail = length (filter (\<lambda>t. ct_outcomes t = [Some FAIL]) unskipped)\<rparr>)"

definition PrintReport :: "classified_test list \<Rightarrow> string list" where
  "PrintReport cases =
     (let r = report_of cases in
      [''Total: '' @ nat_str (rp_total r) @ '' tests'',
       '' * '' @ fmt_4d (int (rp_skipped r)) @ '' tests will be skipped'',
       '' * '' @ fmt_4d (int (rp_pass r)) @ '' tests are expected to pass'',
       '' * '' @ fmt_4d (int (rp_fail_ok r)) @ '' tests are expected to fail that we won'' @ [CHR 0x27] @ ''t fix'',
       '' * '' @ fmt_4d (int (rp_fail r)) @ '' tests are expected to fail that we should fix''])"

text \<open>\<open>FormatTime\<close> is called with a number of seconds and with a \<open>timedelta\<close>, which \<open>round\<close> does not
  take. \<open>round\<close> rounds halves up (the times are not negative).\<close>

datatype pytime = Seconds rat | Delta timedelta

definition FormatTime :: "pytime \<Rightarrow> string res" where
  "FormatTime d =
     (case d of
        Delta _ \<Rightarrow> Inl (TypeError ''a float is required'')
      | Seconds s \<Rightarrow>
          let millis = \<lfloor>s * 1000 + 1 / 2\<rfloor> mod 1000; secs = \<lfloor>s\<rfloor>
          in Inr (fmt_0i 2 ((secs div 60) mod 60) @ '':'' @ fmt_0i 2 (secs mod 60) @ ''.'' @ fmt_0i 3 millis))"

text \<open>\<open>cmp(other.duration, self.duration)\<close> on the durations in microseconds: the longest first.\<close>

definition td_key :: "timedelta \<Rightarrow> int" where
  "td_key d = td_microseconds d + (td_seconds d + td_days d * 86400) * 10 ^ 6"

definition sort_by_time :: "(test_case \<times> timedelta) list \<Rightarrow> (test_case \<times> timedelta) list" where
  "sort_by_time ts = sort_key (\<lambda>(c, d). - td_key d) ts"

section \<open>The special command\<close>

definition hex_digit :: "char \<Rightarrow> nat option" where
  "hex_digit c =
     (if is_digit c then Some (ord c - 48)
      else if 65 \<le> ord c \<and> ord c \<le> 70 then Some (ord c - 55)
      else if 97 \<le> ord c \<and> ord c \<le> 102 then Some (ord c - 87) else None)"

text \<open>\<open>urllib.unquote\<close>: \<open>%XX\<close> with two hexadecimal digits is a character, any other \<open>%\<close> stays.\<close>

fun unquote :: "string \<Rightarrow> string" where
  "unquote (p # a # b # s) =
     (if p = CHR ''%'' then
        (case (hex_digit a, hex_digit b) of
           (Some x, Some y) \<Rightarrow> char_of (16 * x + y) # unquote s
         | _ \<Rightarrow> p # unquote (a # b # s))
      else p # unquote (a # b # s))"
| "unquote s = s"

definition GetSpecialCommandProcessor :: "string option \<Rightarrow> string list \<Rightarrow> string list" where
  "GetSpecialCommandProcessor value args =
     (case value of
        None \<Rightarrow> args
      | Some v \<Rightarrow>
          if v = [] \<or> find v ''@'' = - 1 then args
          else let pos = nat (find v ''@'');
                   prefix = split_ws (unquote (take pos v));
                   suffix = split_ws (unquote (drop (pos + 1) v))
               in prefix @ args @ suffix)"

section \<open>The main program\<close>

definition BUILT_IN_TESTS :: "string list" where
  "BUILT_IN_TESTS = [''sequential'', ''parallel'', ''pummel'', ''message'', ''internet'', ''addons'', ''gc'', ''debugger'']"

text \<open>\<open>entries\<close> are the files of the test root, with whether they are a directory that has a
  \<open>testcfg.py\<close>.\<close>

definition GetSuites :: "(string \<times> bool) list \<Rightarrow> string list" where
  "GetSuites entries = map fst (filter snd entries)"

record options =
  op_mode :: string
  op_verbose :: bool
  op_scons_flags :: "string list"
  op_progress :: string
  op_no_build :: bool
  op_build_only :: bool
  op_report :: bool
  op_suite :: "string list"
  op_timeout :: int
  op_arch :: string
  op_snapshot :: bool
  op_special_command :: "string option"
  op_valgrind :: bool
  op_cat :: bool
  op_warn_unused :: bool
  op_j :: int
  op_J :: bool
  op_time :: bool
  op_suppress_dialogs :: bool
  op_shell :: string
  op_store_unexpected_output :: bool

text \<open>The defaults of \<open>BuildOptions\<close>.\<close>

definition BuildOptions :: options where
  "BuildOptions =
     \<lparr>op_mode = ''release'', op_verbose = False, op_scons_flags = [], op_progress = ''mono'',
      op_no_build = True, op_build_only = False, op_report = False, op_suite = [], op_timeout = 60,
      op_arch = ''none'', op_snapshot = False, op_special_command = None, op_valgrind = False,
      op_cat = False, op_warn_unused = False, op_j = 1, op_J = False, op_time = False,
      op_suppress_dialogs = True, op_shell = ''shell'', op_store_unexpected_output = True\<rparr>"

text \<open>The architectures, the modes and the number of tasks after \<open>ProcessOptions\<close>.\<close>

definition ProcessOptions :: "int \<Rightarrow> options \<Rightarrow> string list \<times> string list \<times> int" where
  "ProcessOptions cpu_count opts =
     (split_on (CHR '','') (op_arch opts), split_on (CHR '','') (op_mode opts),
      if op_J opts then cpu_count else op_j opts)"

text \<open>
  What the main program asks its surroundings: the platform, the file system, the suites (with their
  status files and build requirements), the build, and the run of the tests (\<open>None\<close> is
  \<open>KeyboardInterrupt\<close>) with the durations it leaves.
\<close>

record main_env =
  me_system :: string
  me_cpu_count :: int
  me_exists :: "string \<Rightarrow> bool"
  me_out_dir_exists :: bool
  me_abspath :: "string \<Rightarrow> string"
  me_suites :: "test_suite list"
  me_status :: "(test_section list \<times> defs \<Rightarrow> (test_section list \<times> defs) res) list"
  me_requirements :: "string \<Rightarrow> string list \<Rightarrow> string list"
  me_build :: "string list \<Rightarrow> string list \<Rightarrow> string list \<Rightarrow> bool"
  me_run :: "classified_test list \<Rightarrow> indicator \<Rightarrow> int \<Rightarrow> bool option"
  me_durations :: "test_case \<Rightarrow> timedelta option"
  me_total_time :: rat
  me_source :: "test_case \<Rightarrow> string"
  me_recursion_limit :: nat

definition LiteralTestSuite_GetTestStatus ::
  "(test_section list \<times> defs \<Rightarrow> (test_section list \<times> defs) res) list \<Rightarrow> test_section list \<times> defs
     \<Rightarrow> (test_section list \<times> defs) res" where
  "LiteralTestSuite_GetTestStatus tests sd = foldM (\<lambda>sd test. test sd) sd tests"

definition LiteralTestSuite_GetBuildRequirements ::
  "(string \<Rightarrow> string list \<Rightarrow> string list) \<Rightarrow> test_suite list \<Rightarrow> string list \<Rightarrow> string list res" where
  "LiteralTestSuite_GetBuildRequirements reqs suites path =
     (case CarCdr path of (name, rest) \<Rightarrow>
        foldM (\<lambda>result s.
          res_bind (case name of None \<Rightarrow> Inr True | Some p \<Rightarrow> Pattern_match p (ts_name s)) (\<lambda>m.
            Inr (if m then result @ reqs (ts_name s) rest else result))) [] suites)"

record listing =
  ls_cases :: "classified_test list"
  ls_unclassified :: "test_case list"
  ls_unused :: "rule list option"
  ls_printed :: "string list"

text \<open>The body of the three loops that list the tests.\<close>

definition list_step ::
  "main_env \<Rightarrow> test_section list \<Rightarrow> defs \<Rightarrow> listing \<Rightarrow> string list \<times> string \<times> string \<Rightarrow> listing res" where
  "list_step me sections defs ls = (\<lambda>(path, arch, mode).
     let vm = Context_GetVm (me_system me) (me_out_dir_exists me) (me_abspath me) arch mode in
     if \<not> me_exists me vm then
       Inr (ls\<lparr>ls_printed := ls_printed ls @
         [''Can'' @ [CHR 0x27] @ ''t find shell executable: '' @ [CHR 0x27] @ vm @ [CHR 0x27]]\<rparr>)
     else
       let env = [(''mode'', Some mode), (''system'', GuessOS (me_system me)), (''arch'', Some arch)] in
       res_bind (LiteralTestSuite_ListTests (me_suites me) [] path arch mode) (\<lambda>test_list.
       res_bind (ClassifyTests (me_recursion_limit me) sections defs test_list env) (\<lambda>(cases, unused_rules, all_outcomes).
       Inr \<lparr>ls_cases = ls_cases ls @ cases, ls_unclassified = ls_unclassified ls @ test_list,
            ls_unused = Some (case ls_unused ls of
                None \<Rightarrow> unused_rules
              | Some g \<Rightarrow> filter (\<lambda>r. rule_id r \<in> set (map rule_id unused_rules)) g),
            ls_printed = ls_printed ls\<rparr>)))"

text \<open>\<open>--cat\<close>: the source of every test, once per path.\<close>

fun cat_sources :: "main_env \<Rightarrow> string list list \<Rightarrow> test_case list \<Rightarrow> string list" where
  "cat_sources me visited [] = []"
| "cat_sources me visited (t # ts) =
     (if tc_path t \<in> set visited then cat_sources me visited ts
      else [''--- begin source: '' @ tc_label t @ '' ---'', strip (me_source me t),
            ''--- end source: '' @ tc_label t @ '' ---''] @ cat_sources me (tc_path t # visited) ts)"

definition DoSkip :: "classified_test \<Rightarrow> bool" where
  "DoSkip c = (Some SKIP \<in> set (ct_outcomes c) \<or> Some SLOW \<in> set (ct_outcomes c))"

definition RunTestCases ::
  "main_env \<Rightarrow> classified_test list \<Rightarrow> string \<Rightarrow> int \<Rightarrow> bool option res" where
  "RunTestCases me cases_to_run progress tasks =
     res_bind (dict_get PROGRESS_INDICATORS progress) (\<lambda>ind. Inr (me_run me cases_to_run ind tasks))"

text \<open>\<open>--time\<close>: the total time and the twenty slowest tests.\<close>

definition time_lines :: "main_env \<Rightarrow> classified_test list \<Rightarrow> string list res" where
  "time_lines me cases_to_run =
     res_bind (FormatTime (Seconds (me_total_time me))) (\<lambda>total.
     let timed_tests = sort_by_time (concat (map (\<lambda>c. case me_durations me (ct_case c) of
             None \<Rightarrow> [] | Some d \<Rightarrow> [(ct_case c, d)]) cases_to_run))
     in res_bind (mapM (\<lambda>(index, c, d). res_bind (FormatTime (Delta d)) (\<lambda>t.
            Inr (fmt_4d (int index) @ '' ('' @ t @ '') '' @ tc_label c)))
          (zip [1..<21] (take 20 timed_tests))) (\<lambda>lines.
        Inr ([[], ''--- Total time: '' @ total @ '' ---''] @ lines)))"

text \<open>\<open>unused_lines\<close>: \<open>--warn-unused\<close> iterates over \<open>None\<close> when nothing was listed.\<close>

definition unused_lines :: "rule list option \<Rightarrow> string list res" where
  "unused_lines unused =
     (case unused of
        None \<Rightarrow> Inl (TypeError ''NoneType object is not iterable'')
      | Some rules \<Rightarrow> Inr (map (\<lambda>r. ''Rule for '' @ [CHR 0x27] @ join ''/'' (rule_path r) @ [CHR 0x27]
                                    @ '' was not used.'') rules))"

text \<open>From the listed tests to the exit code.\<close>

definition Main_run :: "main_env \<Rightarrow> options \<Rightarrow> int \<Rightarrow> listing \<Rightarrow> (string list \<times> int) res" where
  "Main_run me opts j ls =
     (if op_cat opts then Inr (ls_printed ls @ cat_sources me [] (ls_unclassified ls), 0)
      else
        res_bind (if op_warn_unused opts then unused_lines (ls_unused ls) else Inr []) (\<lambda>warned.
        let printed = ls_printed ls @ warned @ (if op_report opts then PrintReport (ls_cases ls) else []);
            cases_to_run = filter (\<lambda>c. \<not> DoSkip c) (ls_cases ls)
        in if length cases_to_run = 0 then Inr (printed @ [''No tests to run.''], 1)
           else res_bind (RunTestCases me cases_to_run (op_progress opts) j) (\<lambda>r.
             case r of
               None \<Rightarrow> Inr (printed @ [''Interrupted''], 1)
             | Some ok \<Rightarrow>
                 res_bind (if op_time opts then time_lines me cases_to_run else Inr []) (\<lambda>times.
                   Inr (printed @ times, if ok then 0 else 1)))))"

definition Main :: "main_env \<Rightarrow> options \<Rightarrow> string list \<Rightarrow> (string list \<times> int) res" where
  "Main me opts args =
     (let (archs, modes, j) = ProcessOptions (me_cpu_count me) opts;
          paths = map SplitPath (if length args = 0 then BUILT_IN_TESTS else args)
      in res_bind (if op_no_build opts then Inr True
                   else res_bind (foldM (\<lambda>reqs path.
                          res_bind (LiteralTestSuite_GetBuildRequirements (me_requirements me) (me_suites me) path)
                            (\<lambda>rs. Inr (reqs @ rs))) [] paths) (\<lambda>reqs.
                        let reqs' = remdups reqs in
                        Inr (if length reqs' > 0 then
                               me_build me reqs' modes
                                 (if j \<noteq> 1 then op_scons_flags opts @ [''-j'', int_str j] else op_scons_flags opts)
                             else True))) (\<lambda>built.
         if \<not> built then Inr ([], 1)
         else if op_build_only opts then Inr ([], 0)
         else
           res_bind (LiteralTestSuite_GetTestStatus (me_status me) ([], [])) (\<lambda>(sections, defs).
           res_bind (foldM (list_step me sections defs)
               \<lparr>ls_cases = [], ls_unclassified = [], ls_unused = None, ls_printed = []\<rparr>
               (List.product paths (List.product archs modes))) (\<lambda>ls.
           Main_run me opts j ls))))"

section \<open>Invariants of the threads\<close>

lemmas rs_defs = set_pc_def lose_def shut_down_def

definition in_flight :: "run_state \<Rightarrow> classified_test list" where
  "in_flight rs = concat (map held (rs_pcs rs))"

text \<open>Where the tests are: in a queue, held by a thread, reported, or lost.\<close>

definition whereabouts :: "run_state \<Rightarrow> classified_test multiset" where
  "whereabouts rs = mset (pi_parallel_queue (rs_progress rs)) + mset (pi_sequential_queue (rs_progress rs))
     + mset (in_flight rs) + mset (map fst (rs_hasrun rs)) + mset (rs_lost rs)"

lemma mset_held_update:
  "i < length pcs \<Longrightarrow> mset (concat (map held (pcs[i := p]))) + mset (held (pcs ! i)) =
     mset (concat (map held pcs)) + mset (held p)"
proof (induction pcs arbitrary: i)
  case (Cons q pcs)
  then show ?case by (cases i) (auto simp: ac_simps)
qed simp

lemma in_flight_set_pc:
  assumes "i < length (rs_pcs rs)" and "rs_pcs rs ! i = q"
  shows "mset (in_flight (set_pc i p rs)) + mset (held q) = mset (in_flight rs) + mset (held p)"
  using mset_held_update [of i "rs_pcs rs" p] assms by (simp add: in_flight_def set_pc_def)

lemma record_output_simps [simp]:
  "pi_parallel_queue (record_output system cc out st) = pi_parallel_queue st"
  "pi_sequential_queue (record_output system cc out st) = pi_sequential_queue st"
  "pi_shutdown (record_output system cc out st) = pi_shutdown st"
  "pi_total (record_output system cc out st) = pi_total st"
  "pi_remaining (record_output system cc out st) = pi_remaining st - 1"
  by (auto simp: record_output_def Let_def split: prod.splits)

lemma whereabouts_set_pc:
  assumes "i < length (rs_pcs rs)" and "rs_pcs rs ! i = q" and "held p = held q"
  shows "whereabouts (set_pc i p rs) = whereabouts rs"
  using in_flight_set_pc [OF assms(1,2), of p] assms(3)
  by (simp add: whereabouts_def) (simp add: set_pc_def)

lemma whereabouts_step:
  assumes "RunSingle_step system cc runs rs rs'"
  shows "whereabouts rs' = whereabouts rs"
  using assms
proof cases
  case (get_parallel i t q)
  have "mset (in_flight (set_pc i (PRun t) rs)) = add_mset t (mset (in_flight rs))"
    using in_flight_set_pc [OF get_parallel(2,3), of "PRun t"] by simp
  then show ?thesis using get_parallel by (simp add: whereabouts_def in_flight_def set_pc_def)
next
  case (get_sequential t q)
  have "mset (in_flight (set_pc 0 (PRun t) rs)) = add_mset t (mset (in_flight rs))"
    using in_flight_set_pc [OF get_sequential(2,3), of "PRun t"] by simp
  then show ?thesis using get_sequential by (simp add: whereabouts_def in_flight_def set_pc_def)
next
  case (run_ioerror i t)
  then show ?thesis using in_flight_set_pc [OF run_ioerror(2,3), of PExit]
    by (simp add: whereabouts_def in_flight_def rs_defs)
next
  case (run_raises_main t)
  then show ?thesis using in_flight_set_pc [OF run_raises_main(2,3), of PExit]
    by (simp add: whereabouts_def in_flight_def rs_defs)
next
  case (run_raises i t)
  then show ?thesis using in_flight_set_pc [OF run_raises(2,4), of PExit]
    by (simp add: whereabouts_def in_flight_def rs_defs)
next
  case (have_shutdown i t out)
  then show ?thesis using in_flight_set_pc [OF have_shutdown(2,3), of PExit]
    by (simp add: whereabouts_def in_flight_def rs_defs)
next
  case (recorded i t out)
  then show ?thesis using in_flight_set_pc [OF recorded(2,3), of PLoop]
    by (simp add: whereabouts_def in_flight_def rs_defs)
next
  case interrupt
  then show ?thesis using in_flight_set_pc [OF interrupt(2) refl, of PExit]
    by (simp add: whereabouts_def in_flight_def rs_defs)
qed (simp_all add: whereabouts_set_pc)

text \<open>The counters follow the calls of \<open>HasRun\<close>.\<close>

definition failures :: "string \<Rightarrow> case_class \<Rightarrow> (classified_test \<times> test_output) list \<Rightarrow> test_output list" where
  "failures system cc runs = map (\<lambda>r. snd (UnexpectedOutput system cc (snd r)))
     (filter (\<lambda>r. fst (UnexpectedOutput system cc (snd r))) runs)"

definition counters_ok :: "string \<Rightarrow> case_class \<Rightarrow> run_state \<Rightarrow> bool" where
  "counters_ok system cc rs \<longleftrightarrow>
     pi_failed (rs_progress rs) = failures system cc (rs_hasrun rs)
     \<and> pi_crashed (rs_progress rs) = int (length (filter (HasCrashed system) (failures system cc (rs_hasrun rs))))
     \<and> pi_succeeded (rs_progress rs) + int (length (pi_failed (rs_progress rs))) = int (length (rs_hasrun rs))
     \<and> pi_remaining (rs_progress rs) = pi_total (rs_progress rs) - int (length (rs_hasrun rs))"

lemma counters_step:
  assumes "RunSingle_step system cc runs rs rs'" and "counters_ok system cc rs"
  shows "counters_ok system cc rs'"
  using assms
proof cases
  case (recorded i t out)
  then show ?thesis using assms(2)
    by (auto simp: counters_ok_def failures_def rs_defs record_output_def Let_def split: prod.splits)
qed (auto simp: counters_ok_def rs_defs)

text \<open>Who runs what: the parallel queue holds parallel tests, and only the main thread takes a test
  from the other queue.\<close>

definition queues_ok :: "run_state \<Rightarrow> bool" where
  "queues_ok rs \<longleftrightarrow> (\<forall>t\<in>set (pi_parallel_queue (rs_progress rs)). ct_parallel t)
     \<and> (\<forall>t\<in>set (pi_sequential_queue (rs_progress rs)). \<not> ct_parallel t)
     \<and> (\<forall>i<length (rs_pcs rs). i \<noteq> 0 \<longrightarrow> (\<forall>t\<in>set (held (rs_pcs rs ! i)). ct_parallel t))
     \<and> rs_pcs rs \<noteq> []"

lemma queues_step:
  assumes "RunSingle_step system cc runs rs rs'" and "queues_ok rs"
  shows "queues_ok rs'"
  using assms
  by cases (auto simp: queues_ok_def rs_defs nth_list_update)

text \<open>Without an exception or an interrupt, the main thread returns only when both queues are empty.\<close>

definition exit_ok :: "run_state \<Rightarrow> bool" where
  "exit_ok rs \<longleftrightarrow> (\<not> pi_shutdown (rs_progress rs) \<and> rs_lost rs = [] \<and> rs_pcs rs ! 0 = PExit \<longrightarrow>
     pi_parallel_queue (rs_progress rs) = [] \<and> pi_sequential_queue (rs_progress rs) = [])"

lemma exit_step:
  assumes "RunSingle_step system cc runs rs rs'" and "exit_ok rs"
  shows "exit_ok rs'"
  using assms
  by cases (auto simp: exit_ok_def rs_defs nth_list_update split: if_splits)

lemma total_step: "RunSingle_step system cc runs rs rs' \<Longrightarrow> pi_total (rs_progress rs') = pi_total (rs_progress rs)"
  by (induction rule: RunSingle_step.induct) (auto simp: rs_defs)

lemma foldl_put:
  "foldl ProgressIndicator_put st cases = st\<lparr>pi_parallel_queue := pi_parallel_queue st @ filter ct_parallel cases,
     pi_sequential_queue := pi_sequential_queue st @ filter (\<lambda>c. \<not> ct_parallel c) cases\<rparr>"
  by (induction cases arbitrary: st) (auto simp: ProgressIndicator_put_def)

lemma ProgressIndicator_init_eq:
  "ProgressIndicator_init cases =
     \<lparr>pi_cases = cases, pi_parallel_queue = filter ct_parallel cases,
      pi_sequential_queue = filter (\<lambda>c. \<not> ct_parallel c) cases, pi_succeeded = 0,
      pi_remaining = int (length cases), pi_total = int (length cases), pi_failed = [], pi_crashed = 0,
      pi_shutdown = False\<rparr>"
  by (simp add: ProgressIndicator_init_def foldl_put)

lemma Run_init_ok:
  "whereabouts (Run_init cases tasks) = mset cases" "counters_ok system cc (Run_init cases tasks)"
  "queues_ok (Run_init cases tasks)" "exit_ok (Run_init cases tasks)"
  by (auto simp: whereabouts_def counters_ok_def queues_ok_def exit_ok_def Run_init_def ProgressIndicator_init_eq
      in_flight_def failures_def multiset_filter_mono nth_Cons split: nat.splits)

lemma reachable_ok:
  assumes "Run_reachable system cc runs (Run_init cases tasks) rs"
  shows "whereabouts rs = mset cases" "counters_ok system cc rs" "queues_ok rs" "exit_ok rs"
    "pi_total (rs_progress rs) = int (length cases)"
proof -
  from assms have "whereabouts rs = mset cases \<and> counters_ok system cc rs \<and> queues_ok rs \<and> exit_ok rs
     \<and> pi_total (rs_progress rs) = int (length cases)"
  proof (induction rule: Run_reachable.induct)
    case start
    then show ?case using Run_init_ok by (simp add: Run_init_def ProgressIndicator_init_eq)
  next
    case (step rs rs')
    then show ?case using whereabouts_step counters_step queues_step exit_step total_step by metis
  qed
  then show "whereabouts rs = mset cases" "counters_ok system cc rs" "queues_ok rs" "exit_ok rs"
    "pi_total (rs_progress rs) = int (length cases)" by auto
qed

section \<open>The threads end\<close>

fun pc_weight :: "pc \<Rightarrow> nat" where
  "pc_weight PExit = 0"
| "pc_weight PGet = 1"
| "pc_weight PLoop = 2"
| "pc_weight (PRecord t out) = 3"
| "pc_weight (PHave t out) = 4"
| "pc_weight (PRun t) = 5"

definition run_weight :: "run_state \<Rightarrow> nat" where
  "run_weight rs = 5 * length (pi_parallel_queue (rs_progress rs)) + 5 * length (pi_sequential_queue (rs_progress rs))
     + sum_list (map pc_weight (rs_pcs rs)) + (if pi_shutdown (rs_progress rs) then 0 else 1)"

lemma sum_weight_update:
  "i < length pcs \<Longrightarrow> sum_list (map pc_weight (pcs[i := p])) + pc_weight (pcs ! i) = sum_list (map pc_weight pcs) + pc_weight p"
proof (induction pcs arbitrary: i)
  case (Cons q pcs)
  then show ?case by (cases i) auto
qed simp

lemma run_weight_step:
  assumes "RunSingle_step system cc runs rs rs'"
  shows "run_weight rs' < run_weight rs"
  using assms
proof cases
  case (loop_exit i)
  then show ?thesis using sum_weight_update [of i "rs_pcs rs" PExit] by (simp add: run_weight_def rs_defs)
next
  case (loop_go i)
  then show ?thesis using sum_weight_update [of i "rs_pcs rs" PGet] by (simp add: run_weight_def rs_defs)
next
  case (get_parallel i t q)
  then show ?thesis using sum_weight_update [of i "rs_pcs rs" "PRun t"] by (simp add: run_weight_def rs_defs)
next
  case (get_sequential t q)
  then show ?thesis using sum_weight_update [of 0 "rs_pcs rs" "PRun t"] by (simp add: run_weight_def rs_defs)
next
  case (get_empty i)
  then show ?thesis using sum_weight_update [of i "rs_pcs rs" PExit] by (simp add: run_weight_def rs_defs)
next
  case (run_output i t out)
  then show ?thesis using sum_weight_update [of i "rs_pcs rs" "PHave t out"] by (simp add: run_weight_def rs_defs)
next
  case (run_ioerror i t)
  then show ?thesis using sum_weight_update [of i "rs_pcs rs" PExit] by (simp add: run_weight_def rs_defs)
next
  case (run_raises_main t)
  then show ?thesis using sum_weight_update [of 0 "rs_pcs rs" PExit] by (simp add: run_weight_def rs_defs)
next
  case (run_raises i t)
  then show ?thesis using sum_weight_update [of i "rs_pcs rs" PExit] by (simp add: run_weight_def rs_defs)
next
  case (have_shutdown i t out)
  then show ?thesis using sum_weight_update [of i "rs_pcs rs" PExit] by (simp add: run_weight_def rs_defs)
next
  case (have_go i t out)
  then show ?thesis using sum_weight_update [of i "rs_pcs rs" "PRecord t out"] by (simp add: run_weight_def rs_defs)
next
  case (recorded i t out)
  then show ?thesis using sum_weight_update [of i "rs_pcs rs" PLoop] by (simp add: run_weight_def rs_defs)
next
  case interrupt
  then show ?thesis using sum_weight_update [of 0 "rs_pcs rs" PExit] by (simp add: run_weight_def rs_defs)
qed

lemma thread_can_step:
  assumes "\<And>t. \<exists>r. runs t r" and "i < length (rs_pcs rs)" and "rs_pcs rs ! i \<noteq> PExit"
  shows "\<exists>rs'. RunSingle_step system cc runs rs rs'"
proof (cases "rs_pcs rs ! i")
  case PLoop
  then show ?thesis using assms loop_exit loop_go by metis
next
  case PGet
  show ?thesis
  proof (cases "pi_parallel_queue (rs_progress rs)")
    case Nil
    show ?thesis
    proof (cases "i = 0 \<and> pi_sequential_queue (rs_progress rs) \<noteq> []")
      case True
      then show ?thesis using get_sequential assms Nil PGet by (metis neq_Nil_conv)
    next
      case False
      then show ?thesis using get_empty assms Nil PGet by blast
    qed
  next
    case (Cons t q)
    then show ?thesis using get_parallel assms PGet by blast
  qed
next
  case (PRun t)
  obtain r where "runs t r" using assms(1) by blast
  then show ?thesis
  proof (cases r)
    case (Output out)
    with \<open>runs t r\<close> run_output [OF assms(2) PRun] show ?thesis by blast
  next
    case IOError
    with \<open>runs t r\<close> run_ioerror [OF assms(2) PRun] show ?thesis by blast
  next
    case OtherException
    with \<open>runs t r\<close> PRun assms(2) run_raises_main [of rs t runs] run_raises [OF assms(2) _ PRun] show ?thesis
      by (cases "i = 0") (blast, metis)
  qed
next
  case (PHave t out)
  then show ?thesis using assms have_shutdown have_go by metis
next
  case (PRecord t out)
  then show ?thesis using assms recorded by metis
next
  case PExit
  then show ?thesis using assms(3) by simp
qed

text \<open>A single test and a single thread: the test is started after two steps.\<close>

lemma single_started:
  "\<exists>rs. Run_reachable system cc runs (Run_init [t] 1) rs \<and> rs_pcs rs = [PRun t] \<and> rs_hasrun rs = [] \<and> rs_lost rs = []
     \<and> pi_parallel_queue (rs_progress rs) = [] \<and> pi_sequential_queue (rs_progress rs) = []
     \<and> pi_remaining (rs_progress rs) = 1 \<and> pi_failed (rs_progress rs) = [] \<and> \<not> pi_shutdown (rs_progress rs)"
proof -
  define r0 where "r0 = Run_init [t] 1"
  have r0: "length (rs_pcs r0) = 1" "rs_pcs r0 ! 0 = PLoop" "\<not> pi_shutdown (rs_progress r0)"
    by (simp_all add: r0_def Run_init_def ProgressIndicator_init_eq)
  define r1 where "r1 = set_pc 0 PGet r0"
  have 1: "RunSingle_step system cc runs r0 r1" unfolding r1_def using r0 by (intro loop_go) auto
  have r1: "length (rs_pcs r1) = 1" "rs_pcs r1 ! 0 = PGet" using r0 by (simp_all add: r1_def set_pc_def)
  define r2 where "r2 = set_pc 0 (PRun t) (r1\<lparr>rs_progress :=
    (if ct_parallel t then (rs_progress r1)\<lparr>pi_parallel_queue := []\<rparr> else (rs_progress r1)\<lparr>pi_sequential_queue := []\<rparr>)\<rparr>)"
  note r_defs = r2_def r1_def r0_def Run_init_def ProgressIndicator_init_eq set_pc_def
  have 2: "RunSingle_step system cc runs r1 r2"
  proof (cases "ct_parallel t")
    case True
    then have "pi_parallel_queue (rs_progress r1) = t # []" by (simp add: r_defs)
    from get_parallel [OF _ r1(2) this, of system cc runs] r1(1) True show ?thesis by (simp add: r2_def)
  next
    case False
    then have "pi_parallel_queue (rs_progress r1) = []" "pi_sequential_queue (rs_progress r1) = t # []"
      by (simp_all add: r_defs)
    from get_sequential [OF _ r1(2) this, of system cc runs] r1(1) False show ?thesis by (simp add: r2_def)
  qed
  have "Run_reachable system cc runs r0 r2"
    using Run_reachable.step [OF Run_reachable.step [OF Run_reachable.start 1] 2] .
  then show ?thesis unfolding r0_def [symmetric]
    by (rule_tac exI [of _ r2]) (auto simp: r_defs)
qed

text \<open>It then ends with the output of the test reported.\<close>

lemma single_finished:
  assumes "runs t (Output out)"
  shows "\<exists>rs. Run_reachable system cc runs (Run_init [t] 1) rs \<and> (\<forall>p\<in>set (rs_pcs rs). p = PExit)
     \<and> rs_hasrun rs = [(t, out)] \<and> rs_lost rs = [] \<and> \<not> pi_shutdown (rs_progress rs)"
proof -
  obtain r2 where r: "Run_reachable system cc runs (Run_init [t] 1) r2" and
    r2: "rs_pcs r2 = [PRun t]" "rs_hasrun r2 = []" "rs_lost r2 = []"
      "pi_parallel_queue (rs_progress r2) = []" "pi_sequential_queue (rs_progress r2) = []" "\<not> pi_shutdown (rs_progress r2)"
    using single_started [of system cc runs t] by blast
  define r3 where "r3 = set_pc 0 (PHave t out) r2"
  have 3: "RunSingle_step system cc runs r2 r3" unfolding r3_def using r2 assms by (intro run_output) auto
  define r4 where "r4 = set_pc 0 (PRecord t out) r3"
  have 4: "RunSingle_step system cc runs r3 r4"
    unfolding r4_def using r2 by (intro have_go [of 0 r3 t out]) (auto simp: r3_def set_pc_def)
  define r5 where "r5 = set_pc 0 PLoop (r4\<lparr>rs_progress := record_output system cc out (rs_progress r4),
                           rs_hasrun := rs_hasrun r4 @ [(t, out)]\<rparr>)"
  have 5: "RunSingle_step system cc runs r4 r5"
    unfolding r5_def using r2 by (intro recorded) (auto simp: r4_def r3_def set_pc_def)
  define r6 where "r6 = set_pc 0 PGet r5"
  have 6: "RunSingle_step system cc runs r5 r6"
    unfolding r6_def using r2 by (intro loop_go) (auto simp: r5_def r4_def r3_def set_pc_def)
  have 7: "RunSingle_step system cc runs r6 (set_pc 0 PExit r6)"
    using r2 by (intro get_empty) (auto simp: r6_def r5_def r4_def r3_def set_pc_def)
  have "Run_reachable system cc runs (Run_init [t] 1) (set_pc 0 PExit r6)"
    by (rule Run_reachable.step [OF Run_reachable.step [OF Run_reachable.step [OF Run_reachable.step
          [OF Run_reachable.step [OF r 3] 4] 5] 6] 7])
  then show ?thesis using r2 by (rule_tac exI [of _ "set_pc 0 PExit r6"])
      (auto simp: r6_def r5_def r4_def r3_def set_pc_def)
qed

text \<open>A test that passes, for the examples below.\<close>

definition demo_test :: "bool \<Rightarrow> classified_test" where
  "demo_test par = ClassifiedTest_init \<lparr>tc_path = [''parallel'', ''test-a''], tc_arch = ''none'', tc_mode = ''release'',
     tc_parallel = par, tc_variant_flags = [], tc_outcomes = [Some PASS]\<rparr> [Some PASS]"

definition demo_output :: "classified_test \<Rightarrow> test_output" where
  "demo_output t = \<lparr>to_test = ct_case t, to_command = [''iojs''], to_output = CommandOutput_init 0 False [] [],
     to_store_unexpected_output = False\<rparr>"

definition demo_runs :: "classified_test \<Rightarrow> run_result \<Rightarrow> bool" where
  "demo_runs t r = (r = Output (demo_output t))"

section \<open>Properties\<close>

text \<open>
  C16. The accounting of the indicator, in every reachable state of any number of threads and
  whatever the tests do: every test is in exactly one place, the counters add up to the number of
  tests, and the crashes counted are the failures that crashed.
\<close>

theorem run_accounting:
  assumes "Run_reachable system cc runs (Run_init cases tasks) rs"
  shows "mset (pi_parallel_queue (rs_progress rs)) + mset (pi_sequential_queue (rs_progress rs))
       + mset (concat (map held (rs_pcs rs))) + mset (map fst (rs_hasrun rs)) + mset (rs_lost rs) = mset cases
    \<and> pi_succeeded (rs_progress rs) + int (length (pi_failed (rs_progress rs))) + pi_remaining (rs_progress rs)
        = int (length cases)
    \<and> pi_crashed (rs_progress rs) = int (length (filter (HasCrashed system) (pi_failed (rs_progress rs))))"
  using reachable_ok [OF assms] by (auto simp: whereabouts_def in_flight_def counters_ok_def)

theorem run_accounting_witness:
  "\<exists>rs. Run_reachable ''Linux'' TestCase_class demo_runs (Run_init [demo_test True] 1) rs
     \<and> rs_pcs rs = [PRun (demo_test True)] \<and> pi_succeeded (rs_progress rs) + pi_remaining (rs_progress rs) = 1"
proof -
  obtain rs where r: "Run_reachable ''Linux'' TestCase_class demo_runs (Run_init [demo_test True] 1) rs"
    and "rs_pcs rs = [PRun (demo_test True)]" "pi_failed (rs_progress rs) = []"
    using single_started by blast
  with run_accounting [OF r] show ?thesis by auto
qed

text \<open>
  C17. When no test raised and no interrupt came, the run is complete once all threads have returned:
  every test was reported exactly once, none remains, and the run is a success exactly when no
  reported output was unexpected.
\<close>

theorem run_complete:
  assumes "Run_reachable system cc runs (Run_init cases tasks) rs"
    and "\<forall>p\<in>set (rs_pcs rs). p = PExit" and "\<not> pi_shutdown (rs_progress rs)" and "rs_lost rs = []"
  shows "mset (map fst (rs_hasrun rs)) = mset cases \<and> pi_remaining (rs_progress rs) = 0
    \<and> (Run_result rs \<longleftrightarrow> (\<forall>r\<in>set (rs_hasrun rs). \<not> fst (UnexpectedOutput system cc (snd r))))"
proof -
  note ok = reachable_ok [OF assms(1)]
  have "rs_pcs rs ! 0 = PExit" using ok(3) assms(2) by (cases "rs_pcs rs") (auto simp: queues_ok_def)
  then have q: "pi_parallel_queue (rs_progress rs) = []" "pi_sequential_queue (rs_progress rs) = []"
    using ok(4) assms(3,4) by (auto simp: exit_ok_def)
  have "in_flight rs = []" using assms(2) by (auto simp: in_flight_def)
  then have m: "mset (map fst (rs_hasrun rs)) = mset cases"
    using ok(1) q assms(4) by (simp add: whereabouts_def)
  then have "length (rs_hasrun rs) = length cases"
    using mset_eq_length [OF m] by simp
  then show ?thesis using m ok(2,5)
    by (auto simp: counters_ok_def Run_result_def failures_def filter_empty_conv)
qed

theorem run_complete_witness:
  "\<exists>rs. Run_reachable ''Linux'' TestCase_class demo_runs (Run_init [demo_test True] 1) rs
     \<and> pi_remaining (rs_progress rs) = 0 \<and> Run_result rs"
proof -
  have "demo_runs (demo_test True) (Output (demo_output (demo_test True)))" by (simp add: demo_runs_def)
  from single_finished [where runs = demo_runs and t = "demo_test True", OF this, of "''Linux''" TestCase_class]
  obtain rs where r: "Run_reachable ''Linux'' TestCase_class demo_runs (Run_init [demo_test True] 1) rs"
    "\<forall>p\<in>set (rs_pcs rs). p = PExit" "\<not> pi_shutdown (rs_progress rs)" "rs_lost rs = []"
    and h: "rs_hasrun rs = [(demo_test True, demo_output (demo_test True))]"
    by blast
  have "\<not> fst (UnexpectedOutput ''Linux'' TestCase_class (demo_output (demo_test True)))"
    by code_simp
  with run_complete [OF r] r(1) h show ?thesis by auto
qed

text \<open>
  Tests that are not marked parallel are run by the main thread only, one at a time: no other
  thread ever holds one.
\<close>

theorem sequential_only_main:
  assumes "Run_reachable system cc runs (Run_init cases tasks) rs"
    and "i < length (rs_pcs rs)" and "t \<in> set (held (rs_pcs rs ! i))" and "\<not> ct_parallel t"
  shows "i = 0"
  using reachable_ok(3) [OF assms(1)] assms(2-) by (auto simp: queues_ok_def)

theorem sequential_only_main_witness:
  "\<exists>rs. Run_reachable ''Linux'' TestCase_class demo_runs (Run_init [demo_test False] 1) rs
     \<and> (\<exists>i<length (rs_pcs rs). demo_test False \<in> set (held (rs_pcs rs ! i)) \<and> i = 0)"
proof -
  obtain rs where r: "Run_reachable ''Linux'' TestCase_class demo_runs (Run_init [demo_test False] 1) rs"
    and p: "rs_pcs rs = [PRun (demo_test False)]"
    using single_started by blast
  have i: "0 < length (rs_pcs rs)" "demo_test False \<in> set (held (rs_pcs rs ! 0))" "\<not> ct_parallel (demo_test False)"
    using p by (simp_all add: demo_test_def ClassifiedTest_init_def)
  with sequential_only_main [OF r i] r show ?thesis by blast
qed

text \<open>
  The run ends: no sequence of steps of the threads is infinite, and as long as a thread has not
  returned the threads can go on (there is no deadlock), when running a test always ends somehow.
\<close>

theorem run_terminates:
  "wf {(rs', rs). RunSingle_step system cc runs rs rs'}
   \<and> ((\<forall>t. \<exists>r. runs t r) \<and> (\<exists>p\<in>set (rs_pcs rs). p \<noteq> PExit) \<longrightarrow> (\<exists>rs'. RunSingle_step system cc runs rs rs'))"
proof -
  have "wf {(rs', rs). RunSingle_step system cc runs rs rs'}"
    by (rule wf_subset [OF wf_measure [of run_weight]]) (auto simp: run_weight_step)
  moreover have "\<exists>rs'. RunSingle_step system cc runs rs rs'"
    if "\<forall>t. \<exists>r. runs t r" "\<exists>p\<in>set (rs_pcs rs). p \<noteq> PExit"
    using that thread_can_step [of runs _ rs system cc] by (metis in_set_conv_nth)
  ultimately show ?thesis by blast
qed

theorem run_terminates_witness:
  "\<exists>rs'. RunSingle_step ''Linux'' TestCase_class demo_runs (Run_init [demo_test True] 2) rs'"
proof -
  have "\<forall>t. \<exists>r. demo_runs t r" by (simp add: demo_runs_def)
  moreover have "\<exists>p\<in>set (rs_pcs (Run_init [demo_test True] 2)). p \<noteq> PExit" by (simp add: Run_init_def)
  ultimately show ?thesis
    using run_terminates [of "''Linux''" TestCase_class demo_runs "Run_init [demo_test True] 2"] by blast
qed

text \<open>
  A test whose run raises \<open>IOError\<close> is dropped silently: with one task and a single test that
  does so, the run ends with the test still counted as remaining, no failure, and the result is
  success.
\<close>

theorem ioerror_is_success:
  assumes "runs t IOError"
  shows "\<exists>rs. Run_reachable system cc runs (Run_init [t] 1) rs \<and> (\<forall>p\<in>set (rs_pcs rs). p = PExit)
    \<and> pi_remaining (rs_progress rs) = 1 \<and> rs_hasrun rs = [] \<and> Run_result rs"
proof -
  obtain r2 where r: "Run_reachable system cc runs (Run_init [t] 1) r2" and
    r2: "rs_pcs r2 = [PRun t]" "rs_hasrun r2 = []" "pi_remaining (rs_progress r2) = 1" "pi_failed (rs_progress r2) = []"
    using single_started [of system cc runs t] by blast
  have "RunSingle_step system cc runs r2 (set_pc 0 PExit (lose [t] r2))"
    using r2 assms by (intro run_ioerror) auto
  then have "Run_reachable system cc runs (Run_init [t] 1) (set_pc 0 PExit (lose [t] r2))"
    by (rule Run_reachable.step [OF r])
  then show ?thesis
    using r2 by (rule_tac exI [of _ "set_pc 0 PExit (lose [t] r2)"]) (auto simp: rs_defs Run_result_def)
qed

theorem ioerror_is_success_witness:
  "\<exists>rs. Run_reachable ''Linux'' TestCase_class (\<lambda>t r. r = IOError) (Run_init [demo_test False] 1) rs
    \<and> pi_remaining (rs_progress rs) = 1 \<and> Run_result rs"
  using ioerror_is_success [of "\<lambda>t r. r = IOError" "demo_test False" "''Linux''" TestCase_class] by blast

lemma nat_str_small: "n < 10 \<Longrightarrow> length (nat_str n) = 1" "10 \<le> n \<Longrightarrow> n < 100 \<Longrightarrow> length (nat_str n) = 2"
  by (subst nat_str.simps; simp)+

text \<open>
  The duration that the TAP indicator prints is wrong for every duration whose fraction is less
  than a tenth of a second: the milliseconds are printed without leading zeros after the point, so
  the digits printed, read as a decimal fraction, exceed the real one.
\<close>

theorem tap_duration_misprints:
  assumes "1000 \<le> td_microseconds d" and "td_microseconds d < 100000"
  shows "\<exists>digits. tap_duration d = ''  duration_ms: '' @ int_str (td_seconds d + td_days d * 86400) @ ''.'' @ digits
    \<and> of_nat (digits_val digits) / 10 ^ length digits > (of_int (td_microseconds d) / 10 ^ 6 :: rat)"
proof -
  let ?us = "td_microseconds d"
  define k where "k = nat (?us div 1000)"
  have k: "int k = ?us div 1000" using assms by (simp add: k_def)
  have secs: "(?us + (td_seconds d + td_days d * 24 * 3600) * 10 ^ 6) div 10 ^ 6 = td_seconds d + td_days d * 86400"
  proof -
    have "?us div 10 ^ 6 = 0" using assms by simp
    then show ?thesis by (simp add: div_mult_self2 algebra_simps)
  qed
  have kb: "1 \<le> k" "k < 100" using assms k by linarith+
  have us: "(of_int ?us :: rat) < of_nat (k + 1) * 1000"
  proof -
    have "?us < (int k + 1) * 1000" using k by presburger
    then have "of_int ?us < (of_int ((int k + 1) * 1000) :: rat)" by (simp only: of_int_less_iff)
    then show ?thesis by simp
  qed
  have "(of_nat k :: rat) / 10 ^ length (nat_str k) > of_int ?us / 10 ^ 6"
  proof (cases "k < 10")
    case True
    have "(of_nat (k + 1) :: rat) * 1000 \<le> of_nat k * 100000" using kb(1) by (simp add: algebra_simps)
    with us True show ?thesis by (simp add: nat_str_small field_simps)
  next
    case False
    have "(of_nat k :: rat) \<ge> 10" using False by simp
    then have "(of_nat (k + 1) :: rat) * 1000 \<le> of_nat k * 10000" by (simp add: algebra_simps)
    with us False kb show ?thesis by (simp add: nat_str_small field_simps)
  qed
  moreover have "int_str (?us div 1000) = nat_str k" using k by (metis int_str_def nat_int of_nat_less_0_iff)
  ultimately show ?thesis
    using secs by (intro exI [of _ "nat_str k"]) (simp add: tap_duration_def Let_def)
qed

theorem tap_duration_misprints_witness:
  "tap_duration \<lparr>td_days = 0, td_seconds = 1, td_microseconds = 5000\<rparr> = ''  duration_ms: 1.5''
   \<and> (\<exists>digits. of_nat (digits_val digits) / 10 ^ length digits > (5000 / 10 ^ 6 :: rat))"
proof -
  have "tap_duration \<lparr>td_days = 0, td_seconds = 1, td_microseconds = 5000\<rparr> = ''  duration_ms: 1.5''"
    by code_simp
  with tap_duration_misprints [of "\<lparr>td_days = 0, td_seconds = 1, td_microseconds = 5000\<rparr>"] show ?thesis by auto
qed

text \<open>
  The exit code: a run that lists the tests, runs and does not raise exits with 0 exactly when
  it was only asked for the sources, or when some test was left to run and the run of the tests
  that are neither skipped nor slow was a success.
\<close>

theorem Main_exit_code:
  assumes "Main_run me opts j ls = Inr (printed, code)"
  shows "code \<in> {0, 1} \<and> (code = 0 \<longleftrightarrow> op_cat opts \<or>
      (let cases = filter (\<lambda>c. \<not> DoSkip c) (ls_cases ls)
       in cases \<noteq> [] \<and> RunTestCases me cases (op_progress opts) j = Inr (Some True)))"
proof (cases "op_cat opts")
  case True
  then show ?thesis using assms by (simp add: Main_run_def)
next
  case False
  let ?C = "filter (\<lambda>c. \<not> DoSkip c) (ls_cases ls)"
  show ?thesis
  proof (cases "?C = []")
    case True
    then show ?thesis using assms False by (simp add: Main_run_def Let_def res_bind_eq_Inr) auto
  next
    case ne: False
    then have l: "length ?C \<noteq> 0" by simp
    obtain r where r: "RunTestCases me ?C (op_progress opts) j = Inr r"
      using assms False l by (auto simp: Main_run_def Let_def res_bind_eq_Inr simp del: length_0_conv length_greater_0_conv)
    show ?thesis
    proof (cases r)
      case None
      then show ?thesis using assms False l r
        by (auto simp: Main_run_def Let_def res_bind_eq_Inr ne simp del: length_0_conv)
    next
      case (Some ok)
      then have "code = (if ok then 0 else 1)" using assms False l r
        by (auto simp: Main_run_def Let_def res_bind_eq_Inr simp del: length_0_conv)
      then show ?thesis using Some r ne False by simp
    qed
  qed
qed

definition demo_env :: main_env where
  "demo_env = \<lparr>me_system = ''Linux'', me_cpu_count = 4, me_exists = (\<lambda>f. True), me_out_dir_exists = True,
     me_abspath = id, me_suites = [], me_status = [], me_requirements = (\<lambda>n r. []), me_build = (\<lambda>r m f. True),
     me_run = (\<lambda>cs i j. Some True),
     me_durations = (\<lambda>c. Some \<lparr>td_days = 0, td_seconds = 1, td_microseconds = 5000\<rparr>),
     me_total_time = 2, me_source = (\<lambda>t. []), me_recursion_limit = 1000\<rparr>"

definition demo_listing :: listing where
  "demo_listing = \<lparr>ls_cases = [demo_test True], ls_unclassified = [], ls_unused = Some [], ls_printed = []\<rparr>"

theorem Main_exit_code_witness:
  "Main_run demo_env BuildOptions 1 demo_listing = Inr ([], 0)
   \<and> RunTestCases demo_env [demo_test True] ''mono'' 1 = Inr (Some True)"
proof -
  have r: "Main_run demo_env BuildOptions 1 demo_listing = Inr ([], 0)" by code_simp
  have "filter (\<lambda>c. \<not> DoSkip c) (ls_cases demo_listing) = [demo_test True]" by code_simp
  with Main_exit_code [OF r] r show ?thesis by (simp add: BuildOptions_def Let_def)
qed

text \<open>
  Asking for times makes the run fail: once a test that was run has a duration, \<open>--time\<close> ends in
  an exception, since the durations are \<open>timedelta\<close> objects and \<open>FormatTime\<close> rounds a number.
\<close>

theorem time_option_raises:
  assumes "c \<in> set (ls_cases ls)" and "\<not> DoSkip c" and "me_durations me (ct_case c) = Some d"
    and "op_time opts" and "\<not> op_cat opts" and "\<not> op_warn_unused opts"
    and "RunTestCases me (filter (\<lambda>c. \<not> DoSkip c) (ls_cases ls)) (op_progress opts) j = Inr (Some ok)"
  shows "Main_run me opts j ls = Inl (TypeError ''a float is required'')"
proof -
  let ?cases = "filter (\<lambda>c. \<not> DoSkip c) (ls_cases ls)"
  let ?timed = "sort_by_time (concat (map (\<lambda>c. case me_durations me (ct_case c) of
             None \<Rightarrow> [] | Some d \<Rightarrow> [(ct_case c, d)]) ?cases))"
  have "set ?timed \<noteq> {}" using assms(1-3) by (auto simp: sort_by_time_def intro!: bexI [of _ c])
  then obtain x xs where t: "?timed = x # xs" by (cases ?timed) auto
  have "take 20 ?timed = x # take 19 xs" using t by (simp add: take_Cons')
  moreover have "[1..<21] = 1 # [2..<21 :: nat]" by (simp add: upt_conv_Cons)
  ultimately have "time_lines me ?cases = Inl (TypeError ''a float is required'')"
    by (cases x) (simp add: time_lines_def FormatTime_def Let_def)
  moreover have "?cases \<noteq> []" using assms(1,2) by (auto simp: filter_empty_conv)
  ultimately show ?thesis using assms by (simp add: Main_run_def Let_def)
qed

theorem time_option_raises_witness:
  "Main_run demo_env (BuildOptions\<lparr>op_time := True\<rparr>) 1 demo_listing = Inl (TypeError ''a float is required'')"
  by (rule time_option_raises [of "demo_test True" _ _ "\<lparr>td_days = 0, td_seconds = 1, td_microseconds = 5000\<rparr>" _ _ True]) code_simp+

text \<open>
  A status line never exceeds the width it is cut to.
\<close>

theorem Truncate_width:
  assumes "3 \<le> n"
  shows "int (length (Truncate s n)) \<le> n"
  using assms by (auto simp: Truncate_def py_take_def)

theorem Truncate_width_witness: "int (length (Truncate ''iojs'' 5)) \<le> 5 \<and> Truncate ''iojs'' 5 = ''io...''"
  using Truncate_width [of 5 "''iojs''"] by (simp add: Truncate_def py_take_def)

end
