(* ===== verification/Py_Value.thy ===== *)
theory Py_Value
  imports Py_Prelude Py_Str
begin

text \<open>
  The values of GYP files: strings, integers, lists and dictionaries with string keys, as
  \<open>CheckedEval\<close> admits them. Lists and dictionaries are values here; where the sources share and
  mutate them, the models return the new value.
\<close>

datatype pyval =
    PStr string
  | PInt int
  | PList "pyval list"
  | PDict "(string \<times> pyval) list"

type_synonym pydict = "(string, pyval) dict"

fun truthy :: "pyval \<Rightarrow> bool" where
  "truthy (PStr s) = (s \<noteq> [])"
| "truthy (PInt i) = (i \<noteq> 0)"
| "truthy (PList l) = (l \<noteq> [])"
| "truthy (PDict d) = (d \<noteq> [])"

fun type_name :: "pyval \<Rightarrow> string" where
  "type_name (PStr s) = ''str''"
| "type_name (PInt i) = ''int''"
| "type_name (PList l) = ''list''"
| "type_name (PDict d) = ''dict''"

text \<open>The value as a string, a list, a dictionary; a \<open>TypeError\<close> otherwise.\<close>

fun as_str :: "pyval \<Rightarrow> string res" where
  "as_str (PStr s) = Inr s"
| "as_str _ = Inl (TypeError ''str expected'')"

fun as_list :: "pyval \<Rightarrow> pyval list res" where
  "as_list (PList l) = Inr l"
| "as_list _ = Inl (TypeError ''list expected'')"

fun as_dict :: "pyval \<Rightarrow> pydict res" where
  "as_dict (PDict d) = Inr d"
| "as_dict _ = Inl (TypeError ''dict expected'')"

text \<open>The strings that \<open>for x in v\<close> goes through: the characters of a string, the keys of a dictionary.\<close>

fun str_items :: "pyval \<Rightarrow> string list res" where
  "str_items (PStr s) = Inr (map (\<lambda>c. [c]) s)"
| "str_items (PInt i) = Inl (TypeError ''int object is not iterable'')"
| "str_items (PList l) = mapM as_str l"
| "str_items (PDict d) = Inr (map fst d)"

lemma str_items_strs [simp]: "str_items (PList (map PStr xs)) = Inr xs"
  by (induction xs) simp_all

text \<open>A string in single quotes, for messages.\<close>

definition sq :: "string \<Rightarrow> string" where
  "sq s = [CHR 0x27] @ s @ [CHR 0x27]"

abbreviation nl :: char where "nl \<equiv> CHR 0x0A"

lemma as_eqs [res_simps]:
  "as_str v = Inr s \<longleftrightarrow> v = PStr s"
  "as_list v = Inr l \<longleftrightarrow> v = PList l"
  "as_dict v = Inr d \<longleftrightarrow> v = PDict d"
  by (cases v; auto)+

end
