(* ===== verification/Py_Path.thy ===== *)
theory Py_Path
  imports Py_Str
begin

text \<open>
  \<open>posixpath\<close>, the \<open>os.path\<close> of the platforms the sources run on: joining, splitting and normalising
  paths, on strings only. Paths of plain components are the ones without empty, \<open>.\<close> or \<open>..\<close>
  components; \<open>normpath\<close> of an absolute path is computed on them as on a stack.
\<close>

definition slash :: char where "slash = CHR ''/''"

definition isabs :: "string \<Rightarrow> bool" where
  "isabs p = startswith p ''/''"

definition path_join2 :: "string \<Rightarrow> string \<Rightarrow> string" where
  "path_join2 path b =
     (if startswith b ''/'' then b
      else if path = [] \<or> endswith path ''/'' then path @ b
      else path @ ''/'' @ b)"

text \<open>\<open>os.path.join(a, *p)\<close>.\<close>

definition path_join :: "string \<Rightarrow> string list \<Rightarrow> string" where
  "path_join a ps = foldl path_join2 a ps"

text \<open>One component in the loop of \<open>normpath\<close>; the list holds the components so far, the last one
  first.\<close>

definition norm_step :: "bool \<Rightarrow> string list \<Rightarrow> string \<Rightarrow> string list" where
  "norm_step initial new_comps c =
     (if c = [] \<or> c = ''.'' then new_comps
      else if c \<noteq> ''..'' \<or> (\<not> initial \<and> new_comps = []) \<or> (new_comps \<noteq> [] \<and> hd new_comps = ''..'')
      then c # new_comps
      else if new_comps \<noteq> [] then tl new_comps else new_comps)"

definition normpath :: "string \<Rightarrow> string" where
  "normpath path =
     (if path = [] then ''.''
      else let initial_slashes = (if startswith path ''/'' then
                                    (if startswith path ''//'' \<and> \<not> startswith path ''///'' then 2 else 1) else 0 :: nat);
               comps = rev (foldl (norm_step (initial_slashes \<noteq> 0)) [] (split_on slash path));
               result = replicate initial_slashes slash @ join ''/'' comps
           in if result = [] then ''.'' else result)"

text \<open>\<open>os.path.split\<close>, \<open>dirname\<close>, \<open>basename\<close>.\<close>

definition path_tail :: "string \<Rightarrow> string" where
  "path_tail p = last (split_on slash p)"

definition path_head :: "string \<Rightarrow> string" where
  "path_head p =
     (let head = take (length p - length (path_tail p)) p
      in if head \<noteq> [] \<and> \<not> list_all (\<lambda>c. c = slash) head
         then rev (dropWhile (\<lambda>c. c = slash) (rev head)) else head)"

definition path_split :: "string \<Rightarrow> string \<times> string" where
  "path_split p = (path_head p, path_tail p)"

definition dirname :: "string \<Rightarrow> string" where
  "dirname p = path_head p"

text \<open>\<open>os.path.splitext\<close>: the extension starts at the last dot of the last component that has a
  character other than a dot before it.\<close>

definition splitext :: "string \<Rightarrow> string \<times> string" where
  "splitext p =
     (let tail = path_tail p;
          ext_rev = takeWhile (\<lambda>c. c \<noteq> CHR ''.'') (rev tail);
          n = length tail - length ext_rev
      in if n = 0 \<or> list_all (\<lambda>c. c = CHR ''.'') (take (n - 1) tail) then (p, [])
         else (take (length p - length ext_rev - 1) p, CHR ''.'' # rev ext_rev))"

section \<open>Absolute paths of plain components\<close>

definition plain_comp :: "string \<Rightarrow> bool" where
  "plain_comp c = (c \<noteq> [] \<and> c \<noteq> ''.'' \<and> c \<noteq> ''..'' \<and> slash \<notin> set c)"

definition abs_path :: "string list \<Rightarrow> string" where
  "abs_path cs = slash # join ''/'' cs"

lemma norm_step_plain: "plain_comp c \<Longrightarrow> norm_step i acc c = c # acc"
  by (simp add: plain_comp_def norm_step_def)

lemma norm_plain: "list_all plain_comp cs \<Longrightarrow> foldl (norm_step i) acc cs = rev cs @ acc"
  by (induction cs arbitrary: acc) (simp_all add: norm_step_plain)

lemma norm_pardirs:
  "list_all plain_comp acc \<Longrightarrow> foldl (norm_step True) acc (replicate k ''..'') = drop k acc"
proof (induction k arbitrary: acc)
  case (Suc k)
  have "norm_step True acc ''..'' = drop 1 acc"
    using Suc.prems by (cases acc) (auto simp: norm_step_def plain_comp_def)
  moreover have "list_all plain_comp (drop 1 acc)"
    using Suc.prems by (cases acc) auto
  ultimately show ?case using Suc.IH [of "drop 1 acc"] by simp
qed simp

lemma split_join_plain:
  assumes "cs \<noteq> []" and "list_all (\<lambda>c. slash \<notin> set c) cs"
  shows "split_on slash (join ''/'' cs) = cs"
  using split_on_join [of cs slash] assms by (auto simp: list_all_iff slash_def)

lemma split_abs_path:
  assumes "list_all plain_comp cs"
  shows "split_on slash (abs_path cs) = [] # (if cs = [] then [[]] else cs)"
proof -
  have "list_all (\<lambda>c. slash \<notin> set c) cs" using assms by (auto simp: list_all_iff plain_comp_def)
  then have "split_on slash (join ''/'' cs) = (if cs = [] then [[]] else cs)"
    using split_join_plain by simp
  then show ?thesis using split_on_append [of slash "[]" "join ''/'' cs"] by (simp add: abs_path_def)
qed

lemma join_append: "xs \<noteq> [] \<Longrightarrow> ys \<noteq> [] \<Longrightarrow> join sep (xs @ ys) = join sep xs @ sep @ join sep ys"
proof (induction xs)
  case (Cons x xs)
  then show ?case by (cases "xs = []") (auto simp: join_Cons_ne)
qed simp

lemma startswith_abs_path [simp]: "startswith (abs_path cs) ''/''"
  by (simp add: startswith_def abs_path_def slash_def)

end
