(* ===== verification/Gyp_Common.thy ===== *)
theory Gyp_Common
  imports Py_Value Py_Path
begin

text \<open>
  \<open>gyp/common.py\<close>: qualified targets, relative paths, quoting for POSIX shells, transitive
  dependencies, flavors, and removing duplicates. \<open>os.path.realpath\<close> and the environment are
  arguments. Shown here: qualified targets round-trip, a relative path leads back to the path it was
  made from, a quoted argument is one shell word with the value of the argument, and the
  worklist of \<open>DeepDependencyTargets\<close> ends with exactly the reachable targets.
\<close>

section \<open>Targets\<close>

text \<open>\<open>s.rsplit(c, 1)\<close>: the parts around the last \<open>c\<close>, if there is one.\<close>

definition rsplit1 :: "char \<Rightarrow> string \<Rightarrow> (string \<times> string) option" where
  "rsplit1 c s =
     (if c \<in> set s then
        let b = rev (takeWhile (\<lambda>x. x \<noteq> c) (rev s)) in Some (take (length s - length b - 1) s, b)
      else None)"

definition ParseQualifiedTarget :: "string \<Rightarrow> string option \<times> string \<times> string option" where
  "ParseQualifiedTarget target =
     (let (build_file, target1) = (case rsplit1 (CHR '':'') target of
             Some (bf, t) \<Rightarrow> (Some bf, t) | None \<Rightarrow> (None, target));
          (target2, toolset) = (case rsplit1 (CHR ''#'') target1 of
             Some (t, ts) \<Rightarrow> (t, Some ts) | None \<Rightarrow> (target1, None))
      in (build_file, target2, toolset))"

definition QualifiedTarget :: "string \<Rightarrow> string \<Rightarrow> string \<Rightarrow> string" where
  "QualifiedTarget build_file target toolset =
     (let fully_qualified = build_file @ '':'' @ target
      in if toolset \<noteq> [] then fully_qualified @ ''#'' @ toolset else fully_qualified)"

definition BuildFile :: "string \<Rightarrow> string option" where
  "BuildFile fully_qualified_target = fst (ParseQualifiedTarget fully_qualified_target)"

definition FindQualifiedTargets :: "string \<Rightarrow> string list \<Rightarrow> string list" where
  "FindQualifiedTargets target qualified_list =
     filter (\<lambda>t. fst (snd (ParseQualifiedTarget t)) = target) qualified_list"

definition BuildFileTargets :: "string list \<Rightarrow> string option \<Rightarrow> string list" where
  "BuildFileTargets target_list build_file = filter (\<lambda>p. BuildFile p = build_file) target_list"

section \<open>Messages\<close>

text \<open>\<open>ExceptionAppend\<close>; the errors that carry no text here are left as they are.\<close>

fun ExceptionAppend :: "py_error \<Rightarrow> string \<Rightarrow> py_error" where
  "ExceptionAppend (KeyError s) msg = KeyError (s @ '' '' @ msg)"
| "ExceptionAppend (TypeError s) msg = TypeError (s @ '' '' @ msg)"
| "ExceptionAppend (ValueError s) msg = ValueError (s @ '' '' @ msg)"
| "ExceptionAppend (AttributeError s) msg = AttributeError (s @ '' '' @ msg)"
| "ExceptionAppend (GypError s) msg = GypError (s @ '' '' @ msg)"
| "ExceptionAppend (CircularException s) msg = CircularException (s @ '' '' @ msg)"
| "ExceptionAppend (SyntaxError s) msg = SyntaxError (s @ '' '' @ msg)"
| "ExceptionAppend (RuntimeError s) msg = RuntimeError (s @ '' '' @ msg)"
| "ExceptionAppend (OSError s) msg = OSError (s @ '' '' @ msg)"
| "ExceptionAppend (PyException s) msg = PyException (s @ '' '' @ msg)"
| "ExceptionAppend (NameError s) msg = NameError (s @ '' '' @ msg)"
| "ExceptionAppend e msg = e"

text \<open>\<open>try: ... except Exception, e: ExceptionAppend(e, msg); raise\<close>.\<close>

definition appending_error :: "'a res \<Rightarrow> string \<Rightarrow> 'a res" where
  "appending_error r msg = (case r of Inl e \<Rightarrow> Inl (ExceptionAppend e msg) | Inr x \<Rightarrow> Inr x)"

lemma appending_error_Inr [res_simps]: "appending_error r msg = Inr x \<longleftrightarrow> r = Inr x"
  by (simp add: appending_error_def split: sum.splits)

section \<open>Paths\<close>

fun common_prefix_len :: "'a list \<Rightarrow> 'a list \<Rightarrow> nat" where
  "common_prefix_len (x # xs) (y # ys) = (if x = y then Suc (common_prefix_len xs ys) else 0)"
| "common_prefix_len _ _ = 0"

text \<open>\<open>realpath\<close> is \<open>os.path.realpath\<close>; the check for another drive on Windows is left out.\<close>

definition RelativePath :: "(string \<Rightarrow> string) \<Rightarrow> string \<Rightarrow> string \<Rightarrow> string" where
  "RelativePath realpath path relative_to =
     (let path_split = split_on slash (realpath path);
          relative_to_split = split_on slash (realpath relative_to);
          prefix_len = common_prefix_len path_split relative_to_split;
          relative_split = replicate (length relative_to_split - prefix_len) ''..'' @ drop prefix_len path_split
      in case relative_split of [] \<Rightarrow> [] | a # ps \<Rightarrow> path_join a ps)"

definition InvertRelativePath :: "(string \<Rightarrow> string) \<Rightarrow> string \<Rightarrow> string option \<Rightarrow> string" where
  "InvertRelativePath realpath path toplevel_dir =
     (if path = [] then path
      else let t = (case toplevel_dir of None \<Rightarrow> ''.'' | Some d \<Rightarrow> d)
           in RelativePath realpath t (path_join t [path]))"

definition FixIfRelativePath :: "(string \<Rightarrow> string) \<Rightarrow> string \<Rightarrow> string \<Rightarrow> string" where
  "FixIfRelativePath realpath path relative_to =
     (if isabs path then path else RelativePath realpath path relative_to)"

definition UnrelativePath :: "string \<Rightarrow> string \<Rightarrow> string" where
  "UnrelativePath path relative_to = normpath (path_join (dirname relative_to) [path])"

definition ResolveTarget ::
  "(string \<Rightarrow> string) \<Rightarrow> string \<Rightarrow> string \<Rightarrow> string option \<Rightarrow> string \<times> string \<times> string option" where
  "ResolveTarget realpath build_file target toolset =
     (let (parsed_build_file, target', parsed_toolset) = ParseQualifiedTarget target;
          build_file' = (case parsed_build_file of
              None \<Rightarrow> build_file
            | Some pbf \<Rightarrow>
                if pbf = [] then build_file
                else if build_file \<noteq> [] then
                  let bf = normpath (path_join (dirname build_file) [pbf])
                  in if \<not> isabs bf then RelativePath realpath bf ''.'' else bf
                else pbf);
          toolset' = (case parsed_toolset of None \<Rightarrow> toolset | Some ts \<Rightarrow> if ts = [] then toolset else Some ts)
      in (build_file', target', toolset'))"

section \<open>Quoting\<close>

definition shell_quote_char :: "char \<Rightarrow> bool" where
  "shell_quote_char c \<longleftrightarrow> c \<in> set (CHR 0x09 # CHR 0x0A # CHR 0x27 # '' #$%&()*;<=>?[{|}~'')"

definition shell_escape_char :: "char \<Rightarrow> bool" where
  "shell_escape_char c \<longleftrightarrow> c = CHR 0x22 \<or> c = CHR 0x5C \<or> c = CHR 0x60"

fun shell_escape :: "string \<Rightarrow> string" where
  "shell_escape [] = []"
| "shell_escape (c # s) = (if shell_escape_char c then CHR 0x5C # c # shell_escape s else c # shell_escape s)"

definition EncodePOSIXShellArgument :: "string \<Rightarrow> string" where
  "EncodePOSIXShellArgument argument =
     (let q = (if list_ex shell_quote_char argument \<or> argument = [] then [CHR 0x22] else [])
      in q @ shell_escape argument @ q)"

definition EncodePOSIXShellList :: "string list \<Rightarrow> string" where
  "EncodePOSIXShellList args = join '' '' (map EncodePOSIXShellArgument args)"

section \<open>Transitive dependencies\<close>

text \<open>A target's \<open>spec.get(key, [])\<close> as target names.\<close>

definition dep_names :: "string \<Rightarrow> pydict \<Rightarrow> string list res" where
  "dep_names key spec = (case dget spec key of None \<Rightarrow> Inr [] | Some v \<Rightarrow> str_items v)"

text \<open>The worklist; a set is a list without duplicates, \<open>pick\<close> chooses what \<open>pop\<close> returns. The fuel
  bounds the turns of the loop.\<close>

fun DeepDependencyTargets_loop ::
  "(string list \<Rightarrow> string) \<Rightarrow> (string, pydict) dict \<Rightarrow> nat \<Rightarrow> string list \<Rightarrow> string list \<Rightarrow> string list res" where
  "DeepDependencyTargets_loop pick target_dicts 0 dependencies pending =
     (if pending = [] then Inr dependencies else Inl RecursionLimit)"
| "DeepDependencyTargets_loop pick target_dicts (Suc n) dependencies pending =
     (if pending = [] then Inr dependencies
      else let r = pick pending; pending' = filter (\<lambda>x. x \<noteq> r) pending in
           if r \<in> set dependencies then DeepDependencyTargets_loop pick target_dicts n dependencies pending'
           else res_bind (dict_get target_dicts r) (\<lambda>spec.
                res_bind (dep_names ''dependencies'' spec) (\<lambda>ds.
                res_bind (dep_names ''dependencies_original'' spec) (\<lambda>os.
                  DeepDependencyTargets_loop pick target_dicts n (dependencies @ [r])
                    (foldl add_new (foldl add_new pending' ds) os)))))"

definition DeepDependencyTargets ::
  "(string list \<Rightarrow> string) \<Rightarrow> nat \<Rightarrow> (string, pydict) dict \<Rightarrow> string list \<Rightarrow> string list res" where
  "DeepDependencyTargets pick fuel target_dicts roots =
     res_bind (DeepDependencyTargets_loop pick target_dicts fuel [] (remdups roots)) (\<lambda>ds.
       Inr (filter (\<lambda>d. d \<notin> set roots) ds))"

definition AllTargets ::
  "(string list \<Rightarrow> string) \<Rightarrow> nat \<Rightarrow> string list \<Rightarrow> (string, pydict) dict \<Rightarrow> string option \<Rightarrow> string list res" where
  "AllTargets pick fuel target_list target_dicts build_file =
     (let bftargets = BuildFileTargets target_list build_file
      in res_bind (DeepDependencyTargets pick fuel target_dicts bftargets) (\<lambda>deptargets.
           Inr (bftargets @ deptargets)))"

section \<open>Miscellaneous\<close>

definition GetFlavor :: "string \<Rightarrow> (string, string) dict \<Rightarrow> string" where
  "GetFlavor platform params =
     (case dget params ''flavor'' of
        Some f \<Rightarrow> f
      | None \<Rightarrow>
     (case dget [(''cygwin'', ''win''), (''win32'', ''win''), (''darwin'', ''mac'')] platform of
        Some f \<Rightarrow> f
      | None \<Rightarrow>
        if startswith platform ''sunos'' then ''solaris''
        else if startswith platform ''freebsd'' then ''freebsd''
        else if startswith platform ''openbsd'' then ''openbsd''
        else if startswith platform ''aix'' then ''aix''
        else ''linux''))"

definition GetEnvironFallback :: "(string, string) dict \<Rightarrow> string list \<Rightarrow> string \<Rightarrow> string" where
  "GetEnvironFallback environ var_list dflt =
     (case filter (dhas environ) var_list of [] \<Rightarrow> dflt | v # _ \<Rightarrow> the (dget environ v))"

text \<open>\<open>uniquer\<close>: \<open>seen\<close> are the markers so far.\<close>

fun uniquer_loop :: "('a \<Rightarrow> 'b) \<Rightarrow> 'b list \<Rightarrow> 'a list \<Rightarrow> 'a list" where
  "uniquer_loop idfun seen [] = []"
| "uniquer_loop idfun seen (item # seq) =
     (let marker = idfun item
      in if marker \<in> set seen then uniquer_loop idfun seen seq
         else item # uniquer_loop idfun (marker # seen) seq)"

definition uniquer :: "('a \<Rightarrow> 'b) \<Rightarrow> 'a list \<Rightarrow> 'a list" where
  "uniquer idfun seq = uniquer_loop idfun [] seq"

text \<open>\<open>memoize\<close>: the cache is filled on a miss.\<close>

definition memoize_call :: "('k \<Rightarrow> 'v) \<Rightarrow> ('k, 'v) dict \<Rightarrow> 'k \<Rightarrow> 'v \<times> ('k, 'v) dict" where
  "memoize_call func cache args =
     (case dget cache args of
        Some result \<Rightarrow> (result, cache)
      | None \<Rightarrow> let result = func args in (result, dset cache args result))"

definition CrossCompileRequested :: "(string, string) dict \<Rightarrow> bool" where
  "CrossCompileRequested environ =
     list_ex (\<lambda>v. case dget environ v of None \<Rightarrow> False | Some s \<Rightarrow> s \<noteq> [])
       [''GYP_CROSSCOMPILE'', ''AR_host'', ''CC_host'', ''CXX_host'', ''AR_target'', ''CC_target'', ''CXX_target'']"

section \<open>Targets round-trip\<close>

lemma rsplit1_append: "c \<notin> set b \<Longrightarrow> rsplit1 c (a @ c # b) = Some (a, b)"
proof -
  assume b: "c \<notin> set b"
  have t: "takeWhile (\<lambda>x. x \<noteq> c) (rev (a @ c # b)) = rev b"
    using takeWhile_append2 [of "rev b" "\<lambda>x. x \<noteq> c" "c # rev a"] b by auto
  show "rsplit1 c (a @ c # b) = Some (a, b)"
    unfolding rsplit1_def t by simp
qed

lemma rsplit1_None: "c \<notin> set s \<Longrightarrow> rsplit1 c s = None"
  by (simp add: rsplit1_def)

lemma Parse_Qualified:
  assumes "CHR '':'' \<notin> set target" and "CHR '':'' \<notin> set toolset" and "CHR ''#'' \<notin> set toolset"
    and "toolset = [] \<Longrightarrow> CHR ''#'' \<notin> set target"
  shows "ParseQualifiedTarget (QualifiedTarget build_file target toolset) =
     (Some build_file, target, if toolset = [] then None else Some toolset)"
proof (cases "toolset = []")
  case True
  then show ?thesis
    using assms rsplit1_append [of "CHR '':''" target build_file]
    by (simp add: ParseQualifiedTarget_def QualifiedTarget_def rsplit1_None)
next
  case False
  have "CHR '':'' \<notin> set (target @ CHR ''#'' # toolset)" using assms by simp
  from rsplit1_append [OF this, of build_file]
  have "rsplit1 (CHR '':'') (build_file @ CHR '':'' # target @ CHR ''#'' # toolset) =
      Some (build_file, target @ CHR ''#'' # toolset)" .
  with False assms(3) show ?thesis
    by (simp add: ParseQualifiedTarget_def QualifiedTarget_def rsplit1_append)
qed

section \<open>Relative paths\<close>

lemma common_prefix_len_take:
  "take (common_prefix_len xs ys) xs = take (common_prefix_len xs ys) ys"
  "common_prefix_len xs ys \<le> length xs" "common_prefix_len xs ys \<le> length ys"
  by (induction xs ys rule: common_prefix_len.induct) auto

lemma path_join2_plain:
  "a \<noteq> [] \<Longrightarrow> \<not> endswith a ''/'' \<Longrightarrow> \<not> startswith b ''/'' \<Longrightarrow> path_join2 a b = a @ ''/'' @ b"
  by (simp add: path_join2_def)

lemma endswith_slash: "a \<noteq> [] \<Longrightarrow> slash \<notin> set a \<Longrightarrow> \<not> endswith (b @ a) ''/''"
  by (cases a rule: rev_cases) (auto simp: endswith_def slash_def)

lemma startswith_slash: "slash \<notin> set a \<Longrightarrow> \<not> startswith a ''/''"
  by (cases a) (auto simp: startswith_def slash_def)

text \<open>Joining relative components, of which only the last may be empty.\<close>

lemma path_join_comps:
  assumes "list_all (\<lambda>c. slash \<notin> set c) (a # ps)" and "list_all (\<lambda>c. c \<noteq> []) (butlast (a # ps))"
  shows "path_join (pre @ a) ps = pre @ join ''/'' (a # ps)"
  using assms
proof (induction ps arbitrary: pre a)
  case Nil
  then show ?case by (simp add: path_join_def)
next
  case (Cons b ps)
  have "path_join2 (pre @ a) b = (pre @ a @ ''/'') @ b"
    using Cons.prems endswith_slash [of a pre] startswith_slash [of b] by (subst path_join2_plain) auto
  then have "path_join (pre @ a) (b # ps) = path_join ((pre @ a @ ''/'') @ b) ps"
    by (simp add: path_join_def)
  also have "\<dots> = (pre @ a @ ''/'') @ join ''/'' (b # ps)"
    using Cons.prems by (intro Cons.IH) auto
  finally show ?case by (simp add: join_Cons_ne)
qed

lemma rel_not_abs:
  assumes "list_all (\<lambda>c. slash \<notin> set c) rel" and "list_all (\<lambda>c. c \<noteq> []) (butlast rel)"
  shows "\<not> startswith (join ''/'' rel) ''/''"
proof (cases rel)
  case Nil
  then show ?thesis by (simp add: startswith_def)
next
  case (Cons a ps)
  show ?thesis
  proof (cases ps)
    case Nil
    then show ?thesis using Cons assms(1) startswith_slash by simp
  next
    case (Cons b qs)
    then have "a \<noteq> []" "slash \<notin> set a" using \<open>rel = a # ps\<close> assms by auto
    then show ?thesis using \<open>rel = a # ps\<close> Cons by (cases a) (auto simp: startswith_def slash_def)
  qed
qed

lemma abs_path_end:
  assumes "list_all plain_comp rs" and "rs \<noteq> []"
  shows "\<not> endswith (abs_path rs) ''/''"
proof -
  obtain r c where rc: "rs = r @ [c]" using assms(2) by (metis append_butlast_last_id)
  have c: "c \<noteq> []" "slash \<notin> set c" using assms(1) rc by (auto simp: plain_comp_def)
  have "\<exists>pre. abs_path rs = pre @ c"
    by (cases "r = []") (simp_all add: rc abs_path_def join_append)
  then show ?thesis using endswith_slash c by metis
qed

lemma join_abs_eq:
  assumes "list_all plain_comp rs" and "rel \<noteq> []"
    and "list_all (\<lambda>c. slash \<notin> set c) rel" and "list_all (\<lambda>c. c \<noteq> []) (butlast rel)"
  shows "path_join2 (abs_path rs) (join ''/'' rel) = slash # join ''/'' (rs @ rel)"
proof (cases "rs = []")
  case True
  then show ?thesis using rel_not_abs [OF assms(3,4)]
    by (simp add: path_join2_def abs_path_def endswith_def slash_def)
next
  case False
  then show ?thesis using rel_not_abs [OF assms(3,4)] abs_path_end [OF assms(1)] assms(2)
    by (simp add: path_join2_def abs_path_def join_append)
qed

lemma join_abs_rel:
  assumes "list_all plain_comp rs" and "rel \<noteq> []"
    and "list_all (\<lambda>c. slash \<notin> set c) rel" and "list_all (\<lambda>c. c \<noteq> []) (butlast rel)"
  shows "foldl (norm_step True) [] (split_on slash (path_join2 (abs_path rs) (join ''/'' rel)))
     = foldl (norm_step True) (rev rs) rel"
proof -
  have "list_all (\<lambda>c. slash \<notin> set c) rs" using assms(1) by (auto simp: list_all_iff plain_comp_def)
  then have "split_on slash (join ''/'' (rs @ rel)) = rs @ rel"
    using assms(2,3) by (intro split_join_plain) auto
  then have "split_on slash ([] @ slash # join ''/'' (rs @ rel)) = [] # rs @ rel"
    by (subst split_on_append) auto
  then show ?thesis
    using assms(1) by (simp add: join_abs_eq [OF assms] norm_plain norm_step_def)
qed

lemma join_eq_Nil: "list_all plain_comp cs \<Longrightarrow> join ''/'' cs = [] \<longleftrightarrow> cs = []"
  by (cases cs rule: list.exhaust; cases "tl cs") (auto simp: plain_comp_def join_Cons_ne)


lemma plain_join_start: "list_all plain_comp cs \<Longrightarrow> \<not> startswith (join ''/'' (cs @ ds)) ''/'' \<or> cs = []"
proof (cases cs)
  case (Cons c cs')
  assume "list_all plain_comp cs"
  then have c: "c \<noteq> []" "slash \<notin> set c" using Cons by (auto simp: plain_comp_def)
  then show ?thesis using Cons by (cases c; cases "cs' @ ds = []") (auto simp: startswith_def slash_def join_Cons_ne)
qed simp

lemma normpath_abs:
  assumes "\<not> startswith t ''/''" and "foldl (norm_step True) [] (split_on slash (slash # t)) = rev cs"
  shows "normpath (slash # t) = abs_path cs"
proof -
  have "startswith (slash # t) ''/''" "\<not> startswith (slash # t) ''//''"
    using assms(1) by (auto simp: startswith_def slash_def)
  then show ?thesis using assms(2) by (simp add: normpath_def abs_path_def Let_def)
qed

text \<open>Going from \<open>rs\<close> up to the common prefix and down to \<open>ps\<close>.\<close>

lemma norm_relative:
  assumes "list_all plain_comp rs" and "list_all plain_comp ps"
    and "ps' = (if ps = [] then [[]] else ps)" and "rs' = (if rs = [] then [[]] else rs)"
    and "j = common_prefix_len ps' rs'"
  shows "foldl (norm_step True) (rev rs) (replicate (length rs' - j) ''..'' @ drop j ps') = rev ps"
proof -
  have up: "foldl (norm_step True) (rev rs) (replicate (length rs' - j) ''..'') = drop (length rs' - j) (rev rs)"
    using assms(1) by (intro norm_pardirs) (auto simp: list_all_iff)
  show ?thesis
  proof (cases "ps = [] \<or> rs = []")
    case True
    have "rs \<noteq> [] \<Longrightarrow> ps = [] \<Longrightarrow> j = 0" "ps \<noteq> [] \<Longrightarrow> rs = [] \<Longrightarrow> j = 0"
      using assms by (cases rs; cases ps; auto simp: plain_comp_def)+
    with True up show ?thesis
      using assms by (auto simp: norm_plain norm_step_def drop_Cons' split: if_splits)
  next
    case False
    then have e: "ps' = ps" "rs' = rs" using assms by auto
    have "drop (length rs - j) (rev rs) = rev (take j rs)" by (simp add: rev_take)
    also have "take j rs = take j ps" using common_prefix_len_take(1) [of ps rs] assms(5) e by simp
    finally have "foldl (norm_step True) (rev rs) (replicate (length rs' - j) ''..'' @ drop j ps')
        = foldl (norm_step True) (rev (take j ps)) (drop j ps)"
      using up e by simp
    also have "\<dots> = rev (drop j ps) @ rev (take j ps)"
      using assms(2) by (intro norm_plain) (auto simp: list_all_iff dest: in_set_dropD)
    also have "\<dots> = rev ps" by (metis append_take_drop_id rev_append)
    finally show ?thesis .
  qed
qed

lemma RelativePath_eq:
  assumes "realpath p = abs_path ps" and "realpath r = abs_path rs"
    and "list_all plain_comp ps" and "list_all plain_comp rs"
    and "ps' = (if ps = [] then [[]] else ps)" and "rs' = (if rs = [] then [[]] else rs)"
    and "rel = replicate (length rs' - common_prefix_len ps' rs') ''..'' @ drop (common_prefix_len ps' rs') ps'"
  shows "RelativePath realpath p r = join ''/'' rel"
    and "list_all (\<lambda>c. slash \<notin> set c) rel" and "list_all (\<lambda>c. c \<noteq> []) (butlast rel)"
proof -
  let ?j = "common_prefix_len ps' rs'"
  have ps: "list_all (\<lambda>c. slash \<notin> set c) ps'" "list_all (\<lambda>c. c \<noteq> []) (butlast ps')"
    using assms(3,5) by (auto simp: list_all_iff plain_comp_def dest: in_set_butlastD)
  show 1: "list_all (\<lambda>c. slash \<notin> set c) rel"
    using ps(1) assms(7) by (auto simp: list_all_iff slash_def dest: in_set_dropD)
  show 2: "list_all (\<lambda>c. c \<noteq> []) (butlast rel)"
    using ps(2) assms(7) by (auto simp: list_all_iff butlast_append butlast_drop dest: in_set_dropD in_set_butlastD split: if_splits)
  have r: "RelativePath realpath p r = (case rel of [] \<Rightarrow> [] | a # as \<Rightarrow> path_join a as)"
    using assms by (simp add: RelativePath_def Let_def split_abs_path)
  show "RelativePath realpath p r = join ''/'' rel"
  proof (cases rel)
    case (Cons a as)
    then show ?thesis using r path_join_comps [of a as "[]"] 1 2 by simp
  qed (simp add: r)
qed

lemma RelativePath_back:
  assumes "realpath p = abs_path ps" and "realpath r = abs_path rs"
    and "list_all plain_comp ps" and "list_all plain_comp rs"
  shows "normpath (path_join (realpath r) [RelativePath realpath p r]) = realpath p"
proof -
  define ps' where "ps' = (if ps = [] then [[]] else ps)"
  define rs' where "rs' = (if rs = [] then [[]] else rs)"
  define rel where "rel = replicate (length rs' - common_prefix_len ps' rs') ''..'' @ drop (common_prefix_len ps' rs') ps'"
  note eq = RelativePath_eq [where realpath = realpath and p = p and r = r and ps = ps and rs = rs, OF assms ps'_def rs'_def rel_def]
  define rel' where "rel' = (if rel = [] then [[]] else rel)"
  have rel': "RelativePath realpath p r = join ''/'' rel'" "rel' \<noteq> []"
    "list_all (\<lambda>c. slash \<notin> set c) rel'" "list_all (\<lambda>c. c \<noteq> []) (butlast rel')"
    using eq by (auto simp: rel'_def)
  have f: "foldl (norm_step True) (rev rs) rel' = rev ps"
    using norm_relative [OF assms(4,3) ps'_def rs'_def refl] by (cases "rel = []") (auto simp: rel_def [symmetric] rel'_def norm_step_def)
  let ?s = "path_join2 (abs_path rs) (join ''/'' rel')"
  have norm: "foldl (norm_step True) [] (split_on slash ?s) = rev ps"
    using join_abs_rel [OF assms(4) rel'(2-)] f by simp
  define t where "t = join ''/'' (rs @ rel')"
  have t: "?s = slash # t" "\<not> startswith t ''/''"
    using join_abs_eq [OF assms(4) rel'(2-)] plain_join_start [OF assms(4), of rel'] rel_not_abs [OF rel'(3,4)]
    by (auto simp: t_def)
  have "normpath ?s = abs_path ps" using normpath_abs [OF t(2)] norm t(1) by simp
  then show ?thesis by (simp add: path_join_def rel'(1) assms(1,2))
qed

section \<open>Quoted arguments\<close>

text \<open>
  How a POSIX shell reads a command line: blanks separate words, a backslash quotes the next
  character, double quotes keep everything but \<open>$\<close>, backquotes and some backslashes. Other special
  characters outside quotes, and expansions, are no words: no result.
\<close>

fun sh_words :: "bool \<Rightarrow> string option \<Rightarrow> string \<Rightarrow> string list option" where
  "sh_words q cur [] = (if q then None else Some (case cur of None \<Rightarrow> [] | Some w \<Rightarrow> [w]))"
| "sh_words False cur (c # s) =
     (let w = (case cur of None \<Rightarrow> [] | Some w \<Rightarrow> w) in
      if c = CHR '' '' \<or> c = CHR 0x09 then
        (case sh_words False None s of
           None \<Rightarrow> None
         | Some ws \<Rightarrow> Some (case cur of None \<Rightarrow> ws | Some w \<Rightarrow> w # ws))
      else if c = CHR 0x22 then sh_words True (Some w) s
      else if c = CHR 0x5C then (case s of [] \<Rightarrow> None | d # t \<Rightarrow> sh_words False (Some (w @ [d])) t)
      else if c = CHR 0x60 \<or> shell_quote_char c then None
      else sh_words False (Some (w @ [c])) s)"
| "sh_words True cur (c # s) =
     (let w = (case cur of None \<Rightarrow> [] | Some w \<Rightarrow> w) in
      if c = CHR 0x22 then sh_words False (Some w) s
      else if c = CHR 0x5C then
        (case s of
           [] \<Rightarrow> None
         | d # t \<Rightarrow> if d \<in> {CHR ''$'', CHR 0x60, CHR 0x22, CHR 0x5C, CHR 0x0A} then sh_words True (Some (w @ [d])) t
                    else sh_words True (Some (w @ [c])) (d # t))
      else if c = CHR ''$'' \<or> c = CHR 0x60 then None
      else sh_words True (Some (w @ [c])) s)"

lemma escape_not_quote: "shell_escape_char c \<Longrightarrow> \<not> shell_quote_char c"
  by (auto simp: shell_escape_char_def shell_quote_char_def)

lemma sh_unquoted:
  assumes "\<not> list_ex shell_quote_char a"
  shows "sh_words False (Some w) (shell_escape a @ r) = sh_words False (Some (w @ a)) r"
  using assms
proof (induction a arbitrary: w)
  case (Cons c a)
  show ?case
  proof (cases "shell_escape_char c")
    case True
    then show ?thesis using Cons by simp
  next
    case False
    have "c \<noteq> CHR '' '' \<and> c \<noteq> CHR 0x09"
      using Cons.prems by (auto simp: shell_quote_char_def)
    then show ?thesis using Cons False by (simp add: shell_escape_char_def)
  qed
qed simp

lemma sh_quoted:
  assumes "CHR ''$'' \<notin> set a"
  shows "sh_words True (Some w) (shell_escape a @ CHR 0x22 # r) = sh_words False (Some (w @ a)) r"
  using assms
proof (induction a arbitrary: w)
  case (Cons c a)
  then show ?case by (auto simp: shell_escape_char_def)
qed simp

lemma sh_argument:
  assumes "CHR ''$'' \<notin> set a"
  shows "sh_words False None (EncodePOSIXShellArgument a @ r) = sh_words False (Some a) r"
proof (cases "list_ex shell_quote_char a \<or> a = []")
  case True
  then show ?thesis using sh_quoted [OF assms, of "[]" r] by (simp add: EncodePOSIXShellArgument_def)
next
  case False
  have start: "sh_words False None s = sh_words False (Some []) s"
    if "s \<noteq> []" "hd s \<noteq> CHR '' ''" "hd s \<noteq> CHR 0x09" for s
    using that by (cases s) auto
  obtain c b where a: "a = c # b" using False by (cases a) auto
  have "c \<noteq> CHR '' ''" "c \<noteq> CHR 0x09" using False by (auto simp: a shell_quote_char_def)
  then have "sh_words False None (shell_escape a @ r) = sh_words False (Some []) (shell_escape a @ r)"
    by (intro start) (auto simp: a)
  then show ?thesis using False sh_unquoted [of a "[]" r] by (simp add: EncodePOSIXShellArgument_def)
qed

lemma sh_list:
  assumes "\<And>a. a \<in> set args \<Longrightarrow> CHR ''$'' \<notin> set a"
  shows "sh_words False None (EncodePOSIXShellList args) = Some args"
  using assms
proof (induction args)
  case Nil
  then show ?case by (simp add: EncodePOSIXShellList_def)
next
  case (Cons a args)
  show ?case
  proof (cases args)
    case Nil
    then show ?thesis using sh_argument [of a "[]"] Cons.prems by (simp add: EncodePOSIXShellList_def)
  next
    case (Cons b bs)
    have "EncodePOSIXShellList (a # args) = EncodePOSIXShellArgument a @ CHR '' '' # EncodePOSIXShellList args"
      using Cons by (simp add: EncodePOSIXShellList_def)
    then show ?thesis using Cons.IH Cons.prems sh_argument [of a] by simp
  qed
qed

section \<open>The worklist of transitive dependencies\<close>

definition target_edges :: "(string, pydict) dict \<Rightarrow> (string \<times> string) set" where
  "target_edges tds = {(t, d). \<exists>spec ds os. dget tds t = Some spec
     \<and> dep_names ''dependencies'' spec = Inr ds \<and> dep_names ''dependencies_original'' spec = Inr os
     \<and> d \<in> set ds \<union> set os}"

text \<open>Every dependency is a target, and the dependencies are lists of names.\<close>

definition closed_targets :: "(string, pydict) dict \<Rightarrow> bool" where
  "closed_targets tds \<longleftrightarrow> (\<forall>t spec. (t, spec) \<in> set tds \<longrightarrow>
     (case (dep_names ''dependencies'' spec, dep_names ''dependencies_original'' spec) of
        (Inr ds, Inr os) \<Rightarrow> \<forall>d\<in>set ds \<union> set os. dget tds d \<noteq> None
      | _ \<Rightarrow> False))"

lemma set_foldl_add_new [simp]: "set (foldl add_new xs ys) = set xs \<union> set ys"
  by (induction ys arbitrary: xs) auto

lemma distinct_foldl_add_new [simp]: "distinct xs \<Longrightarrow> distinct (foldl add_new xs ys)"
  by (induction ys arbitrary: xs) auto

lemma closed_targetsD:
  assumes "closed_targets tds" and "t \<in> set (dkeys tds)"
  obtains spec ds os where "dget tds t = Some spec" "dep_names ''dependencies'' spec = Inr ds"
    "dep_names ''dependencies_original'' spec = Inr os" "set ds \<union> set os \<subseteq> set (dkeys tds)"
    "target_edges tds `` {t} = set ds \<union> set os"
proof -
  obtain spec where s: "dget tds t = Some spec" using assms(2) by (auto simp: dkeys_iff_dget)
  then have "(t, spec) \<in> set tds" by (rule dget_in_set)
  with assms(1) obtain ds os where d: "dep_names ''dependencies'' spec = Inr ds"
    "dep_names ''dependencies_original'' spec = Inr os" "\<forall>d\<in>set ds \<union> set os. dget tds d \<noteq> None"
    unfolding closed_targets_def by (fastforce split: sum.splits prod.splits)
  then have "set ds \<union> set os \<subseteq> set (dkeys tds)" by (auto simp: dkeys_iff_dget)
  moreover have "target_edges tds `` {t} = set ds \<union> set os"
    using s d by (auto simp: target_edges_def)
  ultimately show ?thesis using that s d by blast
qed

lemma card_diff_insert: "finite A \<Longrightarrow> r \<in> A \<Longrightarrow> r \<notin> B \<Longrightarrow> card (A - B) = Suc (card (A - insert r B))"
  by (metis Diff_iff Diff_insert card_Suc_Diff1 finite_Diff)

text \<open>A visited node adds nothing to what is reachable; a new one is replaced by its successors.\<close>

lemma worklist_skip:
  assumes "\<forall>t\<in>V. E `` {t} \<subseteq> V \<union> P" and "r \<in> V"
  shows "V \<union> E\<^sup>* `` P = V \<union> E\<^sup>* `` (P - {r})"
proof -
  have "y \<in> V \<union> E\<^sup>* `` (P - {r})" if "(x, y) \<in> E\<^sup>*" "x \<in> V \<union> P" for x y
    using that
  proof (induction rule: rtrancl_induct)
    case base
    then show ?case using assms(2) by auto
  next
    case (step y z)
    then have "y \<in> V \<union> E\<^sup>* `` (P - {r})" by blast
    then show ?case
    proof
      assume "y \<in> V"
      then have "z \<in> V \<union> P" using assms(1) step by auto
      then show ?thesis using assms(2) by (cases "z = r") auto
    next
      assume "y \<in> E\<^sup>* `` (P - {r})"
      then show ?thesis using step by (auto intro: rtrancl_into_rtrancl)
    qed
  qed
  then show ?thesis by (auto intro: Image_mono)
qed

lemma worklist_expand: "E\<^sup>* `` insert r P = insert r (E\<^sup>* `` (E `` {r} \<union> P))"
proof -
  have "E\<^sup>* `` {r} = insert r (E\<^sup>* `` (E `` {r}))"
    by (auto intro: converse_rtrancl_into_rtrancl elim: converse_rtranclE)
  then show ?thesis by (auto simp: Image_def)
qed

text \<open>What the worklist computes: the nodes reachable from the pending ones, when the visited nodes'
  successors are visited or pending.\<close>

lemma DeepDependencyTargets_loop_correct:
  assumes cl: "closed_targets tds" and pick: "\<And>zs. zs \<noteq> [] \<Longrightarrow> pick zs \<in> set zs"
    and "set pending \<subseteq> set (dkeys tds)" and "distinct pending" and "distinct deps"
    and "\<forall>t\<in>set deps. target_edges tds `` {t} \<subseteq> set deps \<union> set pending"
    and "card (set (dkeys tds) - set deps) * Suc (card (set (dkeys tds))) + length pending \<le> fuel"
  shows "\<exists>ds. DeepDependencyTargets_loop pick tds fuel deps pending = Inr ds \<and> distinct ds
     \<and> set ds = set deps \<union> (target_edges tds)\<^sup>* `` set pending"
  using assms(3-)
proof (induction fuel arbitrary: deps pending)
  case 0
  then show ?case by simp
next
  case (Suc n)
  let ?N = "set (dkeys tds)" and ?E = "target_edges tds"
  show ?case
  proof (cases "pending = []")
    case False
    define r where "r = pick pending"
    define p' where "p' = filter (\<lambda>x. x \<noteq> r) pending"
    have r: "r \<in> set pending" using pick False by (simp add: r_def)
    have p': "set p' = set pending - {r}" "distinct p'" "length p' < length pending"
      using r Suc.prems(2) length_filter_less [of r pending "\<lambda>x. x \<noteq> r"] by (auto simp: p'_def)
    show ?thesis
    proof (cases "r \<in> set deps")
      case True
      have reach: "set deps \<union> ?E\<^sup>* `` set pending = set deps \<union> ?E\<^sup>* `` set p'"
        using worklist_skip [OF Suc.prems(4) True] p'(1) r by (simp add: insert_absorb)
      have "\<exists>ds. DeepDependencyTargets_loop pick tds n deps p' = Inr ds \<and> distinct ds
         \<and> set ds = set deps \<union> ?E\<^sup>* `` set p'"
        using Suc.prems p' True by (intro Suc.IH) auto
      then show ?thesis using False True reach by (simp add: r_def [symmetric] p'_def [symmetric] Let_def)
    next
      case nv: False
      have rN: "r \<in> ?N" using r Suc.prems(1) by auto
      obtain spec ds os where sp: "dget tds r = Some spec" "dep_names ''dependencies'' spec = Inr ds"
        "dep_names ''dependencies_original'' spec = Inr os" "set ds \<union> set os \<subseteq> ?N" "?E `` {r} = set ds \<union> set os"
        using closed_targetsD [OF cl rN] by metis
      let ?p = "foldl add_new (foldl add_new p' ds) os"
      have "length ?p = card (set ?p)" using p'(2) by (intro distinct_card [symmetric]) simp
      also have "\<dots> \<le> card ?N"
        using p'(1) Suc.prems(1) sp(4) by (intro card_mono) auto
      finally have len: "length ?p \<le> card ?N" .
      have card: "card (?N - set deps) = Suc (card (?N - insert r (set deps)))"
        using card_diff_insert [of ?N r "set deps"] rN nv by simp
      have "\<exists>ds'. DeepDependencyTargets_loop pick tds n (deps @ [r]) ?p = Inr ds' \<and> distinct ds'
         \<and> set ds' = set (deps @ [r]) \<union> ?E\<^sup>* `` set ?p"
      proof (intro Suc.IH)
        show "card (?N - set (deps @ [r])) * Suc (card ?N) + length ?p \<le> n"
          using Suc.prems(5) card len by simp
        show "\<forall>t\<in>set (deps @ [r]). ?E `` {t} \<subseteq> set (deps @ [r]) \<union> set ?p"
          using Suc.prems(4) sp(5) p'(1) by auto
      qed (use Suc.prems p' sp(4) nv in auto)
      moreover have "set (deps @ [r]) \<union> ?E\<^sup>* `` set ?p = set deps \<union> ?E\<^sup>* `` set pending"
      proof -
        have "set pending = insert r (set p')" using p'(1) r by auto
        then show ?thesis using worklist_expand [of ?E r "set p'"] sp(5)
          by (simp add: Un_ac)
      qed
      ultimately show ?thesis
        using False nv sp by (simp add: r_def [symmetric] p'_def [symmetric] Let_def dict_get_def)
    qed
  qed (use Suc.prems in simp)
qed

section \<open>Properties\<close>

text \<open>
  A fully qualified target is parsed back into its parts, for every build file, when the target
  name has no colon and the toolset neither a colon nor a hash sign (without a toolset the target
  name has no hash sign either).
\<close>

theorem QualifiedTarget_roundtrip:
  assumes "CHR '':'' \<notin> set target" and "CHR '':'' \<notin> set toolset" and "CHR ''#'' \<notin> set toolset"
    and "toolset = [] \<Longrightarrow> CHR ''#'' \<notin> set target"
  shows "ParseQualifiedTarget (QualifiedTarget build_file target toolset) =
     (Some build_file, target, if toolset = [] then None else Some toolset)
   \<and> BuildFile (QualifiedTarget build_file target toolset) = Some build_file"
  using Parse_Qualified [OF assms] by (simp add: BuildFile_def)

theorem QualifiedTarget_roundtrip_witness:
  "ParseQualifiedTarget (QualifiedTarget ''c:/deps/uv/uv.gyp'' ''libuv'' ''host'') = (Some ''c:/deps/uv/uv.gyp'', ''libuv'', Some ''host'')"
  using QualifiedTarget_roundtrip [of "''libuv''" "''host''" "''c:/deps/uv/uv.gyp''"] by simp

text \<open>
  C38. A relative path leads back: joined to the directory it is relative to and normalised, the result
  of \<open>RelativePath\<close> is the path it was made from, when \<open>realpath\<close> gives absolute paths without
  empty, \<open>.\<close> and \<open>..\<close> components.
\<close>

theorem RelativePath_leads_back:
  assumes "realpath p = abs_path ps" and "realpath r = abs_path rs"
    and "list_all plain_comp ps" and "list_all plain_comp rs"
  shows "normpath (path_join (realpath r) [RelativePath realpath p r]) = realpath p"
  using assms by (rule RelativePath_back)

theorem RelativePath_leads_back_witness:
  "let realpath = (\<lambda>p. ''/src/'' @ p)
   in RelativePath realpath ''deps/uv'' ''deps/v8/build'' = ''../../uv''
      \<and> normpath (path_join (realpath ''deps/v8/build'') [''../../uv'']) = ''/src/deps/uv''"
proof -
  let ?rp = "\<lambda>p. ''/src/'' @ p"
  have a: "''/src/'' @ ''deps/uv'' = abs_path [''src'', ''deps'', ''uv'']"
    "''/src/'' @ ''deps/v8/build'' = abs_path [''src'', ''deps'', ''v8'', ''build'']"
    "list_all plain_comp [''src'', ''deps'', ''uv'']" "list_all plain_comp [''src'', ''deps'', ''v8'', ''build'']"
    by code_simp+
  have "RelativePath ?rp ''deps/uv'' ''deps/v8/build'' = ''../../uv''" by code_simp
  with RelativePath_leads_back [of ?rp, OF a] show ?thesis by (simp add: Let_def)
qed

text \<open>
  A POSIX shell reads the encoding of a list of arguments as exactly these arguments, one word
  each, whatever characters other than \<open>$\<close> they contain (\<open>$\<close> is left to the shell on purpose).
\<close>

theorem EncodePOSIXShellList_words:
  assumes "\<forall>a\<in>set args. CHR ''$'' \<notin> set a"
  shows "sh_words False None (EncodePOSIXShellList args) = Some args"
  using assms by (intro sh_list) auto

theorem EncodePOSIXShellList_words_witness:
  "sh_words False None (EncodePOSIXShellList [''a b'', [], ''x=1;y'']) = Some [''a b'', [], ''x=1;y'']"
  by (rule EncodePOSIXShellList_words) simp

text \<open>
  \<open>DeepDependencyTargets\<close> returns, and its result is exactly the targets reachable from the roots
  that are not roots, each once, in whatever order \<open>set.pop\<close> takes them; the loop makes at most
  n (n + 1) turns plus one per root, for n targets.
\<close>

theorem DeepDependencyTargets_reachable:
  assumes "closed_targets tds" and "\<And>zs. zs \<noteq> [] \<Longrightarrow> pick zs \<in> set zs" and "set roots \<subseteq> set (dkeys tds)"
    and "length tds * Suc (length tds) + length roots \<le> fuel"
  shows "\<exists>ds. DeepDependencyTargets pick fuel tds roots = Inr ds \<and> distinct ds
    \<and> set ds = (target_edges tds)\<^sup>* `` set roots - set roots"
proof -
  have c: "card (set (dkeys tds)) \<le> length tds"
    using card_length [of "dkeys tds"] by (simp add: dkeys_def)
  have l: "length (remdups roots) \<le> length roots" by (rule length_remdups_leq)
  have "card (set (dkeys tds)) * Suc (card (set (dkeys tds))) \<le> length tds * Suc (length tds)"
    using c by (intro mult_le_mono) auto
  with l assms(4) have f: "card (set (dkeys tds)) * Suc (card (set (dkeys tds))) + length (remdups roots) \<le> fuel" by linarith
  have "\<exists>ds. DeepDependencyTargets_loop pick tds fuel [] (remdups roots) = Inr ds \<and> distinct ds
     \<and> set ds = set [] \<union> (target_edges tds)\<^sup>* `` set (remdups roots)"
    using assms f by (intro DeepDependencyTargets_loop_correct) auto
  then show ?thesis by (auto simp: DeepDependencyTargets_def)
qed

theorem DeepDependencyTargets_reachable_witness:
  "\<exists>ds. DeepDependencyTargets hd 99 [(''a'', [(''dependencies'', PList [PStr ''b''])]), (''b'', []), (''c'', [])] [''a''] = Inr ds \<and> distinct ds"
proof -
  have "\<forall>(t, spec)\<in>set [(''a'', [(''dependencies'', PList [PStr ''b''])]), (''b'', []), (''c'', [])].
     (case (dep_names ''dependencies'' spec, dep_names ''dependencies_original'' spec) of
        (Inr ds, Inr os) \<Rightarrow> \<forall>d\<in>set ds \<union> set os. dget [(''a'', [(''dependencies'', PList [PStr ''b''])]), (''b'', []), (''c'', [])] d \<noteq> None
      | _ \<Rightarrow> False)"
    by (simp add: dep_names_def)
  then have "closed_targets [(''a'', [(''dependencies'', PList [PStr ''b''])]), (''b'', []), (''c'', [])]"
    unfolding closed_targets_def by blast
  from DeepDependencyTargets_reachable [OF this, of hd "[''a'']" 99] show ?thesis
    by (simp add: dkeys_def) blast
qed

end
