(* ===== verification/Gyp_Merge.thy ===== *)
theory Gyp_Merge
  imports Gyp_Common Py_Value
begin

text \<open>
  The merging of dictionaries in \<open>gyp/input.py\<close>: which sections hold paths, how a path is made relative
  to another build file, and how lists and dictionaries are merged under the policies \<open>=\<close>, \<open>+\<close> and \<open>?\<close>.
  The destination is a value and the function returns the new one; the source is only read. What the
  module keeps in globals or asks the operating system is an argument (\<open>gyp_env\<close>).
\<close>

section \<open>Path sections\<close>

record gyp_env =
  ge_path_sections :: "string list"
  ge_non_configuration_keys :: "string list"
  ge_realpath :: "string \<Rightarrow> string"

definition base_path_sections :: "string list" where
  "base_path_sections = [''destination'', ''files'', ''include_dirs'', ''inputs'', ''libraries'', ''outputs'', ''sources'']"

definition base_non_configuration_keys :: "string list" where
  "base_non_configuration_keys =
     [''actions'', ''configurations'', ''copies'', ''default_configuration'', ''dependencies'',
      ''dependencies_original'', ''libraries'', ''postbuilds'', ''product_dir'', ''product_extension'',
      ''product_name'', ''product_prefix'', ''rules'', ''run_as'', ''sources'', ''standalone_static_library'',
      ''suppress_wildcard'', ''target_name'', ''toolset'', ''toolsets'', ''type'', ''variables'']"

definition invalid_configuration_keys :: "string list" where
  "invalid_configuration_keys =
     [''actions'', ''all_dependent_settings'', ''configurations'', ''dependencies'', ''direct_dependent_settings'',
      ''libraries'', ''link_settings'', ''sources'', ''standalone_static_library'', ''target_name'', ''type'']"

text \<open>\<open>while section[-1:] in '=+?!': section = section[:-1]\<close>: the test is one of substrings, and the
  empty string is a substring.\<close>

definition policy_chars :: string where
  "policy_chars = ''=+?!''"

definition ends_in_policy :: "string \<Rightarrow> bool" where
  "ends_in_policy section = (find_from policy_chars (take_last 1 section) \<noteq> None)"

partial_function (option) strip_policies :: "string \<Rightarrow> string option" where
  [code]: "strip_policies section =
     (if ends_in_policy section then strip_policies (drop_last 1 section)
      else Some section)"

definition path_suffix :: "string \<Rightarrow> bool" where
  "path_suffix section =
     (if CHR ''_'' \<in> set section then
        let tail6 = take_last 6 section;
            tail = (if last tail6 = CHR ''s'' then drop_last 1 tail6 else tail6)
        in take_last 5 tail \<in> {''_file'', ''_path''} \<or> take_last 4 tail = ''_dir''
      else False)"

definition IsPathSection :: "gyp_env \<Rightarrow> string \<Rightarrow> bool res" where
  "IsPathSection env section =
     (case strip_policies section of
        None \<Rightarrow> Inl Diverges
      | Some sec \<Rightarrow> Inr (sec \<in> set (ge_path_sections env) \<or> path_suffix sec))"

section \<open>Relative paths\<close>

text \<open>\<open>exception_re\<close> is \<open>["']?[-/$<>^]\<close>.\<close>

definition exception_re_match :: "string \<Rightarrow> bool" where
  "exception_re_match item =
     (let special = (\<lambda>s. s \<noteq> [] \<and> hd s \<in> set ''-/$<>^'')
      in special item \<or> (item \<noteq> [] \<and> hd item \<in> {CHR 0x22, CHR 0x27} \<and> special (tl item)))"

definition dirname_res :: "string option \<Rightarrow> string res" where
  "dirname_res f = (case f of None \<Rightarrow> Inl (AttributeError ''rfind'') | Some p \<Rightarrow> Inr (dirname p))"

fun MakePathRelative :: "gyp_env \<Rightarrow> string option \<Rightarrow> string option \<Rightarrow> pyval \<Rightarrow> pyval res" where
  "MakePathRelative env to_file fro_file (PStr item) =
     (if to_file = fro_file \<or> exception_re_match item then Inr (PStr item)
      else res_bind (dirname_res fro_file) (\<lambda>fro_dir.
           res_bind (dirname_res to_file) (\<lambda>to_dir.
             let ret = replace (normpath (path_join (RelativePath (ge_realpath env) fro_dir to_dir) [item])) [CHR 0x5C] ''/''
             in if item = [] then Inl IndexError
                else Inr (PStr (if last item = slash then ret @ ''/'' else ret)))))"
| "MakePathRelative env to_file fro_file item =
     (if to_file = fro_file then Inr item else Inl (TypeError ''expected string or buffer''))"

section \<open>Lists and dictionaries\<close>

fun is_hashable :: "pyval \<Rightarrow> bool" where
  "is_hashable (PStr s) = True"
| "is_hashable (PInt i) = True"
| "is_hashable _ = False"

text \<open>The state of the loop of \<open>MergeLists\<close>: the destination, \<open>hashable_to_set\<close>, \<open>prepend_index\<close>.\<close>

record merge_state =
  ms_to :: "pyval list"
  ms_set :: "pyval list"
  ms_index :: nat

definition merge_init :: "pyval list \<Rightarrow> merge_state" where
  "merge_init to = \<lparr>ms_to = to, ms_set = filter is_hashable to, ms_index = 0\<rparr>"

definition is_in_set_or_list :: "pyval \<Rightarrow> merge_state \<Rightarrow> bool" where
  "is_in_set_or_list x st = (if is_hashable x then x \<in> set (ms_set st) else x \<in> set (ms_to st))"

text \<open>What the loop does with the item, once it is copied.\<close>

definition py_insert :: "nat \<Rightarrow> 'a \<Rightarrow> 'a list \<Rightarrow> 'a list" where
  "py_insert i x l = take i l @ x # drop i l"

definition merge_put :: "bool \<Rightarrow> bool \<Rightarrow> pyval \<Rightarrow> merge_state \<Rightarrow> merge_state" where
  "merge_put appending singleton to_item st =
     (if appending then
        (if \<not> singleton \<or> \<not> is_in_set_or_list to_item st then
           st\<lparr>ms_to := ms_to st @ [to_item],
              ms_set := (if is_hashable to_item then to_item # ms_set st else ms_set st)\<rparr>
         else st)
      else
        let to' = (if singleton then removeAll to_item (ms_to st) else ms_to st)
        in \<lparr>ms_to = py_insert (ms_index st) to_item to',
            ms_set = (if is_hashable to_item then to_item # ms_set st else ms_set st),
            ms_index = ms_index st + 1\<rparr>)"

text \<open>The policy that the last character of a key asks for: the name of the destination, the keys that
  may not stand beside it, whether to append.\<close>

definition list_policy :: "string \<Rightarrow> string \<times> string list \<times> bool" where
  "list_policy k =
     (let ext = last k; b = drop_last 1 k in
      if ext = CHR ''='' then (b, [b, b @ ''?''], True)
      else if ext = CHR ''+'' then (b, [b @ ''='', b @ ''?''], False)
      else if ext = CHR ''?'' then (b, [b, b @ ''='', b @ ''+''], True)
      else (k, [k @ ''='', k @ ''?''], True))"

definition merge_type_error :: "pyval \<Rightarrow> pyval \<Rightarrow> string \<Rightarrow> py_error" where
  "merge_type_error v old key =
     TypeError (''Attempt to merge dict value of type '' @ type_name v @ '' into incompatible type ''
       @ type_name old @ '' for key '' @ key)"

text \<open>The check at the head of the loop of \<open>MergeDicts\<close>.\<close>

definition bad_merge :: "pyval \<Rightarrow> pyval \<Rightarrow> bool" where
  "bad_merge v old = (if is_hashable v then \<not> is_hashable old else type_name v \<noteq> type_name old)"

text \<open>The preparation of a list key: the destination with the list the items go to, or nothing when a
  \<open>?\<close> list is already there.\<close>

definition prepare_list :: "pydict \<Rightarrow> string \<Rightarrow> pyval \<Rightarrow> pydict \<Rightarrow> (pydict \<times> pyval list) option res" where
  "prepare_list fro k v to =
     (if k = [] then Inl IndexError
      else let (list_base, lists_incompatible, appending) = list_policy k;
               to' = (if last k = CHR ''='' then dset to list_base (PList []) else to)
           in case filter (dhas fro) lists_incompatible of
                bad # _ \<Rightarrow> Inl (GypError (''Incompatible list policies '' @ k @ '' and '' @ bad))
              | [] \<Rightarrow>
                  (case dget to' list_base of
                     None \<Rightarrow> Inr (Some (dset to' list_base (PList []), []))
                   | Some old \<Rightarrow>
                       if last k = CHR ''?'' then Inr None
                       else case old of
                              PList l \<Rightarrow> Inr (Some (to', l))
                            | _ \<Rightarrow> Inl (merge_type_error v old (list_base @ ''('' @ k @ '')''))))"

definition check_merge :: "pydict \<Rightarrow> string \<Rightarrow> pyval \<Rightarrow> unit res" where
  "check_merge to k v =
     (case dget to k of
        None \<Rightarrow> Inr ()
      | Some old \<Rightarrow> if bad_merge v old then Inl (merge_type_error v old k) else Inr ())"

definition old_dict :: "pydict \<Rightarrow> string \<Rightarrow> pydict" where
  "old_dict to k = (case dget to k of Some (PDict old) \<Rightarrow> old | _ \<Rightarrow> [])"

definition is_single :: "pyval \<Rightarrow> bool" where
  "is_single item = (case item of PStr s \<Rightarrow> \<not> startswith s ''-'' | PInt i \<Rightarrow> True | _ \<Rightarrow> False)"

definition scalar_copy :: "gyp_env \<Rightarrow> string option \<Rightarrow> string option \<Rightarrow> bool \<Rightarrow> pyval \<Rightarrow> pyval res" where
  "scalar_copy env to_file fro_file is_path v = (if is_path then MakePathRelative env to_file fro_file v else Inr v)"

text \<open>\<open>merge_item\<close> copies an item of a list; \<open>merge_value\<close> is the part of the loop of \<open>MergeDicts\<close> after the
  check.\<close>

function (sequential) merge_item :: "gyp_env \<Rightarrow> string option \<Rightarrow> string option \<Rightarrow> bool \<Rightarrow> pyval \<Rightarrow> pyval res"
  and MergeLists_loop ::
    "gyp_env \<Rightarrow> string option \<Rightarrow> string option \<Rightarrow> bool \<Rightarrow> bool \<Rightarrow> pyval list \<Rightarrow> merge_state \<Rightarrow> merge_state res"
  and merge_value ::
    "gyp_env \<Rightarrow> string option \<Rightarrow> string option \<Rightarrow> pydict \<Rightarrow> string \<Rightarrow> pyval \<Rightarrow> pydict \<Rightarrow> pydict res"
  and MergeDicts_loop ::
    "gyp_env \<Rightarrow> string option \<Rightarrow> string option \<Rightarrow> pydict \<Rightarrow> pydict \<Rightarrow> pydict \<Rightarrow> pydict res"
where
  "merge_item env to_file fro_file is_paths (PDict d) =
     res_bind (MergeDicts_loop env to_file fro_file d d []) (\<lambda>to. Inr (PDict to))"
| "merge_item env to_file fro_file is_paths (PList l) =
     res_bind (MergeLists_loop env to_file fro_file False True l (merge_init [])) (\<lambda>st. Inr (PList (ms_to st)))"
| "merge_item env to_file fro_file is_paths item = scalar_copy env to_file fro_file is_paths item"
| "MergeLists_loop env to_file fro_file is_paths appending [] st = Inr st"
| "MergeLists_loop env to_file fro_file is_paths appending (item # fro) st =
     res_bind (merge_item env to_file fro_file is_paths item) (\<lambda>to_item.
       MergeLists_loop env to_file fro_file is_paths appending fro (merge_put appending (is_single item) to_item st))"
| "merge_value env to_file fro_file fro k (PDict d) to =
     res_bind (MergeDicts_loop env to_file fro_file d d (old_dict to k)) (\<lambda>new. Inr (dset to k (PDict new)))"
| "merge_value env to_file fro_file fro k (PList l) to =
     res_bind (prepare_list fro k (PList l) to) (\<lambda>prepared.
       if prepared = None then Inr to
       else let (to', old) = the prepared; (list_base, _, appending) = list_policy k in
            res_bind (IsPathSection env list_base) (\<lambda>is_paths.
            res_bind (MergeLists_loop env to_file fro_file is_paths appending l (merge_init old)) (\<lambda>st.
              Inr (dset to' list_base (PList (ms_to st))))))"
| "merge_value env to_file fro_file fro k v to =
     res_bind (IsPathSection env k) (\<lambda>is_path.
     res_bind (scalar_copy env to_file fro_file is_path v) (\<lambda>new. Inr (dset to k new)))"
| "MergeDicts_loop env to_file fro_file fro [] to = Inr to"
| "MergeDicts_loop env to_file fro_file fro ((k, v) # kvs) to =
     res_bind (check_merge to k v) (\<lambda>_.
     res_bind (merge_value env to_file fro_file fro k v to) (\<lambda>to'.
       MergeDicts_loop env to_file fro_file fro kvs to'))"
  by pat_completeness auto
termination
  by (relation "measure (\<lambda>x. case x of
      Inl (Inl (_, _, _, _, v)) \<Rightarrow> size v
    | Inl (Inr (_, _, _, _, _, l, _)) \<Rightarrow> size_list size l
    | Inr (Inl (_, _, _, _, _, v, _)) \<Rightarrow> size v
    | Inr (Inr (_, _, _, _, d, _)) \<Rightarrow> size_list (size_prod (\<lambda>_. 0) size) d)") auto

definition MergeLists ::
  "gyp_env \<Rightarrow> pyval list \<Rightarrow> pyval list \<Rightarrow> string option \<Rightarrow> string option \<Rightarrow> bool \<Rightarrow> bool \<Rightarrow> pyval list res" where
  "MergeLists env to fro to_file fro_file is_paths appending =
     res_bind (MergeLists_loop env to_file fro_file is_paths appending fro (merge_init to)) (\<lambda>st. Inr (ms_to st))"

definition MergeDicts :: "gyp_env \<Rightarrow> pydict \<Rightarrow> pydict \<Rightarrow> string option \<Rightarrow> string option \<Rightarrow> pydict res" where
  "MergeDicts env to fro to_file fro_file = MergeDicts_loop env to_file fro_file fro fro to"

section \<open>When the loop of \<open>IsPathSection\<close> ends\<close>

lemma last_in_policy: "ends_in_policy s \<longleftrightarrow> s = [] \<or> last s \<in> set policy_chars"
proof (cases s rule: rev_cases)
  case (snoc ys y)
  then have "take_last 1 s = [y]" by (simp add: take_last_def)
  then show ?thesis using snoc by (auto simp: ends_in_policy_def policy_chars_def startswith_def)
qed (simp add: ends_in_policy_def take_last_def policy_chars_def startswith_def)

lemma strip_policies_not_all:
  assumes "strip_policies s = Some r"
  shows "\<not> list_all (\<lambda>c. c \<in> set policy_chars) s"
proof (rule strip_policies.raw_induct [where P = "\<lambda>s r. \<not> list_all (\<lambda>c. c \<in> set policy_chars) s", OF _ assms])
  fix rec :: "string \<Rightarrow> string option" and s r
  assume IH: "\<And>s r. rec s = Some r \<Longrightarrow> \<not> list_all (\<lambda>c. c \<in> set policy_chars) s"
    and step: "(if ends_in_policy s then rec (drop_last 1 s) else Some s) = Some r"
  show "\<not> list_all (\<lambda>c. c \<in> set policy_chars) s"
  proof (cases s rule: rev_cases)
    case Nil
    then have "rec [] = Some r" using step by (simp add: last_in_policy drop_last_def)
    then show ?thesis using IH Nil by blast
  next
    case (snoc ys y)
    then show ?thesis using IH step by (auto simp: last_in_policy drop_last_def split: if_splits)
  qed
qed

lemma strip_policies_stripped:
  "\<not> list_all (\<lambda>c. c \<in> set policy_chars) s \<Longrightarrow>
     strip_policies s = Some (rev (dropWhile (\<lambda>c. c \<in> set policy_chars) (rev s)))"
proof (induction s rule: rev_induct)
  case (snoc y ys)
  then show ?case
    by (subst strip_policies.simps) (auto simp: last_in_policy drop_last_def)
qed simp

lemma strip_policies_eq:
  "strip_policies s = (if list_all (\<lambda>c. c \<in> set policy_chars) s then None
     else Some (rev (dropWhile (\<lambda>c. c \<in> set policy_chars) (rev s))))"
  using strip_policies_not_all [of s] strip_policies_stripped [of s] by (cases "strip_policies s") auto

text \<open>
  \<open>IsPathSection\<close> returns exactly when the name has a character other than \<open>=\<close>, \<open>+\<close>, \<open>?\<close> and \<open>!\<close>; on
  the empty name, and on a name made of these characters only, its loop runs for ever. When it
  returns, policy characters at the end of the name make no difference.
\<close>

theorem IsPathSection_returns:
  assumes "set p \<subseteq> set ''=+?!''"
  shows "((\<exists>b. IsPathSection env section = Inr b) \<longleftrightarrow> (\<exists>c\<in>set section. c \<notin> set ''=+?!''))
    \<and> IsPathSection env p = Inl Diverges
    \<and> IsPathSection env (section @ p) = IsPathSection env section"
proof -
  have 1: "(\<exists>b. IsPathSection env section = Inr b) \<longleftrightarrow> (\<exists>c\<in>set section. c \<notin> set ''=+?!'')"
    by (auto simp: IsPathSection_def strip_policies_eq list_all_iff policy_chars_def)
  have 2: "IsPathSection env p = Inl Diverges"
    using assms by (auto simp: IsPathSection_def strip_policies_eq list_all_iff policy_chars_def)
  have "dropWhile (\<lambda>c. c \<in> set policy_chars) (rev p @ rev section) = dropWhile (\<lambda>c. c \<in> set policy_chars) (rev section)"
    using assms by (intro dropWhile_append2) (auto simp: policy_chars_def)
  then have "strip_policies (section @ p) = strip_policies section"
    using assms by (auto simp: strip_policies_eq list_all_iff policy_chars_def)
  then show ?thesis using 1 2 by (simp add: IsPathSection_def)
qed

theorem IsPathSection_returns_witness:
  "IsPathSection (\<lparr>ge_path_sections = [''sources''], ge_non_configuration_keys = [], ge_realpath = id\<rparr>) (''sources'' @ ''+'')
    = IsPathSection (\<lparr>ge_path_sections = [''sources''], ge_non_configuration_keys = [], ge_realpath = id\<rparr>) ''sources''"
  using IsPathSection_returns [of "''+''" _ "''sources''"] by simp

section \<open>Merging lists of strings\<close>

definition is_flag :: "string \<Rightarrow> bool" where
  "is_flag s = startswith s ''-''"

text \<open>The options under which strings are copied as they are.\<close>

abbreviation verbatim :: "bool \<Rightarrow> string option \<Rightarrow> string option \<Rightarrow> bool" where
  "verbatim is_paths to_file fro_file \<equiv> is_paths \<longrightarrow> to_file = fro_file"

lemma merge_item_str: "verbatim is_paths tf ff \<Longrightarrow> merge_item env tf ff is_paths (PStr s) = Inr (PStr s)"
  by (simp add: scalar_copy_def)

lemma is_single_str [simp]: "is_single (PStr s) \<longleftrightarrow> \<not> is_flag s"
  by (simp add: is_single_def is_flag_def)

definition ms_ok :: "merge_state \<Rightarrow> bool" where
  "ms_ok st \<longleftrightarrow> set (ms_set st) = set (filter is_hashable (ms_to st))"

lemma ms_ok_init [simp]: "ms_ok (merge_init to)"
  by (simp add: ms_ok_def merge_init_def)

lemma ms_ok_member: "ms_ok st \<Longrightarrow> is_in_set_or_list x st \<longleftrightarrow> x \<in> set (ms_to st)"
  by (auto simp: ms_ok_def is_in_set_or_list_def)

lemma ms_ok_append: "ms_ok st \<Longrightarrow> ms_ok (merge_put True single x st)"
  by (auto simp: ms_ok_def merge_put_def)

lemma merge_put_append:
  assumes "ms_ok st" and "ms_to st = map PStr ts"
  shows "ms_to (merge_put True (\<not> is_flag s) (PStr s) st) = map PStr (if \<not> is_flag s \<and> s \<in> set ts then ts else ts @ [s])"
  using assms by (auto simp: merge_put_def ms_ok_member)

fun append_strs :: "string list \<Rightarrow> string list \<Rightarrow> string list" where
  "append_strs ts [] = ts"
| "append_strs ts (s # fs) = append_strs (if \<not> is_flag s \<and> s \<in> set ts then ts else ts @ [s]) fs"

lemma MergeLists_loop_append:
  assumes "verbatim is_paths tf ff" and "ms_ok st" and "ms_to st = map PStr ts"
  shows "\<exists>st'. MergeLists_loop env tf ff is_paths True (map PStr fs) st = Inr st' \<and> ms_to st' = map PStr (append_strs ts fs)"
  using assms(2,3)
proof (induction fs arbitrary: st ts)
  case (Cons s fs)
  have "ms_ok (merge_put True (\<not> is_flag s) (PStr s) st)" using Cons.prems by (simp add: ms_ok_append)
  from Cons.IH [OF this merge_put_append [OF Cons.prems]] show ?case
    using assms(1) by (simp add: merge_item_str del: merge_item.simps)
qed simp

lemma append_strs_prefix: "\<exists>new. append_strs ts fs = ts @ new"
proof (induction fs arbitrary: ts)
  case (Cons s fs)
  show ?case using Cons [of ts] Cons [of "ts @ [s]"] by auto
qed simp

lemma count_append_strs:
  "count_list (append_strs ts fs) s =
     (if is_flag s then count_list ts s + count_list fs s
      else if s \<in> set ts then count_list ts s else min 1 (count_list fs s))"
proof (induction fs arbitrary: ts)
  case (Cons f fs)
  show ?case
  proof (cases "f = s")
    case True
    then show ?thesis using Cons by (auto simp: count_notin)
  qed (use Cons in auto)
qed (auto simp: count_notin)

text \<open>
  Appending strings: the destination stays where it is, in front; a string that begins with a dash
  is added as often as it occurs in the source; any other string is added once if it is new and not
  at all if it is already there.
\<close>

theorem MergeLists_appends:
  assumes "verbatim is_paths tf ff"
  shows "\<exists>new. MergeLists env (map PStr ts) (map PStr fs) tf ff is_paths True = Inr (map PStr (ts @ new))
    \<and> (\<forall>s. count_list new s = (if startswith s ''-'' then count_list fs s
          else if s \<in> set ts \<or> s \<notin> set fs then 0 else 1))"
proof -
  obtain new where new: "append_strs ts fs = ts @ new" using append_strs_prefix by blast
  obtain st where st: "MergeLists_loop env tf ff is_paths True (map PStr fs) (merge_init (map PStr ts)) = Inr st"
      "ms_to st = map PStr (append_strs ts fs)"
    using MergeLists_loop_append [OF assms, of "merge_init (map PStr ts)" ts env fs] by (auto simp: merge_init_def ms_ok_def)
  have c: "count_list new s = (if startswith s ''-'' then count_list fs s
          else if s \<in> set ts \<or> s \<notin> set fs then 0 else 1)" for s
  proof -
    have pos: "s \<in> set fs \<Longrightarrow> 1 \<le> count_list fs s" by (metis One_nat_def Suc_leI count_list_0_iff not_gr_zero)
    show ?thesis using count_append_strs [of ts fs s] pos
      by (auto simp: new is_flag_def count_notin min_def split: if_splits)
  qed
  show ?thesis using st c by (intro exI [of _ new]) (simp add: MergeLists_def new)
qed

definition prepended :: "string list \<Rightarrow> string list \<Rightarrow> string list" where
  "prepended ts ps = ps @ filter (\<lambda>t. \<not> (t \<in> set ps \<and> \<not> is_flag t)) ts"

lemma MergeLists_loop_prepend:
  assumes "verbatim is_paths tf ff" and "distinct (filter (Not \<circ> is_flag) (ps @ fs))"
    and "ms_to st = map PStr (prepended ts ps)" and "ms_index st = length ps"
  shows "\<exists>st'. MergeLists_loop env tf ff is_paths False (map PStr fs) st = Inr st' \<and> ms_to st' = map PStr (prepended ts (ps @ fs))"
  using assms(2-4)
proof (induction fs arbitrary: ps st)
  case (Cons s fs)
  let ?st = "merge_put False (\<not> is_flag s) (PStr s) st"
  have rm: "removeAll (PStr s) (map PStr xs) = map PStr (removeAll s xs)" for xs
    by (induction xs) auto
  have "ms_to ?st = map PStr (prepended ts (ps @ [s]))"
  proof (cases "is_flag s")
    case True
    then have "filter (\<lambda>t. \<not> (t \<in> set (ps @ [s]) \<and> \<not> is_flag t)) ts = filter (\<lambda>t. \<not> (t \<in> set ps \<and> \<not> is_flag t)) ts"
      by (intro filter_cong) auto
    then show ?thesis using True Cons.prems(2,3) by (simp add: merge_put_def py_insert_def prepended_def)
  next
    case False
    then have "s \<notin> set ps" using Cons.prems(1) by auto
    moreover have "removeAll s (filter (\<lambda>t. \<not> (t \<in> set ps \<and> \<not> is_flag t)) ts)
        = filter (\<lambda>t. \<not> (t \<in> set (ps @ [s]) \<and> \<not> is_flag t)) ts"
      unfolding removeAll_filter_not_eq filter_filter using False by (intro filter_cong) auto
    ultimately have "removeAll s (prepended ts ps) = ps @ filter (\<lambda>t. \<not> (t \<in> set (ps @ [s]) \<and> \<not> is_flag t)) ts"
      by (simp add: prepended_def)
    then have "ms_to ?st = map PStr (ps @ s # filter (\<lambda>t. \<not> (t \<in> set (ps @ [s]) \<and> \<not> is_flag t)) ts)"
      using False Cons.prems(2,3) by (simp add: merge_put_def Let_def rm py_insert_def del: map_append) simp
    then show ?thesis by (simp add: prepended_def)
  qed
  moreover have "ms_index ?st = length (ps @ [s])" using Cons.prems(3) by (simp add: merge_put_def Let_def)
  ultimately show ?case using Cons.IH [of "ps @ [s]" ?st] Cons.prems(1) assms(1)
    by (simp add: merge_item_str del: merge_item.simps)
qed simp


text \<open>
  The proviso is needed: a string that occurs twice in the list to prepend ends up behind the
  first item of the destination, because the index of the insertion counts the removed copy.
\<close>

theorem MergeLists_prepend_duplicate:
  assumes "verbatim is_paths tf ff" and "\<not> startswith a ''-''" and "a \<notin> set (t # ts)"
  shows "MergeLists env (map PStr (t # ts)) [PStr a, PStr a] tf ff is_paths False = Inr (map PStr (t # a # ts))"
proof -
  have "removeAll (PStr a) (map PStr xs) = map PStr (removeAll a xs)" for xs
    by (induction xs) auto
  moreover have "removeAll a ts = ts" using assms(3) by simp
  ultimately show ?thesis using assms by (auto simp: MergeLists_def merge_init_def merge_put_def py_insert_def Let_def is_flag_def scalar_copy_def)
qed


theorem MergeLists_appends_witness:
  "\<exists>new. MergeLists \<lparr>ge_path_sections = [], ge_non_configuration_keys = [], ge_realpath = id\<rparr>
      (map PStr [''a'']) (map PStr [''a'', ''-x'', ''-x'']) None None False True = Inr (map PStr ([''a''] @ new))
    \<and> count_list new ''-x'' = 2"
proof -
  from MergeLists_appends [of False None None
      "\<lparr>ge_path_sections = [], ge_non_configuration_keys = [], ge_realpath = id\<rparr>" "[''a'']" "[''a'', ''-x'', ''-x'']"]
  obtain new where n: "MergeLists \<lparr>ge_path_sections = [], ge_non_configuration_keys = [], ge_realpath = id\<rparr>
      (map PStr [''a'']) (map PStr [''a'', ''-x'', ''-x'']) None None False True = Inr (map PStr ([''a''] @ new))"
    "\<forall>s. count_list new s = (if startswith s ''-'' then count_list [''a'', ''-x'', ''-x''] s
          else if s \<in> set [''a''] \<or> s \<notin> set [''a'', ''-x'', ''-x''] then 0 else 1)"
    by blast
  from n(2) [rule_format, of "''-x''"] have "count_list new ''-x'' = 2" by (simp add: startswith_def)
  with n(1) show ?thesis by blast
qed


theorem MergeLists_prepend_duplicate_witness:
  "MergeLists \<lparr>ge_path_sections = [], ge_non_configuration_keys = [], ge_realpath = id\<rparr>
      (map PStr [''x'', ''y'']) [PStr ''a'', PStr ''a''] None None False False = Inr (map PStr [''x'', ''a'', ''y''])"
  by (rule MergeLists_prepend_duplicate) (simp_all add: startswith_def)

section \<open>Merging dictionaries\<close>

text \<open>Every dictionary in a value has each of its keys once.\<close>

fun wf_val :: "pyval \<Rightarrow> bool" where
  "wf_val (PDict d) = (wf_dict d \<and> list_all (\<lambda>(k, v). wf_val v) d)"
| "wf_val (PList l) = list_all wf_val l"
| "wf_val _ = True"

lemma wf_val_dset:
  "list_all (\<lambda>(k, v). wf_val v) d \<Longrightarrow> wf_val v \<Longrightarrow> list_all (\<lambda>(k, v). wf_val v) (dset d k v)"
  by (induction d k v rule: dset.induct) auto

lemma wf_val_dget: "list_all (\<lambda>(k, v). wf_val v) d \<Longrightarrow> dget d k = Some v \<Longrightarrow> wf_val v"
  using dget_in_set [of d k v] by (auto simp: list_all_iff)

lemma wf_val_merge_put: "list_all wf_val (ms_to st) \<Longrightarrow> wf_val v \<Longrightarrow> list_all wf_val (ms_to (merge_put a b v st))"
  by (auto simp: merge_put_def py_insert_def list_all_iff Let_def dest: in_set_takeD in_set_dropD)

lemma wf_scalar_copy: "scalar_copy env tf ff is_path v = Inr w \<Longrightarrow> wf_val v \<Longrightarrow> wf_val w"
  by (cases v) (auto simp: scalar_copy_def res_simps Let_def split: if_splits)

lemma prepare_list_wf:
  assumes "prepare_list fro k v to = Inr (Some (to', old))" and "wf_val (PDict to)"
  shows "wf_val (PDict to') \<and> list_all wf_val old"
proof -
  let ?b = "fst (list_policy k)" and ?t = "if last k = CHR ''='' then dset to (fst (list_policy k)) (PList []) else to"
  have t: "wf_val (PDict ?t)" using assms(2) by (simp add: wf_val_dset)
  have "to' = ?t \<and> dget ?t ?b = Some (PList old) \<or> to' = dset ?t ?b (PList []) \<and> old = []"
    using assms(1) unfolding prepare_list_def
    by (auto simp: Let_def split: if_splits prod.splits list.splits option.splits pyval.splits)
  then show ?thesis using t by (auto simp: wf_val_dset dest: wf_val_dget)
qed

lemma wf_old_dict: "wf_val (PDict to) \<Longrightarrow> wf_val (PDict (old_dict to k))"
  by (auto simp: old_dict_def dest: wf_val_dget split: option.splits pyval.splits)

lemma merge_wf:
  "merge_item env tf ff is_paths v = Inr w \<Longrightarrow> wf_val w"
  "MergeLists_loop env tf ff is_paths appending l st = Inr st' \<Longrightarrow> list_all wf_val (ms_to st) \<Longrightarrow> list_all wf_val (ms_to st')"
  "merge_value env tf ff fro k v to = Inr to' \<Longrightarrow> wf_val (PDict to) \<Longrightarrow> wf_val (PDict to')"
  "MergeDicts_loop env tf ff fro kvs to = Inr to' \<Longrightarrow> wf_val (PDict to) \<Longrightarrow> wf_val (PDict to')"
proof (induction env tf ff is_paths v and env tf ff is_paths appending l st and env tf ff fro k v to and env tf ff fro kvs to
    arbitrary: w and st' and to' and to' rule: merge_item_MergeLists_loop_merge_value_MergeDicts_loop.induct)
  case (6 env tf ff fro k d to)
  then show ?case using wf_old_dict [of to k] by (auto simp: res_simps wf_val_dset)
next
  case (7 env tf ff fro k l to)
  then show ?case using prepare_list_wf [of fro k "PList l" to]
    by (auto simp: res_simps merge_init_def wf_val_dset split: if_splits prod.splits)
next
  case "8_1"
  then show ?case by (auto simp: res_simps wf_val_dset dest: wf_scalar_copy)
next
  case "8_2"
  then show ?case by (auto simp: res_simps wf_val_dset dest: wf_scalar_copy)
qed (auto simp: res_simps merge_init_def wf_val_merge_put intro: wf_scalar_copy)


text \<open>Only the key itself, and the key without its policy character, are written.\<close>

definition list_base :: "string \<Rightarrow> string" where
  "list_base k = fst (list_policy k)"

lemma prepare_list_frame:
  assumes "prepare_list fro k v to = Inr (Some (to', old))" and "j \<noteq> list_base k"
  shows "dget to' j = dget to j"
  using assms unfolding prepare_list_def list_base_def
  by (auto simp: Let_def split: if_splits prod.splits list.splits option.splits pyval.splits)

lemma merge_value_frame:
  assumes "merge_value env tf ff fro k v to = Inr to'" and "j \<noteq> k" and "j \<noteq> list_base k"
  shows "dget to' j = dget to j"
proof (cases v)
  case (PList l)
  then show ?thesis using assms prepare_list_frame [of fro k v to]
    by (auto simp: res_simps list_base_def split: if_splits prod.splits)
qed (use assms in \<open>auto simp: res_simps\<close>)

lemma MergeDicts_loop_frame:
  assumes "MergeDicts_loop env tf ff fro kvs to = Inr to'" and "\<forall>k\<in>set (dkeys kvs). j \<noteq> k \<and> j \<noteq> list_base k"
  shows "dget to' j = dget to j"
  using assms
proof (induction kvs arbitrary: to)
  case (Cons kv kvs)
  obtain k v where kv: "kv = (k, v)" by (cases kv)
  obtain t where "merge_value env tf ff fro k v to = Inr t" "MergeDicts_loop env tf ff fro kvs t = Inr to'"
    using Cons.prems(1) by (auto simp: kv res_simps)
  then show ?case using Cons.IH [of t] merge_value_frame [of env tf ff fro k v to t j] Cons.prems(2)
    by (auto simp: kv dkeys_def)
qed simp


section \<open>Copying by merging\<close>

text \<open>A value without policies: keys end in other characters, lists have no string or number twice.\<close>

definition clean_key :: "pydict \<Rightarrow> string \<Rightarrow> pyval \<Rightarrow> bool" where
  "clean_key d k v \<longleftrightarrow> (\<exists>c\<in>set k. c \<notin> set ''=+?!'') \<and>
     (case v of PList l \<Rightarrow> last k \<notin> set ''=+?'' \<and> \<not> dhas d (k @ ''='') \<and> \<not> dhas d (k @ ''?'') | _ \<Rightarrow> True)"

fun clean_val :: "pyval \<Rightarrow> bool" where
  "clean_val (PDict d) = (wf_dict d \<and> list_all (\<lambda>(k, v). clean_key d k v \<and> clean_val v) d)"
| "clean_val (PList l) = (distinct (filter is_single l) \<and> list_all clean_val l)"
| "clean_val _ = True"

lemma dset_fresh: "dget d k = None \<Longrightarrow> dset d k v = d @ [(k, v)]"
  by (induction d k v rule: dset.induct) (auto split: if_splits)

lemma scalar_copy_same: "scalar_copy env f f is_path v = Inr v"
  by (cases v) (auto simp: scalar_copy_def)

lemma IsPathSection_clean: "\<exists>c\<in>set k. c \<notin> set ''=+?!'' \<Longrightarrow> \<exists>b. IsPathSection env k = Inr b"
  by (auto simp: IsPathSection_def strip_policies_eq list_all_iff policy_chars_def)

lemma clean_list_policy:
  assumes "clean_key fro k (PList l)"
  shows "list_policy k = (k, [k @ ''='', k @ ''?''], True)"
  using assms by (auto simp: clean_key_def list_policy_def)

lemma clean_prepare:
  assumes "clean_key fro k (PList l)" and "dget to k = None"
  shows "prepare_list fro k v to = Inr (Some (to @ [(k, PList [])], []))"
proof -
  have "k \<noteq> []" "last k \<notin> set ''=+?''" "\<not> dhas fro (k @ ''='')" "\<not> dhas fro (k @ ''?'')"
    using assms(1) by (auto simp: clean_key_def)
  then show ?thesis using assms
    by (simp add: prepare_list_def clean_list_policy [OF assms(1)] dset_fresh)
qed

lemma merge_put_new:
  assumes "ms_ok st" and "is_single x \<longrightarrow> x \<notin> set (ms_to st)"
  shows "ms_to (merge_put True (is_single x) x st) = ms_to st @ [x]"
  using assms by (auto simp: merge_put_def ms_ok_member)

lemma merge_scalar_clean:
  assumes "tf = ff" and "clean_key fro k v" and "dget to k = None" and "is_hashable v"
  shows "merge_value env tf ff fro k v to = Inr (to @ [(k, v)])"
proof -
  obtain b where "IsPathSection env k = Inr b" using IsPathSection_clean [of k env] assms(2) by (auto simp: clean_key_def)
  then show ?thesis using assms by (cases v) (simp_all add: scalar_copy_same dset_fresh)
qed

lemma merge_clean:
  "tf = ff \<Longrightarrow> clean_val v \<Longrightarrow> merge_item env tf ff is_paths v = Inr v"
  "tf = ff \<Longrightarrow> appending \<Longrightarrow> ms_ok st \<Longrightarrow> list_all clean_val l \<Longrightarrow> distinct (filter is_single (ms_to st @ l)) \<Longrightarrow>
    \<exists>st'. MergeLists_loop env tf ff is_paths appending l st = Inr st' \<and> ms_to st' = ms_to st @ l"
  "tf = ff \<Longrightarrow> clean_val v \<Longrightarrow> clean_key fro k v \<Longrightarrow> dget to k = None \<Longrightarrow> merge_value env tf ff fro k v to = Inr (to @ [(k, v)])"
  "tf = ff \<Longrightarrow> list_all (\<lambda>(k, v). clean_key fro k v \<and> clean_val v) kvs \<Longrightarrow> wf_dict (to @ kvs) \<Longrightarrow>
    MergeDicts_loop env tf ff fro kvs to = Inr (to @ kvs)"
proof (induction env tf ff is_paths v and env tf ff is_paths appending l st and env tf ff fro k v to and env tf ff fro kvs to
    rule: merge_item_MergeLists_loop_merge_value_MergeDicts_loop.induct)
  case (2 env tf ff is_paths l)
  then have "\<exists>st'. MergeLists_loop env tf ff False True l (merge_init []) = Inr st' \<and> ms_to st' = l"
    by (auto simp: merge_init_def ms_ok_def)
  then show ?case by auto
next
  case (5 env tf ff is_paths appending item fro st)
  have item: "merge_item env tf ff is_paths item = Inr item" using 5 by simp
  have "is_single item \<longrightarrow> item \<notin> set (ms_to st)" using "5.prems"(5) by auto
  then have put: "ms_to (merge_put True (is_single item) item st) = ms_to st @ [item]"
    using merge_put_new "5.prems"(3) by blast
  have "distinct (filter is_single (ms_to (merge_put True (is_single item) item st) @ fro))"
    using "5.prems"(5) unfolding put append_assoc by simp
  then have "\<exists>st'. MergeLists_loop env tf ff is_paths True fro (merge_put True (is_single item) item st) = Inr st'
      \<and> ms_to st' = ms_to st @ item # fro"
    using "5.IH"(2) [OF item] "5.prems" put by (simp add: ms_ok_append)
  then show ?case using item "5.prems"(2) by simp
next
  case (6 env tf ff fro k d to)
  then have "old_dict to k = []" by (simp add: old_dict_def)
  then show ?case using 6 by (simp add: dset_fresh)
next
  case (7 env tf ff fro k l to)
  obtain b where b: "IsPathSection env k = Inr b" using IsPathSection_clean "7.prems"(3) by (auto simp: clean_key_def)
  have "\<exists>st'. MergeLists_loop env tf ff b True l (merge_init []) = Inr st' \<and> ms_to st' = ms_to (merge_init []) @ l"
    by (rule "7.IH" [OF clean_prepare [OF "7.prems"(3,4)]])
      (use 7 b clean_list_policy [OF "7.prems"(3)] in \<open>auto simp: merge_init_def ms_ok_def\<close>)
  moreover have "dset (to @ [(k, PList [])]) k (PList l) = to @ [(k, PList l)]"
    using "7.prems"(4) by (induction to) (auto split: if_splits)
  ultimately show ?case
    using b clean_prepare [OF "7.prems"(3,4), of "PList l"] clean_list_policy [OF "7.prems"(3)] by (auto simp: merge_init_def)
next
  case "8_1"
  then show ?case by (intro merge_scalar_clean) simp_all
next
  case "8_2"
  then show ?case by (intro merge_scalar_clean) simp_all
next
  case (10 env tf ff fro k v kvs to)
  then have "dget to k = None" by (auto simp: wf_dict_def dget_def map_of_eq_None_iff)
  then show ?case using 10 by (simp add: check_merge_def)
qed (simp_all add: scalar_copy_same)

text \<open>
  Merging a dictionary without policies into an empty one, within the same build file, copies it.
\<close>

theorem MergeDicts_copies:
  assumes "clean_val (PDict d)"
  shows "MergeDicts env [] d f f = Inr d"
  using merge_clean(4) [of f f d d "[]" env] assms by (simp add: MergeDicts_def)


theorem MergeDicts_copies_witness:
  "MergeDicts \<lparr>ge_path_sections = [], ge_non_configuration_keys = [], ge_realpath = id\<rparr> []
     [(''a'', PList [PStr ''x'', PDict [(''b'', PInt 1)]])] (Some ''f'') (Some ''f'')
   = Inr [(''a'', PList [PStr ''x'', PDict [(''b'', PInt 1)]])]"
  by (rule MergeDicts_copies)
    (simp add: clean_key_def wf_dict_def dhas_def is_single_def startswith_def)


end
