(* ===== verification/Gyp_Graph.thy ===== *)
theory Gyp_Graph
  imports Gyp_Common
begin

text \<open>
  \<open>DependencyGraphNode\<close> of \<open>gyp/input.py\<close> and the functions that build the graphs of targets and of
  build files. The nodes are kept in a store that maps the \<open>ref\<close> of a node (\<open>None\<close> for the root) to
  its two lists of neighbours. Shown here: \<open>FlattenToList\<close> gives a topological order, complete
  exactly when there is no cycle; \<open>BuildDependencyList\<close> fails with \<open>CircularException\<close> exactly on a
  cycle; the cycles that \<open>FindCycles\<close> reports are cycles; \<open>DeepDependencies\<close> is reachability.
\<close>

section \<open>Nodes\<close>

type_synonym gref = "string option"

record dgn =
  dg_dependencies :: "gref list"
  dg_dependents :: "gref list"

type_synonym graph = "(gref, dgn) dict"

definition DependencyGraphNode_init :: dgn where
  "DependencyGraphNode_init = \<lparr>dg_dependencies = [], dg_dependents = []\<rparr>"

text \<open>The neighbours of a node of the store; a node that is not there has none.\<close>

definition node_of :: "graph \<Rightarrow> gref \<Rightarrow> dgn" where
  "node_of g r = (case dget g r of None \<Rightarrow> DependencyGraphNode_init | Some n \<Rightarrow> n)"

abbreviation deps_of :: "graph \<Rightarrow> gref \<Rightarrow> gref list" where
  "deps_of g r \<equiv> dg_dependencies (node_of g r)"

abbreviation dependents_of :: "graph \<Rightarrow> gref \<Rightarrow> gref list" where
  "dependents_of g r \<equiv> dg_dependents (node_of g r)"

text \<open>\<open>a.dependencies.append(b)\<close> and \<open>b.dependents.append(a)\<close>.\<close>

definition add_dependency :: "gref \<Rightarrow> gref \<Rightarrow> graph \<Rightarrow> graph" where
  "add_dependency a b g =
     (let g1 = dset g a ((node_of g a)\<lparr>dg_dependencies := deps_of g a @ [b]\<rparr>)
      in dset g1 b ((node_of g1 b)\<lparr>dg_dependents := dependents_of g1 b @ [a]\<rparr>))"

section \<open>Flattening\<close>

text \<open>One turn of the loop of \<open>FlattenToList\<close>: the node taken from \<open>in_degree_zeros\<close> goes to
  \<open>flat_list\<close>, and the dependents whose dependencies are all there become ready.\<close>

definition flatten_step ::
  "graph \<Rightarrow> gref \<Rightarrow> gref list \<Rightarrow> gref list \<Rightarrow> gref list \<times> gref list" where
  "flatten_step g node flat_list in_degree_zeros =
     (let flat' = add_new flat_list node;
          zeros = filter (\<lambda>z. z \<noteq> node) in_degree_zeros
      in (flat', foldl (\<lambda>zs d. if list_all (\<lambda>x. x \<in> set flat') (deps_of g d) then add_new zs d else zs)
                   zeros (dependents_of g node)))"

text \<open>The loop; \<open>pick\<close> is the choice of \<open>set.pop\<close>. No result is a loop that runs for ever.\<close>

partial_function (option) FlattenToList_loop ::
  "(gref list \<Rightarrow> gref) \<Rightarrow> graph \<Rightarrow> gref list \<Rightarrow> gref list \<Rightarrow> gref list option" where
  [code]: "FlattenToList_loop pick g flat_list in_degree_zeros =
     (if in_degree_zeros = [] then Some flat_list
      else case flatten_step g (pick in_degree_zeros) flat_list in_degree_zeros of
             (flat', zeros') \<Rightarrow> FlattenToList_loop pick g flat' zeros')"

definition FlattenToList :: "(gref list \<Rightarrow> gref) \<Rightarrow> graph \<Rightarrow> gref \<Rightarrow> gref list option" where
  "FlattenToList pick g self = FlattenToList_loop pick g [] (remdups (dependents_of g self))"

section \<open>Cycles\<close>

text \<open>\<open>Visit\<close> of \<open>FindCycles\<close>; the state is \<open>(results, visited)\<close>, the number bounds the depth of the
  recursion.\<close>

fun index_of :: "'a list \<Rightarrow> 'a \<Rightarrow> nat" where
  "index_of [] x = 0"
| "index_of (y # ys) x = (if y = x then 0 else Suc (index_of ys x))"

fun FindCycles_Visit ::
  "nat \<Rightarrow> graph \<Rightarrow> gref \<Rightarrow> gref list \<Rightarrow> gref list list \<times> gref list \<Rightarrow> (gref list list \<times> gref list) res" where
  "FindCycles_Visit 0 g node path st = Inl RecursionLimit"
| "FindCycles_Visit (Suc n) g node path st =
     foldM (\<lambda>(results, visited) child.
       if child \<in> set path then Inr (results @ [child # take (Suc (index_of path child)) path], visited)
       else if child \<notin> set visited then
         FindCycles_Visit n g child (child # path) (results, visited @ [child])
       else Inr (results, visited)) st (dependents_of g node)"

definition FindCycles :: "nat \<Rightarrow> graph \<Rightarrow> gref \<Rightarrow> gref list list res" where
  "FindCycles n g self =
     res_bind (FindCycles_Visit n g self [self] ([], [self])) (\<lambda>(results, visited). Inr results)"

section \<open>Lists of dependencies\<close>

text \<open>A reference other than the root's, as the name it is.\<close>

definition DirectDependencies :: "graph \<Rightarrow> gref \<Rightarrow> string list \<Rightarrow> string list" where
  "DirectDependencies g self dependencies =
     foldl (\<lambda>ds d. case d of None \<Rightarrow> ds | Some t \<Rightarrow> add_new ds t) dependencies (deps_of g self)"

text \<open>\<open>l.insert(i, x)\<close>.\<close>

definition list_insert :: "nat \<Rightarrow> 'a \<Rightarrow> 'a list \<Rightarrow> 'a list" where
  "list_insert i x l = take i l @ [x] @ drop i l"

text \<open>The \<open>for\<close> loop over the exported dependencies of \<open>dependencies[index]\<close>.\<close>

definition add_imports :: "nat \<Rightarrow> string list \<Rightarrow> string list \<Rightarrow> string list" where
  "add_imports index imports dependencies =
     fst (foldl (\<lambda>(ds, add_index) imp.
         if imp \<notin> set ds then (list_insert (index + add_index) imp ds, add_index + 1) else (ds, add_index))
       (dependencies, 1) imports)"

fun AddImportedDependencies :: "nat \<Rightarrow> (string, pydict) dict \<Rightarrow> nat \<Rightarrow> string list \<Rightarrow> string list res" where
  "AddImportedDependencies 0 targets index dependencies =
     (if index < length dependencies then Inl RecursionLimit else Inr dependencies)"
| "AddImportedDependencies (Suc n) targets index dependencies =
     (if index < length dependencies then
        res_bind (dict_get targets (dependencies ! index)) (\<lambda>dependency_dict.
        res_bind (dep_names ''export_dependent_settings'' dependency_dict) (\<lambda>imports.
          AddImportedDependencies n targets (index + 1) (add_imports index imports dependencies)))
      else Inr dependencies)"

definition DirectAndImportedDependencies ::
  "nat \<Rightarrow> graph \<Rightarrow> gref \<Rightarrow> (string, pydict) dict \<Rightarrow> string list res" where
  "DirectAndImportedDependencies n g self targets =
     AddImportedDependencies n targets 0 (DirectDependencies g self [])"

fun DeepDependencies :: "nat \<Rightarrow> graph \<Rightarrow> gref \<Rightarrow> string list \<Rightarrow> string list res" where
  "DeepDependencies 0 g self dependencies = Inl RecursionLimit"
| "DeepDependencies (Suc n) g self dependencies =
     foldM (\<lambda>ds d. case d of
         None \<Rightarrow> Inr ds
       | Some t \<Rightarrow> if t \<notin> set ds then DeepDependencies n g d (ds @ [t]) else Inr ds)
       dependencies (deps_of g self)"

definition linkable_types :: "string list" where
  "linkable_types = [''executable'', ''shared_library'', ''loadable_module'']"

primrec LinkDependenciesInternal ::
  "nat \<Rightarrow> graph \<Rightarrow> (string, pydict) dict \<Rightarrow> bool \<Rightarrow> gref \<Rightarrow> string list \<Rightarrow> bool \<Rightarrow> string list res" where
  "LinkDependenciesInternal 0 g targets include_shared_libraries self dependencies initial = Inl RecursionLimit"
| "LinkDependenciesInternal (Suc n) g targets include_shared_libraries self dependencies initial =
     (case self of
        None \<Rightarrow> Inr dependencies
      | Some ref \<Rightarrow>
          res_bind (dict_get targets ref) (\<lambda>spec.
          if \<not> dhas spec ''target_name'' then Inl (GypError (''Missing '' @ sq ''target_name'' @ '' field in target.''))
          else if \<not> dhas spec ''type'' then Inl (GypError (''Missing '' @ sq ''type'' @ '' field in target ''
            @ (case dget spec ''target_name'' of Some (PStr s) \<Rightarrow> s | _ \<Rightarrow> [])))
          else
            let target_type = dget spec ''type'';
                is_type = (\<lambda>ty. target_type = Some (PStr ty));
                is_linkable = list_ex is_type linkable_types
            in if initial \<and> \<not> is_linkable then Inr dependencies
               else if is_type ''none'' \<and> (case dget spec ''dependencies_traverse'' of None \<Rightarrow> False | Some v \<Rightarrow> \<not> truthy v)
               then Inr (add_new dependencies ref)
               else if \<not> initial \<and> (is_type ''executable'' \<or> is_type ''loadable_module'') then Inr dependencies
               else if \<not> initial \<and> is_type ''shared_library'' \<and> \<not> include_shared_libraries then Inr dependencies
               else if ref \<in> set dependencies then Inr dependencies
               else if initial \<or> \<not> is_linkable then
                 foldM (\<lambda>ds d. LinkDependenciesInternal n g targets include_shared_libraries d ds False)
                   (dependencies @ [ref]) (deps_of g self)
               else Inr (dependencies @ [ref])))"

definition DependenciesForLinkSettings ::
  "nat \<Rightarrow> graph \<Rightarrow> (string, pydict) dict \<Rightarrow> string \<Rightarrow> string list res" where
  "DependenciesForLinkSettings n g targets ref =
     res_bind (dict_get targets ref) (\<lambda>spec.
       let include_shared_libraries =
             (case dget spec ''allow_sharedlib_linksettings_propagation'' of None \<Rightarrow> True | Some v \<Rightarrow> truthy v)
       in LinkDependenciesInternal n g targets include_shared_libraries (Some ref) [] True)"

definition DependenciesToLinkAgainst ::
  "nat \<Rightarrow> graph \<Rightarrow> (string, pydict) dict \<Rightarrow> string \<Rightarrow> string list res" where
  "DependenciesToLinkAgainst n g targets ref = LinkDependenciesInternal n g targets True (Some ref) [] True"

section \<open>The graph of the targets\<close>

text \<open>\<open>spec.get('dependencies')\<close>.\<close>

definition spec_dependencies :: "pydict \<Rightarrow> string list res" where
  "spec_dependencies spec = dep_names ''dependencies'' spec"

text \<open>The links of one target.\<close>

definition link_target :: "(string, pydict) dict \<Rightarrow> graph \<Rightarrow> string \<times> pydict \<Rightarrow> graph res" where
  "link_target targets g = (\<lambda>(target, spec).
     res_bind (spec_dependencies spec) (\<lambda>dependencies.
       if dependencies = [] then
         (let g1 = dset g (Some target) ((node_of g (Some target))\<lparr>dg_dependencies := [None]\<rparr>)
          in Inr (dset g1 None ((node_of g1 None)\<lparr>dg_dependents := dependents_of g1 None @ [Some target]\<rparr>)))
       else foldM (\<lambda>g dependency.
              if dhas targets dependency then Inr (add_dependency (Some target) (Some dependency) g)
              else Inl (GypError (''Dependency '' @ sq dependency @ '' not found while trying to load target '' @ target)))
            g dependencies))"

definition build_graph :: "(string, pydict) dict \<Rightarrow> graph res" where
  "build_graph targets = foldM (link_target targets) [] targets"

definition ref_str :: "gref \<Rightarrow> string" where
  "ref_str r = (case r of None \<Rightarrow> ''None'' | Some s \<Rightarrow> s)"

text \<open>\<open>' -> '.join(paths)\<close>, which needs strings.\<close>

definition cycle_line :: "gref list \<Rightarrow> string res" where
  "cycle_line cycle =
     res_bind (mapM (\<lambda>r. case r of None \<Rightarrow> Inl (TypeError ''expected string, NoneType found'') | Some s \<Rightarrow> Inr s) cycle)
       (\<lambda>paths. Inr (''Cycle: '' @ join '' -> '' paths))"

text \<open>The report of the cycles: the first node becomes a dependent of the root when the root has
  none.\<close>

definition raise_circular :: "nat \<Rightarrow> string \<Rightarrow> string list \<Rightarrow> graph \<Rightarrow> 'a res" where
  "raise_circular n message keys g =
     (let g' = (if dependents_of g None = [] then add_dependency (Some (hd keys)) None g else g)
      in res_bind (FindCycles n g' None) (\<lambda>cycles.
         res_bind (mapM cycle_line cycles) (\<lambda>lines.
           Inl (CircularException (message @ [nl] @ join [nl] lines)))))"

text \<open>\<open>n\<close> bounds the recursion of \<open>FindCycles\<close>; a loop of \<open>FlattenToList\<close> that does not end has no
  result.\<close>

definition BuildDependencyList ::
  "(gref list \<Rightarrow> gref) \<Rightarrow> nat \<Rightarrow> (string, pydict) dict \<Rightarrow> (graph \<times> gref list) res option" where
  "BuildDependencyList pick n targets =
     (case build_graph targets of
        Inl e \<Rightarrow> Some (Inl e)
      | Inr g \<Rightarrow>
     (case FlattenToList pick g None of
        None \<Rightarrow> None
      | Some flat_list \<Rightarrow>
          Some (if length flat_list \<noteq> length targets
                then raise_circular n ''Cycles in dependency graph detected:'' (dkeys targets) g
                else Inr (g, flat_list))))"

section \<open>The graph of the build files\<close>

definition file_str :: "string option \<Rightarrow> string" where
  "file_str f = (case f of None \<Rightarrow> ''None'' | Some s \<Rightarrow> s)"

definition file_of :: "string \<Rightarrow> string" where
  "file_of t = file_str (BuildFile t)"

text \<open>The nodes in the order in which the targets name their files; then the links. A node is made by
  an entry without neighbours.\<close>

definition file_nodes :: "(string, pydict) dict \<Rightarrow> string list" where
  "file_nodes targets = remdups (map file_of (dkeys targets))"

definition link_file :: "string list \<Rightarrow> graph \<Rightarrow> string \<times> pydict \<Rightarrow> graph res" where
  "link_file files g = (\<lambda>(target, spec).
     let build_file = file_of target in
     res_bind (spec_dependencies spec) (\<lambda>target_dependencies.
       foldM (\<lambda>g dependency.
         let dependency_build_file = file_of dependency in
         if dependency_build_file = build_file then Inr g
         else if dependency_build_file \<notin> set files
         then Inl (GypError (''Dependancy '' @ sq dependency_build_file @ '' not found''))
         else Inr (if Some dependency_build_file \<in> set (deps_of g (Some build_file)) then g
                   else add_dependency (Some build_file) (Some dependency_build_file) g))
       g target_dependencies))"

definition file_graph :: "(string, pydict) dict \<Rightarrow> graph res" where
  "file_graph targets =
     res_bind (foldM (link_file (file_nodes targets)) [] targets) (\<lambda>g.
       Inr (foldl (\<lambda>g f. if deps_of g (Some f) = [] then add_dependency (Some f) None g else g)
              g (file_nodes targets)))"

definition VerifyNoGYPFileCircularDependencies ::
  "(gref list \<Rightarrow> gref) \<Rightarrow> nat \<Rightarrow> (string, pydict) dict \<Rightarrow> unit res option" where
  "VerifyNoGYPFileCircularDependencies pick n targets =
     (case file_graph targets of
        Inl e \<Rightarrow> Some (Inl e)
      | Inr g \<Rightarrow>
     (case FlattenToList pick g None of
        None \<Rightarrow> None
      | Some flat_list \<Rightarrow>
          Some (if length flat_list \<noteq> length (file_nodes targets)
                then raise_circular n ''Cycles in .gyp file dependency graph detected:'' (file_nodes targets) g
                else Inr ())))"

section \<open>Graphs and orders\<close>

definition wf_graph :: "graph \<Rightarrow> string set \<Rightarrow> bool" where
  "wf_graph g N \<longleftrightarrow> finite N
     \<and> (\<forall>n d. d \<in> set (dependents_of g n) \<longleftrightarrow> n \<in> set (deps_of g d))
     \<and> (\<forall>t\<in>N. deps_of g (Some t) \<noteq> [] \<and> set (deps_of g (Some t)) \<subseteq> insert None (Some ` N))
     \<and> (\<forall>r. r \<notin> Some ` N \<longrightarrow> deps_of g r = [])
     \<and> (\<forall>r. None \<in> set (deps_of g r) \<longrightarrow> set (deps_of g r) \<subseteq> {None})"

lemma wf_graphD:
  assumes "wf_graph g N"
  shows "finite N" "d \<in> set (dependents_of g n) \<longleftrightarrow> n \<in> set (deps_of g d)"
    "n \<in> set (deps_of g r) \<Longrightarrow> r \<in> Some ` N" "n \<in> set (deps_of g r) \<Longrightarrow> n \<in> insert None (Some ` N)"
    "r \<in> Some ` N \<Longrightarrow> deps_of g r \<noteq> []"
    "None \<in> set (deps_of g r) \<Longrightarrow> n \<in> set (deps_of g r) \<Longrightarrow> n = None"
proof -
  have w: "\<forall>r. r \<notin> Some ` N \<longrightarrow> deps_of g r = []"
    "\<forall>t\<in>N. deps_of g (Some t) \<noteq> [] \<and> set (deps_of g (Some t)) \<subseteq> insert None (Some ` N)"
    using assms unfolding wf_graph_def by blast+
  show "finite N" "d \<in> set (dependents_of g n) \<longleftrightarrow> n \<in> set (deps_of g d)"
    using assms unfolding wf_graph_def by blast+
  show 1: "n \<in> set (deps_of g r) \<Longrightarrow> r \<in> Some ` N" using w(1) by (metis empty_iff empty_set)
  show "n \<in> set (deps_of g r) \<Longrightarrow> n \<in> insert None (Some ` N)" using 1 w(2) by blast
  show "r \<in> Some ` N \<Longrightarrow> deps_of g r \<noteq> []" using w(2) by blast
  show "None \<in> set (deps_of g r) \<Longrightarrow> n \<in> set (deps_of g r) \<Longrightarrow> n = None"
    using assms unfolding wf_graph_def by blast
qed

text \<open>The dependencies between targets, without the root.\<close>

definition dep_edges :: "graph \<Rightarrow> (string \<times> string) set" where
  "dep_edges g = {(t, d). Some d \<in> set (deps_of g (Some t))}"

text \<open>Every node of the list comes after its dependencies.\<close>

definition topological :: "graph \<Rightarrow> gref list \<Rightarrow> bool" where
  "topological g flat \<longleftrightarrow> (\<forall>i<length flat. \<forall>d\<in>set (deps_of g (flat ! i)). d = None \<or> d \<in> set (take i flat))"

definition flat_inv :: "graph \<Rightarrow> string set \<Rightarrow> gref list \<Rightarrow> gref list \<Rightarrow> bool" where
  "flat_inv g N flat zeros \<longleftrightarrow> distinct flat \<and> distinct zeros \<and> set flat \<inter> set zeros = {}
     \<and> set flat \<union> set zeros \<subseteq> Some ` N \<and> topological g flat
     \<and> (\<forall>z\<in>set zeros. \<forall>d\<in>set (deps_of g z). d = None \<or> d \<in> set flat)
     \<and> (\<forall>x. None \<in> set (deps_of g x) \<longrightarrow> x \<in> set flat \<union> set zeros)
     \<and> (\<forall>x\<in>Some ` N. x \<notin> set flat \<union> set zeros \<longrightarrow> (\<exists>d\<in>set (deps_of g x). d \<notin> set flat))"

lemma topological_snoc:
  "topological g (flat @ [n]) \<longleftrightarrow> topological g flat \<and> (\<forall>d\<in>set (deps_of g n). d = None \<or> d \<in> set flat)"
  by (auto simp: topological_def nth_append less_Suc_eq)

lemma set_ready:
  "set (foldl (\<lambda>zs d. if P d then add_new zs d else zs) zs ds) = set zs \<union> {d \<in> set ds. P d}"
  by (induction ds arbitrary: zs) auto

lemma distinct_ready:
  "distinct zs \<Longrightarrow> distinct (foldl (\<lambda>zs d. if P d then add_new zs d else zs) zs ds)"
  by (induction ds arbitrary: zs) auto

lemma topological_deps_in:
  assumes "topological g flat" and "x \<in> set flat" and "d \<in> set (deps_of g x)"
  shows "d = None \<or> d \<in> set flat"
  using assms unfolding topological_def by (metis in_set_conv_nth in_set_takeD)

text \<open>A turn of the loop keeps the invariant: the node taken is new in the list, and a node that becomes
  ready was neither in the list nor ready before one of its dependencies was taken.\<close>

lemma flatten_step_inv:
  assumes wf: "wf_graph g N" and inv: "flat_inv g N flat zeros" and node: "node \<in> set zeros"
    and step: "flatten_step g node flat zeros = (flat', zeros')"
  shows "flat_inv g N flat' zeros'" "flat' = flat @ [node]"
proof -
  have i: "distinct flat" "distinct zeros" "set flat \<inter> set zeros = {}" "set flat \<union> set zeros \<subseteq> Some ` N"
    "topological g flat" "\<And>z d. z \<in> set zeros \<Longrightarrow> d \<in> set (deps_of g z) \<Longrightarrow> d = None \<or> d \<in> set flat"
    "\<And>x. None \<in> set (deps_of g x) \<Longrightarrow> x \<in> set flat \<union> set zeros"
    "\<And>x. x \<in> Some ` N \<Longrightarrow> x \<notin> set flat \<union> set zeros \<Longrightarrow> \<exists>d\<in>set (deps_of g x). d \<notin> set flat"
    using inv unfolding flat_inv_def by auto
  have fl: "flat' = flat @ [node]" using step i(3) node by (auto simp: flatten_step_def add_new_def Let_def)
  then show "flat' = flat @ [node]" .
  let ?P = "\<lambda>d. \<forall>x\<in>set (deps_of g d). x \<in> set flat'"
  let ?Z = "filter (\<lambda>z. z \<noteq> node) zeros"
  have z: "zeros' = foldl (\<lambda>zs d. if list_all (\<lambda>x. x \<in> set flat') (deps_of g d) then add_new zs d else zs) ?Z (dependents_of g node)"
    using step by (auto simp: flatten_step_def Let_def)
  have sz: "set zeros' = (set zeros - {node}) \<union> {d. node \<in> set (deps_of g d) \<and> ?P d}"
    unfolding z set_ready using wf_graphD(2) [OF wf] by (auto simp: list_all_iff)
  have ready: "d \<notin> set flat \<and> d \<noteq> node \<and> d \<in> Some ` N" if d: "node \<in> set (deps_of g d)" "?P d" for d
  proof -
    have "node \<noteq> None" using node i(4) by auto
    then have "d \<notin> set flat" using topological_deps_in [OF i(5) _ d(1)] i(3) node by auto
    moreover have "d \<noteq> node" using i(6) [OF node, of node] d(1) \<open>node \<noteq> None\<close> i(3) node by auto
    ultimately show ?thesis using wf_graphD(3) [OF wf d(1)] by blast
  qed
  have nN: "None \<notin> set flat'" using i(4) node by (auto simp: fl)
  show "flat_inv g N flat' zeros'"
    unfolding flat_inv_def
  proof (intro conjI ballI allI impI)
    show "distinct flat'" using i(1,3) node by (auto simp: fl)
    show "distinct zeros'" unfolding z using i(2) by (intro distinct_ready) simp
    show "set flat' \<inter> set zeros' = {}" unfolding sz using ready i(3) by (auto simp: fl)
    show "set flat' \<union> set zeros' \<subseteq> Some ` N" unfolding sz using ready i(4) node by (auto simp: fl)
    show "topological g flat'" unfolding fl topological_snoc using i(5,6) node by blast
    show "d = None \<or> d \<in> set flat'" if "x \<in> set zeros'" "d \<in> set (deps_of g x)" for x d
      using that i(6) unfolding sz by (auto simp: fl)
    show "x \<in> set flat' \<union> set zeros'" if "None \<in> set (deps_of g x)" for x
      using i(7) [OF that] unfolding sz by (auto simp: fl)
    show "\<exists>d\<in>set (deps_of g x). d \<notin> set flat'" if "x \<in> Some ` N" "x \<notin> set flat' \<union> set zeros'" for x
    proof (cases "node \<in> set (deps_of g x)")
      case True
      then show ?thesis using that(2) unfolding sz by blast
    next
      case False
      have "x \<notin> set flat \<union> set zeros" using that(2) unfolding sz by (auto simp: fl)
      then show ?thesis using i(8) [OF that(1)] False by (auto simp: fl)
    qed
  qed
qed

lemma flat_inv_start:
  assumes "wf_graph g N"
  shows "flat_inv g N [] (remdups (dependents_of g None))"
proof -
  have "\<exists>d. d \<in> set (deps_of g x)" if "x \<in> Some ` N" for x
    using wf_graphD(5) [OF assms that] by (metis list.set_sel(1))
  then show ?thesis
    using wf_graphD(2,3,6) [OF assms] by (auto simp: flat_inv_def topological_def)
qed

text \<open>The laws of \<open>set.pop\<close>, and the loop under them.\<close>

locale set_pop =
  fixes pick :: "'a list \<Rightarrow> 'a"
  assumes pick_in: "zs \<noteq> [] \<Longrightarrow> pick zs \<in> set zs"

locale gref_pop = set_pop pick for pick :: "gref list \<Rightarrow> gref"
begin

lemma loop_ends:
  assumes wf: "wf_graph g N"
  shows "flat_inv g N flat zeros \<Longrightarrow>
     \<exists>flat'. FlattenToList_loop pick g flat zeros = Some flat' \<and> flat_inv g N flat' []"
proof (induction "card N - length flat" arbitrary: flat zeros rule: less_induct)
  case less
  show ?case
  proof (cases "zeros = []")
    case True
    then show ?thesis using less.prems by (subst FlattenToList_loop.simps) simp
  next
    case False
    obtain flat' zeros' where st: "flatten_step g (pick zeros) flat zeros = (flat', zeros')" by fastforce
    note inv = flatten_step_inv [OF wf less.prems pick_in [OF False] st]
    have "length flat' = card (set flat')" using inv(1) by (simp add: flat_inv_def distinct_card)
    also have "\<dots> \<le> card (Some ` N)"
      using inv(1) wf_graphD(1) [OF wf] by (intro card_mono) (auto simp: flat_inv_def)
    also have "\<dots> = card N" by (simp add: card_image)
    finally have "card N - length flat' < card N - length flat" using inv(2) by simp
    from less.hyps [OF this inv(1)] show ?thesis
      using False st by (subst FlattenToList_loop.simps) simp
  qed
qed

lemma flatten_ends:
  assumes "wf_graph g N"
  shows "\<exists>flat. FlattenToList pick g None = Some flat \<and> flat_inv g N flat []"
  using loop_ends [OF assms flat_inv_start [OF assms]] by (simp add: FlattenToList_def)

end

interpretation hd_pop: gref_pop hd
  by unfold_locales auto

text \<open>What is left out at the end has a dependency that is left out too.\<close>

lemma flat_inv_stuck:
  assumes "wf_graph g N" and "flat_inv g N flat []" and "t \<in> N" and "Some t \<notin> set flat"
  shows "\<exists>d\<in>N. (t, d) \<in> dep_edges g \<and> Some d \<notin> set flat"
proof -
  obtain d where d: "d \<in> set (deps_of g (Some t))" "d \<notin> set flat"
    using assms(2-4) by (auto simp: flat_inv_def)
  have "None \<in> set (deps_of g (Some t)) \<Longrightarrow> Some t \<in> set flat" using assms(2) by (simp add: flat_inv_def)
  then have "d \<noteq> None" using d(1) assms(4) by metis
  then obtain e where e: "d = Some e" by auto
  then show ?thesis using d wf_graphD(4) [OF assms(1) d(1)] by (auto simp: dep_edges_def)
qed

lemma dep_edges_nodes: "wf_graph g N \<Longrightarrow> dep_edges g \<subseteq> N \<times> N"
  using wf_graphD(3,4) by (fastforce simp: dep_edges_def)

lemma infinite_descent:
  assumes "finite A" and "A \<noteq> {}" and "\<And>x. x \<in> A \<Longrightarrow> \<exists>y\<in>A. (x, y) \<in> E"
  shows "\<not> acyclic E"
proof
  assume ac: "acyclic E"
  let ?R = "E \<inter> A \<times> A"
  have "finite ?R" using assms(1) by blast
  moreover have "acyclic ?R" using ac by (rule acyclic_subset) blast
  ultimately have "wf (?R\<inverse>)" by (rule finite_acyclic_wf_converse)
  moreover obtain a where "a \<in> A" using assms(2) by blast
  ultimately obtain x where "x \<in> A" "\<forall>y. (y, x) \<in> ?R\<inverse> \<longrightarrow> y \<notin> A"
    by (rule wfE_min) blast
  then show False using assms(3) by blast
qed

text \<open>A complete topological order has no cycle.\<close>

lemma index_lt:
  assumes "topological g flat" and "distinct flat" and "i < length flat" and "flat ! i = Some t" and "(t, d) \<in> dep_edges g"
  shows "\<exists>j<i. flat ! j = Some d"
proof -
  have "Some d \<in> set (deps_of g (flat ! i))" using assms(4,5) by (simp add: dep_edges_def)
  then have "Some d \<in> set (take i flat)" using assms(1,3) unfolding topological_def by blast
  then show ?thesis by (auto simp: in_set_conv_nth)
qed

lemma index_of_nth: "x \<in> set xs \<Longrightarrow> index_of xs x < length xs \<and> xs ! index_of xs x = x"
  by (induction xs) auto

lemma topological_acyclic:
  assumes "topological g flat" and "distinct flat" and "dep_edges g \<subseteq> N \<times> N" and "Some ` N \<subseteq> set flat"
  shows "acyclic (dep_edges g)"
proof (rule acyclicI, intro allI)
  define pos where "pos t = index_of flat (Some t)" for t
  have at: "pos t < length flat \<and> flat ! pos t = Some t" if "Some t \<in> set flat" for t
    using that unfolding pos_def by (rule index_of_nth)
  have uniq: "pos t = i" if "i < length flat" "flat ! i = Some t" for t i
    using that at [of t] assms(2) nth_eq_iff_index_eq nth_mem by metis
  have lt: "pos d < pos t" if e: "(t, d) \<in> dep_edges g" for t d
  proof -
    have "Some t \<in> set flat" using e assms(3,4) by auto
    then obtain j where "j < pos t" "flat ! j = Some d" 
      using index_lt [OF assms(1,2) _ _ e, of "pos t"] at by blast
    then show ?thesis using uniq [of j d] at [OF \<open>Some t \<in> set flat\<close>] by simp
  qed
  have "pos y < pos x" if "(x, y) \<in> (dep_edges g)\<^sup>+" for x y
    using that by (induction rule: trancl_induct) (auto dest: lt)
  then show "(x, x) \<notin> (dep_edges g)\<^sup>+" for x by blast
qed

lemma flat_complete_iff:
  assumes "wf_graph g N" and "flat_inv g N flat []"
  shows "length flat = card N \<longleftrightarrow> acyclic (dep_edges g)"
proof -
  have f: "distinct flat" "set flat \<subseteq> Some ` N" "topological g flat" using assms(2) by (auto simp: flat_inv_def)
  have len: "length flat = card (set flat)" using f(1) by (simp add: distinct_card)
  have cN: "card (Some ` N) = card N" by (simp add: card_image)
  show ?thesis
  proof
    assume "length flat = card N"
    then have "set flat = Some ` N"
      using len cN f(2) wf_graphD(1) [OF assms(1)] by (intro card_subset_eq) auto
    then show "acyclic (dep_edges g)"
      using topological_acyclic [OF f(3,1) dep_edges_nodes [OF assms(1)]] by simp
  next
    assume ac: "acyclic (dep_edges g)"
    let ?A = "{t \<in> N. Some t \<notin> set flat}"
    have "?A = {}"
      using infinite_descent [of ?A "dep_edges g"] flat_inv_stuck [OF assms] ac wf_graphD(1) [OF assms(1)] by fastforce
    then have "set flat = Some ` N" using f(2) by auto
    then show "length flat = card N" using len cN by simp
  qed
qed

section \<open>Building the graph\<close>

lemma node_of_dset [simp]: "node_of (dset g a n) r = (if r = a then n else node_of g r)"
  by (simp add: node_of_def)

lemma node_of_Nil [simp]: "node_of [] r = DependencyGraphNode_init"
  by (simp add: node_of_def)

lemma add_dependency_simps [simp]:
  "deps_of (add_dependency a b g) r = (if r = a then deps_of g a @ [b] else deps_of g r)"
  "dependents_of (add_dependency a b g) r = (if r = b then dependents_of g b @ [a] else dependents_of g r)"
  by (auto simp: add_dependency_def Let_def)

text \<open>Targets whose dependencies are names of targets.\<close>

definition valid_targets :: "(string, pydict) dict \<Rightarrow> bool" where
  "valid_targets targets \<longleftrightarrow> wf_dict targets \<and> (\<forall>(t, spec)\<in>set targets.
     (case spec_dependencies spec of Inl _ \<Rightarrow> False | Inr ds \<Rightarrow> list_all (dhas targets) ds))"

definition decl_deps :: "pydict \<Rightarrow> string list" where
  "decl_deps spec = (case spec_dependencies spec of Inl _ \<Rightarrow> [] | Inr ds \<Rightarrow> ds)"

definition decl_edges :: "(string, pydict) dict \<Rightarrow> (string \<times> string) set" where
  "decl_edges targets = {(t, d). \<exists>spec. (t, spec) \<in> set targets \<and> d \<in> set (decl_deps spec)}"

definition node_deps :: "string list \<Rightarrow> gref list" where
  "node_deps ds = (if ds = [] then [None] else map Some ds)"

lemma node_deps_ne [simp]: "node_deps ds \<noteq> []"
  by (simp add: node_deps_def)

lemma set_node_deps: "set (node_deps ds) = (if ds = [] then {None} else Some ` set ds)"
  by (simp add: node_deps_def)

lemma foldM_add_dependency:
  assumes "list_all (dhas targets) ds"
  shows "\<exists>g'. foldM (\<lambda>g dependency.
              if dhas targets dependency then Inr (add_dependency (Some target) (Some dependency) g)
              else Inl (GypError (m dependency))) g ds = Inr g'
     \<and> (\<forall>r. deps_of g' r = (if r = Some target then deps_of g r @ map Some ds else deps_of g r))
     \<and> (\<forall>n d. d \<in> set (dependents_of g' n) \<longleftrightarrow> d \<in> set (dependents_of g n) \<or> d = Some target \<and> n \<in> Some ` set ds)"
  using assms
proof (induction ds arbitrary: g)
  case Nil
  then show ?case by auto
next
  case (Cons x ds)
  from Cons.IH [of "add_dependency (Some target) (Some x) g"] Cons.prems
  obtain g' where g': "foldM (\<lambda>g dependency.
              if dhas targets dependency then Inr (add_dependency (Some target) (Some dependency) g)
              else Inl (GypError (m dependency))) (add_dependency (Some target) (Some x) g) ds = Inr g'"
    "\<forall>r. deps_of g' r = (if r = Some target then deps_of (add_dependency (Some target) (Some x) g) r @ map Some ds
        else deps_of (add_dependency (Some target) (Some x) g) r)"
    "\<forall>n d. d \<in> set (dependents_of g' n) \<longleftrightarrow> d \<in> set (dependents_of (add_dependency (Some target) (Some x) g) n) \<or> d = Some target \<and> n \<in> Some ` set ds"
    unfolding list.pred_inject by blast
  show ?case
    using g' Cons.prems by (intro exI [of _ g']) auto
qed

lemma link_target_eq:
  assumes "spec_dependencies spec = Inr ds" and "list_all (dhas targets) ds" and "deps_of g (Some t) = []"
  shows "\<exists>g'. link_target targets g (t, spec) = Inr g'
     \<and> (\<forall>r. deps_of g' r = (if r = Some t then node_deps ds else deps_of g r))
     \<and> (\<forall>n d. d \<in> set (dependents_of g' n) \<longleftrightarrow> d \<in> set (dependents_of g n) \<or> d = Some t \<and> n \<in> set (node_deps ds))"
proof (cases "ds = []")
  case True
  then show ?thesis using assms(1)
    by (auto simp: link_target_def node_deps_def Let_def)
next
  case False
  then show ?thesis
    using foldM_add_dependency [OF assms(2), of t _ g] assms(1,3)
    by (simp add: link_target_def node_deps_def cong: if_cong)
qed

lemma link_targets_eq:
  assumes "list_all (\<lambda>(t, spec). case spec_dependencies spec of Inl _ \<Rightarrow> False | Inr ds \<Rightarrow> list_all (dhas targets) ds) ts"
    and "distinct (map fst ts)" and "\<forall>t\<in>fst ` set ts. deps_of g (Some t) = []"
    and "\<forall>n d. d \<in> set (dependents_of g n) \<longleftrightarrow> n \<in> set (deps_of g d)"
  shows "\<exists>g'. foldM (link_target targets) g ts = Inr g'
     \<and> (\<forall>t spec. map_of ts t = Some spec \<longrightarrow> deps_of g' (Some t) = node_deps (decl_deps spec))
     \<and> (\<forall>r. r \<notin> Some ` fst ` set ts \<longrightarrow> deps_of g' r = deps_of g r)
     \<and> (\<forall>n d. d \<in> set (dependents_of g' n) \<longleftrightarrow> n \<in> set (deps_of g' d))"
  using assms
proof (induction ts arbitrary: g)
  case Nil
  then show ?case by auto
next
  case (Cons ts1 ts)
  obtain t spec where e: "ts1 = (t, spec)" by fastforce
  obtain ds where ds: "spec_dependencies spec = Inr ds" "list_all (dhas targets) ds"
    using Cons.prems(1) e by (auto split: sum.splits)
  obtain g1 where g1: "link_target targets g (t, spec) = Inr g1"
    "\<forall>r. deps_of g1 r = (if r = Some t then node_deps ds else deps_of g r)"
    "\<forall>n d. d \<in> set (dependents_of g1 n) \<longleftrightarrow> d \<in> set (dependents_of g n) \<or> d = Some t \<and> n \<in> set (node_deps ds)"
    using link_target_eq [OF ds, of g t] Cons.prems(3) unfolding e by auto
  have "deps_of g (Some t) = []" using Cons.prems(3) e by auto
  then have conv: "\<forall>n d. d \<in> set (dependents_of g1 n) \<longleftrightarrow> n \<in> set (deps_of g1 d)"
    using g1(2,3) Cons.prems(4) by auto
  have "\<forall>u\<in>fst ` set ts. deps_of g1 (Some u) = []" using Cons.prems(2,3) g1(2) e by auto
  with Cons.IH [of g1] Cons.prems(1,2) conv obtain g' where g': "foldM (link_target targets) g1 ts = Inr g'"
    "\<forall>t spec. map_of ts t = Some spec \<longrightarrow> deps_of g' (Some t) = node_deps (decl_deps spec)"
    "\<forall>r. r \<notin> Some ` fst ` set ts \<longrightarrow> deps_of g' r = deps_of g1 r"
    "\<forall>n d. d \<in> set (dependents_of g' n) \<longleftrightarrow> n \<in> set (deps_of g' d)"
    by auto
  have t: "t \<notin> fst ` set ts" using Cons.prems(2) e by simp
  then have "Some t \<notin> Some ` fst ` set ts" by auto
  then have "deps_of g' (Some t) = node_deps ds" using g'(3) g1(2) by simp
  then have new: "\<forall>u sp. map_of (ts1 # ts) u = Some sp \<longrightarrow> deps_of g' (Some u) = node_deps (decl_deps sp)"
    using g'(2) ds(1) by (simp add: e decl_deps_def)
  have "\<forall>r. r \<notin> Some ` fst ` set (ts1 # ts) \<longrightarrow> deps_of g' r = deps_of g r"
    using g'(3) g1(2) by (simp add: e)
  with new g1(1) g'(1,4) show ?case by (simp add: e)
qed

lemma build_graph_wf:
  assumes "valid_targets targets"
  shows "\<exists>g. build_graph targets = Inr g \<and> wf_graph g (set (dkeys targets)) \<and> dep_edges g = decl_edges targets"
proof -
  have v: "list_all (\<lambda>(t, spec). case spec_dependencies spec of Inl _ \<Rightarrow> False | Inr ds \<Rightarrow> list_all (dhas targets) ds) targets"
    "distinct (map fst targets)"
    using assms by (auto simp: valid_targets_def wf_dict_def list_all_iff)
  obtain g where g: "build_graph targets = Inr g"
    "\<forall>t spec. map_of targets t = Some spec \<longrightarrow> deps_of g (Some t) = node_deps (decl_deps spec)"
    "\<forall>r. r \<notin> Some ` fst ` set targets \<longrightarrow> deps_of g r = []"
    "\<forall>n d. d \<in> set (dependents_of g n) \<longleftrightarrow> n \<in> set (deps_of g d)"
    using link_targets_eq [OF v, of "[]"] unfolding build_graph_def by (auto simp: DependencyGraphNode_init_def)
  have keys: "set (dkeys targets) = fst ` set targets" by (simp add: dkeys_def)
  have decl: "d \<in> fst ` set targets" if "(t, spec) \<in> set targets" "d \<in> set (decl_deps spec)" for t spec d
  proof -
    have "case spec_dependencies spec of Inl _ \<Rightarrow> False | Inr ds \<Rightarrow> list_all (dhas targets) ds"
      using v(1) that(1) unfolding list_all_iff by blast
    then show ?thesis using that(2) by (auto simp: list_all_iff decl_deps_def dhas_def split: sum.splits)
  qed
  have deps: "deps_of g (Some t) = node_deps (decl_deps spec)" if "(t, spec) \<in> set targets" for t spec
    using that v(2) g(2) by simp
  have none: "deps_of g r = []" if "r \<notin> Some ` fst ` set targets" for r
    using that g(3) by blast
  have "wf_graph g (set (dkeys targets))"
    unfolding wf_graph_def keys
  proof (intro conjI ballI)
    show "finite (fst ` set targets)" by simp
    show "\<forall>n d. d \<in> set (dependents_of g n) \<longleftrightarrow> n \<in> set (deps_of g d)" using g(4) .
    show "\<forall>r. r \<notin> Some ` fst ` set targets \<longrightarrow> deps_of g r = []" using none by blast
    show "\<forall>r. None \<in> set (deps_of g r) \<longrightarrow> set (deps_of g r) \<subseteq> {None}"
    proof (intro allI impI)
      fix r assume r: "None \<in> set (deps_of g r)"
      then have "r \<in> Some ` fst ` set targets" using none [of r] by (cases "r \<in> Some ` fst ` set targets") simp_all
      then obtain t spec where "r = Some t" "(t, spec) \<in> set targets" by auto
      then show "set (deps_of g r) \<subseteq> {None}" using deps r by (auto simp: node_deps_def split: if_splits)
    qed
    show "deps_of g (Some t) \<noteq> []" if "t \<in> fst ` set targets" for t
      using that deps by fastforce
    show "set (deps_of g (Some t)) \<subseteq> insert None (Some ` fst ` set targets)" if t: "t \<in> fst ` set targets" for t
    proof -
      obtain spec where sp: "(t, spec) \<in> set targets" using t by auto
      then show ?thesis using deps [OF sp] decl [OF sp] by (auto simp: set_node_deps)
    qed
  qed
  moreover have "dep_edges g = decl_edges targets"
  proof -
    have "Some d \<in> set (deps_of g (Some t)) \<longleftrightarrow> (\<exists>spec. (t, spec) \<in> set targets \<and> d \<in> set (decl_deps spec))" for t d
    proof (cases "t \<in> fst ` set targets")
      case True
      then obtain spec where s: "(t, spec) \<in> set targets" by auto
      then have "map_of targets t = Some spec" using v(2) by simp
      then have uniq: "(t, spec') \<in> set targets \<longleftrightarrow> spec' = spec" for spec'
        using v(2) s by (metis map_of_is_SomeI option.inject)
      show ?thesis unfolding deps [OF s] uniq by (auto simp: set_node_deps)
    next
      case False
      then have "Some t \<notin> Some ` fst ` set targets" by auto
      then have "deps_of g (Some t) = []" by (rule none)
      then show ?thesis using False by force
    qed
    then show ?thesis by (auto simp: dep_edges_def decl_edges_def)
  qed
  ultimately show ?thesis using g(1) by blast
qed

section \<open>Cycles\<close>

lemma foldM_total_inv:
  assumes "P s" and "\<And>s x. x \<in> set xs \<Longrightarrow> P s \<Longrightarrow> \<exists>s'. f s x = Inr s' \<and> P s'"
  shows "\<exists>s'. foldM f s xs = Inr s' \<and> P s'"
  using assms
proof (induction xs arbitrary: s)
  case (Cons x xs)
  then obtain s1 where "f s x = Inr s1" "P s1" by force
  with Cons show ?case by force
qed auto

text \<open>A path as \<open>Visit\<close> keeps it: each node is a dependent of the next one.\<close>

fun chain :: "graph \<Rightarrow> gref list \<Rightarrow> bool" where
  "chain g (a # b # p) = (a \<in> set (dependents_of g b) \<and> chain g (b # p))"
| "chain g _ = True"

definition cycle_ok :: "graph \<Rightarrow> gref list \<Rightarrow> bool" where
  "cycle_ok g c \<longleftrightarrow> chain g c \<and> 2 \<le> length c \<and> hd c = last c"

lemma chain_take: "chain g p \<Longrightarrow> chain g (take k p)"
proof (induction g p arbitrary: k rule: chain.induct)
  case (1 g a b p)
  show ?case
  proof (cases k)
    case (Suc k')
    then show ?thesis using "1.prems" "1.IH" [of k'] by (cases k') auto
  qed simp
qed (auto simp: take_Cons')

lemma chain_Cons: "a \<in> set (dependents_of g (hd p)) \<Longrightarrow> chain g p \<Longrightarrow> chain g (a # p)"
  by (cases p) auto

lemma found_cycle_ok:
  assumes "chain g path" and "path = node # rest" and "child \<in> set (dependents_of g node)" and "child \<in> set path"
  shows "cycle_ok g (child # take (Suc (index_of path child)) path)"
proof -
  have i: "index_of path child < length path" "path ! index_of path child = child"
    using index_of_nth [OF assms(4)] by auto
  have "last (take (Suc (index_of path child)) path) = child"
    using i by (simp add: take_Suc_conv_app_nth)
  moreover have "chain g (child # take (Suc (index_of path child)) path)"
    using assms by (intro chain_Cons chain_take) auto
  ultimately show ?thesis using assms(2) by (simp add: cycle_ok_def)
qed

text \<open>With enough recursion depth \<open>Visit\<close> returns, all that it reports are cycles, and none goes
  through the root, which is nobody's dependent.\<close>

lemma FindCycles_Visit_ok:
  assumes fin: "finite U" and U: "\<And>n d. d \<in> set (dependents_of g n) \<Longrightarrow> d \<in> U \<and> d \<noteq> root"
  shows "card (U - set vis) < n \<Longrightarrow> chain g path \<Longrightarrow> path = node # rest \<Longrightarrow> last path = root \<Longrightarrow>
     root \<notin> set (butlast path) \<Longrightarrow>
     (\<forall>c\<in>set res. cycle_ok g c \<and> root \<notin> set c) \<Longrightarrow>
     \<exists>res' vis'. FindCycles_Visit n g node path (res, vis) = Inr (res', vis')
       \<and> set vis \<subseteq> set vis' \<and> (\<forall>c\<in>set res'. cycle_ok g c \<and> root \<notin> set c)"
proof (induction n arbitrary: vis path node rest res)
  case 0
  then show ?case by simp
next
  case (Suc n)
  let ?P = "\<lambda>(r, v). set vis \<subseteq> set v \<and> (\<forall>c\<in>set r. cycle_ok g c \<and> root \<notin> set c)"
  let ?f = "\<lambda>(results, visited) child.
       if child \<in> set path then Inr (results @ [child # take (Suc (index_of path child)) path], visited)
       else if child \<notin> set visited then
         FindCycles_Visit n g child (child # path) (results, visited @ [child])
       else Inr (results, visited)"
  have "\<exists>s'. foldM ?f (res, vis) (dependents_of g node) = Inr s' \<and> ?P s'"
  proof (rule foldM_total_inv)
    show "?P (res, vis)" using Suc.prems by simp
    fix s child assume child: "child \<in> set (dependents_of g node)" and P: "?P s"
    obtain r v where s: "s = (r, v)" by fastforce
    show "\<exists>s'. ?f s child = Inr s' \<and> ?P s'"
    proof (cases "child \<in> set path")
      case True
      have "child \<noteq> root" using U [OF child] by simp
      have no: "root \<notin> set (take (Suc (index_of path child)) path)"
      proof -
        have "index_of path child < length path - 1"
        proof (rule ccontr)
          assume "\<not> index_of path child < length path - 1"
          then have "index_of path child = length path - 1" using index_of_nth [OF True] by linarith
          moreover have "path \<noteq> []" using Suc.prems(3) by simp
          ultimately have "last path = child" using index_of_nth [OF True] by (metis last_conv_nth)
          then show False using Suc.prems(4) \<open>child \<noteq> root\<close> by simp
        qed
        then have "set (take (Suc (index_of path child)) path) \<subseteq> set (butlast path)"
          by (simp add: butlast_conv_take set_take_subset_set_take)
        then show ?thesis using Suc.prems(5) by blast
      qed
      then show ?thesis
        using True s P found_cycle_ok [OF Suc.prems(2,3) child True] \<open>child \<noteq> root\<close> by auto
    next
      case np: False
      show ?thesis
      proof (cases "child \<in> set v")
        case True
        then show ?thesis using np s P by auto
      next
        case False
        have c: "child \<in> U" "child \<noteq> root" using U [OF child] by auto
        have "card (U - set (v @ [child])) < n"
        proof -
          have "card (U - set (v @ [child])) < card (U - set v)"
            using fin c False by (intro psubset_card_mono) auto
          also have "\<dots> \<le> card (U - set vis)" using fin P s by (intro card_mono) auto
          finally show ?thesis using Suc.prems(1) by simp
        qed
        moreover have "chain g (child # path)" using Suc.prems(2,3) child by (intro chain_Cons) auto
        moreover have "root \<notin> set (butlast (child # path))" using Suc.prems(3,5) c by auto
        moreover have "last (child # path) = root" using Suc.prems(3,4) by simp
        moreover have "\<forall>c\<in>set r. cycle_ok g c \<and> root \<notin> set c" using P s by simp
        ultimately obtain res' vis' where v: "FindCycles_Visit n g child (child # path) (r, v @ [child]) = Inr (res', vis')"
          "set (v @ [child]) \<subseteq> set vis'" "\<forall>c\<in>set res'. cycle_ok g c \<and> root \<notin> set c"
          using Suc.IH [of "v @ [child]" "child # path" child path r] by blast
        then show ?thesis using np False s P by auto
      qed
    qed
  qed
  then show ?case by auto
qed

lemma FindCycles_ok:
  assumes "finite U" and "\<And>n d. d \<in> set (dependents_of g n) \<Longrightarrow> d \<in> U \<and> d \<noteq> root" and "card U < n"
  shows "\<exists>cs. FindCycles n g root = Inr cs \<and> (\<forall>c\<in>set cs. cycle_ok g c \<and> root \<notin> set c)"
proof -
  have "card (U - set [root]) < n" using assms(1,3) by (meson Diff_subset card_mono le_less_trans)
  with FindCycles_Visit_ok [where root = root and U = U and g = g and vis = "[root]" and n = n and path = "[root]"
      and node = root and rest = "[]" and res = "[]"] assms(1,2)
  obtain res' vis' where "FindCycles_Visit n g root [root] ([], [root]) = Inr (res', vis')"
    "\<forall>c\<in>set res'. cycle_ok g c \<and> root \<notin> set c" by auto
  then show ?thesis by (simp add: FindCycles_def)
qed

lemma cycle_line_ok: "None \<notin> set c \<Longrightarrow> \<exists>l. cycle_line c = Inr l"
proof -
  assume "None \<notin> set c"
  then have "mapM (\<lambda>r. case r of None \<Rightarrow> Inl (TypeError ''expected string, NoneType found'') | Some s \<Rightarrow> Inr s) c = Inr (map the c)"
  proof (induction c)
    case (Cons a c)
    then obtain s where "a = Some s" by (cases a) auto
    then show ?case using Cons by simp
  qed simp
  then show ?thesis by (simp add: cycle_line_def)
qed

lemma raise_circular_raises:
  assumes wf: "wf_graph g N" and n: "card N < n" and k: "keys \<noteq> []" "hd keys \<in> N"
  shows "\<exists>m. raise_circular n message keys g = Inl (CircularException m)"
proof -
  define g' where "g' = (if dependents_of g None = [] then add_dependency (Some (hd keys)) None g else g)"
  have d: "d \<in> Some ` N \<and> d \<noteq> None" if "d \<in> set (dependents_of g' m)" for m d
  proof -
    have "d \<in> set (dependents_of g m) \<or> d = Some (hd keys)" using that by (auto simp: g'_def split: if_splits)
    then show ?thesis using wf_graphD(2,3) [OF wf] k(2) by blast
  qed
  have "card (Some ` N) < n" using n by (simp add: card_image)
  with FindCycles_ok [of "Some ` N" g' None n] d wf_graphD(1) [OF wf]
  obtain cs where cs: "FindCycles n g' None = Inr cs" "\<forall>c\<in>set cs. None \<notin> set c" by auto
  have "\<exists>ls. mapM cycle_line cs = Inr ls"
    using cs(2) cycle_line_ok by (induction cs) (fastforce simp: res_simps)+
  then show ?thesis using cs(1) by (auto simp: raise_circular_def g'_def [symmetric] Let_def)
qed

section \<open>Reachability\<close>

text \<open>With enough recursion depth, \<open>DeepDependencies\<close> adds the targets reachable over dependencies that
  are not there yet.\<close>

lemma DeepDependencies_ok:
  assumes wf: "wf_graph g N"
  shows "card (N - set ds) < n \<Longrightarrow> distinct ds \<Longrightarrow>
     \<exists>ds'. DeepDependencies n g r ds = Inr ds' \<and> distinct ds' \<and> set ds \<subseteq> set ds'
       \<and> (\<forall>t\<in>set ds' - set ds. \<exists>s. Some s \<in> set (deps_of g r) \<and> (s, t) \<in> (dep_edges g)\<^sup>*)
       \<and> (\<forall>t. Some t \<in> set (deps_of g r) \<longrightarrow> t \<in> set ds')
       \<and> (\<forall>t\<in>set ds' - set ds. dep_edges g `` {t} \<subseteq> set ds')"
proof (induction n arbitrary: r ds)
  case 0
  then show ?case by simp
next
  case (Suc n)
  let ?f = "\<lambda>ds d. case d of None \<Rightarrow> Inr ds
       | Some t \<Rightarrow> if t \<notin> set ds then DeepDependencies n g d (ds @ [t]) else Inr ds"
  have loop: "\<exists>ds'. foldM ?f cur xs = Inr ds' \<and> distinct ds' \<and> set cur \<subseteq> set ds'
       \<and> (\<forall>t\<in>set ds' - set cur. \<exists>s. Some s \<in> set xs \<and> (s, t) \<in> (dep_edges g)\<^sup>*)
       \<and> (\<forall>t. Some t \<in> set xs \<longrightarrow> t \<in> set ds')
       \<and> (\<forall>t\<in>set ds' - set cur. dep_edges g `` {t} \<subseteq> set ds')"
    if "set ds \<subseteq> set cur" "distinct cur" "set xs \<subseteq> set (deps_of g r)" for cur xs
    using that
  proof (induction xs arbitrary: cur)
    case Nil
    then show ?case by auto
  next
    case (Cons x xs)
    show ?case
    proof (cases "x = None \<or> the x \<in> set cur")
      case True
      obtain ds' where "foldM ?f cur xs = Inr ds'" "distinct ds'" "set cur \<subseteq> set ds'"
        "\<forall>t\<in>set ds' - set cur. \<exists>s. Some s \<in> set xs \<and> (s, t) \<in> (dep_edges g)\<^sup>*"
        "\<forall>t. Some t \<in> set xs \<longrightarrow> t \<in> set ds'" "\<forall>t\<in>set ds' - set cur. dep_edges g `` {t} \<subseteq> set ds'"
        using Cons.IH [of cur] Cons.prems by auto
      then show ?thesis using True by (intro exI [of _ ds']) (cases x; auto)
    next
      case False
      then obtain t where t: "x = Some t" "t \<notin> set cur" by auto
      have "t \<in> N" using wf_graphD(4) [OF wf, of x r] Cons.prems(3) t by auto
      then have "card (N - set (cur @ [t])) < card (N - set cur)"
        using wf_graphD(1) [OF wf] t by (intro psubset_card_mono) auto
      also have "\<dots> \<le> card (N - set ds)" using wf_graphD(1) [OF wf] Cons.prems(1) by (intro card_mono) auto
      finally have "card (N - set (cur @ [t])) < n" using Suc.prems(1) by simp
      from Suc.IH [OF this, of x] Cons.prems(2) t obtain d1 where d1: "DeepDependencies n g x (cur @ [t]) = Inr d1"
        "distinct d1" "set (cur @ [t]) \<subseteq> set d1"
        "\<forall>u\<in>set d1 - set (cur @ [t]). \<exists>s. Some s \<in> set (deps_of g x) \<and> (s, u) \<in> (dep_edges g)\<^sup>*"
        "\<forall>u. Some u \<in> set (deps_of g x) \<longrightarrow> u \<in> set d1" "\<forall>u\<in>set d1 - set (cur @ [t]). dep_edges g `` {u} \<subseteq> set d1"
        by auto
      have edges: "dep_edges g `` {t} \<subseteq> set d1" using d1(5) t(1) by (auto simp: dep_edges_def)
      have reach: "(t, u) \<in> (dep_edges g)\<^sup>*" if "u \<in> set d1 - set cur" for u
        using that d1(4) t(1) by (cases "u = t") (auto simp: dep_edges_def intro: converse_rtrancl_into_rtrancl)
      have "set ds \<subseteq> set d1" "set xs \<subseteq> set (deps_of g r)" using Cons.prems d1(3) by auto
      with Cons.IH [of d1] d1(2) obtain ds' where ds': "foldM ?f d1 xs = Inr ds'" "distinct ds'" "set d1 \<subseteq> set ds'"
        "\<forall>u\<in>set ds' - set d1. \<exists>s. Some s \<in> set xs \<and> (s, u) \<in> (dep_edges g)\<^sup>*"
        "\<forall>u. Some u \<in> set xs \<longrightarrow> u \<in> set ds'" "\<forall>u\<in>set ds' - set d1. dep_edges g `` {u} \<subseteq> set ds'"
        by blast
      have "\<forall>u\<in>set ds' - set cur. \<exists>s. Some s \<in> set (x # xs) \<and> (s, u) \<in> (dep_edges g)\<^sup>*"
      proof
        fix u assume u: "u \<in> set ds' - set cur"
        show "\<exists>s. Some s \<in> set (x # xs) \<and> (s, u) \<in> (dep_edges g)\<^sup>*"
        proof (cases "u \<in> set d1")
          case True
          then have "(t, u) \<in> (dep_edges g)\<^sup>*" using reach u by blast
          then show ?thesis using t(1) by auto
        next
          case False
          then have "\<exists>s. Some s \<in> set xs \<and> (s, u) \<in> (dep_edges g)\<^sup>*" using ds'(4) u by blast
          then show ?thesis by auto
        qed
      qed
      moreover have "\<forall>u\<in>set ds' - set cur. dep_edges g `` {u} \<subseteq> set ds'"
      proof
        fix u assume u: "u \<in> set ds' - set cur"
        show "dep_edges g `` {u} \<subseteq> set ds'"
        proof (cases "u \<in> set d1")
          case True
          then have "dep_edges g `` {u} \<subseteq> set d1" using edges d1(6) u by (cases "u = t") auto
          then show ?thesis using ds'(3) by blast
        next
          case False
          then show ?thesis using ds'(6) u by blast
        qed
      qed
      ultimately show ?thesis
        using t d1(1,3) ds'(1-3,5) by (intro exI [of _ ds']) auto
    qed
  qed
  from loop [of ds "deps_of g r"] Suc.prems show ?case by simp
qed

section \<open>The graph of the build files\<close>

text \<open>A file depends on another one when one of its targets depends on a target of the other.\<close>

definition file_edges :: "(string, pydict) dict \<Rightarrow> (string \<times> string) set" where
  "file_edges targets = {(f, h). f \<noteq> h \<and> (\<exists>t spec d. (t, spec) \<in> set targets \<and> d \<in> set (decl_deps spec)
     \<and> f = file_of t \<and> h = file_of d)}"

text \<open>What holds of the graph before the root is linked: the two lists agree, no root, and the edges
  are the given ones.\<close>

definition pre_graph :: "graph \<Rightarrow> string set \<Rightarrow> (string \<times> string) set \<Rightarrow> bool" where
  "pre_graph g F E \<longleftrightarrow> (\<forall>n d. d \<in> set (dependents_of g n) \<longleftrightarrow> n \<in> set (deps_of g d))
     \<and> (\<forall>r. set (deps_of g r) = (case r of None \<Rightarrow> {} | Some f \<Rightarrow> Some ` (E `` {f})))
     \<and> E \<subseteq> F \<times> F"

lemma pre_graph_add:
  assumes "pre_graph g F E" and "f \<in> F" and "h \<in> F"
  shows "pre_graph (add_dependency (Some f) (Some h) g) F (insert (f, h) E)"
  using assms unfolding pre_graph_def by (auto split: option.splits)

lemma pre_graph_skip:
  assumes "pre_graph g F E" and "Some h \<in> set (deps_of g (Some f))"
  shows "(f, h) \<in> E"
  using assms unfolding pre_graph_def by auto

lemma link_file_ok:
  assumes "pre_graph g F E" and "spec_dependencies spec = Inr ds" and "file_of t \<in> F"
    and "file_of ` set ds \<subseteq> F" and "set files = F"
  shows "\<exists>g'. link_file files g (t, spec) = Inr g'
     \<and> pre_graph g' F (E \<union> {(file_of t, file_of d) |d. d \<in> set ds \<and> file_of d \<noteq> file_of t})"
proof -
  let ?f = "\<lambda>g dependency. let dependency_build_file = file_of dependency in
         if dependency_build_file = file_of t then Inr g
         else if dependency_build_file \<notin> set files
         then Inl (GypError (''Dependancy '' @ sq dependency_build_file @ '' not found''))
         else Inr (if Some dependency_build_file \<in> set (deps_of g (Some (file_of t))) then g
                   else add_dependency (Some (file_of t)) (Some dependency_build_file) g)"
  have "\<exists>g'. foldM ?f g xs = Inr g' \<and> pre_graph g' F (E \<union> {(file_of t, file_of d) |d. d \<in> set xs \<and> file_of d \<noteq> file_of t})"
    if "pre_graph g F E" "file_of ` set xs \<subseteq> F" for g E xs
    using that
  proof (induction xs arbitrary: g E)
    case Nil
    then show ?case by simp
  next
    case (Cons x xs)
    let ?E1 = "if file_of x = file_of t then E else insert (file_of t, file_of x) E"
    have "\<exists>g1. ?f g x = Inr g1 \<and> pre_graph g1 F ?E1"
    proof (cases "file_of x = file_of t \<or> Some (file_of x) \<in> set (deps_of g (Some (file_of t)))")
      case True
      then show ?thesis using Cons.prems pre_graph_skip [OF Cons.prems(1)] assms(5)
        by (auto simp: Let_def insert_absorb)
    next
      case False
      then show ?thesis using Cons.prems pre_graph_add [OF Cons.prems(1) assms(3), of "file_of x"] assms(5)
        by (auto simp: Let_def)
    qed
    then obtain g1 where g1: "?f g x = Inr g1" "pre_graph g1 F ?E1" by blast
    have "file_of ` set xs \<subseteq> F" using Cons.prems(2) by auto
    from Cons.IH [OF g1(2) this] obtain g' where g': "foldM ?f g1 xs = Inr g'"
      "pre_graph g' F (?E1 \<union> {(file_of t, file_of d) |d. d \<in> set xs \<and> file_of d \<noteq> file_of t})" by blast
    moreover have "?E1 \<union> {(file_of t, file_of d) |d. d \<in> set xs \<and> file_of d \<noteq> file_of t}
        = E \<union> {(file_of t, file_of d) |d. d \<in> set (x # xs) \<and> file_of d \<noteq> file_of t}"
      by auto
    ultimately show ?case using g1(1) by (simp only: foldM.simps res_bind_Inr) blast
  qed
  from this [OF assms(1,4)] show ?thesis
    by (simp add: link_file_def assms(2) Let_def)
qed


lemma link_files_ok:
  assumes "pre_graph g F E" and "set files = F" and "\<forall>(t, spec)\<in>set ts. file_of t \<in> F \<and> \<not> isl (spec_dependencies spec) \<and> file_of ` set (decl_deps spec) \<subseteq> F"
  shows "\<exists>g'. foldM (link_file files) g ts = Inr g' \<and> pre_graph g' F (E \<union> file_edges ts)"
  using assms
proof (induction ts arbitrary: g E)
  case Nil
  then show ?case by (auto simp: file_edges_def)
next
  case (Cons x ts)
  obtain t spec where x: "x = (t, spec)" by fastforce
  obtain ds where ds: "spec_dependencies spec = Inr ds" "decl_deps spec = ds"
    using Cons.prems(3) x by (cases "spec_dependencies spec") (auto simp: decl_deps_def)
  let ?E1 = "E \<union> {(file_of t, file_of d) |d. d \<in> set ds \<and> file_of d \<noteq> file_of t}"
  obtain g1 where g1: "link_file files g (t, spec) = Inr g1" "pre_graph g1 F ?E1"
    using link_file_ok [OF Cons.prems(1) ds(1) _ _ Cons.prems(2), of t] Cons.prems(3) x ds(2) by auto
  from Cons.IH [OF g1(2) Cons.prems(2)] Cons.prems(3)
  obtain g' where g': "foldM (link_file files) g1 ts = Inr g'" "pre_graph g' F (?E1 \<union> file_edges ts)" by auto
  moreover have "?E1 \<union> file_edges ts = E \<union> file_edges (x # ts)"
    using ds(2) x unfolding file_edges_def by auto
  ultimately show ?case using g1(1) x by auto
qed

text \<open>Linking the files without dependencies to the root.\<close>

lemma link_root_ok:
  assumes "pre_graph g F E" and "distinct fs"
  shows "let g' = foldl (\<lambda>g f. if deps_of g (Some f) = [] then add_dependency (Some f) None g else g) g fs
    in (\<forall>n d. d \<in> set (dependents_of g' n) \<longleftrightarrow> n \<in> set (deps_of g' d))
     \<and> (\<forall>r. deps_of g' r = (if deps_of g r = [] \<and> r \<in> Some ` set fs then [None] else deps_of g r))"
proof -
  have "let g' = foldl (\<lambda>g f. if deps_of g (Some f) = [] then add_dependency (Some f) None g else g) g fs
    in (\<forall>n d. d \<in> set (dependents_of g' n) \<longleftrightarrow> n \<in> set (deps_of g' d))
     \<and> (\<forall>r. deps_of g' r = (if deps_of g r = [] \<and> r \<in> Some ` set fs then [None] else deps_of g r))"
    if "\<forall>n d. d \<in> set (dependents_of g n) \<longleftrightarrow> n \<in> set (deps_of g d)" "distinct fs" for g fs
    using that
  proof (induction fs arbitrary: g)
    case Nil
    then show ?case by simp
  next
    case (Cons f fs)
    let ?g1 = "if deps_of g (Some f) = [] then add_dependency (Some f) None g else g"
    have "\<forall>n d. d \<in> set (dependents_of ?g1 n) \<longleftrightarrow> n \<in> set (deps_of ?g1 d)"
      using Cons.prems(1) by auto
    from Cons.IH [OF this] Cons.prems(2) show ?case
      by (auto simp: Let_def split: if_splits)
  qed
  then show ?thesis using assms by (simp add: pre_graph_def)
qed

text \<open>The dependencies of the targets are names of targets' files.\<close>

definition valid_files :: "(string, pydict) dict \<Rightarrow> bool" where
  "valid_files targets \<longleftrightarrow> (\<forall>(t, spec)\<in>set targets. \<not> isl (spec_dependencies spec)
     \<and> file_of ` set (decl_deps spec) \<subseteq> file_of ` set (dkeys targets))"

lemma file_graph_wf:
  assumes "valid_files targets"
  shows "\<exists>g. file_graph targets = Inr g \<and> wf_graph g (set (file_nodes targets)) \<and> dep_edges g = file_edges targets"
proof -
  let ?F = "set (file_nodes targets)"
  have F: "?F = file_of ` set (dkeys targets)" by (simp add: file_nodes_def)
  have "pre_graph [] ?F {}" by (simp add: pre_graph_def DependencyGraphNode_init_def split: option.splits)
  moreover have "\<forall>(t, spec)\<in>set targets. file_of t \<in> ?F \<and> \<not> isl (spec_dependencies spec) \<and> file_of ` set (decl_deps spec) \<subseteq> ?F"
  proof (clarify)
    fix t spec assume ts: "(t, spec) \<in> set targets"
    then have "t \<in> set (dkeys targets)" by (force simp: dkeys_def)
    then show "file_of t \<in> ?F \<and> \<not> isl (spec_dependencies spec) \<and> file_of ` set (decl_deps spec) \<subseteq> ?F"
      using assms ts unfolding valid_files_def F by blast
  qed
  ultimately obtain g where g: "foldM (link_file (file_nodes targets)) [] targets = Inr g" "pre_graph g ?F (file_edges targets)"
    using link_files_ok [of "[]" ?F "{}" "file_nodes targets" targets] by auto
  define g' where "g' = foldl (\<lambda>g f. if deps_of g (Some f) = [] then add_dependency (Some f) None g else g) g (file_nodes targets)"
  have g': "\<forall>n d. d \<in> set (dependents_of g' n) \<longleftrightarrow> n \<in> set (deps_of g' d)"
    "\<forall>r. deps_of g' r = (if deps_of g r = [] \<and> r \<in> Some ` ?F then [None] else deps_of g r)"
    using link_root_ok [OF g(2), of "file_nodes targets"] by (simp_all add: g'_def Let_def file_nodes_def)
  have pre: "\<forall>r. set (deps_of g r) = (case r of None \<Rightarrow> {} | Some f \<Rightarrow> Some ` (file_edges targets `` {f}))"
    "file_edges targets \<subseteq> ?F \<times> ?F" using g(2) by (auto simp: pre_graph_def)
  have out: "deps_of g r = []" if "r \<notin> Some ` ?F" for r
  proof -
    have "set (deps_of g r) = {}" using pre that by (cases r) auto
    then show ?thesis by simp
  qed
  have sub: "set (deps_of g r) \<subseteq> Some ` ?F" for r using pre by (cases r) auto
  have "wf_graph g' ?F"
    unfolding wf_graph_def
  proof (intro conjI)
    show "\<forall>t\<in>?F. deps_of g' (Some t) \<noteq> [] \<and> set (deps_of g' (Some t)) \<subseteq> insert None (Some ` ?F)"
      using g'(2) sub by auto
    show "\<forall>r. r \<notin> Some ` ?F \<longrightarrow> deps_of g' r = []" using g'(2) out by simp
    show "\<forall>r. None \<in> set (deps_of g' r) \<longrightarrow> set (deps_of g' r) \<subseteq> {None}"
    proof (intro allI impI)
      fix r assume "None \<in> set (deps_of g' r)"
      moreover have "None \<notin> set (deps_of g r)" using sub [of r] by auto
      ultimately show "set (deps_of g' r) \<subseteq> {None}" using g'(2) by (auto split: if_splits)
    qed
  qed (use g'(1) in simp_all)
  moreover have "dep_edges g' = file_edges targets"
  proof -
    have "Some d \<in> set (deps_of g' (Some t)) \<longleftrightarrow> Some d \<in> set (deps_of g (Some t))" for t d
      using g'(2) by simp
    also have "Some d \<in> set (deps_of g (Some t)) \<longleftrightarrow> (t, d) \<in> file_edges targets" for t d
      using pre(1) by auto
    finally show ?thesis by (auto simp: dep_edges_def)
  qed
  ultimately show ?thesis using g(1) by (simp add: file_graph_def g'_def [symmetric])
qed

text \<open>Flattening a well-formed graph, for every choice of \<open>set.pop\<close>.\<close>

lemma flatten_wf:
  assumes "\<And>zs. zs \<noteq> [] \<Longrightarrow> pick zs \<in> set zs" and "wf_graph g N"
  shows "\<exists>flat. FlattenToList pick g None = Some flat \<and> flat_inv g N flat []
     \<and> (length flat = card N \<longleftrightarrow> acyclic (dep_edges g))"
proof -
  have "gref_pop pick" unfolding gref_pop_def set_pop_def using assms(1) by blast
  from gref_pop.flatten_ends [OF this assms(2)] flat_complete_iff [OF assms(2)] show ?thesis by blast
qed

lemma complete_order:
  assumes "wf_graph g N" and "flat_inv g N flat []" and "length flat = card N"
  shows "distinct flat" "set flat = Some ` N"
    "i < length flat \<Longrightarrow> flat ! i = Some t \<Longrightarrow> (t, d) \<in> dep_edges g \<Longrightarrow> Some d \<in> set (take i flat)"
proof -
  have f: "distinct flat" "set flat \<subseteq> Some ` N" "topological g flat" using assms(2) by (auto simp: flat_inv_def)
  then show "distinct flat" by simp
  have "card (set flat) = card (Some ` N)" using f(1) assms(3) by (simp add: distinct_card card_image)
  then show "set flat = Some ` N" using f(2) wf_graphD(1) [OF assms(1)] by (intro card_subset_eq) auto
  show "i < length flat \<Longrightarrow> flat ! i = Some t \<Longrightarrow> (t, d) \<in> dep_edges g \<Longrightarrow> Some d \<in> set (take i flat)"
    using index_lt [OF f(3,1)] by (fastforce simp: in_set_conv_nth)
qed

lemma card_keys: "wf_dict d \<Longrightarrow> card (set (dkeys d)) = length d"
  using distinct_card [of "map fst d"] by (simp add: wf_dict_def dkeys_def)

lemma acyclic_single: "a \<noteq> b \<Longrightarrow> acyclic {(a, b)}"
proof -
  assume "a \<noteq> b"
  moreover have "acyclic {}" by (simp add: acyclic_def)
  ultimately show "acyclic {(a, b)}" by (simp add: acyclic_insert)
qed

section \<open>Properties\<close>

text \<open>
  C3. \<open>BuildDependencyList\<close> is correct for every choice of \<open>set.pop\<close>: on targets whose dependencies
  exist it returns; without a cycle of dependencies the list has every target once, each after
  all of its dependencies, and with one the result is \<open>CircularException\<close>.
\<close>

theorem BuildDependencyList_correct:
  assumes "\<And>zs. zs \<noteq> [] \<Longrightarrow> pick zs \<in> set zs" and "valid_targets targets" and "length targets < n"
  shows "if acyclic (decl_edges targets)
    then \<exists>g flat. BuildDependencyList pick n targets = Some (Inr (g, flat)) \<and> distinct flat
      \<and> set flat = Some ` set (dkeys targets)
      \<and> (\<forall>i<length flat. \<forall>t d. flat ! i = Some t \<and> (t, d) \<in> decl_edges targets \<longrightarrow> Some d \<in> set (take i flat))
    else \<exists>m. BuildDependencyList pick n targets = Some (Inl (CircularException m))"
proof -
  let ?N = "set (dkeys targets)"
  obtain g where g: "build_graph targets = Inr g" "wf_graph g ?N" "dep_edges g = decl_edges targets"
    using build_graph_wf [OF assms(2)] by blast
  obtain flat where f: "FlattenToList pick g None = Some flat" "flat_inv g ?N flat []"
    "length flat = card ?N \<longleftrightarrow> acyclic (dep_edges g)"
    using flatten_wf [OF assms(1) g(2)] by auto
  have c: "card ?N = length targets" using assms(2) card_keys by (auto simp: valid_targets_def)
  show ?thesis
  proof (cases "acyclic (decl_edges targets)")
    case True
    then have l: "length flat = card ?N" using f(3) g(3) by simp
    then have "BuildDependencyList pick n targets = Some (Inr (g, flat))"
      using g(1) f(1) c by (simp add: BuildDependencyList_def)
    then show ?thesis using True complete_order [OF g(2) f(2) l] g(3) by auto
  next
    case False
    have "targets \<noteq> []" using False by (auto simp: decl_edges_def acyclic_def)
    then have ne: "dkeys targets \<noteq> []" by (simp add: dkeys_def)
    note k = ne hd_in_set [OF ne]
    have "card ?N < n" using c assms(3) by simp
    from raise_circular_raises [OF g(2) this k, of "''Cycles in dependency graph detected:''"] False
    show ?thesis using g f c by (simp add: BuildDependencyList_def)
  qed
qed

theorem BuildDependencyList_correct_witness:
  "\<exists>g flat. BuildDependencyList hd 9 [(''b'', [(''dependencies'', PList [PStr ''a''])]), (''a'', [])] = Some (Inr (g, flat))
     \<and> distinct flat \<and> set flat = {Some ''a'', Some ''b''}"
proof -
  let ?ts = "[(''b'', [(''dependencies'', PList [PStr ''a''])]), (''a'', [])]"
  have v: "valid_targets ?ts"
    by (simp add: valid_targets_def wf_dict_def spec_dependencies_def dep_names_def dhas_def)
  have "decl_edges ?ts = {(''b'', ''a'')}"
    by (auto simp: decl_edges_def decl_deps_def spec_dependencies_def dep_names_def)
  then have "acyclic (decl_edges ?ts)" using acyclic_single [of "''b''" "''a''"] by simp
  then have "\<exists>g flat. BuildDependencyList hd 9 ?ts = Some (Inr (g, flat)) \<and> distinct flat \<and> set flat = Some ` set (dkeys ?ts)"
    using BuildDependencyList_correct [OF _ v, of hd 9] by auto
  moreover have "Some ` set (dkeys ?ts) = {Some ''a'', Some ''b''}" by (auto simp: dkeys_def)
  ultimately show ?thesis by simp
qed



text \<open>
  What \<open>FindCycles\<close> reports are cycles: with a recursion limit above the number of nodes it returns,
  and in every list reported each node is a dependent of the next and the first is the last.
\<close>

theorem FindCycles_sound:
  assumes "finite U" and "\<And>m d. d \<in> set (dependents_of g m) \<Longrightarrow> d \<in> U \<and> d \<noteq> root" and "card U < n"
  shows "\<exists>cs. FindCycles n g root = Inr cs \<and> (\<forall>c\<in>set cs. 2 \<le> length c \<and> hd c = last c
     \<and> (\<forall>i. Suc i < length c \<longrightarrow> c ! i \<in> set (dependents_of g (c ! Suc i))))"
proof -
  have ch: "chain g c \<Longrightarrow> Suc i < length c \<Longrightarrow> c ! i \<in> set (dependents_of g (c ! Suc i))" for c i
  proof (induction g c arbitrary: i rule: chain.induct)
    case (1 g a b p)
    then show ?case by (cases i) auto
  qed auto
  obtain cs where cs: "FindCycles n g root = Inr cs" "\<forall>c\<in>set cs. cycle_ok g c"
    using FindCycles_ok [of U g root n] assms by blast
  then have "2 \<le> length c \<and> hd c = last c \<and> (\<forall>i. Suc i < length c \<longrightarrow> c ! i \<in> set (dependents_of g (c ! Suc i)))"
    if "c \<in> set cs" for c
    using ch that unfolding cycle_ok_def by simp
  then show ?thesis using cs(1) by blast
qed

theorem FindCycles_sound_witness:
  "\<exists>cs. FindCycles 9 [(Some ''a'', \<lparr>dg_dependencies = [Some ''b''], dg_dependents = [Some ''b'']\<rparr>),
     (Some ''b'', \<lparr>dg_dependencies = [Some ''a'', None], dg_dependents = [Some ''a'']\<rparr>),
     (None, \<lparr>dg_dependencies = [], dg_dependents = [Some ''b'']\<rparr>)] None = Inr cs
     \<and> (\<forall>c\<in>set cs. hd c = last c)"
proof -
  define g where "g = [(Some ''a'', \<lparr>dg_dependencies = [Some ''b''], dg_dependents = [Some ''b'']\<rparr>),
     (Some ''b'', \<lparr>dg_dependencies = [Some ''a'', None], dg_dependents = [Some ''a'']\<rparr>),
     (None, \<lparr>dg_dependencies = [], dg_dependents = [Some ''b'']\<rparr>)]"
  have d: "d \<in> {Some ''a'', Some ''b''} \<and> d \<noteq> None" if "d \<in> set (dependents_of g m)" for m d
    using that by (auto simp: g_def node_of_def DependencyGraphNode_init_def split: if_splits)
  have "card {Some ''a'', Some ''b''} < 9" by simp
  with FindCycles_sound [of "{Some ''a'', Some ''b''}" g None 9] d
  have "\<exists>cs. FindCycles 9 g None = Inr cs \<and> (\<forall>c\<in>set cs. hd c = last c)" by (metis finite.simps)
  then show ?thesis unfolding g_def .
qed

text \<open>
  The report can be empty: when the root has dependents but no cycle can be reached from it, the
  exception that \<open>BuildDependencyList\<close> raises names no cycle.
\<close>

theorem BuildDependencyList_unnamed_cycle:
  "BuildDependencyList hd 9 [(''a'', []), (''b'', [(''dependencies'', PList [PStr ''c''])]), (''c'', [(''dependencies'', PList [PStr ''b''])])]
     = Some (Inl (CircularException (''Cycles in dependency graph detected:'' @ [nl])))"
  by code_simp

lemma DeepDependencies_trancl:
  assumes "wf_graph g N" and "card N < n"
  shows "\<exists>ds. DeepDependencies n g (Some t) [] = Inr ds \<and> distinct ds \<and> set ds = (dep_edges g)\<^sup>+ `` {t}"
proof -
  obtain ds where ds: "DeepDependencies n g (Some t) [] = Inr ds" "distinct ds"
    "\<forall>u\<in>set ds. \<exists>s. Some s \<in> set (deps_of g (Some t)) \<and> (s, u) \<in> (dep_edges g)\<^sup>*"
    "\<forall>u. Some u \<in> set (deps_of g (Some t)) \<longrightarrow> u \<in> set ds" "\<forall>u\<in>set ds. dep_edges g `` {u} \<subseteq> set ds"
    using DeepDependencies_ok [OF assms(1), of "[]" n "Some t"] assms(2) by auto
  have "u \<in> set ds" if "(t, u) \<in> (dep_edges g)\<^sup>+" for u
    using that
  proof (induction rule: trancl_induct)
    case (base u)
    then show ?case using ds(4) by (simp add: dep_edges_def)
  next
    case (step u v)
    then show ?case using ds(5) by blast
  qed
  moreover have "(t, u) \<in> (dep_edges g)\<^sup>+" if u: "u \<in> set ds" for u
  proof -
    obtain s where s: "Some s \<in> set (deps_of g (Some t))" "(s, u) \<in> (dep_edges g)\<^sup>*"
      using ds(3) u by blast
    then have "(t, s) \<in> dep_edges g" by (simp add: dep_edges_def)
    then show ?thesis using s(2) by (rule rtrancl_into_trancl2)
  qed
  ultimately show ?thesis using ds(1,2) by blast
qed

text \<open>
  C30. \<open>DeepDependencies\<close> is reachability: with a recursion limit above the number of targets it
  returns, each once, exactly the targets that the given one depends on, directly or not.
\<close>

theorem DeepDependencies_reachable:
  assumes "wf_graph g N" and "card N < n"
  shows "\<exists>ds. DeepDependencies n g (Some t) [] = Inr ds \<and> distinct ds \<and> set ds = (dep_edges g)\<^sup>+ `` {t}"
  by (rule DeepDependencies_trancl [OF assms])

theorem DeepDependencies_reachable_witness:
  "\<exists>g ds. build_graph [(''b'', [(''dependencies'', PList [PStr ''a''])]), (''a'', [])] = Inr g
     \<and> DeepDependencies 9 g (Some ''b'') [] = Inr ds \<and> set ds = (dep_edges g)\<^sup>+ `` {''b''}"
proof -
  let ?ts = "[(''b'', [(''dependencies'', PList [PStr ''a''])]), (''a'', [])]"
  have "valid_targets ?ts"
    by (simp add: valid_targets_def wf_dict_def spec_dependencies_def dep_names_def dhas_def)
  from build_graph_wf [OF this] obtain g where g: "build_graph ?ts = Inr g" "wf_graph g (set (dkeys ?ts))" by blast
  have "card (set (dkeys ?ts)) < 9" by (simp add: dkeys_def)
  from DeepDependencies_reachable [OF g(2) this, of "''b''"] g(1) show ?thesis by blast
qed

end
