(* ===== verification/Gyp_Settings.thy ===== *)
theory Gyp_Settings
  imports Gyp_Merge Gyp_Graph "HOL-Library.List_Lexorder" "HOL-Library.Char_ord"
begin

text \<open>
  What \<open>gyp/input.py\<close> does with the merged dictionaries: \<open>deepcopy\<close> of \<open>gyp/simple_copy.py\<close>, the
  configurations of a target and their inheritance, the settings that dependents receive, and the
  dependencies of static libraries and linked targets. Shown: inheritance ends on cyclic
  \<open>inherit_from\<close>, the shape of a target after \<open>SetUpConfigurations\<close>, and which dependencies static
  libraries keep.
\<close>

section \<open>Deep copies\<close>

fun deepcopy :: "pyval \<Rightarrow> pyval" where
  "deepcopy (PList x) = PList (map deepcopy x)"
| "deepcopy (PDict x) = PDict (foldl (\<lambda>y (key, v). dset y key v) [] (map (\<lambda>(key, v). (key, deepcopy v)) x))"
| "deepcopy x = x"

lemma dset_all_new:
  "distinct (map fst (d @ kvs)) \<Longrightarrow> foldl (\<lambda>y (key, v). dset y key v) d kvs = d @ kvs"
proof (induction kvs arbitrary: d)
  case (Cons kv kvs)
  obtain k v where kv: "kv = (k, v)" by (cases kv)
  have "dget d k = None" using Cons.prems by (auto simp: kv dget_def map_of_eq_None_iff)
  then show ?case using Cons by (simp add: kv dset_fresh)
qed simp

lemma deepcopy_wf: "wf_val v \<Longrightarrow> deepcopy v = v"
proof (induction v rule: deepcopy.induct)
  case (1 x)
  then show ?case by (simp add: list_all_iff map_idI)
next
  case (2 x)
  have "map (\<lambda>(key, v). (key, deepcopy v)) x = x"
    using 2 by (intro map_idI) (auto simp: list_all_iff)
  then show ?case using 2 dset_all_new [of "[]" x] by (simp add: wf_dict_def)
qed auto

section \<open>Configurations\<close>

text \<open>\<open>d.get\<close>, an \<open>AttributeError\<close> on what is not a dictionary.\<close>

fun get_attr_dict :: "pyval \<Rightarrow> pydict res" where
  "get_attr_dict (PDict d) = Inr d"
| "get_attr_dict _ = Inl (AttributeError ''get'')"

definition configuration_dict :: "pydict \<Rightarrow> string \<Rightarrow> pydict res" where
  "configuration_dict target_dict configuration =
     res_bind (dict_get target_dict ''configurations'') (\<lambda>cs.
     res_bind (as_dict cs) (\<lambda>configs.
     res_bind (dict_get configs configuration) get_attr_dict))"

definition inherit_from :: "pydict \<Rightarrow> string list res" where
  "inherit_from config = (case dget config ''inherit_from'' of None \<Rightarrow> Inr [] | Some v \<Rightarrow> str_items v)"

lemma configuration_dict_key:
  assumes "configuration_dict target_dict c = Inr d"
  shows "\<exists>configs. dget target_dict ''configurations'' = Some (PDict configs) \<and> c \<in> set (dkeys configs)"
  using assms by (auto simp: configuration_dict_def res_simps dkeys_iff_dget)

definition config_names :: "pydict \<Rightarrow> string list" where
  "config_names target_dict =
     (case dget target_dict ''configurations'' of Some (PDict configs) \<Rightarrow> dkeys configs | _ \<Rightarrow> [])"

function MergeConfigWithInheritance ::
  "gyp_env \<Rightarrow> string option \<Rightarrow> pydict \<Rightarrow> string \<Rightarrow> string list \<Rightarrow> pydict \<Rightarrow> pydict res" where
  "MergeConfigWithInheritance env build_file target_dict configuration visited new_configuration_dict =
     (if configuration \<in> set visited then Inr new_configuration_dict
      else res_bind (configuration_dict target_dict configuration) (\<lambda>config.
           res_bind (inherit_from config) (\<lambda>parents.
           res_bind (foldM (\<lambda>new parent.
               MergeConfigWithInheritance env build_file target_dict parent (visited @ [configuration]) new)
             new_configuration_dict parents) (\<lambda>new.
           res_bind (MergeDicts env new config build_file build_file) (\<lambda>new'.
             Inr (if dhas new' ''abstract'' then ddel new' ''abstract'' else new'))))))"
  by pat_completeness auto
termination
proof (relation "measure (\<lambda>(_, _, t, _, visited, _). card (set (config_names t) - set visited))")
  fix t :: pydict and c visited config
  assume "c \<notin> set visited" and "configuration_dict t c = Inr config"
  then have "c \<in> set (config_names t) - set visited" using configuration_dict_key [of t c] by (auto simp: config_names_def)
  then have "card (set (config_names t) - set (visited @ [c])) < card (set (config_names t) - set visited)"
    by (intro psubset_card_mono) auto
  then show "((env, build_file, t, parent, visited @ [c], new), env, build_file, t, c, visited, new0)
      \<in> measure (\<lambda>(_, _, t, _, visited, _). card (set (config_names t) - set visited))" for env :: gyp_env and build_file parent new new0
    by simp
qed simp

declare MergeConfigWithInheritance.simps [simp del]

text \<open>The key without a suffix; whether it stays in the target.\<close>

definition key_base :: "string \<Rightarrow> string" where
  "key_base key = (if key \<noteq> [] \<and> last key \<in> set ''=+?!/'' then drop_last 1 key else key)"

definition is_abstract :: "pydict \<Rightarrow> bool" where
  "is_abstract config = (case dget config ''abstract'' of None \<Rightarrow> False | Some v \<Rightarrow> truthy v)"

text \<open>The configurations with the default ones filled in.\<close>

definition default_configurations :: "pydict \<Rightarrow> pydict res" where
  "default_configurations target_dict =
     (let t1 = (if \<not> dhas target_dict ''configurations'' then dset target_dict ''configurations'' (PDict [(''Default'', PDict [])])
                else target_dict)
      in if \<not> dhas t1 ''default_configuration'' then
           res_bind (dict_get t1 ''configurations'') (\<lambda>cs.
           res_bind (get_attr_dict cs) (\<lambda>configs.
           res_bind (mapM (\<lambda>(i, config). res_bind (get_attr_dict config) (\<lambda>d. Inr (i, is_abstract d))) configs) (\<lambda>flags.
             case sort (map fst (filter (Not \<circ> snd) flags)) of
               [] \<Rightarrow> Inl IndexError
             | c # _ \<Rightarrow> Inr (dset t1 ''default_configuration'' (PStr c)))))
         else Inr t1)"

text \<open>One turn of the loop that merges the configurations.\<close>

definition merge_configuration ::
  "gyp_env \<Rightarrow> string option \<Rightarrow> pydict \<Rightarrow> pydict \<Rightarrow> string \<times> pyval \<Rightarrow> pydict res" where
  "merge_configuration env build_file target_dict merged = (\<lambda>(configuration, old).
     res_bind (get_attr_dict old) (\<lambda>old_configuration_dict.
       if is_abstract old_configuration_dict then Inr merged
       else let inherited = map (\<lambda>(key, v). (key, deepcopy v))
                  (filter (\<lambda>(key, v). key_base key \<notin> set (ge_non_configuration_keys env)) target_dict)
            in res_bind (MergeConfigWithInheritance env build_file target_dict configuration [] inherited) (\<lambda>new.
                 Inr (dset merged configuration (PDict new)))))"

definition check_configurations :: "string \<Rightarrow> pydict \<Rightarrow> unit res" where
  "check_configurations target configs =
     foldM (\<lambda>_ (configuration, config).
       res_bind (get_attr_dict config) (\<lambda>d.
         case filter (\<lambda>key. key \<in> set invalid_configuration_keys) (dkeys d) of
           [] \<Rightarrow> Inr ()
         | key # _ \<Rightarrow> Inl (GypError (key @ '' not allowed in the '' @ configuration
             @ '' configuration, found in target '' @ target)))) () configs"

definition drop_abstract :: "pydict \<Rightarrow> pydict res" where
  "drop_abstract configs =
     foldM (\<lambda>cs (c, config). res_bind (get_attr_dict config) (\<lambda>d.
       Inr (if is_abstract d then ddel cs c else cs))) configs configs"

definition SetUpConfigurations :: "gyp_env \<Rightarrow> string \<Rightarrow> pydict \<Rightarrow> pydict res" where
  "SetUpConfigurations env target target_dict =
     res_bind (default_configurations target_dict) (\<lambda>t1.
     res_bind (dict_get t1 ''configurations'') (\<lambda>cs.
     res_bind (get_attr_dict cs) (\<lambda>configs.
     res_bind (foldM (merge_configuration env (BuildFile target) t1) [] configs) (\<lambda>merged.
       let configs1 = foldl (\<lambda>cs (c, v). dset cs c v) configs merged in
     res_bind (drop_abstract configs1) (\<lambda>configs2.
       let t2 = dset t1 ''configurations'' (PDict configs2);
           delete_keys = filter (\<lambda>key. key_base key \<notin> set (ge_non_configuration_keys env)) (dkeys t2);
           t3 = foldl ddel t2 delete_keys in
     res_bind (dict_get t3 ''configurations'') (\<lambda>cs3.
     res_bind (get_attr_dict cs3) (\<lambda>configs3.
     res_bind (check_configurations target configs3) (\<lambda>_.
       Inr t3))))))))"

section \<open>Settings for dependents\<close>

definition settings_dependencies ::
  "nat \<Rightarrow> string \<Rightarrow> graph \<Rightarrow> (string, pydict) dict \<Rightarrow> string \<Rightarrow> string list res" where
  "settings_dependencies n key dependency_nodes targets target =
     (if key = ''all_dependent_settings'' then DeepDependencies n dependency_nodes (Some target) []
      else if key = ''direct_dependent_settings'' then DirectAndImportedDependencies n dependency_nodes (Some target) targets
      else if key = ''link_settings'' then DependenciesForLinkSettings n dependency_nodes targets target
      else Inl (GypError (''DoDependentSettings doesn'' @ [CHR 0x27] @ ''t know how to determine dependencies for '' @ key)))"

fun iteritems :: "pyval \<Rightarrow> pydict res" where
  "iteritems (PDict d) = Inr d"
| "iteritems _ = Inl (AttributeError ''iteritems'')"

definition receive_settings ::
  "gyp_env \<Rightarrow> string \<Rightarrow> string \<Rightarrow> (string, pydict) dict \<Rightarrow> string \<Rightarrow> (string, pydict) dict res" where
  "receive_settings env key target targets dependency =
     res_bind (dict_get targets dependency) (\<lambda>dependency_dict.
       case dget dependency_dict key of
         None \<Rightarrow> Inr targets
       | Some settings \<Rightarrow>
           res_bind (iteritems settings) (\<lambda>fro.
           res_bind (dict_get targets target) (\<lambda>target_dict.
           res_bind (MergeDicts env target_dict fro (BuildFile target) (BuildFile dependency)) (\<lambda>merged.
             Inr (dset targets target merged)))))"

definition DoDependentSettings ::
  "gyp_env \<Rightarrow> nat \<Rightarrow> string \<Rightarrow> string list \<Rightarrow> graph \<Rightarrow> (string, pydict) dict \<Rightarrow> (string, pydict) dict res" where
  "DoDependentSettings env n key flat_list dependency_nodes targets =
     foldM (\<lambda>ts target.
       res_bind (dict_get ts target) (\<lambda>_.
       res_bind (settings_dependencies n key dependency_nodes ts target) (\<lambda>dependencies.
         foldM (receive_settings env key target) ts dependencies))) targets flat_list"

section \<open>Dependencies of static libraries and of linked targets\<close>

definition target_type :: "pydict \<Rightarrow> string res" where
  "target_type d = res_bind (dict_get d ''type'') as_str"

definition is_hard :: "pydict \<Rightarrow> bool" where
  "is_hard d = (case dget d ''hard_dependency'' of None \<Rightarrow> False | Some v \<Rightarrow> truthy v)"

text \<open>The condition under which the loop deletes a dependency.\<close>

definition drop_dependency :: "(string, pydict) dict \<Rightarrow> string list \<Rightarrow> string \<Rightarrow> bool res" where
  "drop_dependency targets direct dependency =
     res_bind (dict_get targets dependency) (\<lambda>dependency_dict.
     res_bind (target_type dependency_dict) (\<lambda>ty.
       Inr (ty = ''static_library'' \<and> \<not> is_hard dependency_dict \<or> ty \<noteq> ''static_library'' \<and> dependency \<notin> set direct)))"

text \<open>The \<open>while\<close> loop with its deletions, as a pass over the list.\<close>

fun prune_dependencies :: "(string, pydict) dict \<Rightarrow> string list \<Rightarrow> string list \<Rightarrow> string list res" where
  "prune_dependencies targets direct [] = Inr []"
| "prune_dependencies targets direct (dependency # ds) =
     res_bind (drop_dependency targets direct dependency) (\<lambda>drop.
     res_bind (prune_dependencies targets direct ds) (\<lambda>rest.
       Inr (if drop then rest else dependency # rest)))"

definition adjust_static :: "nat \<Rightarrow> graph \<Rightarrow> (string, pydict) dict \<Rightarrow> string \<Rightarrow> pydict \<Rightarrow> pydict res" where
  "adjust_static n dependency_nodes targets target target_dict =
     (if \<not> dhas target_dict ''dependencies'' then Inr target_dict
      else res_bind (dict_get target_dict ''dependencies'') (\<lambda>v.
           res_bind (res_bind (as_list v) (mapM as_str)) (\<lambda>direct.
           res_bind (DirectAndImportedDependencies n dependency_nodes (Some target) targets) (\<lambda>dependencies.
           res_bind (prune_dependencies targets direct dependencies) (\<lambda>kept.
             let t1 = dset target_dict ''dependencies_original'' v
             in Inr (if length kept > 0 then dset t1 ''dependencies'' (PList (map PStr kept)) else ddel t1 ''dependencies''))))))"

definition adjust_linkable ::
  "nat \<Rightarrow> graph \<Rightarrow> string list \<Rightarrow> bool \<Rightarrow> (string, pydict) dict \<Rightarrow> string \<Rightarrow> pydict \<Rightarrow> pydict res" where
  "adjust_linkable n dependency_nodes flat_list sort_dependencies targets target target_dict =
     res_bind (DependenciesToLinkAgainst n dependency_nodes targets target) (\<lambda>link_dependencies.
     res_bind (dep_names ''dependencies'' target_dict) (\<lambda>direct.
       let new = filter (\<lambda>d. d \<noteq> target) link_dependencies;
           ds = foldl add_new direct new
       in if \<not> dhas target_dict ''dependencies'' \<and> new = [] then Inr target_dict
          else Inr (dset target_dict ''dependencies'' (PList (map PStr
                 (if sort_dependencies then filter (\<lambda>d. d \<in> set ds) (rev flat_list) else ds))))))"

definition AdjustStaticLibraryDependencies ::
  "nat \<Rightarrow> string list \<Rightarrow> (string, pydict) dict \<Rightarrow> graph \<Rightarrow> bool \<Rightarrow> (string, pydict) dict res" where
  "AdjustStaticLibraryDependencies n flat_list targets dependency_nodes sort_dependencies =
     foldM (\<lambda>ts target.
       res_bind (dict_get ts target) (\<lambda>target_dict.
       res_bind (target_type target_dict) (\<lambda>ty.
         if ty = ''static_library'' then
           res_bind (adjust_static n dependency_nodes ts target target_dict) (\<lambda>d. Inr (dset ts target d))
         else if ty \<in> set linkable_types then
           res_bind (adjust_linkable n dependency_nodes flat_list sort_dependencies ts target target_dict) (\<lambda>d. Inr (dset ts target d))
         else Inr ts))) targets flat_list"


section \<open>The shape of configurations\<close>

lemma get_attr_dict_Inr [res_simps]: "get_attr_dict v = Inr d \<longleftrightarrow> v = PDict d"
  by (cases v) auto

lemma iteritems_Inr [res_simps]: "iteritems v = Inr d \<longleftrightarrow> v = PDict d"
  by (cases v) auto

text \<open>A loop that only checks has checked every item.\<close>

lemma foldM_unit:
  assumes "foldM f () xs = Inr u" and "x \<in> set xs"
  shows "f () x = Inr ()"
  using assms by (induction xs) (auto simp: res_simps)

lemma check_configurations_ok:
  assumes "check_configurations target configs = Inr u" and "(c, v) \<in> set configs"
  shows "\<exists>d. v = PDict d \<and> set (dkeys d) \<inter> set invalid_configuration_keys = {}"
proof -
  have "(\<lambda>_ (configuration, config).
       res_bind (get_attr_dict config) (\<lambda>d.
         case filter (\<lambda>key. key \<in> set invalid_configuration_keys) (dkeys d) of
           [] \<Rightarrow> Inr ()
         | key # _ \<Rightarrow> Inl (GypError (key @ '' not allowed in the '' @ configuration
             @ '' configuration, found in target '' @ target)))) () (c, v) = Inr ()"
    by (rule foldM_unit [OF assms(1) [unfolded check_configurations_def] assms(2)])
  then obtain d where d: "v = PDict d" "(case filter (\<lambda>key. key \<in> set invalid_configuration_keys) (dkeys d) of
           [] \<Rightarrow> Inr ()
         | key # _ \<Rightarrow> Inl (GypError (key @ '' not allowed in the '' @ c
             @ '' configuration, found in target '' @ target))) = Inr ()"
    by (auto simp: res_simps)
  then have "filter (\<lambda>key. key \<in> set invalid_configuration_keys) (dkeys d) = []"
    by (cases "filter (\<lambda>key. key \<in> set invalid_configuration_keys) (dkeys d)") simp_all
  then show ?thesis using d(1) by (auto simp: filter_empty_conv)
qed

lemma drop_abstract_loop:
  assumes "foldM (\<lambda>cs (c, config). res_bind (get_attr_dict config) (\<lambda>d.
       Inr (if is_abstract d then ddel cs c else cs))) acc items = Inr configs"
  shows "set configs \<subseteq> set acc \<and> (\<forall>(c, v)\<in>set items. \<exists>d. v = PDict d \<and> (is_abstract d \<longrightarrow> c \<notin> set (dkeys configs)))"
  using assms
proof (induction items arbitrary: acc)
  case (Cons item items)
  obtain c v where item: "item = (c, v)" by (cases item)
  obtain d where d: "v = PDict d" "foldM (\<lambda>cs (c, config). res_bind (get_attr_dict config) (\<lambda>d.
       Inr (if is_abstract d then ddel cs c else cs))) (if is_abstract d then ddel acc c else acc) items = Inr configs"
    using Cons.prems by (auto simp: item res_simps)
  have IH: "set configs \<subseteq> set (if is_abstract d then ddel acc c else acc)"
    "\<forall>(c, v)\<in>set items. \<exists>d. v = PDict d \<and> (is_abstract d \<longrightarrow> c \<notin> set (dkeys configs))"
    using Cons.IH [OF d(2)] by auto
  have "is_abstract d \<Longrightarrow> c \<notin> set (dkeys configs)" using IH(1) by (auto simp: dkeys_def ddel_def)
  moreover have "set configs \<subseteq> set acc" using IH(1) by (auto simp: ddel_def split: if_splits)
  ultimately show ?case using IH(2) d(1) by (auto simp: item)
qed simp

lemma drop_abstract_ok:
  assumes "drop_abstract configs = Inr configs'" and "(c, v) \<in> set configs'"
  shows "\<exists>d. v = PDict d \<and> \<not> is_abstract d"
proof -
  note l = drop_abstract_loop [OF assms(1) [unfolded drop_abstract_def]]
  then have "(c, v) \<in> set configs" using assms(2) by blast
  then obtain d where "v = PDict d" "is_abstract d \<longrightarrow> c \<notin> set (dkeys configs')" using l by blast
  moreover have "c \<in> set (dkeys configs')" using assms(2) by (force simp: dkeys_def)
  ultimately show ?thesis by blast
qed

text \<open>
  C33. A target whose configurations were set up has only keys that belong to targets (with or without
  a suffix); its configurations are dictionaries, none of them abstract, and none has a key that is
  not allowed in a configuration.
\<close>

theorem SetUpConfigurations_shape:
  assumes "SetUpConfigurations env target target_dict = Inr t"
  shows "(\<forall>k\<in>set (dkeys t). key_base k \<in> set (ge_non_configuration_keys env))
    \<and> (\<exists>configs. dget t ''configurations'' = Some (PDict configs) \<and>
        (\<forall>(c, v)\<in>set configs. \<exists>d. v = PDict d \<and> \<not> is_abstract d \<and> set (dkeys d) \<inter> set invalid_configuration_keys = {}))"
proof -
  obtain t1 configs1 configs2 configs3 u where
    drop: "drop_abstract configs1 = Inr configs2" and
    t: "t = foldl ddel (dset t1 ''configurations'' (PDict configs2))
        (filter (\<lambda>key. key_base key \<notin> set (ge_non_configuration_keys env)) (dkeys (dset t1 ''configurations'' (PDict configs2))))" and
    c3: "dget t ''configurations'' = Some (PDict configs3)" and
    chk: "check_configurations target configs3 = Inr u"
    using assms by (auto simp: SetUpConfigurations_def Let_def res_simps)
  let ?t2 = "dset t1 ''configurations'' (PDict configs2)"
  have get: "dget t k = (if k \<in> set (filter (\<lambda>key. key_base key \<notin> set (ge_non_configuration_keys env)) (dkeys ?t2)) then None else dget ?t2 k)" for k
    unfolding t by (rule adict.get_foldl_del)
  have keys: "\<forall>k\<in>set (dkeys t). key_base k \<in> set (ge_non_configuration_keys env)"
    by (auto simp: dkeys_iff_dget get split: if_splits)
  have "configs3 = configs2" using c3 unfolding get by (simp split: if_splits)
  then have "\<forall>(c, v)\<in>set configs3. \<exists>d. v = PDict d \<and> \<not> is_abstract d \<and> set (dkeys d) \<inter> set invalid_configuration_keys = {}"
    using drop_abstract_ok [OF drop] check_configurations_ok [OF chk] by fastforce
  then show ?thesis using keys c3 by blast
qed

section \<open>The dependencies that remain\<close>

definition same_kind :: "(string, pydict) dict \<Rightarrow> (string, pydict) dict \<Rightarrow> string \<Rightarrow> bool" where
  "same_kind ts ts' x \<longleftrightarrow> (case dget ts x of
       None \<Rightarrow> dget ts' x = None
     | Some d \<Rightarrow> \<exists>d'. dget ts' x = Some d' \<and> dget d' ''type'' = dget d ''type'' \<and> dget d' ''hard_dependency'' = dget d ''hard_dependency'')"

lemma adjust_static_kind:
  "adjust_static n g ts target d = Inr d' \<Longrightarrow> dget d' ''type'' = dget d ''type'' \<and> dget d' ''hard_dependency'' = dget d ''hard_dependency''"
  by (auto simp: adjust_static_def Let_def res_simps split: if_splits)

lemma adjust_linkable_kind:
  "adjust_linkable n g fl srt ts target d = Inr d' \<Longrightarrow> dget d' ''type'' = dget d ''type'' \<and> dget d' ''hard_dependency'' = dget d ''hard_dependency''"
  by (auto simp: adjust_linkable_def Let_def res_simps split: if_splits)

definition adjust_target ::
  "nat \<Rightarrow> graph \<Rightarrow> string list \<Rightarrow> bool \<Rightarrow> (string, pydict) dict \<Rightarrow> string \<Rightarrow> (string, pydict) dict res" where
  "adjust_target n g fl srt ts target =
       res_bind (dict_get ts target) (\<lambda>target_dict.
       res_bind (target_type target_dict) (\<lambda>ty.
         if ty = ''static_library'' then
           res_bind (adjust_static n g ts target target_dict) (\<lambda>d. Inr (dset ts target d))
         else if ty \<in> set linkable_types then
           res_bind (adjust_linkable n g fl srt ts target target_dict) (\<lambda>d. Inr (dset ts target d))
         else Inr ts))"

lemma AdjustStatic_foldM:
  "AdjustStaticLibraryDependencies n fl targets g srt = foldM (adjust_target n g fl srt) targets fl"
  unfolding AdjustStaticLibraryDependencies_def adjust_target_def ..

lemma adjust_target_other:
  assumes "adjust_target n g fl srt ts target = Inr ts'" and "x \<noteq> target"
  shows "dget ts' x = dget ts x"
  using assms by (auto simp: adjust_target_def res_simps split: if_splits)

lemma adjust_target_kind:
  assumes "adjust_target n g fl srt ts target = Inr ts'"
  shows "same_kind ts ts' x"
proof (cases "x = target")
  case False
  then show ?thesis using adjust_target_other [OF assms, of x] by (auto simp: same_kind_def split: option.splits)
next
  case True
  then show ?thesis using assms adjust_static_kind adjust_linkable_kind
    by (fastforce simp: same_kind_def adjust_target_def res_simps split: if_splits option.splits)
qed

lemma same_kind_trans: "same_kind a b x \<Longrightarrow> same_kind b c x \<Longrightarrow> same_kind a c x"
  by (auto simp: same_kind_def split: option.splits)

lemma prune_dependencies_ok:
  assumes "prune_dependencies ts direct ds = Inr kept" and "x \<in> set kept"
  shows "drop_dependency ts direct x = Inr False"
  using assms by (induction ds arbitrary: kept) (auto simp: res_simps split: if_splits)


lemma adjust_loop:
  assumes "foldM (adjust_target n g fl srt) ts xs = Inr ts'"
  shows "same_kind ts ts' x \<and> (x \<notin> set xs \<longrightarrow> dget ts' x = dget ts x)"
  using assms
proof (induction xs arbitrary: ts)
  case Nil
  then show ?case by (auto simp: same_kind_def split: option.splits)
next
  case (Cons y ys)
  obtain t1 where t1: "adjust_target n g fl srt ts y = Inr t1" "foldM (adjust_target n g fl srt) t1 ys = Inr ts'"
    using Cons.prems by (auto simp: res_simps)
  then show ?case using Cons.IH [OF t1(2)] adjust_target_kind [OF t1(1), of x] adjust_target_other [OF t1(1), of x]
    by (auto intro: same_kind_trans)
qed

text \<open>
  C32. After \<open>AdjustStaticLibraryDependencies\<close>, a static library that had dependencies keeps their list
  as \<open>dependencies_original\<close>, and each of its \<open>dependencies\<close> is a static library marked as a hard
  dependency, or a target of another type among the original ones; no key is left when there are none.
\<close>

theorem AdjustStaticLibraryDependencies_static:
  assumes "AdjustStaticLibraryDependencies n fl targets g srt = Inr ts'" and "distinct fl" and "t \<in> set fl"
    and "dget targets t = Some td" and "dget td ''type'' = Some (PStr ''static_library'')"
    and "dget td ''dependencies'' = Some (PList (map PStr direct))"
  shows "\<exists>td' kept. dget ts' t = Some td'
    \<and> dget td' ''dependencies_original'' = Some (PList (map PStr direct))
    \<and> dget td' ''dependencies'' = (if kept = [] then None else Some (PList (map PStr kept)))
    \<and> (\<forall>x\<in>set kept. \<exists>xd ty. dget targets x = Some xd \<and> dget xd ''type'' = Some (PStr ty)
        \<and> (if ty = ''static_library'' then is_hard xd else x \<in> set direct))"
proof -
  obtain before after where fl: "fl = before @ t # after" using assms(3) by (meson split_list)
  obtain t1 t2 where t1: "foldM (adjust_target n g fl srt) targets before = Inr t1"
      and t2: "adjust_target n g fl srt t1 t = Inr t2" and t3: "foldM (adjust_target n g fl srt) t2 after = Inr ts'"
    using assms(1) by (auto simp: AdjustStatic_foldM fl foldM_append res_simps)
  have out: "t \<notin> set before" "t \<notin> set after" using assms(2) fl by auto
  have same: "dget t1 t = Some td" "dget ts' t = dget t2 t"
    using adjust_loop [OF t1, of t] adjust_loop [OF t3, of t] out assms(4) by auto
  have strs: "mapM as_str (map PStr direct) = Inr direct" by (induction direct) auto
  obtain deps kept where kept: "prune_dependencies t1 direct deps = Inr kept"
      and t2': "t2 = dset t1 t (let d1 = dset td ''dependencies_original'' (PList (map PStr direct))
        in if length kept > 0 then dset d1 ''dependencies'' (PList (map PStr kept)) else ddel d1 ''dependencies'')"
    using t2 same(1) assms(5,6)
    by (auto simp: adjust_target_def target_type_def adjust_static_def dhas_iff_dget dict_get_def strs res_simps Let_def)
  have "\<exists>xd ty. dget targets x = Some xd \<and> dget xd ''type'' = Some (PStr ty)
        \<and> (if ty = ''static_library'' then is_hard xd else x \<in> set direct)" if x: "x \<in> set kept" for x
  proof -
    obtain xd ty where xd: "dget t1 x = Some xd" "dget xd ''type'' = Some (PStr ty)"
        "if ty = ''static_library'' then is_hard xd else x \<in> set direct"
      using prune_dependencies_ok [OF kept x] by (auto simp: drop_dependency_def target_type_def res_simps split: if_splits)
    have "same_kind targets t1 x" using adjust_loop [OF t1] by blast
    then obtain xd' where xd': "dget targets x = Some xd'" "dget xd ''type'' = dget xd' ''type''"
        "dget xd ''hard_dependency'' = dget xd' ''hard_dependency''"
      using xd(1) by (auto simp: same_kind_def split: option.splits)
    have "dget xd' ''type'' = Some (PStr ty)" "is_hard xd' = is_hard xd" using xd(2) xd' by (simp_all add: is_hard_def)
    then show ?thesis using xd(3) xd'(1) by auto
  qed
  moreover have "\<exists>td'. dget ts' t = Some td' \<and> dget td' ''dependencies_original'' = Some (PList (map PStr direct))
      \<and> dget td' ''dependencies'' = (if kept = [] then None else Some (PList (map PStr kept)))"
    unfolding same(2) t2' by (cases "kept = []") (simp_all add: Let_def)
  ultimately show ?thesis by blast
qed


text \<open>A library \<open>a\<close> that depends on the library \<open>b\<close>, and the target \<open>c\<close> that has no dependencies.\<close>

definition demo_targets :: "(string, pydict) dict" where
  "demo_targets =
     [(''a'', [(''type'', PStr ''static_library''), (''dependencies'', PList [PStr ''b'', PStr ''c''])]),
      (''b'', [(''type'', PStr ''static_library'')]), (''c'', [(''type'', PStr ''none'')])]"

definition demo_graph :: graph where
  "demo_graph = [(Some ''a'', \<lparr>dg_dependencies = [Some ''b'', Some ''c''], dg_dependents = []\<rparr>)]"

theorem AdjustStaticLibraryDependencies_static_witness:
  "\<exists>ts' td' kept. AdjustStaticLibraryDependencies 3 [''a''] demo_targets demo_graph False = Inr ts'
    \<and> dget ts' ''a'' = Some td' \<and> dget td' ''dependencies_original'' = Some (PList (map PStr [''b'', ''c'']))
    \<and> (\<forall>x\<in>set kept. x \<noteq> ''b'') \<and> dget td' ''dependencies'' = (if kept = [] then None else Some (PList (map PStr kept)))"
proof -
  obtain ts' where r: "AdjustStaticLibraryDependencies 3 [''a''] demo_targets demo_graph False = Inr ts'"
    by (simp add: AdjustStaticLibraryDependencies_def demo_targets_def demo_graph_def dict_get_def target_type_def
      adjust_static_def dhas_def DirectAndImportedDependencies_def DirectDependencies_def node_of_def add_new_def
      numeral_3_eq_3 dep_names_def add_imports_def drop_dependency_def Let_def)
  from AdjustStaticLibraryDependencies_static [OF r, of "''a''" _ "[''b'', ''c'']"]
  obtain td' kept where k: "dget ts' ''a'' = Some td'" "dget td' ''dependencies_original'' = Some (PList (map PStr [''b'', ''c'']))"
      "dget td' ''dependencies'' = (if kept = [] then None else Some (PList (map PStr kept)))"
      "\<forall>x\<in>set kept. \<exists>xd ty. dget demo_targets x = Some xd \<and> dget xd ''type'' = Some (PStr ty)
        \<and> (if ty = ''static_library'' then is_hard xd else x \<in> set [''b'', ''c''])"
    by (auto simp: demo_targets_def)
  have "''b'' \<notin> set kept" using bspec [OF k(4), of "''b''"] by (auto simp: demo_targets_def is_hard_def)
  then have "\<forall>x\<in>set kept. x \<noteq> ''b''" by auto
  with r k show ?thesis by blast
qed

theorem SetUpConfigurations_shape_witness:
  "\<exists>t. SetUpConfigurations \<lparr>ge_path_sections = [], ge_non_configuration_keys = base_non_configuration_keys, ge_realpath = id\<rparr>
       ''f:a'' [(''type'', PStr ''none''), (''defines'', PList [PStr ''X''])] = Inr t
     \<and> (\<forall>k\<in>set (dkeys t). key_base k \<in> set base_non_configuration_keys)"
proof -
  let ?env = "\<lparr>ge_path_sections = [], ge_non_configuration_keys = base_non_configuration_keys, ge_realpath = id\<rparr>"
  obtain t where r: "SetUpConfigurations ?env ''f:a'' [(''type'', PStr ''none''), (''defines'', PList [PStr ''X''])] = Inr t"
    by (simp add: SetUpConfigurations_def default_configurations_def dhas_def dict_get_def is_abstract_def Let_def
      merge_configuration_def MergeConfigWithInheritance.simps configuration_dict_def inherit_from_def MergeDicts_def
      drop_abstract_def check_configurations_def key_base_def base_non_configuration_keys_def drop_last_def ddel_def dkeys_def
      invalid_configuration_keys_def)
  from SetUpConfigurations_shape [OF r] r show ?thesis by auto
qed

end
