(* ===== verification/Gyp_Files.thy ===== *)
theory Gyp_Files
  imports Gyp_Settings
begin

text \<open>
  Reading build files in \<open>gyp/input.py\<close>: the checked evaluation of a file's syntax tree, the included
  files, loading a file and merging what it includes into its dictionary and its parts, and the
  expansion of toolsets. The file system and the parser are arguments. A file that is being loaded
  is in \<open>data\<close> while its includes are merged, as in the program: a part of it is addressed by its
  position. Shown: \<open>CheckNode\<close> accepts exactly the trees without repeated keys and gives their value,
  \<open>GetIncludedBuildFiles\<close> is the closure under inclusion, and toolset expansion is idempotent.
\<close>

section \<open>Checked evaluation\<close>

text \<open>The nodes of the \<open>compiler\<close> package that matter; \<open>AOther\<close> is any other node, with its \<open>repr\<close>.\<close>

datatype gconst = CStr string | CInt int

datatype ast = ADict "(ast \<times> ast) list" | AList "ast list" | AConst gconst | AOther string

datatype node_val = VConst gconst | VList "node_val list" | VDict "(gconst \<times> node_val) list"

text \<open>\<open>'.'.join(keypath)\<close>, which needs strings.\<close>

definition join_path :: "gconst list \<Rightarrow> string res" where
  "join_path keypath =
     res_bind (mapM (\<lambda>k. case k of CStr s \<Rightarrow> Inr s | CInt i \<Rightarrow> Inl (TypeError ''expected string, int found'')) keypath)
       (\<lambda>ss. Inr (join ''.'' ss))"

definition repeated_key :: "gconst \<Rightarrow> gconst list \<Rightarrow> 'a res" where
  "repeated_key key keypath =
     (case key of
        CInt i \<Rightarrow> Inl (TypeError ''cannot concatenate str and int objects'')
      | CStr k \<Rightarrow> res_bind (join_path keypath) (\<lambda>p.
          Inl (GypError (''Key '' @ sq k @ '' repeated at level '' @ nat_str (length keypath + 1) @ '' with key path '' @ sq p))))"

fun CheckNode :: "ast \<Rightarrow> gconst list \<Rightarrow> node_val res"
  and CheckNode_items :: "(ast \<times> ast) list \<Rightarrow> gconst list \<Rightarrow> (gconst \<times> node_val) list \<Rightarrow> node_val res"
  and CheckNode_list :: "nat \<Rightarrow> ast list \<Rightarrow> gconst list \<Rightarrow> node_val list res"
where
  "CheckNode (ADict c) keypath = CheckNode_items c keypath []"
| "CheckNode (AList c) keypath = res_bind (CheckNode_list 0 c keypath) (\<lambda>children. Inr (VList children))"
| "CheckNode (AConst v) keypath = Inr (VConst v)"
| "CheckNode (AOther r) keypath =
     res_bind (join_path keypath) (\<lambda>p. Inl (TypeError (''Unknown AST node at key path '' @ sq p @ '': '' @ r)))"
| "CheckNode_items [] keypath d = Inr (VDict d)"
| "CheckNode_items ((k, v) # c) keypath d =
     (case k of
        AConst key \<Rightarrow>
          if dhas d key then repeated_key key keypath
          else res_bind (CheckNode v (keypath @ [key])) (\<lambda>w. CheckNode_items c keypath (dset d key w))
      | _ \<Rightarrow> Inl AssertionError)"
| "CheckNode_list index [] keypath = Inr []"
| "CheckNode_list index (v # c) keypath =
     res_bind (CheckNode v (keypath @ [CStr (nat_str index)])) (\<lambda>w.
     res_bind (CheckNode_list (Suc index) c keypath) (\<lambda>ws. Inr (w # ws)))"

text \<open>The module that \<open>compiler.parse\<close> returns: its statements, of which the first must be an
  expression; a docstring would be the module's first child.\<close>

datatype ast_stmt = Discard ast | OtherStmt

record ast_module =
  am_doc :: "string option"
  am_stmts :: "ast_stmt list"

definition CheckedEval :: "(string \<Rightarrow> ast_module res) \<Rightarrow> string \<Rightarrow> node_val res" where
  "CheckedEval parse file_contents =
     res_bind (parse file_contents) (\<lambda>m.
       if am_doc m \<noteq> None then Inl AssertionError
       else case am_stmts m of
              [] \<Rightarrow> Inl IndexError
            | Discard node # _ \<Rightarrow> CheckNode node []
            | OtherStmt # _ \<Rightarrow> Inl AssertionError)"

section \<open>Included files\<close>

text \<open>\<open>aux_data[f]['included']\<close> for the files that were loaded.\<close>

type_synonym aux = "(string, string list) dict"

primrec GetIncludedBuildFiles :: "nat \<Rightarrow> string \<Rightarrow> aux \<Rightarrow> string list \<Rightarrow> string list res" where
  "GetIncludedBuildFiles 0 build_file_path aux_data included = Inl RecursionLimit"
| "GetIncludedBuildFiles (Suc n) build_file_path aux_data included =
     (if build_file_path \<in> set included then Inr included
      else res_bind (dict_get aux_data build_file_path) (\<lambda>incs.
             foldM (\<lambda>inc f. GetIncludedBuildFiles n f aux_data inc) (included @ [build_file_path]) incs))"

section \<open>Positions in a value\<close>

datatype pos = Key string | Idx nat

fun val_at :: "pyval \<Rightarrow> pos list \<Rightarrow> pyval option" where
  "val_at v [] = Some v"
| "val_at (PDict d) (Key k # p) = (if dhas d k then val_at (the (dget d k)) p else None)"
| "val_at (PList l) (Idx i # p) = (if i < length l then val_at (l ! i) p else None)"
| "val_at _ _ = None"

fun put_at :: "pyval \<Rightarrow> pos list \<Rightarrow> pyval \<Rightarrow> pyval" where
  "put_at v [] w = w"
| "put_at (PDict d) (Key k # p) w = (if dhas d k then PDict (dset d k (put_at (the (dget d k)) p w)) else PDict d)"
| "put_at (PList l) (Idx i # p) w = (if i < length l then PList (l[i := put_at (l ! i) p w]) else PList l)"
| "put_at v _ w = v"

section \<open>Loading a file\<close>

text \<open>The state of the loader: \<open>data\<close> and \<open>aux_data\<close>.\<close>

record loader =
  ld_data :: "(string, pyval) dict"
  ld_aux :: aux

text \<open>What the loader asks the outside: the contents of a file and their value.\<close>

record file_system =
  fs_read :: "string \<Rightarrow> string option"
  fs_eval :: "string \<Rightarrow> pyval res"
  fs_cwd :: string

definition dict_at :: "loader \<Rightarrow> string \<Rightarrow> pos list \<Rightarrow> pydict" where
  "dict_at st path pos = (case dget (ld_data st) path of
       None \<Rightarrow> []
     | Some v \<Rightarrow> (case val_at v pos of Some (PDict d) \<Rightarrow> d | _ \<Rightarrow> []))"

definition set_dict_at :: "loader \<Rightarrow> string \<Rightarrow> pos list \<Rightarrow> pydict \<Rightarrow> loader" where
  "set_dict_at st path pos d = (case dget (ld_data st) path of
       None \<Rightarrow> st
     | Some v \<Rightarrow> st\<lparr>ld_data := dset (ld_data st) path (put_at v pos (PDict d))\<rparr>)"

definition add_included :: "loader \<Rightarrow> string \<Rightarrow> string \<Rightarrow> loader" where
  "add_included st path inc =
     st\<lparr>ld_aux := dset (ld_aux st) path ((case dget (ld_aux st) path of None \<Rightarrow> [] | Some l \<Rightarrow> l) @ [inc])\<rparr>"

text \<open>The files that \<open>includes\<close> names, relative to the current directory, and the dictionary without it.\<close>

definition unhook_includes :: "string \<Rightarrow> pydict \<Rightarrow> (string list \<times> pydict) res" where
  "unhook_includes path subdict =
     (case dget subdict ''includes'' of
        None \<Rightarrow> Inr ([], subdict)
      | Some v \<Rightarrow> res_bind (str_items v) (\<lambda>incs.
          Inr (map (\<lambda>include. normpath (path_join (dirname path) [include])) incs, ddel subdict ''includes'')))"

text \<open>The dictionaries and lists directly in a value, to descend into.\<close>

definition child_positions :: "pyval \<Rightarrow> pos list" where
  "child_positions v = (case v of
       PDict d \<Rightarrow> map (\<lambda>(k, _). Key k) (filter (\<lambda>(k, w). \<not> is_hashable w) d)
     | PList l \<Rightarrow> map Idx (filter (\<lambda>i. \<not> is_hashable (l ! i)) [0..<length l])
     | _ \<Rightarrow> [])"

definition skip_includes :: "pydict \<Rightarrow> bool" where
  "skip_includes d = (case dget d ''skip_includes'' of None \<Rightarrow> False | Some v \<Rightarrow> truthy v)"

text \<open>A syntax error gets the name of the file, other errors a longer message.\<close>

definition reading_error :: "string \<Rightarrow> 'a res \<Rightarrow> 'a res" where
  "reading_error path r = (case r of Inl (SyntaxError s) \<Rightarrow> Inl (SyntaxError s) | _ \<Rightarrow> appending_error r (''while reading '' @ path))"

fun LoadOneBuildFile ::
  "nat \<Rightarrow> gyp_env \<Rightarrow> file_system \<Rightarrow> string \<Rightarrow> string list \<Rightarrow> bool \<Rightarrow> loader \<Rightarrow> (pyval \<times> loader) res"
  and LoadBuildFileIncludes ::
  "nat \<Rightarrow> gyp_env \<Rightarrow> file_system \<Rightarrow> string \<Rightarrow> pos list \<Rightarrow> string list \<Rightarrow> loader \<Rightarrow> loader res"
where
  "LoadOneBuildFile 0 env fs path includes is_target st = Inl RecursionLimit"
| "LoadOneBuildFile (Suc n) env fs path includes is_target st =
     (case dget (ld_data st) path of
        Some v \<Rightarrow> Inr (v, st)
      | None \<Rightarrow>
     (case fs_read fs path of
        None \<Rightarrow> Inl (GypError (path @ '' not found (cwd: '' @ fs_cwd fs @ '')''))
      | Some contents \<Rightarrow>
          res_bind (reading_error path (fs_eval fs contents)) (\<lambda>v.
            case v of
              PDict d \<Rightarrow>
                let st1 = st\<lparr>ld_data := dset (ld_data st) path v, ld_aux := dset (ld_aux st) path []\<rparr> in
                if skip_includes d then Inr (v, st1)
                else res_bind (appending_error (LoadBuildFileIncludes n env fs path [] (if is_target then includes else []) st1)
                       (''while reading includes of '' @ path)) (\<lambda>st2.
                       Inr (the (dget (ld_data st2) path), st2))
            | _ \<Rightarrow> Inl (GypError (path @ '' does not evaluate to a dictionary.'')))))"
| "LoadBuildFileIncludes 0 env fs path pos includes st = Inl RecursionLimit"
| "LoadBuildFileIncludes (Suc n) env fs path pos includes st =
     (case val_at (the (dget (ld_data st) path)) pos of
        Some (PDict subdict) \<Rightarrow>
          res_bind (unhook_includes path subdict) (\<lambda>(incs, subdict').
          res_bind (foldM (\<lambda>s include.
              res_bind (LoadOneBuildFile n env fs include [] False (add_included s path include)) (\<lambda>(v, s').
              res_bind (iteritems v) (\<lambda>fro.
              res_bind (MergeDicts env (dict_at s' path pos) fro (Some path) (Some include)) (\<lambda>merged.
                Inr (set_dict_at s' path pos merged)))))
            (set_dict_at st path pos subdict') (includes @ incs)) (\<lambda>st1.
          foldM (\<lambda>s p. LoadBuildFileIncludes n env fs path (pos @ [p]) [] s) st1
            (child_positions (PDict (dict_at st1 path pos)))))
      | Some (PList sublist) \<Rightarrow>
          foldM (\<lambda>s p. LoadBuildFileIncludes n env fs path (pos @ [p]) [] s) st (child_positions (PList sublist))
      | _ \<Rightarrow> Inr st)"

section \<open>Toolsets\<close>

text \<open>A sequence that is sliced and indexed: a list, or the characters of a string.\<close>

fun seq_items :: "pyval \<Rightarrow> pyval list res" where
  "seq_items (PList l) = Inr l"
| "seq_items (PStr s) = Inr (map (\<lambda>c. PStr [c]) s)"
| "seq_items _ = Inl (TypeError ''unhashable type'')"

text \<open>The copies of a target for the toolsets after the first, and the target itself for the first.\<close>

definition toolset_copies :: "pydict \<Rightarrow> pyval list \<Rightarrow> pydict list" where
  "toolset_copies t toolsets =
     (case toolsets of
        [] \<Rightarrow> []
      | first # builds \<Rightarrow>
          map (\<lambda>build. dset (case deepcopy (PDict t) of PDict d \<Rightarrow> d | _ \<Rightarrow> []) ''toolset'' build) builds
          @ [dset t ''toolset'' first])"

text \<open>The targets that one target becomes.\<close>

definition expand_toolsets :: "bool \<Rightarrow> pydict \<Rightarrow> pydict list res" where
  "expand_toolsets multiple_toolsets target =
     (if dhas target ''toolset'' \<and> \<not> dhas target ''toolsets'' then Inr [target]
      else res_bind (if multiple_toolsets then
             (case dget target ''toolsets'' of None \<Rightarrow> Inr [PStr ''target''] | Some v \<Rightarrow> seq_items v)
             else Inr [PStr ''target'']) (\<lambda>toolsets.
             Inr (toolset_copies (ddel target ''toolsets'') toolsets)))"

definition toolset_targets :: "bool \<Rightarrow> pydict \<Rightarrow> pydict res" where
  "toolset_targets multiple_toolsets data =
     (case dget data ''targets'' of
        None \<Rightarrow> Inr data
      | Some v \<Rightarrow>
          res_bind (res_bind (as_list v) (mapM as_dict)) (\<lambda>ts.
          res_bind (mapM (expand_toolsets multiple_toolsets) ts) (\<lambda>new.
            Inr (dset data ''targets'' (PList (map PDict (concat new)))))))"


lemma dget_size: "dget d k = Some v \<Longrightarrow> size v < size_list (size_prod (\<lambda>_. 0) size) d"
  by (induction d) (auto split: if_splits)

lemma mem_size: "v \<in> set l \<Longrightarrow> size v < size_list size l"
  by (induction l) auto

text \<open>The two loops of \<open>ProcessToolsetsInDict\<close> on the conditions, with the function to apply as an
  argument.\<close>

definition on_condition :: "(pydict \<Rightarrow> pydict res) \<Rightarrow> pyval \<Rightarrow> pyval res" where
  "on_condition f condition = (case condition of
       PList (c # rest) \<Rightarrow>
         res_bind (mapM (\<lambda>x. case x of PDict d \<Rightarrow> res_bind (f d) (\<lambda>d'. Inr (PDict d')) | _ \<Rightarrow> Inr x) rest)
           (\<lambda>rest'. Inr (PList (c # rest')))
     | _ \<Rightarrow> Inr condition)"

lemma on_condition_cong [fundef_cong]:
  assumes "c = c'" and "\<And>d. PDict d \<in> (case c' of PList l \<Rightarrow> set l | _ \<Rightarrow> {}) \<Longrightarrow> f d = g d"
  shows "on_condition f c = on_condition g c'"
proof -
  have "mapM (\<lambda>x. case x of PDict d \<Rightarrow> res_bind (f d) (\<lambda>d'. Inr (PDict d')) | _ \<Rightarrow> Inr x) rest
      = mapM (\<lambda>x. case x of PDict d \<Rightarrow> res_bind (g d) (\<lambda>d'. Inr (PDict d')) | _ \<Rightarrow> Inr x) rest"
    if "c' = PList (h # rest)" for h rest
    using assms(2) that by (intro mapM_cong) (auto split: pyval.splits)
  then show ?thesis using assms(1) by (auto simp: on_condition_def split: pyval.splits list.splits)
qed

function ProcessToolsetsInDict :: "bool \<Rightarrow> pydict \<Rightarrow> pydict res" where
  "ProcessToolsetsInDict multiple_toolsets data =
     res_bind (toolset_targets multiple_toolsets data) (\<lambda>data1.
       case dget data ''conditions'' of
         Some (PList conditions) \<Rightarrow>
           res_bind (mapM (on_condition (\<lambda>d. ProcessToolsetsInDict multiple_toolsets d)) conditions) (\<lambda>conditions'.
             Inr (dset data1 ''conditions'' (PList conditions')))
       | Some (PInt i) \<Rightarrow> Inl (TypeError ''int object is not iterable'')
       | _ \<Rightarrow> Inr data1)"
  by pat_completeness auto
termination
proof (relation "measure (\<lambda>(_, d). size_list (size_prod (\<lambda>_. 0) size) d)")
  fix mt data data1 v conditions condition d
  assume a: "dget data ''conditions'' = Some v" "v = PList conditions" "condition \<in> set conditions"
    "PDict d \<in> (case condition of PList l \<Rightarrow> set l | _ \<Rightarrow> {})"
  obtain l where l: "condition = PList l" "PDict d \<in> set l" using a(4) by (cases condition) auto
  have "size (PDict d) < size_list size l" by (rule mem_size [OF l(2)])
  also have "\<dots> < size condition" using l(1) by simp
  also have "\<dots> < size_list size conditions" by (rule mem_size [OF a(3)])
  also have "\<dots> < size v" using a(2) by simp
  also have "\<dots> < size_list (size_prod (\<lambda>_. 0) size) data" by (rule dget_size [OF a(1)])
  finally show "((mt, d), mt, data) \<in> measure (\<lambda>(_, d). size_list (size_prod (\<lambda>_. 0) size) d)" by simp
qed simp

declare ProcessToolsetsInDict.simps [simp del]

section \<open>Included files are the closure\<close>

definition inc_edges :: "aux \<Rightarrow> (string \<times> string) set" where
  "inc_edges aux = {(a, b). \<exists>l. dget aux a = Some l \<and> b \<in> set l}"

definition closed_aux :: "aux \<Rightarrow> bool" where
  "closed_aux aux \<longleftrightarrow> (\<forall>a b. (a, b) \<in> inc_edges aux \<longrightarrow> b \<in> set (dkeys aux))"

definition inc_step :: "aux \<Rightarrow> string set \<Rightarrow> string list \<Rightarrow> string list \<Rightarrow> bool" where
  "inc_step aux from inc r \<longleftrightarrow> distinct (inc @ r) \<and> from \<subseteq> set (inc @ r)
     \<and> (\<forall>x\<in>set r. inc_edges aux `` {x} \<subseteq> set (inc @ r)) \<and> set r \<subseteq> (inc_edges aux)\<^sup>* `` from"

lemma inc_step_trans:
  assumes "inc_step aux A inc r" and "inc_step aux B (inc @ r) r'"
  shows "inc_step aux (A \<union> B) inc (r @ r')"
  using assms unfolding inc_step_def by (auto simp: Image_def)

lemma GetIncluded_fold:
  assumes visit: "\<And>f inc. f \<in> set fs \<Longrightarrow> distinct inc \<Longrightarrow> card (K - set inc) < n \<Longrightarrow>
      \<exists>r. visit f inc = Inr (inc @ r) \<and> inc_step aux {f} inc r"
    and "distinct inc" and "card (K - set inc) < n" and K: "finite K"
  shows "\<exists>r. foldM (\<lambda>i f. visit f i) inc fs = Inr (inc @ r) \<and> inc_step aux (set fs) inc r"
  using assms(1-3)
proof (induction fs arbitrary: inc)
  case Nil
  then show ?case by (auto simp: inc_step_def)
next
  case (Cons f fs)
  obtain r where r: "visit f inc = Inr (inc @ r)" "inc_step aux {f} inc r" using Cons.prems(1) [of f inc] Cons.prems(2,3) by auto
  have "card (K - set (inc @ r)) \<le> card (K - set inc)" by (rule card_mono) (use K in auto)
  then have "card (K - set (inc @ r)) < n" using Cons.prems(3) by simp
  moreover have "distinct (inc @ r)" using r(2) by (simp add: inc_step_def)
  moreover have "\<And>f inc. f \<in> set fs \<Longrightarrow> distinct inc \<Longrightarrow> card (K - set inc) < n \<Longrightarrow>
      \<exists>r. visit f inc = Inr (inc @ r) \<and> inc_step aux {f} inc r" using Cons.prems(1) by simp
  ultimately obtain r' where r': "foldM (\<lambda>i f. visit f i) (inc @ r) fs = Inr ((inc @ r) @ r')" "inc_step aux (set fs) (inc @ r) r'"
    using Cons.IH [of "inc @ r"] by blast
  show ?case using inc_step_trans [OF r(2) r'(2)] r(1) r'(1) by (intro exI [of _ "r @ r'"]) simp
qed

lemma GetIncluded_ok:
  assumes "closed_aux aux"
  shows "p \<in> set (dkeys aux) \<Longrightarrow> distinct inc \<Longrightarrow> card (set (dkeys aux) - set inc) < n \<Longrightarrow>
    \<exists>r. GetIncludedBuildFiles n p aux inc = Inr (inc @ r) \<and> inc_step aux {p} inc r"
proof (induction n arbitrary: p inc)
  case (Suc n)
  show ?case
  proof (cases "p \<in> set inc")
    case True
    then show ?thesis using Suc.prems by (intro exI [of _ "[]"]) (simp add: inc_step_def)
  next
    case False
    obtain l where l: "dget aux p = Some l" using Suc.prems(1) by (auto simp: dkeys_iff_dget)
    have sub: "set l \<subseteq> set (dkeys aux)" using assms l by (auto simp: closed_aux_def inc_edges_def)
    have "card (set (dkeys aux) - set (inc @ [p])) < card (set (dkeys aux) - set inc)"
      by (rule psubset_card_mono) (use False Suc.prems(1) in auto)
    then have c: "card (set (dkeys aux) - set (inc @ [p])) < n" using Suc.prems(3) by simp
    obtain r where r: "foldM (\<lambda>i f. GetIncludedBuildFiles n f aux i) (inc @ [p]) l = Inr ((inc @ [p]) @ r)"
        "inc_step aux (set l) (inc @ [p]) r"
    proof -
      have "\<exists>r. foldM (\<lambda>i f. GetIncludedBuildFiles n f aux i) (inc @ [p]) l = Inr ((inc @ [p]) @ r)
          \<and> inc_step aux (set l) (inc @ [p]) r"
        by (rule GetIncluded_fold [where K = "set (dkeys aux)" and n = n]) (use Suc.IH sub c False Suc.prems(2) in auto)
      then show ?thesis using that by blast
    qed
    have e: "inc_edges aux `` {p} = set l" using l by (auto simp: inc_edges_def)
    have "(inc_edges aux)\<^sup>* `` set l \<subseteq> (inc_edges aux)\<^sup>* `` {p}"
      unfolding e [symmetric] by (auto intro: converse_rtrancl_into_rtrancl)
    then have "set r \<subseteq> (inc_edges aux)\<^sup>* `` {p}" using r(2) unfolding inc_step_def by blast
    then have "inc_step aux {p} inc (p # r)" using r(2) e by (auto simp: inc_step_def)
    then show ?thesis using r(1) False l by (intro exI [of _ "p # r"]) (simp add: dict_get_def)
  qed
qed simp

text \<open>
  C26. \<open>GetIncludedBuildFiles\<close>: when every included file is known, and given a recursion limit above
  the number of files, the result has, each once, the file itself and all files it includes, directly
  or not; inclusion may be circular.
\<close>

theorem GetIncludedBuildFiles_closure:
  assumes "closed_aux aux" and "p \<in> set (dkeys aux)" and "card (set (dkeys aux)) < n"
  shows "\<exists>r. GetIncludedBuildFiles n p aux [] = Inr r \<and> distinct r \<and> set r = (inc_edges aux)\<^sup>* `` {p}"
proof -
  obtain r where r: "GetIncludedBuildFiles n p aux [] = Inr r" "inc_step aux {p} [] r"
    using GetIncluded_ok [OF assms(1,2), of "[]" n] assms(3) by auto
  have "b \<in> set r" if "(p, b) \<in> (inc_edges aux)\<^sup>*" for b
    using that r(2) by (induction rule: rtrancl_induct) (auto simp: inc_step_def)
  then show ?thesis using r by (auto simp: inc_step_def)
qed

theorem GetIncludedBuildFiles_closure_witness:
  "\<exists>r. GetIncludedBuildFiles 3 ''a'' [(''a'', [''b'']), (''b'', [''a''])] [] = Inr r \<and> distinct r"
proof -
  have "closed_aux [(''a'', [''b'']), (''b'', [''a''])]" by (auto simp: closed_aux_def inc_edges_def dkeys_def split: if_splits)
  from GetIncludedBuildFiles_closure [OF this, of "''a''" 3] show ?thesis by (auto simp: dkeys_def)
qed


section \<open>What \<open>CheckNode\<close> accepts\<close>

definition const_of :: "ast \<Rightarrow> gconst option" where
  "const_of a = (case a of AConst c \<Rightarrow> Some c | _ \<Rightarrow> None)"

text \<open>Trees of dictionaries with different constant keys, lists and constants; their value.\<close>

fun plain_ast :: "ast \<Rightarrow> bool" where
  "plain_ast (ADict c) = (list_all (\<lambda>(k, v). const_of k \<noteq> None \<and> plain_ast v) c \<and> distinct (map (\<lambda>p. const_of (fst p)) c))"
| "plain_ast (AList c) = list_all plain_ast c"
| "plain_ast (AConst v) = True"
| "plain_ast (AOther r) = False"

fun ast_value :: "ast \<Rightarrow> node_val" where
  "ast_value (ADict c) = VDict (map (\<lambda>(k, v). (the (const_of k), ast_value v)) c)"
| "ast_value (AList c) = VList (map ast_value c)"
| "ast_value (AConst v) = VConst v"
| "ast_value (AOther r) = VList []"

lemma repeated_key_error: "repeated_key key keypath = Inr w \<longleftrightarrow> False"
  by (auto simp: repeated_key_def join_path_def res_simps split: gconst.splits)

lemma CheckNode_iff:
  "CheckNode a kp = Inr w \<longleftrightarrow> plain_ast a \<and> w = ast_value a"
  "wf_dict d \<Longrightarrow> CheckNode_items c kp d = Inr w \<longleftrightarrow>
     list_all (\<lambda>(k, v). const_of k \<noteq> None \<and> plain_ast v) c \<and> distinct (map (\<lambda>p. const_of (fst p)) c)
     \<and> set (map (\<lambda>p. the (const_of (fst p))) c) \<inter> set (dkeys d) = {}
     \<and> w = VDict (d @ map (\<lambda>(k, v). (the (const_of k), ast_value v)) c)"
  "CheckNode_list i l kp = Inr ws \<longleftrightarrow> list_all plain_ast l \<and> ws = map ast_value l"
proof (induction a kp and c kp d and i l kp arbitrary: w and w and ws rule: CheckNode_CheckNode_items_CheckNode_list.induct)
  case (1 c kp)
  show ?case using 1 [of w] by (simp add: dkeys_def)
next
  case (2 c kp)
  then show ?case by (auto simp: res_bind_eq_Inr)
next
  case (4 r kp)
  then show ?case by (auto simp: res_simps)
next
  case (6 k v c kp d)
  show ?case
  proof (cases k)
    case (AConst key)
    show ?thesis
    proof (cases "dhas d key")
      case True
      then have "key \<in> set (dkeys d)" by (auto simp: dhas_def dkeys_def)
      then show ?thesis using AConst True by (auto simp: repeated_key_error const_of_def)
    next
      case False
      then have new: "dset d key x = d @ [(key, x)]" "key \<notin> set (dkeys d)" for x
        by (auto simp: dhas_iff_dget dset_fresh dkeys_iff_dget)
      have keys: "set (dkeys (d @ [(key, x)])) = insert key (set (dkeys d))" for x by (simp add: dkeys_def)
      have IH1: "CheckNode v (kp @ [key]) = Inr x \<longleftrightarrow> plain_ast v \<and> x = ast_value v" for x
        using 6(1) [OF AConst] False by blast
      have IH2: "CheckNode_items c kp (dset d key (ast_value v)) = Inr w \<longleftrightarrow>
        list_all (\<lambda>(k, v). const_of k \<noteq> None \<and> plain_ast v) c \<and> distinct (map (\<lambda>p. const_of (fst p)) c)
        \<and> set (map (\<lambda>p. the (const_of (fst p))) c) \<inter> set (dkeys (dset d key (ast_value v))) = {}
        \<and> w = VDict (dset d key (ast_value v) @ map (\<lambda>(k, v). (the (const_of k), ast_value v)) c)" if "plain_ast v"
        using 6(2) [OF AConst, of "ast_value v"] False 6(3) that IH1 by simp
      have "key \<notin> set (map (\<lambda>p. the (const_of (fst p))) c) \<longleftrightarrow> Some key \<notin> set (map (\<lambda>p. const_of (fst p)) c)"
        if "list_all (\<lambda>(k, v). const_of k \<noteq> None \<and> plain_ast v) c"
        using that by (force simp: list_all_iff)
      then show ?thesis using AConst False IH1 IH2 new keys
        by (auto simp: res_simps const_of_def [of "AConst key"])
    qed
  qed (simp_all add: const_of_def)
next
  case (8 i v l kp)
  then show ?case by (auto simp: res_simps)
qed auto

text \<open>
  C27. \<open>CheckNode\<close> returns exactly for trees of dictionaries, lists and constants in which the keys of
  every dictionary are different constants, and then its result is the value of the tree.
\<close>

theorem CheckNode_correct: "CheckNode a [] = Inr w \<longleftrightarrow> plain_ast a \<and> w = ast_value a"
  by (rule CheckNode_iff(1))

section \<open>Toolset expansion is idempotent\<close>

definition settled :: "pydict \<Rightarrow> bool" where
  "settled t \<longleftrightarrow> dhas t ''toolset'' \<and> \<not> dhas t ''toolsets''"

lemma expand_settled: "settled t \<Longrightarrow> expand_toolsets mt t = Inr [t]"
  by (simp add: settled_def expand_toolsets_def)

lemma deepcopy_dict_keys:
  "dget (case deepcopy (PDict d) of PDict e \<Rightarrow> e | _ \<Rightarrow> []) k = None \<longleftrightarrow> dget d k = None"
proof -
  have "dget (foldl (\<lambda>y (key, v). dset y key v) acc kvs) k = None \<longleftrightarrow> dget acc k = None \<and> k \<notin> fst ` set kvs" for acc kvs :: pydict
  proof (induction kvs arbitrary: acc)
    case (Cons kv kvs)
    obtain j v where "kv = (j, v)" by (cases kv)
    then show ?case by (simp add: Cons)
  qed simp
  moreover have "fst ` set (map (\<lambda>(key, v). (key, deepcopy v)) d) = fst ` set d" by force
  moreover have "dget d k = None \<longleftrightarrow> k \<notin> fst ` set d" using dhas_iff_dget [of d k] by (auto simp: dhas_def)
  ultimately show ?thesis by simp
qed

lemma expand_toolsets_settles:
  assumes "expand_toolsets mt t = Inr ts" and "t' \<in> set ts"
  shows "settled t'"
proof (cases "settled t")
  case True
  then show ?thesis using assms expand_settled by auto
next
  case False
  obtain toolsets where ts: "ts = toolset_copies (ddel t ''toolsets'') toolsets"
    using assms(1) False unfolding expand_toolsets_def settled_def by (auto simp: res_bind_eq_Inr)
  have "dget (case deepcopy (PDict (ddel t ''toolsets'')) of PDict d \<Rightarrow> d | _ \<Rightarrow> []) ''toolsets'' = None"
    by (simp add: deepcopy_dict_keys del: deepcopy.simps)
  then show ?thesis using assms(2) unfolding ts
    by (cases toolsets) (auto simp: toolset_copies_def settled_def dhas_iff_dget simp del: deepcopy.simps)
qed

lemma dset_same: "dget d k = Some v \<Longrightarrow> dset d k v = d"
  by (induction d k v rule: dset.induct) (auto split: if_splits)

lemma toolset_targets_settled:
  assumes "toolset_targets mt d = Inr d'"
  shows "toolset_targets mt d' = Inr d' \<and> (\<forall>k. k \<noteq> ''targets'' \<longrightarrow> dget d' k = dget d k)"
proof (cases "dget d ''targets''")
  case None
  then show ?thesis using assms by (simp add: toolset_targets_def)
next
  case (Some v)
  obtain ts new where r: "mapM (expand_toolsets mt) ts = Inr new" "d' = dset d ''targets'' (PList (map PDict (concat new)))"
    using assms Some by (auto simp: toolset_targets_def res_simps)
  have s: "settled t'" if t': "t' \<in> set (concat new)" for t'
  proof -
    obtain part where part: "part \<in> set new" "t' \<in> set part" using t' by auto
    then obtain t where "expand_toolsets mt t = Inr part" using mapM_Inr_mem [OF r(1)] by blast
    then show ?thesis using expand_toolsets_settles part(2) by blast
  qed
  have ds: "mapM as_dict (map PDict xs) = Inr xs" for xs by (induction xs) auto
  have "mapM (expand_toolsets mt) xs = Inr (map (\<lambda>x. [x]) xs)" if "\<forall>x\<in>set xs. settled x" for xs
    using that by (induction xs) (auto simp: expand_settled)
  then have "mapM (expand_toolsets mt) (concat new) = Inr (map (\<lambda>x. [x]) (concat new))" using s by blast
  moreover have "concat (map (\<lambda>x. [x]) xs) = xs" for xs :: "pydict list" by (induction xs) auto
  ultimately have "toolset_targets mt d' = Inr (dset d' ''targets'' (PList (map PDict (concat new))))"
    by (simp add: toolset_targets_def r(2) ds)
  then show ?thesis by (auto simp: r(2) dset_same)
qed


lemma mapM_idem:
  assumes "mapM f xs = Inr ys" and "\<And>x y. x \<in> set xs \<Longrightarrow> f x = Inr y \<Longrightarrow> f y = Inr y"
  shows "mapM f ys = Inr ys"
  using assms
proof (induction xs arbitrary: ys)
  case (Cons x xs)
  obtain y zs where y: "f x = Inr y" "mapM f xs = Inr zs" "ys = y # zs" using Cons.prems(1) by (auto simp: res_simps)
  have "f y = Inr y" using Cons.prems(2) [of x y] y(1) by simp
  moreover have "mapM f zs = Inr zs" by (rule Cons.IH [OF y(2)]) (use Cons.prems(2) in auto)
  ultimately show ?case by (simp add: y(3))
qed simp

lemma on_condition_idem:
  assumes "on_condition f c = Inr c'" and "\<And>d e. PDict d \<in> (case c of PList l \<Rightarrow> set l | _ \<Rightarrow> {}) \<Longrightarrow> f d = Inr e \<Longrightarrow> f e = Inr e"
  shows "on_condition f c' = Inr c'"
proof (cases "\<exists>h rest. c = PList (h # rest)")
  case False
  then have "c' = c" using assms(1) by (auto simp: on_condition_def split: pyval.splits list.splits)
  then show ?thesis using assms(1) by simp
next
  case True
  then obtain h rest where c: "c = PList (h # rest)" by blast
  let ?g = "\<lambda>x. case x of PDict d \<Rightarrow> res_bind (f d) (\<lambda>d'. Inr (PDict d')) | _ \<Rightarrow> Inr x"
  obtain rest' where r: "mapM ?g rest = Inr rest'" "c' = PList (h # rest')"
    using assms(1) by (auto simp: c on_condition_def res_simps)
  have "?g y = Inr y" if x: "x \<in> set rest" and gx: "?g x = Inr y" for x y
  proof (cases x)
    case (PDict d)
    then obtain e where "f d = Inr e" "y = PDict e" using gx by (auto simp: res_simps)
    then show ?thesis using assms(2) [of d e] x PDict by (simp add: c)
  qed (use gx in auto)
  then have "mapM ?g rest' = Inr rest'" by (rule mapM_idem [OF r(1)])
  then show ?thesis by (simp add: r(2) on_condition_def)
qed

lemma ProcessToolsets_idem: "ProcessToolsetsInDict mt d = Inr d' \<Longrightarrow> ProcessToolsetsInDict mt d' = Inr d'"
proof (induction "size_list (size_prod (\<lambda>_. 0) size) d" arbitrary: d d' rule: less_induct)
  case less
  obtain d1 where d1: "toolset_targets mt d = Inr d1" using less.prems by (auto simp: ProcessToolsetsInDict.simps [of mt d] res_bind_eq_Inr)
  have t1: "toolset_targets mt d1 = Inr d1" and c1: "dget d1 ''conditions'' = dget d ''conditions''"
    using toolset_targets_settled [OF d1] by auto
  show ?case
  proof (cases "\<exists>cs. dget d ''conditions'' = Some (PList cs)")
    case False
    then have "d' = d1" using less.prems d1 by (auto simp: ProcessToolsetsInDict.simps [of mt d] split: option.splits pyval.splits)
    then show ?thesis using False t1 c1 less.prems d1
      by (auto simp: ProcessToolsetsInDict.simps [of mt d] ProcessToolsetsInDict.simps [of mt d1] split: option.splits pyval.splits)
  next
    case True
    then obtain cs where cs: "dget d ''conditions'' = Some (PList cs)" by blast
    obtain cs' where cs': "mapM (on_condition (ProcessToolsetsInDict mt)) cs = Inr cs'" "d' = dset d1 ''conditions'' (PList cs')"
      using less.prems d1 cs by (auto simp: ProcessToolsetsInDict.simps [of mt d] res_bind_eq_Inr)
    have smaller: "size_list (size_prod (\<lambda>_. 0) size) e < size_list (size_prod (\<lambda>_. 0) size) d"
      if "PList l \<in> set cs" "PDict e \<in> set l" for l e
      using mem_size [OF that(1)] mem_size [OF that(2)] dget_size [OF cs] by simp
    have "on_condition (ProcessToolsetsInDict mt) y = Inr y" if xy: "x \<in> set cs" "on_condition (ProcessToolsetsInDict mt) x = Inr y" for x y
    proof (rule on_condition_idem [OF xy(2)])
      fix e e'
      assume e: "PDict e \<in> (case x of PList l \<Rightarrow> set l | _ \<Rightarrow> {})" "ProcessToolsetsInDict mt e = Inr e'"
      then obtain l where "x = PList l" "PDict e \<in> set l" by (cases x) auto
      then show "ProcessToolsetsInDict mt e' = Inr e'" using less.hyps [OF smaller e(2)] xy(1) by blast
    qed
    then have again: "mapM (on_condition (ProcessToolsetsInDict mt)) cs' = Inr cs'" by (rule mapM_idem [OF cs'(1)])
    have "toolset_targets mt d' = Inr d'"
    proof (cases "dget d1 ''targets''")
      case None
      then show ?thesis by (simp add: toolset_targets_def cs'(2))
    next
      case (Some v)
      obtain ts new where "res_bind (as_list v) (mapM as_dict) = Inr ts" "mapM (expand_toolsets mt) ts = Inr new"
          "d1 = dset d1 ''targets'' (PList (map PDict (concat new)))"
        using t1 Some by (auto simp: toolset_targets_def res_bind_eq_Inr)
      moreover from this have "dget d1 ''targets'' = Some (PList (map PDict (concat new)))" by (metis dget_dset)
      ultimately show ?thesis using Some by (simp add: toolset_targets_def cs'(2) dset_same)
    qed
    then show ?thesis unfolding ProcessToolsetsInDict.simps [of mt d'] using again by (simp add: cs'(2) dset_same)
  qed
qed

text \<open>
  C28. The second round of toolset expansion changes nothing that the first one did:
  \<open>ProcessToolsetsInDict\<close>, which is applied before and after the early conditions, is idempotent, also
  inside conditions.
\<close>

theorem ProcessToolsetsInDict_idempotent:
  assumes "ProcessToolsetsInDict mt d = Inr d'"
  shows "ProcessToolsetsInDict mt d' = Inr d'"
  by (rule ProcessToolsets_idem [OF assms])


theorem ProcessToolsetsInDict_idempotent_witness:
  "\<exists>d. ProcessToolsetsInDict True [(''targets'', PList [PDict [(''toolsets'', PList [PStr ''host'', PStr ''target''])]])] = Inr d
     \<and> ProcessToolsetsInDict True d = Inr d"
proof -
  obtain d where d: "ProcessToolsetsInDict True [(''targets'', PList [PDict [(''toolsets'', PList [PStr ''host'', PStr ''target''])]])] = Inr d"
    by (simp add: ProcessToolsetsInDict.simps toolset_targets_def expand_toolsets_def dhas_def toolset_copies_def ddel_def)
  from ProcessToolsetsInDict_idempotent [OF d] d show ?thesis by blast
qed

end
