(* ===== verification/Gyp_Filters.thy ===== *)
theory Gyp_Filters
  imports Py_Value Py_Regex
begin

text \<open>
  \<open>ProcessListFiltersInDict\<close> and \<open>ProcessListFiltersInList\<close> of \<open>gyp/input.py\<close>: the lists named with a
  trailing \<open>!\<close> (items to exclude) and \<open>/\<close> (regular expressions that exclude or include) are applied to
  the list they name and removed; what was excluded goes to a list \<open>_excluded\<close>. Shown: which items
  stay and which go, that nothing else changes, and that no filter remains at any depth.
\<close>

section \<open>Equality and unpacking\<close>

text \<open>\<open>==\<close>: dictionaries are equal whatever the order of their keys.\<close>

function (sequential) py_eq :: "pyval \<Rightarrow> pyval \<Rightarrow> bool" where
  "py_eq (PStr a) (PStr b) = (a = b)"
| "py_eq (PInt a) (PInt b) = (a = b)"
| "py_eq (PList as) (PList bs) = (length as = length bs \<and> list_all (\<lambda>(a, b). py_eq a b) (zip as bs))"
| "py_eq (PDict d) (PDict e) =
     (length d = length e \<and>
      list_all (\<lambda>(k, v). if dhas e k then py_eq v (the (dget e k)) else False) d)"
| "py_eq _ _ = False"
  by pat_completeness auto
termination
proof (relation "measure (\<lambda>(a, b). size a)")
  fix as bs :: "pyval list" and x a b
  assume "x \<in> set (zip as bs)" and "(a, b) = x"
  then have "a \<in> set as" by (metis set_zip_leftD)
  then have "size a \<le> size_list size as" by (rule size_list_estimation') simp
  then show "((a, b), PList as, PList bs) \<in> measure (\<lambda>(a, b). size a)" by simp
next
  fix d e :: pydict and x k v
  assume "x \<in> set d" and "(k, v) = x"
  then have "size v \<le> size_list (size_prod (\<lambda>_. 0) size) d" by (intro size_list_estimation' [of x]) auto
  then show "((v, the (dget e k)), PDict d, PDict e) \<in> measure (\<lambda>(a, b). size a)" by simp
qed simp

text \<open>\<open>[a, b] = v\<close>.\<close>

definition unpack2 :: "pyval \<Rightarrow> (pyval \<times> pyval) res" where
  "unpack2 v =
     res_bind (case v of
         PInt i \<Rightarrow> Inl (TypeError ''int object is not iterable'')
       | PStr s \<Rightarrow> Inr (map (\<lambda>c. PStr [c]) s)
       | PList l \<Rightarrow> Inr l
       | PDict d \<Rightarrow> Inr (map (\<lambda>(k, _). PStr k) d)) (\<lambda>xs.
     case xs of
       [a, b] \<Rightarrow> Inr (a, b)
     | _ \<Rightarrow> Inl (ValueError ''wrong number of values to unpack''))"

section \<open>Collecting the lists\<close>

text \<open>The first loop; the state is \<open>(lists, del_lists)\<close>.\<close>

definition collect_filter ::
  "string \<Rightarrow> pydict \<Rightarrow> string list \<times> string list \<Rightarrow> string \<times> pyval \<Rightarrow> (string list \<times> string list) res" where
  "collect_filter name the_dict = (\<lambda>(lists, del_lists) (key, value).
     if key = [] then Inl IndexError
     else let operation = last key; list_key = drop_last 1 key in
       if operation \<noteq> CHR ''!'' \<and> operation \<noteq> CHR ''/'' then Inr (lists, del_lists)
       else if type_name value \<noteq> ''list''
       then Inl (ValueError (name @ '' key '' @ key @ '' must be list, not '' @ type_name value))
       else case dget the_dict list_key of
              None \<Rightarrow> Inr (lists, del_lists @ [key])
            | Some (PList l) \<Rightarrow> Inr (add_new lists list_key, del_lists)
            | Some v \<Rightarrow> Inl (ValueError (name @ '' key '' @ list_key @ '' must be list, not '' @ type_name v @ '' when applying ''
                @ (if operation = CHR ''!'' then ''exclusion'' else ''regex''))))"

section \<open>Applying the filters to one list\<close>

definition apply_exclude :: "pyval list \<Rightarrow> int list \<Rightarrow> pyval \<Rightarrow> int list" where
  "apply_exclude the_list list_actions exclude_item =
     map2 (\<lambda>item action. if py_eq exclude_item item then 0 else action) the_list list_actions"

definition apply_regex_item :: "rx \<Rightarrow> int \<Rightarrow> pyval \<times> int \<Rightarrow> int res" where
  "apply_regex_item pattern_re action_value = (\<lambda>(list_item, action).
     if action = action_value then Inr action
     else res_bind (as_str list_item) (\<lambda>s. Inr (if re_search pattern_re s then action_value else action)))"

definition action_code :: "string \<Rightarrow> string \<Rightarrow> pyval \<Rightarrow> int res" where
  "action_code name regex_key action =
     (if action = PStr ''exclude'' then Inr 0
      else if action = PStr ''include'' then Inr 1
      else res_bind (as_str action) (\<lambda>a.
        Inl (ValueError (''Unrecognized action '' @ a @ '' in '' @ name @ '' key '' @ regex_key))))"

definition apply_regex :: "string \<Rightarrow> string \<Rightarrow> pyval list \<Rightarrow> int list \<Rightarrow> pyval \<Rightarrow> int list res" where
  "apply_regex name regex_key the_list list_actions regex_item =
     res_bind (unpack2 regex_item) (\<lambda>(action, pattern).
     res_bind (as_str pattern) (\<lambda>p.
     res_bind (re_compile p) (\<lambda>pattern_re.
     res_bind (action_code name regex_key action) (\<lambda>action_value.
       mapM (apply_regex_item pattern_re action_value) (zip the_list list_actions)))))"

text \<open>The loop from the last index down that moves the excluded items.\<close>

primrec move_excluded :: "nat \<Rightarrow> int list \<Rightarrow> pyval list \<Rightarrow> pyval list \<Rightarrow> pyval list \<times> pyval list" where
  "move_excluded 0 list_actions the_list excluded_list = (the_list, excluded_list)"
| "move_excluded (Suc index) list_actions the_list excluded_list =
     (if list_actions ! index = 0
      then move_excluded index list_actions (take index the_list @ drop (Suc index) the_list) (the_list ! index # excluded_list)
      else move_excluded index list_actions the_list excluded_list)"

definition list_value :: "pydict \<Rightarrow> string \<Rightarrow> pyval list res" where
  "list_value d k = res_bind (dict_get d k) as_list"

definition exclude_actions :: "pydict \<Rightarrow> string \<Rightarrow> pyval list \<Rightarrow> int list \<Rightarrow> (int list \<times> pydict) res" where
  "exclude_actions the_dict exclude_key the_list list_actions =
     (if dhas the_dict exclude_key then
        res_bind (list_value the_dict exclude_key) (\<lambda>items.
          Inr (foldl (apply_exclude the_list) list_actions items, ddel the_dict exclude_key))
      else Inr (list_actions, the_dict))"

definition regex_actions ::
  "string \<Rightarrow> pydict \<Rightarrow> string \<Rightarrow> pyval list \<Rightarrow> int list \<Rightarrow> (int list \<times> pydict) res" where
  "regex_actions name the_dict regex_key the_list list_actions =
     (if dhas the_dict regex_key then
        res_bind (list_value the_dict regex_key) (\<lambda>items.
        res_bind (foldM (apply_regex name regex_key the_list) list_actions items) (\<lambda>actions.
          Inr (actions, ddel the_dict regex_key)))
      else Inr (list_actions, the_dict))"

definition filter_list :: "string \<Rightarrow> pydict \<Rightarrow> string \<Rightarrow> pydict res" where
  "filter_list name the_dict list_key =
     res_bind (list_value the_dict list_key) (\<lambda>the_list.
     res_bind (exclude_actions the_dict (list_key @ ''!'') the_list (replicate (length the_list) (- 1))) (\<lambda>(actions1, d1).
     res_bind (regex_actions name d1 (list_key @ ''/'') the_list actions1) (\<lambda>(actions2, d2).
       let excluded_key = list_key @ ''_excluded'' in
       if dhas d2 excluded_key
       then Inl (GypError (name @ '' key '' @ excluded_key @ '' must not be present prior  to applying exclusion/regex filters for '' @ list_key))
       else let (kept, excluded_list) = move_excluded (length actions2) actions2 the_list [];
                d3 = dset d2 list_key (PList kept)
            in Inr (if length excluded_list > 0 then dset d3 excluded_key (PList excluded_list) else d3))))"

text \<open>Everything \<open>ProcessListFiltersInDict\<close> does before it descends.\<close>

definition filter_dict :: "string \<Rightarrow> pydict \<Rightarrow> pydict res" where
  "filter_dict name the_dict =
     res_bind (foldM (collect_filter name the_dict) ([], []) the_dict) (\<lambda>(lists, del_lists).
       foldM (filter_list name) (foldl ddel the_dict del_lists) lists)"


section \<open>Heights\<close>

fun height :: "pyval \<Rightarrow> nat" where
  "height (PList l) = Suc (foldr (\<lambda>v n. max (height v) n) l 0)"
| "height (PDict d) = Suc (foldr (\<lambda>(k, v) n. max (height v) n) d 0)"
| "height _ = 0"

lemma height_list_le: "height (PList l) \<le> Suc n \<longleftrightarrow> (\<forall>v\<in>set l. height v \<le> n)"
  by (induction l) auto

lemma height_dict_le: "height (PDict d) \<le> Suc n \<longleftrightarrow> (\<forall>(k, v)\<in>set d. height v \<le> n)"
  by (induction d) auto

lemma height_in_list: "v \<in> set l \<Longrightarrow> height v < height (PList l)"
  using height_list_le [of l "foldr (\<lambda>v n. max (height v) n) l 0"] by (simp add: less_Suc_eq_le)

lemma height_in_dict: "(k, v) \<in> set d \<Longrightarrow> height v < height (PDict d)"
  using height_dict_le [of d "foldr (\<lambda>(k, v) n. max (height v) n) d 0"] by (auto simp: less_Suc_eq_le)

definition low :: "nat \<Rightarrow> pydict \<Rightarrow> bool" where
  "low n d \<longleftrightarrow> (\<forall>(k, v)\<in>set d. height v \<le> n)"

lemma low_dset: "low n d \<Longrightarrow> height v \<le> n \<Longrightarrow> low n (dset d k v)"
  unfolding low_def by (induction d k v rule: dset.induct) auto

lemma low_ddel: "low n d \<Longrightarrow> low n (ddel d k)"
  by (auto simp: low_def ddel_def)

lemma low_foldl_ddel: "low n d \<Longrightarrow> low n (foldl ddel d ks)"
  by (induction ks arbitrary: d) (auto simp: low_ddel)

section \<open>The filters as predicates\<close>

lemma move_excluded_take:
  assumes "i \<le> length l" and "i \<le> length actions"
  shows "move_excluded i actions l e =
    (map fst (filter (\<lambda>p. snd p \<noteq> 0) (take i (zip l actions))) @ drop i l,
     map fst (filter (\<lambda>p. snd p = 0) (take i (zip l actions))) @ e)"
  using assms
proof (induction i arbitrary: l e)
  case (Suc i)
  have t: "take (Suc i) (zip l actions) = take i (zip l actions) @ [(l ! i, actions ! i)]"
    using Suc.prems by (simp add: take_Suc_conv_app_nth)
  have d: "drop i l = l ! i # drop (Suc i) l" using Suc.prems by (simp add: Cons_nth_drop_Suc)
  show ?case
  proof (cases "actions ! i = 0")
    case True
    let ?l = "take i l @ drop (Suc i) l"
    have "take i (zip ?l actions) = take i (zip l actions)" "drop i ?l = drop (Suc i) l"
      using Suc.prems by (simp_all add: take_zip)
    then show ?thesis using Suc.IH [of ?l "l ! i # e"] Suc.prems True t by simp
  next
    case False
    then show ?thesis using Suc.IH [of l e] Suc.prems t d by simp
  qed
qed simp

lemma move_excluded_all:
  assumes "length actions = length l"
  shows "move_excluded (length actions) actions l [] =
    (map fst (filter (\<lambda>p. snd p \<noteq> 0) (zip l actions)), map fst (filter (\<lambda>p. snd p = 0) (zip l actions)))"
  using move_excluded_take [of "length actions" l actions "[]"] assms by simp

lemma length_exclude_actions:
  "exclude_actions d k l actions = Inr (actions', d') \<Longrightarrow> length actions = length l \<Longrightarrow> length actions' = length l"
proof -
  have "length (foldl (apply_exclude l) acts items) = length l" if "length acts = length l" for acts items
    using that by (induction items arbitrary: acts) (auto simp: apply_exclude_def)
  then show "exclude_actions d k l actions = Inr (actions', d') \<Longrightarrow> length actions = length l \<Longrightarrow> length actions' = length l"
    by (auto simp: exclude_actions_def res_simps split: if_splits)
qed

lemma length_regex_actions:
  assumes "regex_actions name d k l actions = Inr (actions', d')" and "length actions = length l"
  shows "length actions' = length l"
proof -
  have step: "length st' = length l" if "length st = length l" "apply_regex name k l st x = Inr st'" for st x st'
    using that by (auto simp: apply_regex_def res_simps dest: mapM_Inr_length)
  show ?thesis using assms
    by (auto simp: regex_actions_def res_simps split: if_splits
      dest!: foldM_invariant [where P = "\<lambda>a. length a = length l"] intro: step)
qed

text \<open>What \<open>filter_list\<close> returns.\<close>

definition filtered :: "pydict \<Rightarrow> string \<Rightarrow> pyval list \<Rightarrow> pyval list \<Rightarrow> pydict" where
  "filtered d k kept excluded =
     (let d' = dset (ddel (ddel d (k @ ''!'')) (k @ ''/'')) k (PList kept)
      in if excluded \<noteq> [] then dset d' (k @ ''_excluded'') (PList excluded) else d')"

lemma ddel_absent: "\<not> dhas d k \<Longrightarrow> ddel d k = d"
  by (auto simp: ddel_def dhas_def filter_id_conv)

lemma exclude_actions_dict: "exclude_actions d k l actions = Inr (actions', d') \<Longrightarrow> d' = ddel d k"
  by (auto simp: exclude_actions_def res_simps ddel_absent split: if_splits)

lemma regex_actions_dict: "regex_actions name d k l actions = Inr (actions', d') \<Longrightarrow> d' = ddel d k"
  by (auto simp: regex_actions_def res_simps ddel_absent split: if_splits)

lemma filter_list_Inr:
  assumes "filter_list name d k = Inr d'"
  obtains l a1 a2 where "dget d k = Some (PList l)"
    and "exclude_actions d (k @ ''!'') l (replicate (length l) (- 1)) = Inr (a1, ddel d (k @ ''!''))"
    and "regex_actions name (ddel d (k @ ''!'')) (k @ ''/'') l a1 = Inr (a2, ddel (ddel d (k @ ''!'')) (k @ ''/''))"
    and "length a1 = length l" and "length a2 = length l"
    and "d' = filtered d k (map fst (filter (\<lambda>p. snd p \<noteq> 0) (zip l a2))) (map fst (filter (\<lambda>p. snd p = 0) (zip l a2)))"
proof -
  obtain l a1 d1 a2 d2 where l: "list_value d k = Inr l"
    and e: "exclude_actions d (k @ ''!'') l (replicate (length l) (- 1)) = Inr (a1, d1)"
    and r: "regex_actions name d1 (k @ ''/'') l a1 = Inr (a2, d2)"
    and fin: "(let (kept, excluded_list) = move_excluded (length a2) a2 l []; d3 = dset d2 k (PList kept)
        in (if length excluded_list > 0 then dset d3 (k @ ''_excluded'') (PList excluded_list) else d3)) = d'"
    using assms by (auto simp: filter_list_def res_simps Let_def split: if_splits prod.splits)
  have d1: "d1 = ddel d (k @ ''!'')" and d2: "d2 = ddel d1 (k @ ''/'')"
    using exclude_actions_dict [OF e] regex_actions_dict [OF r] by simp_all
  have a1: "length a1 = length l" using length_exclude_actions [OF e] by simp
  have a2: "length a2 = length l" by (rule length_regex_actions [OF r a1])
  have l': "dget d k = Some (PList l)" using l by (auto simp: list_value_def res_simps)
  have "d' = filtered d k (map fst (filter (\<lambda>p. snd p \<noteq> 0) (zip l a2))) (map fst (filter (\<lambda>p. snd p = 0) (zip l a2)))"
    using fin unfolding move_excluded_all [OF a2] filtered_def d1 d2 by (simp add: Let_def)
  from that [OF l' e [unfolded d1] r [unfolded d2, unfolded d1] a1 a2 this] show ?thesis .
qed

section \<open>Descending\<close>

lemma low_filter_list:
  assumes "filter_list name d k = Inr d'" and "low n d"
  shows "low n d'"
proof -
  from assms(1) show ?thesis
  proof (rule filter_list_Inr)
    fix l a2
    assume l: "dget d k = Some (PList l)"
      and d': "d' = filtered d k (map fst (filter (\<lambda>p. snd p \<noteq> 0) (zip l a2))) (map fst (filter (\<lambda>p. snd p = 0) (zip l a2)))"
    have h: "height (PList l) \<le> n" using dget_in_set [OF l] assms(2) by (auto simp: low_def)
    then obtain m where m: "n = Suc m" by (cases n) auto
    have "height (PList (map fst (filter P (zip l a2)))) \<le> n" for P
      using h unfolding m height_list_le by (auto dest: set_zip_leftD)
    then show ?thesis using assms(2) unfolding d' filtered_def Let_def by (auto intro!: low_dset low_ddel)
  qed
qed

lemma low_filter_dict:
  assumes "filter_dict name d = Inr d'" and "low n d"
  shows "low n d'"
proof -
  obtain lists del_lists where "foldM (filter_list name) (foldl ddel d del_lists) lists = Inr d'"
    using assms(1) by (auto simp: filter_dict_def res_simps)
  then show ?thesis
    by (rule foldM_invariant) (use assms(2) in \<open>auto simp: low_foldl_ddel intro: low_filter_list\<close>)
qed

lemma height_filter_dict:
  assumes "filter_dict name d = Inr d'" and "(k, v) \<in> set d'"
  shows "height v < height (PDict d)"
proof -
  have "low (foldr (\<lambda>(k, v) n. max (height v) n) d 0) d"
    using height_dict_le [of d "foldr (\<lambda>(k, v) n. max (height v) n) d 0"] by (simp add: low_def)
  from low_filter_dict [OF assms(1) this] assms(2) show ?thesis by (auto simp: low_def)
qed

function ProcessListFiltersInDict :: "string \<Rightarrow> pydict \<Rightarrow> pydict res"
  and ProcessListFiltersInList :: "string \<Rightarrow> pyval list \<Rightarrow> pyval list res"
where
  "ProcessListFiltersInDict name the_dict =
     res_bind (filter_dict name the_dict) (\<lambda>d.
       mapM (\<lambda>(key, value). case value of
           PDict e \<Rightarrow> res_bind (ProcessListFiltersInDict key e) (\<lambda>e'. Inr (key, PDict e'))
         | PList l \<Rightarrow> res_bind (ProcessListFiltersInList key l) (\<lambda>l'. Inr (key, PList l'))
         | _ \<Rightarrow> Inr (key, value)) d)"
| "ProcessListFiltersInList name the_list =
     mapM (\<lambda>item. case item of
         PDict e \<Rightarrow> res_bind (ProcessListFiltersInDict name e) (\<lambda>e'. Inr (PDict e'))
       | PList l \<Rightarrow> res_bind (ProcessListFiltersInList name l) (\<lambda>l'. Inr (PList l'))
       | _ \<Rightarrow> Inr item) the_list"
  by pat_completeness auto
termination
proof (relation "measure (case_sum (\<lambda>(_, d). height (PDict d)) (\<lambda>(_, l). height (PList l)))")
qed (auto dest: height_filter_dict height_in_list simp del: height.simps)

declare ProcessListFiltersInDict.simps [simp del] ProcessListFiltersInList.simps [simp del]


section \<open>Which items stay\<close>

text \<open>The decision on an item: it is excluded by name, and then the regular expressions that match it
  decide, the last one for good.\<close>

definition excluded_by :: "string list \<Rightarrow> (bool \<times> rx) list \<Rightarrow> string \<Rightarrow> bool" where
  "excluded_by es rules x =
     foldl (\<lambda>excluded (incl, rx). if re_search rx x then \<not> incl else excluded) (x \<in> set es) rules"

definition regex_item :: "bool \<Rightarrow> string \<Rightarrow> pyval" where
  "regex_item incl p = PList [PStr (if incl then ''include'' else ''exclude''), PStr p]"

definition optional_list :: "pydict \<Rightarrow> string \<Rightarrow> pyval list \<Rightarrow> bool" where
  "optional_list d k l \<longleftrightarrow> dget d k = Some (PList l) \<or> dget d k = None \<and> l = []"

lemma exclude_strs:
  assumes "optional_list d k (map PStr es)"
  shows "exclude_actions d k (map PStr xs) (replicate (length xs) (- 1)) =
    Inr (map (\<lambda>x. if x \<in> set es then 0 else - 1) xs, ddel d k)"
proof -
  have fold: "foldl (apply_exclude (map PStr xs)) (map f xs) (map PStr es) = map (\<lambda>x. if x \<in> set es then 0 else f x) xs" for f
  proof (induction es arbitrary: f)
    case (Cons e es)
    have "apply_exclude (map PStr xs) (map f xs) (PStr e) = map (\<lambda>x. if x = e then 0 else f x) xs"
      unfolding apply_exclude_def by (induction xs) auto
    then show ?case using Cons [of "\<lambda>x. if x = e then 0 else f x"] by auto
  qed simp
  show ?thesis
    using assms fold [of "\<lambda>_. - 1"]
    by (auto simp: exclude_actions_def optional_list_def list_value_def dict_get_def dhas_iff_dget map_replicate_const ddel_absent)
qed

lemma apply_regex_item_strs:
  "mapM (apply_regex_item r v) (zip (map PStr xs) (map f xs)) =
     Inr (map (\<lambda>x. if f x = v then f x else if re_search r x then v else f x) xs)"
  by (induction xs) (auto simp: apply_regex_item_def)

lemma apply_regex_strs:
  assumes "re_compile p = Inr r"
  shows "\<exists>g. apply_regex name k (map PStr xs) (map f xs) (regex_item incl p) = Inr (map g xs)
    \<and> (\<forall>x. g x = (0 :: int) \<longleftrightarrow> (if re_search r x then \<not> incl else f x = 0))"
  unfolding apply_regex_def regex_item_def unpack2_def
  by (intro exI [of _ "\<lambda>x. if f x = (if incl then 1 else 0) then f x else if re_search r x then (if incl then 1 else 0) else f x"])
    (simp add: assms action_code_def apply_regex_item_strs)

lemma fold_regex_strs:
  assumes "list_all2 (\<lambda>(incl, p) (incl', r). incl = incl' \<and> re_compile p = Inr r) rules compiled"
  shows "\<exists>g. foldM (apply_regex name k (map PStr xs)) (map f xs) (map (\<lambda>(incl, p). regex_item incl p) rules) = Inr (map g xs)
    \<and> (\<forall>x. g x = (0 :: int) \<longleftrightarrow> foldl (\<lambda>e (incl, r). if re_search r x then \<not> incl else e) (f x = 0) compiled)"
  using assms
proof (induction rules arbitrary: compiled f)
  case (Cons rule rules)
  obtain incl p where rule: "rule = (incl, p)" by (cases rule)
  obtain r cs where c: "compiled = (incl, r) # cs" "re_compile p = Inr r"
      "list_all2 (\<lambda>(incl, p) (incl', r). incl = incl' \<and> re_compile p = Inr r) rules cs"
    using Cons.prems by (auto simp: rule list_all2_Cons1)
  obtain g where g: "apply_regex name k (map PStr xs) (map f xs) (regex_item incl p) = Inr (map g xs)"
      "\<And>x. g x = 0 \<longleftrightarrow> (if re_search r x then \<not> incl else f x = 0)"
    using apply_regex_strs [OF c(2), of name k xs f incl] by blast
  show ?case using Cons.IH [OF c(3), of g] g(1) by (simp add: rule c(1) g(2))
qed auto

text \<open>
  C12. The filters of one list of strings: with the strings \<open>es\<close> to exclude and the regular expressions
  \<open>rules\<close>, the list keeps in order the items that are not excluded, the excluded ones go in order to
  the list \<open>_excluded\<close> (which is absent when there are none), the filters are removed, and nothing else
  changes. The last rule that matches an item decides; without one, an item is excluded when named.
\<close>

theorem filter_list_correct:
  assumes "dget d k = Some (PList (map PStr xs))"
    and "optional_list d (k @ ''!'') (map PStr es)"
    and "optional_list d (k @ ''/'') (map (\<lambda>(incl, p). regex_item incl p) rules)"
    and "list_all2 (\<lambda>(incl, p) (incl', r). incl = incl' \<and> re_compile p = Inr r) rules compiled"
    and "\<not> dhas d (k @ ''_excluded'')"
  shows "filter_list name d k = Inr (filtered d k
     (map PStr (filter (\<lambda>x. \<not> excluded_by es compiled x) xs)) (map PStr (filter (excluded_by es compiled) xs)))"
proof -
  let ?f = "\<lambda>x. if x \<in> set es then 0 else - 1 :: int"
  obtain g where g: "foldM (apply_regex name (k @ ''/'') (map PStr xs)) (map ?f xs) (map (\<lambda>(incl, p). regex_item incl p) rules) = Inr (map g xs)"
      "\<And>x. g x = 0 \<longleftrightarrow> foldl (\<lambda>e (incl, r). if re_search r x then \<not> incl else e) (?f x = 0) compiled"
    using fold_regex_strs [OF assms(4), of name "k @ ''/''" xs ?f] by blast
  have g0: "g x = 0 \<longleftrightarrow> excluded_by es compiled x" for x
    using g(2) [of x] by (simp add: excluded_by_def)
  have r: "regex_actions name (ddel d (k @ ''!'')) (k @ ''/'') (map PStr xs) (map ?f xs) =
      Inr (map g xs, ddel (ddel d (k @ ''!'')) (k @ ''/''))"
  proof (cases "dget d (k @ ''/'')")
    case None
    then have "rules = []" using assms(3) by (simp add: optional_list_def)
    then have "map ?f xs = map g xs" using g(1) by simp
    moreover have "\<not> dhas (ddel d (k @ ''!'')) (k @ ''/'')" using None by (simp add: dhas_iff_dget)
    ultimately show ?thesis by (simp only: regex_actions_def ddel_absent) (simp add: ddel_absent)
  next
    case (Some v)
    then have "v = PList (map (\<lambda>(incl, p). regex_item incl p) rules)" using assms(3) by (simp add: optional_list_def)
    then show ?thesis using Some g(1) by (simp add: regex_actions_def list_value_def dict_get_def dhas_iff_dget)
  qed
  have z: "map fst (filter (\<lambda>p. P (snd p)) (zip (map PStr xs) (map g xs))) = map PStr (filter (\<lambda>x. P (g x)) xs)" for P
    by (induction xs) auto
  have m: "move_excluded (length xs) (map g xs) (map PStr xs) [] =
      (map PStr (filter (\<lambda>x. \<not> excluded_by es compiled x) xs), map PStr (filter (excluded_by es compiled) xs))"
    using move_excluded_all [of "map g xs" "map PStr xs"] z [of "\<lambda>a. a \<noteq> 0"] z [of "\<lambda>a. a = 0"] by (simp add: g0)
  show ?thesis using assms(1,5) exclude_strs [OF assms(2), of xs] r m
    by (simp add: filter_list_def list_value_def dict_get_def dhas_iff_dget filtered_def Let_def)
qed

section \<open>No filter remains\<close>

definition is_filter_key :: "string \<Rightarrow> bool" where
  "is_filter_key k \<longleftrightarrow> k \<noteq> [] \<and> (last k = CHR ''!'' \<or> last k = CHR ''/'')"

fun filter_free :: "pyval \<Rightarrow> bool" where
  "filter_free (PDict d) = list_all (\<lambda>(k, v). \<not> is_filter_key k \<and> filter_free v) d"
| "filter_free (PList l) = list_all filter_free l"
| "filter_free _ = True"

lemma filter_key_base: "is_filter_key k \<Longrightarrow> k = drop_last 1 k @ ''!'' \<or> k = drop_last 1 k @ ''/''"
  by (cases k rule: rev_cases) (auto simp: is_filter_key_def drop_last_def)

lemma collect_covers:
  assumes "foldM (collect_filter name d) (ls, ds) items = Inr (lks, dels)"
  shows "set ls \<subseteq> set lks \<and> set ds \<subseteq> set dels \<and>
    (\<forall>(k, v)\<in>set items. is_filter_key k \<longrightarrow> k \<in> set dels \<or> drop_last 1 k \<in> set lks)"
  using assms
proof (induction items arbitrary: ls ds)
  case (Cons item items)
  obtain k v where item: "item = (k, v)" by (cases item)
  obtain ls' ds' where s: "collect_filter name d (ls, ds) item = Inr (ls', ds')"
      and rest: "foldM (collect_filter name d) (ls', ds') items = Inr (lks, dels)"
    using Cons.prems by (auto simp: res_simps)
  have "set ls \<subseteq> set ls' \<and> set ds \<subseteq> set ds' \<and> (is_filter_key k \<longrightarrow> k \<in> set ds' \<or> drop_last 1 k \<in> set ls')"
    using s by (auto simp: item collect_filter_def is_filter_key_def Let_def split: if_splits option.splits pyval.splits)
  then show ?case using Cons.IH [OF rest] by (auto simp: item)
qed simp

lemma dkeys_foldl_ddel: "set (dkeys (foldl ddel d ks)) = set (dkeys d) - set ks"
  by (induction ks arbitrary: d) (auto simp: dkeys_ddel)

lemma filter_list_keys:
  assumes "filter_list name d k = Inr d'"
  shows "set (dkeys d') \<subseteq> insert (k @ ''_excluded'') (set (dkeys d) - {k @ ''!'', k @ ''/''})"
  using assms
proof (rule filter_list_Inr)
  fix l a2
  assume l: "dget d k = Some (PList l)"
    and d': "d' = filtered d k (map fst (filter (\<lambda>p. snd p \<noteq> 0) (zip l a2))) (map fst (filter (\<lambda>p. snd p = 0) (zip l a2)))"
  have "k \<in> set (dkeys d)" using l by (simp add: dkeys_iff_dget)
  then show ?thesis unfolding d' filtered_def Let_def by (auto simp: dkeys_ddel)
qed

lemma filter_lists_keys:
  assumes "foldM (filter_list name) d lks = Inr d'"
    and "\<forall>k\<in>set (dkeys d). is_filter_key k \<longrightarrow> drop_last 1 k \<in> set lks"
  shows "\<forall>k\<in>set (dkeys d'). \<not> is_filter_key k"
  using assms
proof (induction lks arbitrary: d)
  case (Cons l lks)
  obtain d1 where d1: "filter_list name d l = Inr d1" "foldM (filter_list name) d1 lks = Inr d'"
    using Cons.prems(1) by (auto simp: res_simps)
  have "drop_last 1 k \<in> set lks" if k: "k \<in> set (dkeys d1)" "is_filter_key k" for k
  proof -
    have "k \<noteq> l @ ''_excluded''" using k(2) by (auto simp: is_filter_key_def)
    then have "k \<in> set (dkeys d)" "k \<noteq> l @ ''!''" "k \<noteq> l @ ''/''" using filter_list_keys [OF d1(1)] k(1) by auto
    then show ?thesis using Cons.prems(2) k(2) filter_key_base [OF k(2)] by auto
  qed
  then show ?case using Cons.IH [OF d1(2)] by blast
qed auto

lemma filter_dict_keys:
  assumes "filter_dict name d = Inr d'"
  shows "\<forall>k\<in>set (dkeys d'). \<not> is_filter_key k"
proof -
  obtain lks dels where c: "foldM (collect_filter name d) ([], []) d = Inr (lks, dels)"
      and f: "foldM (filter_list name) (foldl ddel d dels) lks = Inr d'"
    using assms by (auto simp: filter_dict_def res_simps)
  have "drop_last 1 k \<in> set lks" if k: "k \<in> set (dkeys (foldl ddel d dels))" "is_filter_key k" for k
  proof -
    have "k \<in> set (dkeys d)" "k \<notin> set dels" using k(1) by (auto simp: dkeys_foldl_ddel)
    then obtain v where "(k, v) \<in> set d" by (auto simp: dkeys_def)
    then show ?thesis using collect_covers [OF c] k(2) \<open>k \<notin> set dels\<close> by blast
  qed
  then show ?thesis using filter_lists_keys [OF f] by blast
qed


lemma ProcessListFilters_free:
  "ProcessListFiltersInDict name d = Inr d' \<Longrightarrow> filter_free (PDict d')"
  "ProcessListFiltersInList name l = Inr l' \<Longrightarrow> filter_free (PList l')"
proof (induction name d and name l arbitrary: d' and l' rule: ProcessListFiltersInDict_ProcessListFiltersInList.induct)
  case (1 name d)
  let ?f = "\<lambda>(key, value). case value of
           PDict e \<Rightarrow> res_bind (ProcessListFiltersInDict key e) (\<lambda>e'. Inr (key, PDict e'))
         | PList l \<Rightarrow> res_bind (ProcessListFiltersInList key l) (\<lambda>l'. Inr (key, PList l'))
         | _ \<Rightarrow> Inr (key, value)"
  obtain d1 where d1: "filter_dict name d = Inr d1" "mapM ?f d1 = Inr d'"
    using 1(3) by (auto simp: ProcessListFiltersInDict.simps [of name d] res_simps)
  have "\<not> is_filter_key k \<and> filter_free v" if kv: "(k, v) \<in> set d'" for k v
  proof -
    obtain kv0 where kv0: "kv0 \<in> set d1" "?f kv0 = Inr (k, v)" using mapM_Inr_mem [OF d1(2) kv] by (elim bexE)
    obtain k0 v0 where e: "kv0 = (k0, v0)" by (cases kv0)
    have m: "(k0, v0) \<in> set d1" and m2: "?f (k0, v0) = Inr (k, v)" using kv0 unfolding e .
    have k: "k0 = k" using m2 by (auto simp: res_simps split: pyval.splits)
    have "filter_free v"
    proof (cases v0)
      case (PList l)
      then show ?thesis using m m2 1(1) [OF d1(1), of "(k0, v0)" k0 v0 l] by (auto simp: res_simps)
    next
      case (PDict e)
      then show ?thesis using m m2 1(2) [OF d1(1), of "(k0, v0)" k0 v0 e] by (auto simp: res_simps)
    qed (use m2 in auto)
    moreover have "k0 \<in> set (dkeys d1)" using m by (force simp: dkeys_def)
    ultimately show ?thesis using filter_dict_keys [OF d1(1)] k by auto
  qed
  then show ?case by (auto simp: list_all_iff)
next
  case (2 name l)
  let ?f = "\<lambda>item. case item of
         PDict e \<Rightarrow> res_bind (ProcessListFiltersInDict name e) (\<lambda>e'. Inr (PDict e'))
       | PList l \<Rightarrow> res_bind (ProcessListFiltersInList name l) (\<lambda>l'. Inr (PList l'))
       | _ \<Rightarrow> Inr item"
  have m: "mapM ?f l = Inr l'" using 2(3) by (simp add: ProcessListFiltersInList.simps [of name l])
  have "filter_free v" if vl: "v \<in> set l'" for v
  proof -
    obtain w where v: "w \<in> set l" "?f w = Inr v" using mapM_Inr_mem [OF m vl] by (elim bexE)
    show ?thesis
    proof (cases w)
      case (PList l0)
      then show ?thesis using v 2(1) [OF v(1), of l0] by (auto simp: res_simps)
    next
      case (PDict e)
      then show ?thesis using v 2(2) [OF v(1), of e] by (auto simp: res_simps)
    qed (use v in auto)
  qed
  then show ?case by (simp add: list_all_iff)
qed

text \<open>
  C25. When \<open>ProcessListFiltersInDict\<close> returns, no key that ends in \<open>!\<close> or \<open>/\<close> is left, at any depth.
\<close>

theorem ProcessListFilters_leaves_none:
  assumes "ProcessListFiltersInDict name d = Inr d'"
  shows "filter_free (PDict d')"
  by (rule ProcessListFilters_free(1) [OF assms])

theorem filter_list_correct_witness:
  "filter_list [] [(''s'', PList (map PStr [''a'', ''b''])), (''s!'', PList (map PStr [''a'']))] ''s''
   = Inr (filtered [(''s'', PList (map PStr [''a'', ''b''])), (''s!'', PList (map PStr [''a'']))] ''s'' (map PStr [''b'']) (map PStr [''a'']))"
proof -
  have "filter (\<lambda>x. \<not> excluded_by [''a''] [] x) [''a'', ''b''] = [''b'']" "filter (excluded_by [''a''] []) [''a'', ''b''] = [''a'']"
    by (simp_all add: excluded_by_def)
  then show ?thesis
    using filter_list_correct [of "[(''s'', PList (map PStr [''a'', ''b''])), (''s!'', PList (map PStr [''a'']))]" "''s''"
      "[''a'', ''b'']" "[''a'']" "[]" "[]" "[]"]
    by (simp add: optional_list_def dhas_def)
qed

theorem ProcessListFilters_leaves_none_witness:
  "\<exists>d'. ProcessListFiltersInDict [] [(''s!'', PList [PStr ''a'']), (''t'', PInt 1)] = Inr d' \<and> filter_free (PDict d')"
proof -
  have "ProcessListFiltersInDict [] [(''s!'', PList [PStr ''a'']), (''t'', PInt 1)] = Inr [(''t'', PInt 1)]"
    by (simp add: ProcessListFiltersInDict.simps filter_dict_def collect_filter_def drop_last_def ddel_def)
  from ProcessListFilters_leaves_none [OF this] this show ?thesis by blast
qed

end
