(* ===== verification/Gyp_Targets.thy ===== *)
theory Gyp_Targets
  imports Gyp_Graph Gyp_Merge Gyp_Filters
begin

text \<open>
  The functions of \<open>gyp/input.py\<close> that work on the dictionary of all targets before and after the graph
  is built: collecting the targets, qualifying and expanding their dependencies, removing
  dependencies, pruning, and the validation of targets. The target dictionaries that \<open>data\<close> and
  \<open>targets\<close> share in the program are values here: the functions on \<open>targets\<close> return the new ones, and
  those that read \<open>data\<close> read keys that the others leave alone.
\<close>

section \<open>Collecting the targets\<close>

type_synonym targets = "(string, pydict) dict"

definition str_key :: "pydict \<Rightarrow> string \<Rightarrow> string res" where
  "str_key d k = res_bind (dict_get d k) as_str"

text \<open>\<open>d.get(k, [])\<close> as a list of dictionaries, of values.\<close>

definition dicts_of :: "pydict \<Rightarrow> string \<Rightarrow> pydict list res" where
  "dicts_of d k = (case dget d k of None \<Rightarrow> Inr [] | Some v \<Rightarrow> res_bind (as_list v) (mapM as_dict))"

definition values_of :: "pydict \<Rightarrow> string \<Rightarrow> pyval list res" where
  "values_of d k = (case dget d k of None \<Rightarrow> Inr [] | Some v \<Rightarrow> as_list v)"

definition qualified_name :: "string \<Rightarrow> pydict \<Rightarrow> string res" where
  "qualified_name build_file target =
     res_bind (str_key target ''target_name'') (\<lambda>name.
     res_bind (str_key target ''toolset'') (\<lambda>toolset.
       Inr (QualifiedTarget build_file name toolset)))"

definition duplicate_target :: "string \<Rightarrow> py_error" where
  "duplicate_target name = GypError (''Duplicate target definitions for '' @ name)"

definition BuildTargetsDict :: "string list \<Rightarrow> (string, pydict) dict \<Rightarrow> targets res" where
  "BuildTargetsDict target_build_files data =
     foldM (\<lambda>targets build_file.
       res_bind (dict_get data build_file) (\<lambda>file_data.
       res_bind (dicts_of file_data ''targets'') (\<lambda>ts.
         foldM (\<lambda>targets target.
           res_bind (qualified_name build_file target) (\<lambda>target_name.
             if dhas targets target_name then Inl (duplicate_target target_name)
             else Inr (dset targets target_name target))) targets ts))) [] target_build_files"

section \<open>Qualifying dependencies\<close>

definition dependency_sections :: "string list" where
  "dependency_sections = [''dependencies'', ''export_dependent_settings'']"

definition all_dependency_sections :: "string list" where
  "all_dependency_sections = concat (map (\<lambda>dep. map (\<lambda>op. dep @ op) [[], ''!'', ''/'']) dependency_sections)"

definition qualify_item ::
  "(string \<Rightarrow> string) \<Rightarrow> bool \<Rightarrow> string option \<Rightarrow> string \<Rightarrow> pyval \<Rightarrow> string res" where
  "qualify_item realpath multiple_toolsets target_build_file toolset item =
     (case item of
        PStr dep \<Rightarrow>
          (case target_build_file of
             None \<Rightarrow> Inl (TypeError ''unsupported operand type(s) for +'')
           | Some bf \<Rightarrow>
               let (dep_file, dep_target, dep_toolset) = ResolveTarget realpath bf dep (Some toolset);
                   ts = (if \<not> multiple_toolsets then toolset else case dep_toolset of None \<Rightarrow> [] | Some t \<Rightarrow> t)
               in Inr (QualifiedTarget dep_file dep_target ts))
      | _ \<Rightarrow> Inl (AttributeError ''rsplit''))"

definition qualify_section ::
  "(string \<Rightarrow> string) \<Rightarrow> bool \<Rightarrow> string \<Rightarrow> pydict \<Rightarrow> string \<Rightarrow> pydict res" where
  "qualify_section realpath multiple_toolsets target target_dict dependency_key =
     (if \<not> dhas target_dict dependency_key then Inr target_dict
      else res_bind (str_key target_dict ''toolset'') (\<lambda>toolset.
           res_bind (values_of target_dict dependency_key) (\<lambda>dependencies.
           res_bind (foldM (\<lambda>done item.
             res_bind (qualify_item realpath multiple_toolsets (BuildFile target) toolset item) (\<lambda>dependency.
               if dependency_key \<noteq> ''dependencies'' then
                 res_bind (res_bind (dict_get target_dict ''dependencies'') as_list) (\<lambda>ds.
                   if PStr dependency \<notin> set ds
                   then Inl (GypError (''Found '' @ dependency @ '' in '' @ dependency_key @ '' of '' @ target @ '', but not in dependencies''))
                   else Inr (done @ [PStr dependency]))
               else Inr (done @ [PStr dependency]))) [] dependencies) (\<lambda>new.
             Inr (dset target_dict dependency_key (PList new))))))"

definition QualifyDependencies :: "(string \<Rightarrow> string) \<Rightarrow> bool \<Rightarrow> targets \<Rightarrow> targets res" where
  "QualifyDependencies realpath multiple_toolsets targets =
     mapM (\<lambda>(target, target_dict).
       res_bind (str_key target_dict ''toolset'') (\<lambda>_.
       res_bind (foldM (qualify_section realpath multiple_toolsets target) target_dict all_dependency_sections) (\<lambda>d.
         Inr (target, d)))) targets"

section \<open>Wildcards\<close>

text \<open>\<open>int(v)\<close>.\<close>

definition int_of_str :: "string \<Rightarrow> int res" where
  "int_of_str s =
     (let t = strip s; neg = startswith t ''-''; u = (if neg \<or> startswith t ''+'' then tl t else t)
      in if u \<noteq> [] \<and> list_all is_digit u then Inr (if neg then - int (digits_val u) else int (digits_val u))
         else Inl (ValueError (''invalid literal for int() with base 10: '' @ sq s)))"

definition py_int :: "pyval \<Rightarrow> int res" where
  "py_int v = (case v of
       PInt i \<Rightarrow> Inr i
     | PStr s \<Rightarrow> int_of_str s
     | _ \<Rightarrow> Inl (TypeError ''int() argument must be a string or a number''))"

text \<open>The name that a target of another file contributes to a wildcard, if it does.\<close>

definition wildcard_match ::
  "string option \<Rightarrow> string \<Rightarrow> string option \<Rightarrow> pydict \<Rightarrow> string option res" where
  "wildcard_match build_file target toolset d =
     res_bind (case dget d ''suppress_wildcard'' of None \<Rightarrow> Inr 0 | Some v \<Rightarrow> py_int v) (\<lambda>suppress.
     if suppress \<noteq> 0 then Inr None
     else res_bind (str_key d ''target_name'') (\<lambda>name.
     if target \<noteq> ''*'' \<and> target \<noteq> name then Inr None
     else res_bind (str_key d ''toolset'') (\<lambda>ts.
     if toolset \<noteq> Some ''*'' \<and> toolset \<noteq> Some ts then Inr None
     else case build_file of
            None \<Rightarrow> Inl (TypeError ''unsupported operand type(s) for +'')
          | Some bf \<Rightarrow> Inr (Some (QualifiedTarget bf name ts)))))"

definition wildcard_targets ::
  "(string, pydict) dict \<Rightarrow> string option \<Rightarrow> string \<Rightarrow> string option \<Rightarrow> string list res" where
  "wildcard_targets data build_file target toolset =
     (case build_file of
        None \<Rightarrow> Inl (KeyError ''None'')
      | Some bf \<Rightarrow>
          res_bind (dict_get data bf) (\<lambda>file_data.
          res_bind (res_bind (dict_get file_data ''targets'') as_list) (\<lambda>l.
          res_bind (mapM as_dict l) (\<lambda>ds.
          res_bind (mapM (wildcard_match build_file target toolset) ds) (\<lambda>ms.
            Inr (map the (filter (\<lambda>m. m \<noteq> None) ms)))))))"

definition is_wildcard :: "string \<Rightarrow> bool" where
  "is_wildcard dep =
     (let (_, target, toolset) = ParseQualifiedTarget dep in target = ''*'' \<or> toolset = Some ''*'')"

definition expand_wildcard ::
  "(string, pydict) dict \<Rightarrow> string \<Rightarrow> string \<Rightarrow> string \<Rightarrow> string list res" where
  "expand_wildcard data target dependency_key dep =
     (let (build_file, dep_target, dep_toolset) = ParseQualifiedTarget dep
      in if build_file = BuildFile target
         then Inl (GypError (''Found wildcard in '' @ dependency_key @ '' of '' @ target @ '' referring to same build file''))
         else wildcard_targets data build_file dep_target dep_toolset)"

text \<open>The \<open>while\<close> loop over the index: the wildcard is deleted, and the targets that it stands for are
  inserted one after the other.\<close>

definition insert_all :: "string list \<Rightarrow> nat \<Rightarrow> string list \<Rightarrow> string list \<times> nat" where
  "insert_all ds index new = foldl (\<lambda>(ds, i) d. (list_insert i d ds, Suc i)) (ds, index) new"

lemma insert_all_eq:
  "i \<le> length ds \<Longrightarrow> insert_all ds i new = (take i ds @ new @ drop i ds, i + length new)"
proof (induction new arbitrary: ds i)
  case (Cons d new)
  have "insert_all ds i (d # new) = insert_all (list_insert i d ds) (Suc i) new" by (simp add: insert_all_def)
  moreover have "Suc i \<le> length (list_insert i d ds)" using Cons.prems by (simp add: list_insert_def)
  ultimately show ?case using Cons.IH [of "Suc i" "list_insert i d ds"] Cons.prems
    by (simp add: list_insert_def min_def)
qed (simp add: insert_all_def)

function expand_loop :: "(string, pydict) dict \<Rightarrow> string \<Rightarrow> string \<Rightarrow> nat \<Rightarrow> string list \<Rightarrow> string list res" where
  "expand_loop data target dependency_key index dependencies =
     (if index < length dependencies then
        let dep = dependencies ! index in
        if \<not> is_wildcard dep then expand_loop data target dependency_key (Suc index) dependencies
        else res_bind (expand_wildcard data target dependency_key dep) (\<lambda>new.
               expand_loop data target dependency_key
                 (snd (insert_all (take index dependencies @ drop (Suc index) dependencies) index new))
                 (fst (insert_all (take index dependencies @ drop (Suc index) dependencies) index new)))
      else Inr dependencies)"
  by pat_completeness auto
termination
  by (relation "measure (\<lambda>(_, _, _, index, ds). length ds - index)") (auto simp: insert_all_eq)

declare expand_loop.simps [simp del]

definition expand_section :: "(string, pydict) dict \<Rightarrow> string \<Rightarrow> pydict \<Rightarrow> string \<Rightarrow> pydict res" where
  "expand_section data target target_dict dependency_key =
     (if \<not> dhas target_dict dependency_key then Inr target_dict
      else res_bind (res_bind (values_of target_dict dependency_key) (mapM as_str)) (\<lambda>dependencies.
           res_bind (expand_loop data target dependency_key 0 dependencies) (\<lambda>new.
             Inr (dset target_dict dependency_key (PList (map PStr new))))))"

definition ExpandWildcardDependencies :: "targets \<Rightarrow> (string, pydict) dict \<Rightarrow> targets res" where
  "ExpandWildcardDependencies targets data =
     mapM (\<lambda>(target, target_dict).
       res_bind (dict_get target_dict ''toolset'') (\<lambda>_.
       res_bind (foldM (expand_section data target) target_dict dependency_sections) (\<lambda>d.
         Inr (target, d)))) targets"


section \<open>Removing dependencies\<close>

text \<open>Both list comprehensions put the items in a dictionary, which needs them hashable.\<close>

definition Unify :: "pyval list \<Rightarrow> pyval list res" where
  "Unify l = foldM (\<lambda>out e. if \<not> is_hashable e then Inl (TypeError ''unhashable type'') else Inr (add_new out e)) [] l"

definition Filter :: "pyval list \<Rightarrow> pyval \<Rightarrow> pyval list res" where
  "Filter l item =
     foldM (\<lambda>out e. if e = item then Inr out
       else if \<not> is_hashable e then Inl (TypeError ''unhashable type'') else Inr (out @ [e])) [] l"

definition RemoveDuplicateDependencies :: "targets \<Rightarrow> targets res" where
  "RemoveDuplicateDependencies targets =
     mapM (\<lambda>(target_name, target_dict).
       res_bind (foldM (\<lambda>d dependency_key.
         res_bind (values_of d dependency_key) (\<lambda>dependencies.
           if dependencies \<noteq> [] then res_bind (Unify dependencies) (\<lambda>l. Inr (dset d dependency_key (PList l)))
           else Inr d)) target_dict dependency_sections) (\<lambda>d. Inr (target_name, d))) targets"

text \<open>\<open>d.get('variables', {}).get(name, 0)\<close>.\<close>

definition variable_flag :: "pydict \<Rightarrow> string \<Rightarrow> bool res" where
  "variable_flag d name =
     (case dget d ''variables'' of
        None \<Rightarrow> Inr False
      | Some (PDict vs) \<Rightarrow> Inr (case dget vs name of None \<Rightarrow> False | Some v \<Rightarrow> truthy v)
      | Some _ \<Rightarrow> Inl (AttributeError ''get''))"

definition RemoveSelfDependencies :: "targets \<Rightarrow> targets res" where
  "RemoveSelfDependencies targets =
     mapM (\<lambda>(target_name, target_dict).
       res_bind (foldM (\<lambda>d dependency_key.
         res_bind (values_of d dependency_key) (\<lambda>dependencies.
           foldM (\<lambda>d t. if t = PStr target_name then
               res_bind (variable_flag d ''prune_self_dependency'') (\<lambda>flag.
                 if flag then res_bind (Filter dependencies (PStr target_name)) (\<lambda>l. Inr (dset d dependency_key (PList l)))
                 else Inr d)
             else Inr d) d dependencies)) target_dict dependency_sections) (\<lambda>d. Inr (target_name, d))) targets"

text \<open>The flag of another target; of the target itself, the dictionary as it is now.\<close>

definition link_flag :: "targets \<Rightarrow> string \<Rightarrow> pydict \<Rightarrow> pyval \<Rightarrow> bool res" where
  "link_flag targets target_name d t =
     (case t of
        PStr n \<Rightarrow> if n = target_name then variable_flag d ''link_dependency''
                  else res_bind (dict_get targets n) (\<lambda>td. variable_flag td ''link_dependency'')
      | PInt i \<Rightarrow> Inl (KeyError (int_str i))
      | _ \<Rightarrow> Inl (TypeError ''unhashable type''))"

definition RemoveLinkDependenciesFromNoneTargets :: "targets \<Rightarrow> targets res" where
  "RemoveLinkDependenciesFromNoneTargets targets =
     mapM (\<lambda>(target_name, target_dict).
       res_bind (foldM (\<lambda>d dependency_key.
         res_bind (values_of d dependency_key) (\<lambda>dependencies.
           foldM (\<lambda>d t. if dget d ''type'' = Some (PStr ''none'') then
               res_bind (link_flag targets target_name d t) (\<lambda>flag.
                 if flag then
                   res_bind (values_of d dependency_key) (\<lambda>cur.
                   res_bind (Filter cur t) (\<lambda>l. Inr (dset d dependency_key (PList l))))
                 else Inr d)
             else Inr d) d dependencies)) target_dict dependency_sections) (\<lambda>d. Inr (target_name, d))) targets"

section \<open>Pruning and collisions\<close>

definition root_names :: "string list \<Rightarrow> string list \<Rightarrow> string list res" where
  "root_names root_targets flat_list =
     foldM (\<lambda>qualified target.
       let t = strip target; qualified_targets = FindQualifiedTargets t flat_list
       in if qualified_targets = [] then Inl (GypError (''Could not find target '' @ t))
          else Inr (qualified @ qualified_targets)) [] root_targets"

definition want :: "targets \<Rightarrow> targets \<Rightarrow> string \<Rightarrow> targets res" where
  "want targets wanted t = res_bind (dict_get targets t) (\<lambda>d. Inr (dset wanted t d))"

definition wanted_targets :: "nat \<Rightarrow> targets \<Rightarrow> graph \<Rightarrow> string list \<Rightarrow> targets res" where
  "wanted_targets n targets dependency_nodes roots =
     foldM (\<lambda>wanted target.
       res_bind (want targets wanted target) (\<lambda>w1.
       res_bind (DeepDependencies n dependency_nodes (Some target) []) (\<lambda>deps.
         foldM (want targets) w1 deps))) [] roots"

definition prune_file :: "targets \<Rightarrow> string \<Rightarrow> pydict \<Rightarrow> pydict res" where
  "prune_file wanted build_file file_data =
     (if \<not> dhas file_data ''targets'' then Inr file_data
      else res_bind (dicts_of file_data ''targets'') (\<lambda>ts.
           res_bind (mapM (\<lambda>t. res_bind (qualified_name build_file t) (\<lambda>q. Inr (dhas wanted q, t))) ts) (\<lambda>flags.
             Inr (dset file_data ''targets'' (PList (map (PDict \<circ> snd) (filter fst flags)))))))"

definition PruneUnwantedTargets ::
  "nat \<Rightarrow> targets \<Rightarrow> string list \<Rightarrow> graph \<Rightarrow> string list \<Rightarrow> string list \<Rightarrow> (string, pydict) dict
    \<Rightarrow> (targets \<times> string list \<times> (string, pydict) dict) res" where
  "PruneUnwantedTargets n targets flat_list dependency_nodes root_targets target_build_files data =
     res_bind (root_names root_targets flat_list) (\<lambda>roots.
     res_bind (wanted_targets n targets dependency_nodes roots) (\<lambda>wanted.
     res_bind (foldM (\<lambda>data build_file.
         res_bind (dict_get data build_file) (\<lambda>fd.
         res_bind (prune_file wanted build_file fd) (\<lambda>fd'. Inr (dset data build_file fd')))) data target_build_files) (\<lambda>data'.
       Inr (wanted, filter (dhas wanted) flat_list, data'))))"

definition collision_key :: "string \<Rightarrow> (string \<times> string \<times> string) option" where
  "collision_key target =
     (case rsplit1 (CHR '':'') target of
        None \<Rightarrow> None
      | Some (path, name) \<Rightarrow>
          let (subdir0, gyp) = path_split path; subdir = (if subdir0 = [] then ''.'' else subdir0)
          in Some (subdir, name, gyp))"

definition collision_error :: "string \<Rightarrow> string \<Rightarrow> string \<Rightarrow> string \<Rightarrow> py_error" where
  "collision_error name subdir gyp other =
     GypError (''Duplicate target name \"'' @ name @ ''\" in directory \"'' @ subdir
       @ ''\" used both in \"'' @ gyp @ ''\" and \"'' @ other @ ''\".'')"

definition verify_target :: "(string, string) dict \<Rightarrow> string \<Rightarrow> (string, string) dict res" where
  "verify_target used target =
     (case collision_key target of
        None \<Rightarrow> Inl (ValueError ''need more than 1 value to unpack'')
      | Some (subdir, name, gyp) \<Rightarrow>
          (case dget used (subdir @ '':'' @ name) of
             Some other \<Rightarrow> Inl (collision_error name subdir gyp other)
           | None \<Rightarrow> Inr (dset used (subdir @ '':'' @ name) gyp)))"

definition VerifyNoCollidingTargets :: "string list \<Rightarrow> (string, string) dict res" where
  "VerifyNoCollidingTargets targets = foldM verify_target [] targets"

section \<open>Properties of the collection\<close>

text \<open>The targets of all files with their names, in order.\<close>

definition file_targets :: "(string, pydict) dict \<Rightarrow> string \<Rightarrow> (string \<times> pydict) list res" where
  "file_targets data build_file =
     res_bind (dict_get data build_file) (\<lambda>file_data.
     res_bind (dicts_of file_data ''targets'') (\<lambda>ts.
       mapM (\<lambda>t. res_bind (qualified_name build_file t) (\<lambda>q. Inr (q, t))) ts))"

definition first_duplicate :: "string list \<Rightarrow> string list \<Rightarrow> string \<Rightarrow> bool" where
  "first_duplicate seen names x \<longleftrightarrow> (\<exists>a b. names = a @ x # b \<and> distinct a \<and> set a \<inter> set seen = {} \<and> (x \<in> set seen \<or> x \<in> set a))"

definition collect_result :: "targets \<Rightarrow> (string \<times> pydict) list \<Rightarrow> targets res \<Rightarrow> bool" where
  "collect_result acc pairs r \<longleftrightarrow>
     (if distinct (map fst (acc @ pairs)) then r = Inr (acc @ pairs)
      else \<exists>x. first_duplicate (map fst acc) (map fst pairs) x \<and> r = Inl (duplicate_target x))"

definition add_target :: "targets \<Rightarrow> string \<times> pydict \<Rightarrow> targets res" where
  "add_target targets = (\<lambda>(name, target).
     if dhas targets name then Inl (duplicate_target name)
     else Inr (dset targets name target))"

lemma add_targets_result:
  assumes "distinct (map fst acc)"
  shows "collect_result acc pairs (foldM add_target acc pairs)"
  using assms
proof (induction pairs arbitrary: acc)
  case Nil
  then show ?case by (simp add: collect_result_def)
next
  case (Cons p pairs)
  obtain n t where p: "p = (n, t)" by (cases p)
  show ?case
  proof (cases "dhas acc n")
    case True
    then have "n \<in> set (map fst acc)" by (auto simp: dhas_def)
    then have "first_duplicate (map fst acc) (map fst (p # pairs)) n"
      unfolding first_duplicate_def by (intro exI [of _ "[]"] exI [of _ "map fst pairs"]) (simp add: p)
    moreover have "\<not> distinct (map fst (acc @ p # pairs))" using \<open>n \<in> set (map fst acc)\<close> by (auto simp: p)
    ultimately show ?thesis using True by (auto simp: collect_result_def add_target_def p)
  next
    case False
    then have new: "dset acc n t = acc @ [(n, t)]" "n \<notin> set (map fst acc)"
      by (simp add: dset_fresh dhas_iff_dget) (use False in \<open>simp add: dhas_def\<close>)
    have r: "collect_result (acc @ [(n, t)]) pairs (foldM add_target (acc @ [(n, t)]) pairs)"
      by (rule Cons.IH) (use Cons.prems new in auto)
    have dup: "first_duplicate (map fst acc) (n # map fst pairs) x" if fd: "first_duplicate (map fst (acc @ [(n, t)])) (map fst pairs) x" for x
    proof -
      obtain a b where ab: "map fst pairs = a @ x # b" "distinct a" "set a \<inter> set (map fst (acc @ [(n, t)])) = {}"
          "x \<in> set (map fst (acc @ [(n, t)])) \<or> x \<in> set a"
        using fd unfolding first_duplicate_def by blast
      then show ?thesis unfolding first_duplicate_def by (intro exI [of _ "n # a"] exI [of _ b]) (use new in auto)
    qed
    have "add_target acc p = Inr (acc @ [(n, t)])" using False by (simp add: add_target_def p new(1))
    then have step: "foldM add_target acc (p # pairs) = foldM add_target (acc @ [(n, t)]) pairs" by simp
    have eq: "acc @ p # pairs = (acc @ [(n, t)]) @ pairs" "map fst (p # pairs) = n # map fst pairs" by (simp_all add: p)
    show ?thesis unfolding collect_result_def step eq
      using r [unfolded collect_result_def] dup by (meson if_split)
  qed
qed

lemma BuildTargetsDict_foldM:
  assumes "mapM (file_targets data) files = Inr parts"
  shows "foldM (\<lambda>targets build_file.
       res_bind (dict_get data build_file) (\<lambda>file_data.
       res_bind (dicts_of file_data ''targets'') (\<lambda>ts.
         foldM (\<lambda>targets target.
           res_bind (qualified_name build_file target) (\<lambda>target_name.
             if dhas targets target_name then Inl (duplicate_target target_name)
             else Inr (dset targets target_name target))) targets ts))) acc files
    = foldM add_target acc (concat parts)"
  using assms
proof (induction files arbitrary: parts acc)
  case (Cons f files)
  obtain p ps where p: "file_targets data f = Inr p" "mapM (file_targets data) files = Inr ps" "parts = p # ps"
    using Cons.prems by (auto simp: res_simps)
  obtain fd ts where fd: "dict_get data f = Inr fd" "dicts_of fd ''targets'' = Inr ts"
      "mapM (\<lambda>t. res_bind (qualified_name f t) (\<lambda>q. Inr (q, t))) ts = Inr p"
    using p(1) unfolding file_targets_def res_bind_eq_Inr by blast
  have inner: "foldM (\<lambda>targets target.
           res_bind (qualified_name f target) (\<lambda>target_name.
             if dhas targets target_name then Inl (duplicate_target target_name)
             else Inr (dset targets target_name target))) acc ts = foldM add_target acc p" for acc
    using fd(3)
  proof (induction ts arbitrary: p acc)
    case (Cons t ts)
    then obtain q p' where "qualified_name f t = Inr q" "p = (q, t) # p'"
        "mapM (\<lambda>t. res_bind (qualified_name f t) (\<lambda>q. Inr (q, t))) ts = Inr p'"
      by (auto simp: res_simps)
    then show ?case using Cons.IH by (simp add: add_target_def)
  qed simp
  show ?case using Cons.IH [OF p(2)] by (simp add: fd p(3) inner foldM_append)
qed simp

text \<open>
  \<open>BuildTargetsDict\<close>, when every target has a name and a toolset: if the qualified names are all
  different, the result has exactly the targets of the files under their names; otherwise the call
  fails and names the first target whose name was used before.
\<close>

theorem BuildTargetsDict_correct:
  assumes "mapM (file_targets data) files = Inr parts"
  shows "if distinct (map fst (concat parts)) then BuildTargetsDict files data = Inr (concat parts)
    else \<exists>x. first_duplicate [] (map fst (concat parts)) x
      \<and> BuildTargetsDict files data = Inl (duplicate_target x)"
proof -
  have r: "collect_result [] (concat parts) (foldM add_target [] (concat parts))" by (rule add_targets_result) simp
  show ?thesis
    unfolding BuildTargetsDict_def BuildTargetsDict_foldM [OF assms]
    using r unfolding collect_result_def append_Nil list.map .
qed

section \<open>Properties of the wildcards\<close>

definition expand_one :: "(string, pydict) dict \<Rightarrow> string \<Rightarrow> string \<Rightarrow> string \<Rightarrow> string list res" where
  "expand_one data target dependency_key dep =
     (if is_wildcard dep then expand_wildcard data target dependency_key dep else Inr [dep])"

lemma expand_loop_split:
  "expand_loop data target key (length done) (done @ ds) =
     res_bind (mapM (expand_one data target key) ds) (\<lambda>parts. Inr (done @ concat parts))"
proof (induction ds arbitrary: "done")
  case Nil
  then show ?case by (simp add: expand_loop.simps)
next
  case (Cons d ds)
  show ?case
  proof (cases "is_wildcard d")
    case False
    have step: "expand_loop data target key (length done) (done @ d # ds) =
        expand_loop data target key (length (done @ [d])) ((done @ [d]) @ ds)"
      by (subst expand_loop.simps) (simp add: False)
    have one: "expand_one data target key d = Inr [d]" using False by (simp add: expand_one_def)
    show ?thesis unfolding step Cons by (simp add: one res_bind_assoc)
  next
    case True
    have step: "expand_loop data target key (length done) (done @ d # ds) =
        res_bind (expand_wildcard data target key d) (\<lambda>new. expand_loop data target key (length (done @ new)) ((done @ new) @ ds))"
      by (subst expand_loop.simps) (simp add: True insert_all_eq)
    have one: "expand_one data target key d = expand_wildcard data target key d" using True by (simp add: expand_one_def)
    show ?thesis unfolding step Cons by (simp add: one res_bind_assoc)
  qed
qed

text \<open>
  The loop of \<open>ExpandWildcardDependencies\<close>, which deletes from and inserts into the list it goes
  through, does what a pass over the list would do: each wildcard is replaced in place by the
  targets it stands for, which are not looked at again, and it always ends.
\<close>

theorem expand_loop_correct:
  "expand_loop data target key 0 ds =
     res_bind (mapM (expand_one data target key) ds) (\<lambda>parts. Inr (concat parts))"
  using expand_loop_split [of data target key "[]" ds] by simp


section \<open>Properties of collisions and duplicates\<close>

definition collision_name :: "string \<Rightarrow> string" where
  "collision_name t = (case collision_key t of None \<Rightarrow> [] | Some (subdir, name, _) \<Rightarrow> subdir @ '':'' @ name)"

lemma verify_target_Inr:
  "verify_target used t = Inr used' \<longleftrightarrow>
     CHR '':'' \<in> set t \<and> collision_name t \<notin> set (dkeys used) \<and> (\<exists>gyp. used' = dset used (collision_name t) gyp \<and> map_option (snd \<circ> snd) (collision_key t) = Some gyp)"
proof (cases "collision_key t")
  case None
  then have "CHR '':'' \<notin> set t" by (auto simp: collision_key_def rsplit1_def Let_def split: if_splits prod.splits)
  then show ?thesis using None by (simp add: verify_target_def)
next
  case (Some k)
  obtain subdir name gyp where k: "k = (subdir, name, gyp)" by (cases k)
  have "CHR '':'' \<in> set t" using Some by (auto simp: collision_key_def rsplit1_def split: if_splits)
  then show ?thesis using Some
    by (auto simp: k verify_target_def collision_name_def dkeys_iff_dget split: option.splits)
qed

lemma verify_target_returns:
  "(\<exists>u. foldM verify_target used ts = Inr u)
   \<longleftrightarrow> list_all (\<lambda>t. CHR '':'' \<in> set t) ts \<and> distinct (map collision_name ts)
     \<and> set (map collision_name ts) \<inter> set (dkeys used) = {}"
proof (induction ts arbitrary: used)
  case (Cons t ts)
  show ?case
  proof (cases "verify_target used t")
    case (Inl e)
    have "\<not> (CHR '':'' \<in> set t \<and> collision_name t \<notin> set (dkeys used))"
    proof
      assume a: "CHR '':'' \<in> set t \<and> collision_name t \<notin> set (dkeys used)"
      then have "collision_key t \<noteq> None" by (simp add: collision_key_def rsplit1_def split: option.splits prod.splits)
      with a have "\<exists>u. verify_target used t = Inr u" unfolding verify_target_Inr by auto
      then show False using Inl by simp
    qed
    then show ?thesis using Inl by auto
  next
    case (Inr u1)
    then have "CHR '':'' \<in> set t" "collision_name t \<notin> set (dkeys used)" "set (dkeys u1) = insert (collision_name t) (set (dkeys used))"
      unfolding verify_target_Inr by auto
    then show ?thesis using Cons [of u1] Inr by auto
  qed
qed simp


lemma Unify_loop:
  "foldM (\<lambda>out e. if \<not> is_hashable e then Inl (TypeError ''unhashable type'') else Inr (add_new out e)) out l = Inr r \<Longrightarrow>
     r = foldl add_new out l"
  by (induction l arbitrary: out) (auto split: if_splits)

lemma Unify_set: "Unify l = Inr r \<Longrightarrow> distinct r \<and> set r = set l"
proof -
  assume "Unify l = Inr r"
  then have r: "r = foldl add_new [] l" unfolding Unify_def by (rule Unify_loop)
  have "distinct out \<Longrightarrow> distinct (foldl add_new out l) \<and> set (foldl add_new out l) = set out \<union> set l" for out
    by (induction l arbitrary: out) auto
  from this [of "[]"] show ?thesis by (simp add: r)
qed


section \<open>Properties of pruning\<close>

definition root_set :: "string list \<Rightarrow> string list \<Rightarrow> string set" where
  "root_set root_targets flat_list =
     {t \<in> set flat_list. fst (snd (ParseQualifiedTarget t)) \<in> strip ` set root_targets}"

lemma root_names_set: "root_names root_targets flat_list = Inr roots \<Longrightarrow> set roots = root_set root_targets flat_list"
proof -
  have "set roots = set acc \<union> root_set root_targets flat_list"
    if "foldM (\<lambda>qualified target.
       let t = strip target; qualified_targets = FindQualifiedTargets t flat_list
       in if qualified_targets = [] then Inl (GypError (''Could not find target '' @ t))
          else Inr (qualified @ qualified_targets)) acc root_targets = Inr roots" for acc roots
    using that
  proof (induction root_targets arbitrary: acc)
    case (Cons r rs)
    then have "set roots = set (acc @ FindQualifiedTargets (strip r) flat_list) \<union> root_set rs flat_list"
      by (auto simp: res_simps Let_def split: if_splits)
    then show ?case by (auto simp: FindQualifiedTargets_def root_set_def)
  qed (simp add: root_set_def)
  from this [of "[]"] show "root_names root_targets flat_list = Inr roots \<Longrightarrow> set roots = root_set root_targets flat_list"
    by (simp add: root_names_def)
qed

text \<open>The wanted targets are taken from \<open>targets\<close>.\<close>

definition part_of :: "targets \<Rightarrow> targets \<Rightarrow> bool" where
  "part_of wanted targets \<longleftrightarrow> (\<forall>t d. dget wanted t = Some d \<longrightarrow> dget targets t = Some d)"

lemma want_keys:
  "want targets w t = Inr w' \<Longrightarrow> set (dkeys w') = insert t (set (dkeys w)) \<and> (part_of w targets \<longrightarrow> part_of w' targets)"
  by (auto simp: want_def res_simps part_of_def split: if_splits)

lemma want_all_keys:
  "foldM (want targets) w ts = Inr w' \<Longrightarrow> set (dkeys w') = set ts \<union> set (dkeys w) \<and> (part_of w targets \<longrightarrow> part_of w' targets)"
proof (induction ts arbitrary: w)
  case (Cons t ts)
  then obtain w1 where "want targets w t = Inr w1" "foldM (want targets) w1 ts = Inr w'" by (auto simp: res_simps)
  then show ?case using Cons.IH [of w1] want_keys [of targets w t w1] by auto
qed simp

lemma wanted_targets_keys:
  assumes g: "wf_graph g N" "card N < n"
    and r: "foldM (\<lambda>wanted target.
       res_bind (want targets wanted target) (\<lambda>w1.
       res_bind (DeepDependencies n g (Some target) []) (\<lambda>deps.
         foldM (want targets) w1 deps))) w roots = Inr w'"
  shows "set (dkeys w') = set (dkeys w) \<union> (dep_edges g)\<^sup>* `` set roots \<and> (part_of w targets \<longrightarrow> part_of w' targets)"
  using r
proof (induction roots arbitrary: w)
  case (Cons t ts)
  obtain ds where ds: "DeepDependencies n g (Some t) [] = Inr ds" "set ds = (dep_edges g)\<^sup>+ `` {t}"
    using DeepDependencies_trancl [OF g, of t] by blast
  obtain w1 w2 where w1: "want targets w t = Inr w1" "foldM (want targets) w1 ds = Inr w2"
      and rest: "foldM (\<lambda>wanted target.
       res_bind (want targets wanted target) (\<lambda>w1.
       res_bind (DeepDependencies n g (Some target) []) (\<lambda>deps.
         foldM (want targets) w1 deps))) w2 ts = Inr w'"
    using Cons.prems by (auto simp: res_simps ds(1))
  have star: "(dep_edges g)\<^sup>* `` {t} = insert t ((dep_edges g)\<^sup>+ `` {t})"
    by (auto simp: rtrancl_eq_or_trancl)
  have "(dep_edges g)\<^sup>* `` set (t # ts) = (dep_edges g)\<^sup>* `` {t} \<union> (dep_edges g)\<^sup>* `` set ts" by auto
  then show ?case using Cons.IH [OF rest] want_keys [OF w1(1)] want_all_keys [OF w1(2)] ds(2) star by auto
qed simp

text \<open>
  \<open>PruneUnwantedTargets\<close> keeps exactly the targets with the name of a root target and all that they
  depend on, directly or not: as the entries of the returned dictionary, each with the dictionary it
  had, and in the returned list, in the order of the given one.
\<close>

theorem PruneUnwantedTargets_correct:
  assumes "wf_graph g N" and "card N < n"
    and "PruneUnwantedTargets n targets flat_list g root_targets files data = Inr (wanted, flat_list', data')"
  shows "set (dkeys wanted) = (dep_edges g)\<^sup>* `` root_set root_targets flat_list
    \<and> part_of wanted targets
    \<and> flat_list' = filter (\<lambda>t. t \<in> (dep_edges g)\<^sup>* `` root_set root_targets flat_list) flat_list"
proof -
  obtain roots where r: "root_names root_targets flat_list = Inr roots"
      and w: "wanted_targets n targets g roots = Inr wanted" and f: "flat_list' = filter (dhas wanted) flat_list"
    using assms(3) by (auto simp: PruneUnwantedTargets_def res_simps)
  have "set (dkeys wanted) = (dep_edges g)\<^sup>* `` root_set root_targets flat_list" "part_of wanted targets"
    using wanted_targets_keys [OF assms(1,2) w [unfolded wanted_targets_def]] root_names_set [OF r]
    by (auto simp: dkeys_def part_of_def)
  moreover have "dhas wanted = (\<lambda>t. t \<in> set (dkeys wanted))" by (auto simp: dhas_iff_dget dkeys_iff_dget)
  ultimately show ?thesis using f by simp
qed


definition demo_data :: "(string, pydict) dict" where
  "demo_data = [(''f'', [(''targets'', PList [PDict [(''target_name'', PStr ''a''), (''toolset'', PStr [])],
     PDict [(''target_name'', PStr ''a''), (''toolset'', PStr [])]])])]"

theorem BuildTargetsDict_correct_witness:
  "\<exists>x. BuildTargetsDict [''f''] demo_data = Inl (duplicate_target x)"
proof -
  obtain parts where p: "mapM (file_targets demo_data) [''f''] = Inr parts" "map fst (concat parts) = [''f:a'', ''f:a'']"
    by (simp add: file_targets_def demo_data_def dict_get_def dicts_of_def qualified_name_def str_key_def QualifiedTarget_def)
  from BuildTargetsDict_correct [OF p(1)] show ?thesis unfolding p(2) by auto
qed

theorem PruneUnwantedTargets_correct_witness:
  "\<exists>g w fl d. build_graph [(''f:b'', [(''dependencies'', PList [PStr ''f:a''])]), (''f:a'', []), (''f:c'', [])] = Inr g
     \<and> PruneUnwantedTargets 9 [(''f:b'', [(''dependencies'', PList [PStr ''f:a''])]), (''f:a'', []), (''f:c'', [])]
         [''f:a'', ''f:b'', ''f:c''] g ['' b''] [] [] = Inr (w, fl, d)
     \<and> fl = filter (\<lambda>t. t \<in> (dep_edges g)\<^sup>* `` root_set ['' b''] [''f:a'', ''f:b'', ''f:c'']) [''f:a'', ''f:b'', ''f:c'']"
proof -
  let ?ts = "[(''f:b'', [(''dependencies'', PList [PStr ''f:a''])]), (''f:a'', []), (''f:c'', [])]"
  have "valid_targets ?ts"
    by (simp add: valid_targets_def wf_dict_def spec_dependencies_def dep_names_def dhas_def)
  from build_graph_wf [OF this] obtain g where g: "build_graph ?ts = Inr g" "wf_graph g (set (dkeys ?ts))" by blast
  have c: "card (set (dkeys ?ts)) < 9" by (simp add: dkeys_def)
  have "build_graph ?ts = Inr [(Some ''f:b'', \<lparr>dg_dependencies = [Some ''f:a''], dg_dependents = []\<rparr>),
      (Some ''f:a'', \<lparr>dg_dependencies = [None], dg_dependents = [Some ''f:b'']\<rparr>),
      (None, \<lparr>dg_dependencies = [], dg_dependents = [Some ''f:a'', Some ''f:c'']\<rparr>),
      (Some ''f:c'', \<lparr>dg_dependencies = [None], dg_dependents = []\<rparr>)]"
    by code_simp
  then have "g = [(Some ''f:b'', \<lparr>dg_dependencies = [Some ''f:a''], dg_dependents = []\<rparr>),
      (Some ''f:a'', \<lparr>dg_dependencies = [None], dg_dependents = [Some ''f:b'']\<rparr>),
      (None, \<lparr>dg_dependencies = [], dg_dependents = [Some ''f:a'', Some ''f:c'']\<rparr>),
      (Some ''f:c'', \<lparr>dg_dependencies = [None], dg_dependents = []\<rparr>)]" using g(1) by simp
  moreover have "\<exists>w fl. PruneUnwantedTargets 9 ?ts [''f:a'', ''f:b'', ''f:c''] [(Some ''f:b'', \<lparr>dg_dependencies = [Some ''f:a''], dg_dependents = []\<rparr>),
      (Some ''f:a'', \<lparr>dg_dependencies = [None], dg_dependents = [Some ''f:b'']\<rparr>),
      (None, \<lparr>dg_dependencies = [], dg_dependents = [Some ''f:a'', Some ''f:c'']\<rparr>),
      (Some ''f:c'', \<lparr>dg_dependencies = [None], dg_dependents = []\<rparr>)] ['' b''] [] [] = Inr (w, fl, [])"
    by (intro exI [of _ "[(''f:b'', [(''dependencies'', PList [PStr ''f:a''])]), (''f:a'', [])]"] exI [of _ "[''f:a'', ''f:b'']"]) code_simp
  ultimately obtain w fl where r: "PruneUnwantedTargets 9 ?ts [''f:a'', ''f:b'', ''f:c''] g ['' b''] [] [] = Inr (w, fl, [])" by blast
  from PruneUnwantedTargets_correct [OF g(2) c r] r g(1) show ?thesis by blast
qed

end
