(* ===== verification/Gyp_Validate.thy ===== *)
theory Gyp_Validate
  imports Gyp_Merge Py_Path
begin

text \<open>
  The last part of \<open>Load\<close> in \<open>gyp/input.py\<close>: the checks of a target's type, rules, \<open>run_as\<close> and actions
  (the check of the rules also records which sources a rule applies to), and the conversion of
  integers to strings. In messages, a value that is not a string is shown by the name of its type.
\<close>

section \<open>Type\<close>

definition show_opt :: "pyval option \<Rightarrow> string" where
  "show_opt v = (case v of None \<Rightarrow> ''None'' | Some (PStr s) \<Rightarrow> s | Some (PInt i) \<Rightarrow> int_str i | Some w \<Rightarrow> type_name w)"

definition VALID_TARGET_TYPES :: "string list" where
  "VALID_TARGET_TYPES = [''executable'', ''loadable_module'', ''static_library'', ''shared_library'', ''none'']"

definition flag :: "pydict \<Rightarrow> string \<Rightarrow> bool" where
  "flag d k = (case dget d k of None \<Rightarrow> False | Some v \<Rightarrow> truthy v)"

definition ValidateTargetType :: "string \<Rightarrow> pydict \<Rightarrow> unit res" where
  "ValidateTargetType target target_dict =
     (let target_type = dget target_dict ''type'' in
      if target_type \<notin> Some ` PStr ` set VALID_TARGET_TYPES
      then Inl (GypError (''Target '' @ target @ '' has an invalid target type '' @ sq (show_opt target_type)
        @ ''.  Must be one of '' @ join ''/'' VALID_TARGET_TYPES @ ''.''))
      else if flag target_dict ''standalone_static_library'' \<and> target_type \<noteq> Some (PStr ''static_library'')
      then Inl (GypError (''Target '' @ target @ '' has type '' @ show_opt target_type
        @ '' but standalone_static_library flag is only valid for static_library type.''))
      else Inr ())"

section \<open>Rules\<close>

definition no_dot :: "string \<Rightarrow> string" where
  "no_dot ext = (if startswith ext ''.'' then tl ext else ext)"

definition sources_at :: "pydict \<Rightarrow> string \<Rightarrow> string list res" where
  "sources_at d k = (case dget d k of None \<Rightarrow> Inr [] | Some v \<Rightarrow> str_items v)"

definition rule_str :: "pydict \<Rightarrow> string \<Rightarrow> string res" where
  "rule_str rule k = res_bind (dict_get rule k) as_str"

definition matching_sources :: "pydict \<Rightarrow> string list \<Rightarrow> string \<Rightarrow> string list res" where
  "matching_sources target_dict source_keys rule_extension =
     res_bind (mapM (sources_at target_dict) source_keys) (\<lambda>sources.
       Inr (filter (\<lambda>source. no_dot (snd (splitext source)) = rule_extension) (concat sources)))"

text \<open>One turn of the loop over the rules; the state is \<open>rule_names\<close>, \<open>rule_extensions\<close> (with the names
  of the rules) and the rules so far.\<close>

definition validate_rule ::
  "string \<Rightarrow> pydict \<Rightarrow> string list \<Rightarrow> string list \<times> (string, string) dict \<times> pyval list \<Rightarrow> pyval
    \<Rightarrow> (string list \<times> (string, string) dict \<times> pyval list) res" where
  "validate_rule target target_dict source_keys = (\<lambda>(rule_names, rule_extensions, done) r.
     res_bind (as_dict r) (\<lambda>rule.
     res_bind (rule_str rule ''rule_name'') (\<lambda>rule_name.
     if rule_name \<in> set rule_names
     then Inl (GypError (''rule '' @ rule_name @ '' exists in duplicate, target '' @ target))
     else res_bind (rule_str rule ''extension'') (\<lambda>ext.
     let rule_extension = no_dot ext in
     case dget rule_extensions rule_extension of
       Some other \<Rightarrow> Inl (GypError (''extension '' @ rule_extension @ '' associated with multiple rules, target '' @ target
         @ '' rules '' @ other @ '' and '' @ rule_name))
     | None \<Rightarrow>
     if dhas rule ''rule_sources''
     then Inl (GypError (''rule_sources must not exist in input, target '' @ target @ '' rule '' @ rule_name))
     else res_bind (matching_sources target_dict source_keys rule_extension) (\<lambda>rule_sources.
       let rule' = (if length rule_sources > 0 then dset rule ''rule_sources'' (PList (map PStr rule_sources)) else rule)
       in Inr (rule_names @ [rule_name], dset rule_extensions rule_extension rule_name, done @ [PDict rule']))))))"

definition ValidateRulesInTarget :: "string \<Rightarrow> pydict \<Rightarrow> string list \<Rightarrow> pydict res" where
  "ValidateRulesInTarget target target_dict extra_sources_for_rules =
     (case dget target_dict ''rules'' of
        None \<Rightarrow> Inr target_dict
      | Some v \<Rightarrow>
          res_bind (as_list v) (\<lambda>rules.
          res_bind (foldM (validate_rule target target_dict (''sources'' # extra_sources_for_rules)) ([], [], []) rules) (\<lambda>(_, _, new).
            Inr (dset target_dict ''rules'' (PList new)))))"

section \<open>\<open>run_as\<close> and actions\<close>

definition run_as_error :: "string \<Rightarrow> pydict \<Rightarrow> string \<Rightarrow> string \<Rightarrow> string \<Rightarrow> py_error" where
  "run_as_error subject target_dict middle build_file rest =
     GypError (subject @ '' in target '' @ show_opt (dget target_dict ''target_name'') @ middle @ build_file @ rest)"

definition ValidateRunAsInTarget :: "string \<Rightarrow> pydict \<Rightarrow> string \<Rightarrow> unit res" where
  "ValidateRunAsInTarget target target_dict build_file =
     (if \<not> flag target_dict ''run_as'' then Inr ()
      else case dget target_dict ''run_as'' of
        Some (PDict run_as) \<Rightarrow>
          if \<not> flag run_as ''action''
          then Inl (run_as_error (''The '' @ sq ''run_as'') target_dict '' from file '' build_file ('' must have an '' @ sq ''action'' @ '' section.''))
          else if (case dget run_as ''action'' of Some (PList _) \<Rightarrow> False | _ \<Rightarrow> True)
          then Inl (run_as_error (''The '' @ sq ''action'' @ '' for '' @ sq ''run_as'') target_dict '' from file '' build_file '' must be a list.'')
          else if flag run_as ''working_directory'' \<and> (case dget run_as ''working_directory'' of Some (PStr _) \<Rightarrow> False | _ \<Rightarrow> True)
          then Inl (run_as_error (''The '' @ sq ''working_directory'' @ '' for '' @ sq ''run_as'') target_dict '' in file '' build_file '' should be a string.'')
          else if flag run_as ''environment'' \<and> (case dget run_as ''environment'' of Some (PDict _) \<Rightarrow> False | _ \<Rightarrow> True)
          then Inl (run_as_error (''The '' @ sq ''environment'' @ '' for '' @ sq ''run_as'') target_dict '' in file '' build_file '' should be a dictionary.'')
          else Inr ()
      | _ \<Rightarrow> Inl (run_as_error (''The '' @ sq ''run_as'') target_dict '' from file '' build_file '' should be a dictionary.''))"

text \<open>\<open>action_command and not action_command[0]\<close>.\<close>

definition empty_command :: "pyval option \<Rightarrow> bool res" where
  "empty_command v =
     (case v of
        None \<Rightarrow> Inr False
      | Some (PList l) \<Rightarrow> Inr (l \<noteq> [] \<and> \<not> truthy (hd l))
      | Some (PStr s) \<Rightarrow> Inr False
      | Some (PInt i) \<Rightarrow> if i = 0 then Inr False else Inl (TypeError ''int object has no attribute __getitem__'')
      | Some (PDict d) \<Rightarrow> if d = [] then Inr False else Inl (KeyError ''0''))"

definition validate_action :: "pyval option \<Rightarrow> pyval \<Rightarrow> unit res" where
  "validate_action target_name a =
     (case a of
        PDict action \<Rightarrow>
          if \<not> flag action ''action_name''
          then Inl (GypError (''Anonymous action in target '' @ show_opt target_name @ ''.  An action must have an ''
            @ sq ''action_name'' @ '' field.''))
          else if \<not> dhas action ''inputs''
          then Inl (GypError (''Action in target '' @ show_opt target_name @ '' has no inputs.''))
          else res_bind (empty_command (dget action ''action'')) (\<lambda>empty.
                 if empty then Inl (GypError (''Empty action as command in target '' @ show_opt target_name @ ''.'')) else Inr ())
      | _ \<Rightarrow> Inl (AttributeError ''get''))"

definition ValidateActionsInTarget :: "string \<Rightarrow> pydict \<Rightarrow> string \<Rightarrow> unit res" where
  "ValidateActionsInTarget target target_dict build_file =
     (case dget target_dict ''actions'' of
        None \<Rightarrow> Inr ()
      | Some v \<Rightarrow> res_bind (as_list v) (\<lambda>actions.
          foldM (\<lambda>_ action. validate_action (dget target_dict ''target_name'') action) () actions))"

section \<open>Integers to strings\<close>

text \<open>\<open>TurnIntIntoStrInDict\<close> and \<open>TurnIntIntoStrInList\<close> on the dictionary and the list in a value; the
  keys are strings already.\<close>

fun TurnIntIntoStr :: "pyval \<Rightarrow> pyval" where
  "TurnIntIntoStr (PInt i) = PStr (int_str i)"
| "TurnIntIntoStr (PDict d) = PDict (map (\<lambda>(k, v). (k, TurnIntIntoStr v)) d)"
| "TurnIntIntoStr (PList l) = PList (map TurnIntIntoStr l)"
| "TurnIntIntoStr v = v"

definition TurnIntIntoStrInDict :: "pydict \<Rightarrow> pydict" where
  "TurnIntIntoStrInDict the_dict = map (\<lambda>(k, v). (k, TurnIntIntoStr v)) the_dict"

definition TurnIntIntoStrInList :: "pyval list \<Rightarrow> pyval list" where
  "TurnIntIntoStrInList the_list = map TurnIntIntoStr the_list"

section \<open>Globals of a generator\<close>

definition SetGeneratorGlobals :: "string list \<Rightarrow> string list \<Rightarrow> (string \<Rightarrow> string) \<Rightarrow> gyp_env" where
  "SetGeneratorGlobals generator_path_sections generator_non_configuration_keys realpath =
     \<lparr>ge_path_sections = remdups (base_path_sections @ generator_path_sections),
      ge_non_configuration_keys = base_non_configuration_keys @ generator_non_configuration_keys,
      ge_realpath = realpath\<rparr>"

section \<open>Properties\<close>

lemma validate_rule_Inr:
  assumes "validate_rule target td keys (names, exts, done) r = Inr (names', exts', done')"
  shows "\<exists>rule name ext srcs. r = PDict rule \<and> dget rule ''rule_name'' = Some (PStr name) \<and> dget rule ''extension'' = Some (PStr ext)
    \<and> name \<notin> set names \<and> dget exts (no_dot ext) = None \<and> \<not> dhas rule ''rule_sources''
    \<and> matching_sources td keys (no_dot ext) = Inr srcs
    \<and> names' = names @ [name] \<and> exts' = dset exts (no_dot ext) name
    \<and> done' = done @ [PDict (if srcs \<noteq> [] then dset rule ''rule_sources'' (PList (map PStr srcs)) else rule)]"
  using assms by (auto simp: validate_rule_def rule_str_def res_simps Let_def split: if_splits option.splits)

text \<open>The name and the extension of a rule that was accepted.\<close>

definition accepted_rule :: "pydict \<Rightarrow> string list \<Rightarrow> pyval \<Rightarrow> string \<Rightarrow> string \<Rightarrow> pyval \<Rightarrow> bool" where
  "accepted_rule td keys r name ext r' \<longleftrightarrow> (\<exists>rule e srcs. r = PDict rule \<and> dget rule ''rule_name'' = Some (PStr name)
     \<and> dget rule ''extension'' = Some (PStr e) \<and> no_dot e = ext \<and> \<not> dhas rule ''rule_sources''
     \<and> matching_sources td keys ext = Inr srcs
     \<and> r' = PDict (if srcs \<noteq> [] then dset rule ''rule_sources'' (PList (map PStr srcs)) else rule))"

lemma validate_rules_Inr:
  assumes "foldM (validate_rule target td keys) (names, exts, done) rules = Inr (names', exts', done')"
    and "distinct names" and "distinct (map fst exts)"
  shows "\<exists>ns es new. names' = names @ ns \<and> map fst exts' = map fst exts @ es \<and> done' = done @ new
    \<and> distinct names' \<and> distinct (map fst exts') \<and> length ns = length rules \<and> length es = length rules \<and> length new = length rules
    \<and> (\<forall>i<length rules. accepted_rule td keys (rules ! i) (ns ! i) (es ! i) (new ! i))"
  using assms
proof (induction rules arbitrary: names exts "done")
  case (Cons r rules)
  obtain n1 e1 d1 where s: "validate_rule target td keys (names, exts, done) r = Inr (n1, e1, d1)"
      "foldM (validate_rule target td keys) (n1, e1, d1) rules = Inr (names', exts', done')"
    using Cons.prems(1) by (auto simp: res_simps)
  obtain rule name ext srcs where v: "r = PDict rule" "dget rule ''rule_name'' = Some (PStr name)" "dget rule ''extension'' = Some (PStr ext)"
    "name \<notin> set names" "dget exts (no_dot ext) = None" "\<not> dhas rule ''rule_sources''"
    "matching_sources td keys (no_dot ext) = Inr srcs" "n1 = names @ [name]" "e1 = dset exts (no_dot ext) name"
    "d1 = done @ [PDict (if srcs \<noteq> [] then dset rule ''rule_sources'' (PList (map PStr srcs)) else rule)]"
    using validate_rule_Inr [OF s(1)] by blast
  have e1: "map fst e1 = map fst exts @ [no_dot ext]" "no_dot ext \<notin> set (map fst exts)"
    using v(5,9) dkeys_dset [of exts "no_dot ext" name] dkeys_iff_dget [of "no_dot ext" exts] by (simp_all add: dkeys_def)
  obtain ns es new where IH: "names' = n1 @ ns" "map fst exts' = map fst e1 @ es" "done' = d1 @ new" "distinct names'"
      "distinct (map fst exts')" "length ns = length rules" "length es = length rules" "length new = length rules"
      "\<forall>i<length rules. accepted_rule td keys (rules ! i) (ns ! i) (es ! i) (new ! i)"
    using Cons.IH [OF s(2)] Cons.prems(2,3) v(4,8) e1 by auto
  have first: "accepted_rule td keys r name (no_dot ext) (PDict (if srcs \<noteq> [] then dset rule ''rule_sources'' (PList (map PStr srcs)) else rule))"
    using v unfolding accepted_rule_def by blast
  show ?case
  proof (intro exI conjI)
    show "names' = names @ (name # ns)" "map fst exts' = map fst exts @ (no_dot ext # es)"
      "done' = done @ (PDict (if srcs \<noteq> [] then dset rule ''rule_sources'' (PList (map PStr srcs)) else rule) # new)"
      using IH v(8,10) e1(1) by simp_all
    show "distinct names'" "distinct (map fst exts')" using IH by simp_all
    show "\<forall>i<length (r # rules). accepted_rule td keys ((r # rules) ! i) ((name # ns) ! i) ((no_dot ext # es) ! i)
        ((PDict (if srcs \<noteq> [] then dset rule ''rule_sources'' (PList (map PStr srcs)) else rule) # new) ! i)"
      using IH(9) first by (auto simp: nth_Cons split: nat.split)
  qed (use IH in simp_all)
qed simp

text \<open>
  A target whose rules were accepted: the names of the rules are different, so are their
  extensions (without the dot), and each rule has got exactly the sources with its extension, in
  order, or no \<open>rule_sources\<close> if there are none.
\<close>

theorem ValidateRulesInTarget_correct:
  assumes "ValidateRulesInTarget target td extra = Inr td'" and "dget td ''rules'' = Some (PList rules)"
  shows "\<exists>names exts new. dget td' ''rules'' = Some (PList new) \<and> distinct names \<and> distinct exts
    \<and> length names = length rules \<and> length exts = length rules \<and> length new = length rules
    \<and> (\<forall>i<length rules. accepted_rule td (''sources'' # extra) (rules ! i) (names ! i) (exts ! i) (new ! i))"
proof -
  obtain names exts new where r: "foldM (validate_rule target td (''sources'' # extra)) ([], [], []) rules = Inr (names, exts, new)"
      and td': "td' = dset td ''rules'' (PList new)"
    using assms by (auto simp: ValidateRulesInTarget_def res_simps)
  from validate_rules_Inr [OF r] show ?thesis unfolding td' by fastforce
qed

fun no_int :: "pyval \<Rightarrow> bool" where
  "no_int (PInt i) = False"
| "no_int (PDict d) = list_all (\<lambda>(k, v). no_int v) d"
| "no_int (PList l) = list_all no_int l"
| "no_int v = True"

lemma TurnIntIntoStr_no_int: "no_int (TurnIntIntoStr v)"
  by (induction v rule: TurnIntIntoStr.induct) (auto simp: list_all_iff)

lemma TurnIntIntoStr_id: "no_int v \<Longrightarrow> TurnIntIntoStr v = v"
proof (induction v rule: TurnIntIntoStr.induct)
  case (2 d)
  then show ?case by (simp add: list_all_iff) (rule map_idI, fastforce)
next
  case (3 l)
  then show ?case by (simp add: list_all_iff map_idI)
qed auto


theorem ValidateRulesInTarget_correct_witness:
  "\<exists>td' new. ValidateRulesInTarget ''t'' [(''rules'', PList [PDict [(''rule_name'', PStr ''r''), (''extension'', PStr ''.y'')]]),
      (''sources'', PList [PStr ''a.y'', PStr ''b.c''])] [] = Inr td' \<and> dget td' ''rules'' = Some (PList new) \<and> length new = 1"
proof -
  let ?td = "[(''rules'', PList [PDict [(''rule_name'', PStr ''r''), (''extension'', PStr ''.y'')]]),
      (''sources'', PList [PStr ''a.y'', PStr ''b.c''])]"
  obtain td' where r: "ValidateRulesInTarget ''t'' ?td [] = Inr td'"
    by (simp add: ValidateRulesInTarget_def validate_rule_def rule_str_def dict_get_def no_dot_def startswith_def
      dhas_def matching_sources_def sources_at_def Let_def)
  have g: "dget ?td ''rules'' = Some (PList [PDict [(''rule_name'', PStr ''r''), (''extension'', PStr ''.y'')]])" by simp
  from ValidateRulesInTarget_correct [OF r g] obtain new where "dget td' ''rules'' = Some (PList new)" "length new = 1"
    by auto
  with r show ?thesis by blast
qed

end
