(* ===== verification/Gyp_Parallel.thy ===== *)
theory Gyp_Parallel
  imports Py_Prelude
begin

text \<open>
  Loading build files in parallel in \<open>gyp/input.py\<close>: \<open>ParallelState\<close>, the main loop of
  \<open>LoadTargetBuildFilesParallel\<close>, and the callback that runs when a worker process has loaded a file.
  Main loop and callbacks exclude each other by the condition variable, which the main loop gives up
  only while it waits and after it has ended; the order in which workers end is open. This is a step
  relation here; what a worker returns for a file is an argument. Shown: without errors exactly the
  files that the given ones reach are loaded, each once; the loop cannot get stuck, and it ends.
\<close>

section \<open>State and steps\<close>

text \<open>Where the main loop is: running with the lock, waiting, or past the loop.\<close>

datatype par_pc = MLoop | MWait | MDone

record 'd par_state =
  ps_pool :: bool
  ps_data :: "(string, 'd) dict"
  ps_target_build_files :: "string list"
  ps_pending :: nat
  ps_scheduled :: "string list"
  ps_dependencies :: "string list"
  ps_error :: bool
  ps_jobs :: "string list"
  ps_pc :: par_pc
  ps_notified :: bool

definition par_init :: "string list \<Rightarrow> 'd par_state" where
  "par_init build_files =
     \<lparr>ps_pool = False, ps_data = [], ps_target_build_files = [], ps_pending = 0, ps_scheduled = build_files,
      ps_dependencies = build_files, ps_error = False, ps_jobs = [], ps_pc = MLoop, ps_notified = False\<rparr>"

text \<open>The new dependencies of a result are scheduled one after the other.\<close>

definition schedule :: "string list \<times> string list \<Rightarrow> string \<Rightarrow> string list \<times> string list" where
  "schedule = (\<lambda>(scheduled, dependencies) new.
     if new \<notin> set scheduled then (scheduled @ [new], dependencies @ [new]) else (scheduled, dependencies))"

definition LoadTargetBuildFileCallback ::
  "(string \<times> 'd \<times> string list) option \<Rightarrow> 'd par_state \<Rightarrow> 'd par_state" where
  "LoadTargetBuildFileCallback result st =
     (case result of
        None \<Rightarrow> st\<lparr>ps_error := True, ps_notified := True\<rparr>
      | Some (path, file_data, deps) \<Rightarrow>
          let (scheduled, dependencies) = foldl schedule (ps_scheduled st, ps_dependencies st) deps
          in st\<lparr>ps_data := dset (ps_data st) path file_data,
                ps_target_build_files := add_new (ps_target_build_files st) path,
                ps_scheduled := scheduled,
                ps_dependencies := dependencies,
                ps_pending := ps_pending st - 1,
                ps_notified := True\<rparr>)"

text \<open>One file goes to the pool, which is made when it is first needed.\<close>

definition par_pop :: "'d par_state \<Rightarrow> 'd par_state" where
  "par_pop st =
     st\<lparr>ps_dependencies := butlast (ps_dependencies st),
        ps_pending := ps_pending st + 1,
        ps_pool := True,
        ps_jobs := ps_jobs st @ [last (ps_dependencies st)]\<rparr>"

definition worker_result :: "(string \<Rightarrow> ('d \<times> string list) option) \<Rightarrow> string \<Rightarrow> (string \<times> 'd \<times> string list) option" where
  "worker_result load f = map_option (\<lambda>(d, deps). (f, d, deps)) (load f)"

inductive par_step :: "(string \<Rightarrow> ('d \<times> string list) option) \<Rightarrow> 'd par_state \<Rightarrow> 'd par_state \<Rightarrow> bool"
  for load where
  leave: "ps_pc st = MLoop \<Longrightarrow> ps_error st \<or> ps_dependencies st = [] \<and> ps_pending st = 0 \<Longrightarrow>
    par_step load st (st\<lparr>ps_pc := MDone\<rparr>)"
| wait: "ps_pc st = MLoop \<Longrightarrow> \<not> ps_error st \<Longrightarrow> ps_dependencies st = [] \<Longrightarrow> 0 < ps_pending st \<Longrightarrow>
    par_step load st (st\<lparr>ps_pc := MWait, ps_notified := False\<rparr>)"
| pop: "ps_pc st = MLoop \<Longrightarrow> \<not> ps_error st \<Longrightarrow> ps_dependencies st \<noteq> [] \<Longrightarrow> par_step load st (par_pop st)"
| wake: "ps_pc st = MWait \<Longrightarrow> ps_notified st \<Longrightarrow> par_step load st (st\<lparr>ps_pc := MLoop\<rparr>)"
| callback: "ps_pc st \<noteq> MLoop \<Longrightarrow> f \<in> set (ps_jobs st) \<Longrightarrow>
    par_step load st (LoadTargetBuildFileCallback (worker_result load f) (st\<lparr>ps_jobs := remove1 f (ps_jobs st)\<rparr>))"

inductive par_reach :: "(string \<Rightarrow> ('d \<times> string list) option) \<Rightarrow> string list \<Rightarrow> 'd par_state \<Rightarrow> bool"
  for load build_files where
  start: "par_reach load build_files (par_init build_files)"
| next_step: "par_reach load build_files st \<Longrightarrow> par_step load st st' \<Longrightarrow> par_reach load build_files st'"

text \<open>What follows the loop.\<close>

definition par_finish :: "'d par_state \<Rightarrow> (nat option \<times> 'd par_state) res" where
  "par_finish st =
     (if \<not> ps_pool st then Inl (AttributeError ''close'')
      else Inr (if ps_error st then Some 1 else None, st\<lparr>ps_pool := False\<rparr>))"

section \<open>The invariant\<close>

definition load_edges :: "(string \<Rightarrow> ('d \<times> string list) option) \<Rightarrow> (string \<times> string) set" where
  "load_edges load = {(a, b). \<exists>d deps. load a = Some (d, deps) \<and> b \<in> set deps}"

abbreviation par_open :: "'d par_state \<Rightarrow> string list" where
  "par_open st \<equiv> ps_target_build_files st @ ps_jobs st @ ps_dependencies st"

text \<open>Unless a worker has failed: every scheduled file is loaded, in work or still to do, in exactly one of
  these ways; \<open>pending\<close> counts the files in work; everything scheduled is reachable, and what the loaded
  files need is scheduled.\<close>

definition par_inv :: "(string \<Rightarrow> ('d \<times> string list) option) \<Rightarrow> string list \<Rightarrow> 'd par_state \<Rightarrow> bool" where
  "par_inv load build_files st \<longleftrightarrow>
     distinct (par_open st) \<and> set (par_open st) \<subseteq> set (ps_scheduled st)
     \<and> set build_files \<subseteq> set (ps_scheduled st)
     \<and> set (ps_scheduled st) \<subseteq> (load_edges load)\<^sup>* `` set build_files
     \<and> load_edges load `` set (ps_target_build_files st) \<subseteq> set (ps_scheduled st)
     \<and> (\<forall>f. dget (ps_data st) f = (if f \<in> set (ps_target_build_files st) then map_option fst (load f) else None))
     \<and> (\<not> ps_error st \<longrightarrow> ps_pending st = length (ps_jobs st) \<and> set (ps_scheduled st) \<subseteq> set (par_open st))
     \<and> (ps_pc st = MWait \<longrightarrow> \<not> ps_notified st \<longrightarrow> ps_jobs st \<noteq> [])
     \<and> (ps_pc st = MDone \<longrightarrow> \<not> ps_error st \<longrightarrow> ps_jobs st = [] \<and> ps_dependencies st = [])
     \<and> (ps_jobs st \<noteq> [] \<or> ps_target_build_files st \<noteq> [] \<longrightarrow> ps_pool st)"

lemma schedule_fold:
  assumes "foldl schedule (s, d) new = (s', d')"
  shows "\<exists>e. s' = s @ e \<and> d' = d @ e \<and> distinct e \<and> set e = set new - set s"
  using assms
proof (induction new arbitrary: s d)
  case (Cons x new)
  show ?case
  proof (cases "x \<in> set s")
    case True
    then show ?thesis using Cons.IH [of s d] Cons.prems by (auto simp: schedule_def)
  next
    case False
    then obtain e where e: "s' = (s @ [x]) @ e" "d' = (d @ [x]) @ e" "distinct e" "set e = set new - set (s @ [x])"
      using Cons.IH [of "s @ [x]" "d @ [x]"] Cons.prems by (auto simp: schedule_def)
    then show ?thesis using False by (intro exI [of _ "x # e"]) auto
  qed
qed simp

lemma par_inv_init: "distinct build_files \<Longrightarrow> par_inv load build_files (par_init build_files)"
  by (auto simp: par_inv_def par_init_def)

lemma par_inv_pop:
  assumes "par_inv load bf st" and "ps_pc st = MLoop" and "ps_dependencies st \<noteq> []"
  shows "par_inv load bf (par_pop st)"
proof -
  obtain ds x where d: "ps_dependencies st = ds @ [x]" using assms(3) by (cases "ps_dependencies st" rule: rev_cases) auto
  show ?thesis using assms(1,2) unfolding par_inv_def par_pop_def d by auto
qed


lemma par_inv_fail:
  assumes "par_inv load bf st" and "f \<in> set (ps_jobs st)" and "load f = None"
  shows "par_inv load bf (LoadTargetBuildFileCallback (worker_result load f) (st\<lparr>ps_jobs := remove1 f (ps_jobs st)\<rparr>))"
proof -
  have sub: "set (remove1 f (ps_jobs st)) \<subseteq> set (ps_jobs st)" by (rule set_remove1_subset)
  show ?thesis
    using assms sub unfolding par_inv_def LoadTargetBuildFileCallback_def worker_result_def
    by (auto simp: assms(3) distinct_remove1 dest: notin_set_remove1)
qed

lemma par_inv_success:
  assumes inv: "par_inv load bf st" and f: "f \<in> set (ps_jobs st)" and load: "load f = Some (d, deps)" and pc: "ps_pc st \<noteq> MLoop"
  shows "par_inv load bf (LoadTargetBuildFileCallback (worker_result load f) (st\<lparr>ps_jobs := remove1 f (ps_jobs st)\<rparr>))"
proof -
  obtain sch dps where sd: "foldl schedule (ps_scheduled st, ps_dependencies st) deps = (sch, dps)" by fastforce
  obtain e where e: "sch = ps_scheduled st @ e" "dps = ps_dependencies st @ e" "distinct e" "set e = set deps - set (ps_scheduled st)"
    using schedule_fold [OF sd] by blast
  define jobs where "jobs = remove1 f (ps_jobs st)"
  have dist: "distinct (par_open st)" and sub: "set (par_open st) \<subseteq> set (ps_scheduled st)"
    and all: "set bf \<subseteq> set (ps_scheduled st)" and sch: "set (ps_scheduled st) \<subseteq> (load_edges load)\<^sup>* `` set bf"
    and closed: "load_edges load `` set (ps_target_build_files st) \<subseteq> set (ps_scheduled st)"
    and data: "\<And>g. dget (ps_data st) g = (if g \<in> set (ps_target_build_files st) then map_option fst (load g) else None)"
    and run: "\<not> ps_error st \<Longrightarrow> ps_pending st = length (ps_jobs st) \<and> set (ps_scheduled st) \<subseteq> set (par_open st)"
    and fin: "ps_pc st = MDone \<Longrightarrow> \<not> ps_error st \<Longrightarrow> ps_jobs st = [] \<and> ps_dependencies st = []" and pool: "ps_pool st"
    using inv f unfolding par_inv_def by (auto simp only: list.set)
  have jobs: "set jobs = set (ps_jobs st) - {f}" "distinct jobs" "length jobs = length (ps_jobs st) - 1" "f \<notin> set (ps_target_build_files st)"
    using dist f by (auto simp: jobs_def distinct_remove1 length_remove1)
  let ?st = "LoadTargetBuildFileCallback (worker_result load f) (st\<lparr>ps_jobs := remove1 f (ps_jobs st)\<rparr>)"
  have st': "?st = st\<lparr>ps_jobs := jobs, ps_data := dset (ps_data st) f d, ps_target_build_files := ps_target_build_files st @ [f],
      ps_scheduled := ps_scheduled st @ e, ps_dependencies := ps_dependencies st @ e, ps_pending := ps_pending st - 1, ps_notified := True\<rparr>"
    using jobs(4) by (simp add: LoadTargetBuildFileCallback_def worker_result_def load sd e jobs_def add_new_def)
  have edges: "load_edges load `` {f} = set deps" by (auto simp: load_edges_def load)
  have fs: "f \<in> set (ps_scheduled st)" using f sub by auto
  have 1: "distinct (par_open ?st)" using dist jobs e sub f fs unfolding st' by auto
  have 2: "set (par_open ?st) \<subseteq> set (ps_scheduled ?st)" using sub jobs fs unfolding st' by auto
  have 3: "set bf \<subseteq> set (ps_scheduled ?st)" using all unfolding st' by auto
  have "set deps \<subseteq> (load_edges load)\<^sup>* `` set bf"
    using fs sch unfolding edges [symmetric] by (auto intro: rtrancl_into_rtrancl)
  then have 4: "set (ps_scheduled ?st) \<subseteq> (load_edges load)\<^sup>* `` set bf" using sch e(4) unfolding st' by auto
  have 5: "load_edges load `` set (ps_target_build_files ?st) \<subseteq> set (ps_scheduled ?st)"
    using closed edges e(4) unfolding st' by (auto simp: Image_Un)
  have 6: "\<forall>g. dget (ps_data ?st) g = (if g \<in> set (ps_target_build_files ?st) then map_option fst (load g) else None)"
    using data unfolding st' by (auto simp: load)
  have 7: "\<not> ps_error ?st \<longrightarrow> ps_pending ?st = length (ps_jobs ?st) \<and> set (ps_scheduled ?st) \<subseteq> set (par_open ?st)"
    using run jobs unfolding st' by auto
  have 8: "ps_pc ?st = MDone \<longrightarrow> \<not> ps_error ?st \<longrightarrow> ps_jobs ?st = [] \<and> ps_dependencies ?st = []"
    using fin f unfolding st' by auto
  show ?thesis unfolding par_inv_def using 1 2 3 4 5 6 7 8 pool by (simp add: st')
qed

lemma par_inv_step:
  assumes "par_step load st st'" and "par_inv load bf st"
  shows "par_inv load bf st'"
  using assms
proof cases
  case leave
  then show ?thesis using assms(2) by (auto simp: par_inv_def)
next
  case wait
  then show ?thesis using assms(2) by (auto simp: par_inv_def)
next
  case pop
  then show ?thesis using assms(2) par_inv_pop by blast
next
  case wake
  then show ?thesis using assms(2) by (auto simp: par_inv_def)
next
  case (callback f)
  then show ?thesis using assms(2) par_inv_fail [of load bf st f] par_inv_success [of load bf st f] by (cases "load f") auto
qed

lemma par_inv_reach: "par_reach load bf st \<Longrightarrow> distinct bf \<Longrightarrow> par_inv load bf st"
  by (induction rule: par_reach.induct) (auto intro: par_inv_init par_inv_step)

lemma par_done_files:
  assumes "par_reach load bf st" and "distinct bf" and "ps_pc st = MDone" and "\<not> ps_error st"
  shows "set (ps_target_build_files st) = (load_edges load)\<^sup>* `` set bf"
proof -
  have inv: "par_inv load bf st" by (rule par_inv_reach [OF assms(1,2)])
  then have e: "ps_jobs st = []" "ps_dependencies st = []" using assms(3,4) by (auto simp: par_inv_def)
  then have eq: "set (ps_target_build_files st) = set (ps_scheduled st)" using inv assms(4) by (auto simp: par_inv_def)
  have "b \<in> set (ps_scheduled st)" if "(a, b) \<in> (load_edges load)\<^sup>*" "a \<in> set bf" for a b
    using that inv eq by (induction rule: rtrancl_induct) (auto simp: par_inv_def)
  then show ?thesis using inv unfolding eq par_inv_def by auto
qed



section \<open>Progress and termination\<close>

text \<open>
  C10. The main loop cannot get stuck: in every state it can reach in which it has not ended, some step
  is possible; when it waits, a worker is still at work or it has been notified.
\<close>

theorem parallel_progress:
  assumes "par_reach load build_files st" and "distinct build_files" and "ps_pc st \<noteq> MDone"
  shows "\<exists>st'. par_step load st st'"
proof -
  have inv: "par_inv load build_files st" by (rule par_inv_reach [OF assms(1,2)])
  show ?thesis
  proof (cases "ps_pc st")
    case MLoop
    then show ?thesis by (metis gr0I par_step.leave par_step.wait par_step.pop)
  next
    case MWait
    show ?thesis
    proof (cases "ps_notified st")
      case True
      then show ?thesis using MWait par_step.wake by blast
    next
      case False
      then obtain f where "f \<in> set (ps_jobs st)" using inv MWait unfolding par_inv_def by (metis hd_in_set)
      then show ?thesis using MWait par_step.callback by (metis par_pc.distinct(1))
    qed
  qed (use assms(3) in simp)
qed

definition pc_weight :: "'d par_state \<Rightarrow> nat" where
  "pc_weight st = (case ps_pc st of MLoop \<Rightarrow> 2 | MWait \<Rightarrow> (if ps_notified st then 3 else 1) | MDone \<Rightarrow> 0)"

definition par_measure :: "string set \<Rightarrow> 'd par_state \<Rightarrow> nat" where
  "par_measure U st = 6 * card (U - set (ps_scheduled st)) + 6 * length (ps_dependencies st) + 4 * length (ps_jobs st) + pc_weight st"

lemma callback_measure:
  assumes f: "f \<in> set (ps_jobs st)" and U: "finite U" "load_edges load `` {f} \<subseteq> U" and pc: "ps_pc st \<noteq> MLoop"
  shows "par_measure U (LoadTargetBuildFileCallback (worker_result load f) (st\<lparr>ps_jobs := remove1 f (ps_jobs st)\<rparr>)) < par_measure U st"
proof -
  have len: "length (ps_jobs st) = Suc (length (remove1 f (ps_jobs st)))"
    using f by (metis One_nat_def Suc_pred length_pos_if_in_set length_remove1)
  have w: "pc_weight st' \<le> pc_weight st + 2" if "ps_pc st' = ps_pc st" for st' :: "'a par_state"
    using pc that by (auto simp: pc_weight_def split: par_pc.splits)
  show ?thesis
  proof (cases "load f")
    case None
    let ?st = "LoadTargetBuildFileCallback (worker_result load f) (st\<lparr>ps_jobs := remove1 f (ps_jobs st)\<rparr>)"
    have "ps_pc ?st = ps_pc st" "ps_scheduled ?st = ps_scheduled st" "ps_dependencies ?st = ps_dependencies st" "ps_jobs ?st = remove1 f (ps_jobs st)"
      using None by (simp_all add: LoadTargetBuildFileCallback_def worker_result_def)
    then show ?thesis using w [of ?st] len by (simp add: par_measure_def)
  next
    case (Some r)
    obtain d deps where r: "r = (d, deps)" by (cases r)
    obtain sch dps where sd: "foldl schedule (ps_scheduled st, ps_dependencies st) deps = (sch, dps)" by fastforce
    obtain e where e: "sch = ps_scheduled st @ e" "dps = ps_dependencies st @ e" "distinct e" "set e = set deps - set (ps_scheduled st)"
      using schedule_fold [OF sd] by blast
    let ?st = "LoadTargetBuildFileCallback (worker_result load f) (st\<lparr>ps_jobs := remove1 f (ps_jobs st)\<rparr>)"
    have st': "ps_pc ?st = ps_pc st" "ps_scheduled ?st = ps_scheduled st @ e" "ps_dependencies ?st = ps_dependencies st @ e"
        "ps_jobs ?st = remove1 f (ps_jobs st)"
      using Some by (simp_all add: LoadTargetBuildFileCallback_def worker_result_def r sd e)
    have "set e \<subseteq> U - set (ps_scheduled st)" using U(2) Some r e(4) by (auto simp: load_edges_def)
    then have "card (U - set (ps_scheduled st) - set e) = card (U - set (ps_scheduled st)) - card (set e)"
        "card (set e) \<le> card (U - set (ps_scheduled st))"
      using U(1) by (auto intro: card_Diff_subset card_mono)
    moreover have "U - set (ps_scheduled ?st) = U - set (ps_scheduled st) - set e" using st'(2) by auto
    moreover have "card (set e) = length e" using e(3) by (rule distinct_card)
    ultimately have "6 * card (U - set (ps_scheduled ?st)) + 6 * length (ps_dependencies ?st)
        = 6 * card (U - set (ps_scheduled st)) + 6 * length (ps_dependencies st)" using st'(3) by simp
    then show ?thesis using w [OF st'(1)] len st'(4) by (simp add: par_measure_def)
  qed
qed

lemma par_step_measure:
  assumes step: "par_step load st st'" and inv: "par_inv load bf st"
    and fin: "finite ((load_edges load)\<^sup>* `` set bf)"
  shows "par_measure ((load_edges load)\<^sup>* `` set bf) st' < par_measure ((load_edges load)\<^sup>* `` set bf) st"
  using step
proof cases
  case pop
  then show ?thesis by (cases "ps_dependencies st" rule: rev_cases) (auto simp: par_measure_def par_pop_def pc_weight_def)
next
  case (callback f)
  have "f \<in> (load_edges load)\<^sup>* `` set bf" using callback inv by (auto simp: par_inv_def)
  then have "load_edges load `` {f} \<subseteq> (load_edges load)\<^sup>* `` set bf" by (auto intro: rtrancl_into_rtrancl)
  from callback_measure [OF callback(3) fin this callback(2)] show ?thesis using callback(1) by simp
qed (auto simp: par_measure_def pc_weight_def)

text \<open>
  C9. The parallel load ends: when the given files reach finitely many files, there is no infinite
  sequence of steps.
\<close>

theorem parallel_terminates:
  assumes "finite ((load_edges load)\<^sup>* `` set build_files)" and "distinct build_files"
  shows "\<not> (\<exists>run. run 0 = par_init build_files \<and> (\<forall>i. par_step load (run i) (run (Suc i))))"
proof
  assume "\<exists>run. run 0 = par_init build_files \<and> (\<forall>i. par_step load (run i) (run (Suc i)))"
  then obtain run where run: "run 0 = par_init build_files" "\<And>i. par_step load (run i) (run (Suc i))" by blast
  have reach: "par_reach load build_files (run i)" for i
  proof (induction i)
    case (Suc i)
    then show ?case using run(2) by (rule par_reach.next_step)
  qed (use run(1) par_reach.start in metis)
  let ?m = "\<lambda>i. par_measure ((load_edges load)\<^sup>* `` set build_files) (run i)"
  have dec: "?m (Suc i) < ?m i" for i
    by (rule par_step_measure [OF run(2) par_inv_reach [OF reach assms(2)] assms(1)])
  have "?m i + i \<le> ?m 0" for i
  proof (induction i)
    case (Suc i)
    then show ?case using dec [of i] by simp
  qed simp
  from this [of "Suc (?m 0)"] show False by simp
qed

text \<open>
  Without build files the pool is never made, and what follows the loop fails with an
  \<open>AttributeError\<close>.
\<close>

theorem parallel_no_files:
  "\<exists>st. par_step load (par_init []) st \<and> ps_pc st = MDone \<and> par_finish st = Inl (AttributeError ''close'')"
  by (intro exI [of _ "(par_init [])\<lparr>ps_pc := MDone\<rparr>"] conjI par_step.leave) (simp_all add: par_init_def par_finish_def)


section \<open>A run\<close>

text \<open>One file without dependencies: it goes to the pool, the main loop waits, the worker ends, the loop
  wakes up and ends.\<close>

definition demo_load :: "string \<Rightarrow> (nat \<times> string list) option" where
  "demo_load f = Some (7, [])"

lemma demo_run:
  "\<exists>st. par_reach demo_load [''a''] st \<and> ps_pc st = MDone \<and> \<not> ps_error st"
proof -
  define s1 where "s1 = par_pop (par_init [''a''] :: nat par_state)"
  define s2 where "s2 = s1\<lparr>ps_pc := MWait, ps_notified := False\<rparr>"
  define s3 where "s3 = LoadTargetBuildFileCallback (worker_result demo_load ''a'') (s2\<lparr>ps_jobs := remove1 ''a'' (ps_jobs s2)\<rparr>)"
  define s4 where "s4 = s3\<lparr>ps_pc := MLoop\<rparr>"
  note defs = s1_def s2_def s3_def s4_def par_pop_def par_init_def LoadTargetBuildFileCallback_def worker_result_def demo_load_def
  have 1: "par_step demo_load (par_init [''a'']) s1"
    unfolding s1_def by (rule par_step.pop) (simp_all add: par_init_def)
  have 2: "par_step demo_load s1 s2"
    unfolding s2_def by (rule par_step.wait) (simp_all add: s1_def par_pop_def par_init_def)
  have 3: "par_step demo_load s2 s3"
    unfolding s3_def by (rule par_step.callback) (simp_all add: s2_def s1_def par_pop_def par_init_def)
  have 4: "par_step demo_load s3 s4" unfolding s4_def by (rule par_step.wake) (simp_all add: defs)
  have 5: "par_step demo_load s4 (s4\<lparr>ps_pc := MDone\<rparr>)" by (rule par_step.leave) (simp_all add: defs)
  note reach = par_reach.start [THEN par_reach.next_step, OF 1, THEN par_reach.next_step, OF 2, THEN par_reach.next_step, OF 3,
      THEN par_reach.next_step, OF 4, THEN par_reach.next_step, OF 5]
  moreover have "\<not> ps_error (s4\<lparr>ps_pc := MDone\<rparr>)" by (simp add: defs)
  ultimately show ?thesis by (intro exI [of _ "s4\<lparr>ps_pc := MDone\<rparr>"]) simp
qed

lemma demo_edges: "load_edges demo_load = {}"
  by (auto simp: load_edges_def demo_load_def)


theorem parallel_progress_witness: "\<exists>st'. par_step demo_load (par_init [''a'']) st'"
  by (rule parallel_progress [OF par_reach.start]) (simp_all add: par_init_def)

theorem parallel_terminates_witness:
  "\<not> (\<exists>run. run 0 = par_init [''a''] \<and> (\<forall>i. par_step demo_load (run i) (run (Suc i))))"
  by (rule parallel_terminates) (simp_all add: demo_edges)

end
