(* ===== verification/Gyp_Brackets.thy ===== *)
theory Gyp_Brackets
  imports Py_Value
begin

text \<open>
  The lexical part of variable expansion in \<open>gyp/input.py\<close>: \<open>FindEnclosingBracketGroup\<close>,
  \<open>IsStrCanonicalInt\<close> and the regular expressions \<open>early_variable_re\<close>, \<open>late_variable_re\<close> and
  \<open>latelate_variable_re\<close>, which differ in their first character only. Shown: the bracket group is the
  first balanced one, and canonical integers are exactly the strings that \<open>str\<close> makes of integers.
\<close>

section \<open>Brackets\<close>

definition LBRACKETS :: "char set" where
  "LBRACKETS = set ''{[(''"

definition BRACKETS :: "char \<Rightarrow> char option" where
  "BRACKETS c = (if c = CHR ''}'' then Some (CHR ''{'') else if c = CHR '']'' then Some (CHR ''['')
     else if c = CHR '')'' then Some (CHR ''('') else None)"

fun bracket_loop :: "string \<Rightarrow> int \<Rightarrow> int \<Rightarrow> string \<Rightarrow> int \<times> int" where
  "bracket_loop stack start index [] = (- 1, - 1)"
| "bracket_loop stack start index (c # cs) =
     (if c \<in> LBRACKETS then bracket_loop (c # stack) (if start = - 1 then index else start) (index + 1) cs
      else case BRACKETS c of
             None \<Rightarrow> bracket_loop stack start (index + 1) cs
           | Some l \<Rightarrow>
               if stack = [] then (- 1, - 1)
               else if hd stack \<noteq> l then (- 1, - 1)
               else if tl stack = [] then (start, index + 1)
               else bracket_loop (tl stack) start (index + 1) cs)"

definition FindEnclosingBracketGroup :: "string \<Rightarrow> int \<times> int" where
  "FindEnclosingBracketGroup input_str = bracket_loop [] (- 1) 0 input_str"

section \<open>Canonical integers\<close>

definition IsStrCanonicalInt :: "pyval \<Rightarrow> bool" where
  "IsStrCanonicalInt v = (case v of
       PStr string \<Rightarrow>
         if string = [] then False
         else if string = ''0'' then True
         else let s = (if hd string = CHR ''-'' then tl string else string)
              in if s = [] then False
                 else if 49 \<le> ord (hd s) \<and> ord (hd s) \<le> 57 then list_all is_digit s else False
     | _ \<Rightarrow> False)"


section \<open>Matches of the variable expressions\<close>

text \<open>
  The parts of a match: the characters of \<open>type\<close> after the first, \<open>command_string\<close>, \<open>is_array\<close>, and the
  length of the match. Each part is matched greedily but for the contents, which end at the first
  \<open>)\<close> or \<open>])\<close> and have no line break; the characters that may follow a part are not in it, so
  that there is nothing to backtrack to.
\<close>

record var_match =
  vm_start :: nat
  vm_type :: string
  vm_command :: "string option"
  vm_array :: string

definition command_char :: "char \<Rightarrow> bool" where
  "command_char c = (is_alpha c \<or> is_digit c \<or> c \<in> set ''-_.'')"

definition match_type :: "string \<Rightarrow> string" where
  "match_type s =
     (let b = (if startswith s ''!'' then ''!'' else []); a = (if startswith (drop (length b) s) ''@'' then ''@'' else [])
      in if b @ a \<noteq> [] then b @ a else if startswith s ''|'' then ''|'' else [])"

text \<open>The rest after \<open>.*?\]?\)\<close>.\<close>

fun after_close :: "string \<Rightarrow> string option" where
  "after_close [] = None"
| "after_close (c # s) =
     (if c = CHR '')'' then Some s
      else if c = CHR '']'' \<and> startswith s '')'' then Some (tl s)
      else if c = CHR 0x0A then None
      else after_close s)"

definition match_here :: "char \<Rightarrow> nat \<Rightarrow> string \<Rightarrow> (var_match \<times> string) option" where
  "match_here sy i s =
     (if s = [] \<or> hd s \<noteq> sy then None
      else let ty = match_type (tl s); s1 = drop (length ty) (tl s);
               cmd = takeWhile command_char s1; s2 = dropWhile command_char s1
           in if \<not> startswith s2 ''('' then None
              else let ws = takeWhile is_space (tl s2); s3 = dropWhile is_space (tl s2);
                       arr = ws @ (if startswith s3 ''['' then ''['' else []);
                       s4 = (if startswith s3 ''['' then tl s3 else s3)
                   in case after_close s4 of
                        None \<Rightarrow> None
                      | Some rest \<Rightarrow> Some (\<lparr>vm_start = i, vm_type = ty, vm_command = (if cmd = [] then None else Some cmd), vm_array = arr\<rparr>, rest))"

lemma after_close_shorter: "after_close s = Some rest \<Longrightarrow> length rest < length s"
  by (induction s) (auto split: if_splits simp: less_Suc_eq_le dest: less_imp_le)

lemma match_here_shorter:
  assumes "match_here sy i s = Some (m, rest)"
  shows "length rest < length s"
proof -
  define s1 where "s1 = drop (length (match_type (tl s))) (tl s)"
  define s2 where "s2 = dropWhile command_char s1"
  define s3 where "s3 = dropWhile is_space (tl s2)"
  obtain "s \<noteq> []" and c: "after_close (if startswith s3 ''['' then tl s3 else s3) = Some rest"
    using assms unfolding match_here_def s1_def s2_def s3_def
    by (auto simp: Let_def split: if_splits option.splits)
  have "length rest < length (if startswith s3 ''['' then tl s3 else s3)" by (rule after_close_shorter [OF c])
  also have "\<dots> \<le> length s3" by simp
  also have "\<dots> \<le> length s2" unfolding s3_def using length_dropWhile_le [of is_space "tl s2"] by simp
  also have "\<dots> \<le> length s1" unfolding s2_def by (rule length_dropWhile_le)
  also have "\<dots> \<le> length s" unfolding s1_def by simp
  finally show ?thesis .
qed

text \<open>\<open>list(variable_re.finditer(s))\<close>.\<close>

function finditer :: "char \<Rightarrow> nat \<Rightarrow> string \<Rightarrow> var_match list" where
  "finditer sy i s =
     (if s = [] then []
      else case match_here sy i s of
             None \<Rightarrow> finditer sy (Suc i) (tl s)
           | Some (m, rest) \<Rightarrow> m # finditer sy (i + (length s - length rest)) rest)"
  by pat_completeness auto
termination
  by (relation "measure (\<lambda>(_, _, s). length s)") (auto dest: match_here_shorter)

declare finditer.simps [simp del]

section \<open>The group is the first balanced one\<close>

inductive bal :: "string \<Rightarrow> bool" where
  nil: "bal []"
| other: "c \<notin> LBRACKETS \<Longrightarrow> BRACKETS c = None \<Longrightarrow> bal s \<Longrightarrow> bal (c # s)"
| group: "l \<in> LBRACKETS \<Longrightarrow> BRACKETS r = Some l \<Longrightarrow> bal s \<Longrightarrow> bal t \<Longrightarrow> bal (l # s @ r # t)"

definition plain_char :: "char \<Rightarrow> bool" where
  "plain_char c \<longleftrightarrow> c \<notin> LBRACKETS \<and> BRACKETS c = None"

lemma right_not_left: "BRACKETS r = Some l \<Longrightarrow> r \<notin> LBRACKETS"
  by (auto simp: BRACKETS_def LBRACKETS_def split: if_splits)

lemma bracket_loop_bal:
  assumes "bal b" and "stack \<noteq> []" and "start \<noteq> - 1"
  shows "bracket_loop stack start idx (b @ rest) = bracket_loop stack start (idx + int (length b)) rest"
  using assms
proof (induction arbitrary: stack idx rest rule: bal.induct)
  case (group l r s t)
  have "bracket_loop stack start idx ((l # s @ r # t) @ rest)
      = bracket_loop (l # stack) start (idx + 1 + int (length s)) (r # t @ rest)"
    using group by simp
  also have "\<dots> = bracket_loop stack start (idx + 1 + int (length s) + 1) (t @ rest)"
    using group right_not_left by simp
  also have "\<dots> = bracket_loop stack start (idx + 1 + int (length s) + 1 + int (length t)) rest"
    using group by simp
  finally show ?case by (simp add: algebra_simps)
qed (simp_all add: algebra_simps)

lemma bracket_loop_plain:
  "list_all plain_char p \<Longrightarrow> bracket_loop [] start idx (p @ rest) = bracket_loop [] start (idx + int (length p)) rest"
  by (induction p arbitrary: idx) (auto simp: plain_char_def algebra_simps)

fun closes :: "string \<Rightarrow> string \<Rightarrow> bool" where
  "closes [] ys = (ys = [])"
| "closes (l # st) ys = (\<exists>b r zs. ys = b @ r # zs \<and> bal b \<and> BRACKETS r = Some l \<and> closes st zs)"

lemma closes_other: "plain_char c \<Longrightarrow> stack \<noteq> [] \<Longrightarrow> closes stack ys \<Longrightarrow> closes stack (c # ys)"
  by (cases stack) (auto simp: plain_char_def, metis append_Cons bal.other)

lemma closes_group:
  assumes "l \<in> LBRACKETS" and "stack \<noteq> []" and "closes (l # stack) ys"
  shows "closes stack (l # ys)"
proof -
  obtain l' st where st: "stack = l' # st" using assms(2) by (cases stack) auto
  obtain b r b' r' zs where "ys = b @ r # b' @ r' # zs" "bal b" "BRACKETS r = Some l" "bal b'" "BRACKETS r' = Some l'" "closes st zs"
    using assms(3) by (auto simp: st)
  moreover from this have "bal (l # b @ r # b')" using assms(1) by (intro bal.group)
  ultimately have "l # ys = (l # b @ r # b') @ r' # zs \<and> bal (l # b @ r # b') \<and> BRACKETS r' = Some l' \<and> closes st zs" by simp
  then show ?thesis unfolding st closes.simps by blast
qed

lemma bracket_loop_closes:
  assumes "bracket_loop stack start idx xs = (i, j)" and "i \<noteq> - 1" and "stack \<noteq> []" and "start \<noteq> - 1"
  shows "i = start \<and> (\<exists>ys q. xs = ys @ q \<and> j = idx + int (length ys) \<and> closes stack ys)"
  using assms
proof (induction stack start idx xs rule: bracket_loop.induct)
  case (2 stack start index c cs)
  consider (left) "c \<in> LBRACKETS" | (plain) "plain_char c" | (right) l where "c \<notin> LBRACKETS" "BRACKETS c = Some l"
    by (cases "BRACKETS c") (auto simp: plain_char_def)
  then show ?case
  proof cases
    case left
    then have "i = start" "\<exists>ys q. cs = ys @ q \<and> j = index + 1 + int (length ys) \<and> closes (c # stack) ys"
      using 2 by auto
    then obtain ys q where "cs = ys @ q" "j = index + 1 + int (length ys)" "closes (c # stack) ys" by blast
    then show ?thesis using closes_group [OF left "2.prems"(3)] \<open>i = start\<close>
      by (intro conjI exI [of _ "c # ys"] exI [of _ q]) auto
  next
    case plain
    then have "i = start" "\<exists>ys q. cs = ys @ q \<and> j = index + 1 + int (length ys) \<and> closes stack ys"
      using 2 by (auto simp: plain_char_def)
    then obtain ys q where "cs = ys @ q" "j = index + 1 + int (length ys)" "closes stack ys" by blast
    then show ?thesis using closes_other [OF plain "2.prems"(3)] \<open>i = start\<close>
      by (intro conjI exI [of _ "c # ys"] exI [of _ q]) auto
  next
    case right
    then have hd: "hd stack = l" using "2.prems" by (auto split: if_splits)
    obtain st where st: "stack = l # st" using hd "2.prems"(3) by (cases stack) auto
    show ?thesis
    proof (cases "st = []")
      case True
      then have "i = start" "j = index + 1" using "2.prems"(1) right by (auto simp: st)
      then show ?thesis using True right bal.nil by (intro conjI exI [of _ "[c]"] exI [of _ cs]) (auto simp: st)
    next
      case False
      then have "i = start" "\<exists>ys q. cs = ys @ q \<and> j = index + 1 + int (length ys) \<and> closes st ys"
        using 2 right by (auto simp: st)
      then obtain ys q where ys: "cs = ys @ q" "j = index + 1 + int (length ys)" "closes st ys" by blast
      have "closes stack (c # ys)" unfolding st closes.simps
        using right ys(3) bal.nil by (intro exI [of _ "[]"] exI [of _ c] exI [of _ ys]) simp
      then show ?thesis using ys \<open>i = start\<close> by (intro conjI exI [of _ "c # ys"] exI [of _ q]) auto
    qed
  qed
qed simp


lemma FindEnclosingBracketGroup_sound:
  assumes "bracket_loop [] (- 1) idx s = (i, j)" and "i \<noteq> - 1" and "0 \<le> idx"
  shows "\<exists>p l b r q. s = p @ l # b @ r # q \<and> list_all plain_char p \<and> l \<in> LBRACKETS \<and> BRACKETS r = Some l \<and> bal b
    \<and> i = idx + int (length p) \<and> j = idx + int (length p) + int (length b) + 2"
  using assms
proof (induction s arbitrary: idx)
  case (Cons c s)
  consider (left) "c \<in> LBRACKETS" | (plain) "plain_char c" | (right) l where "c \<notin> LBRACKETS" "BRACKETS c = Some l"
    by (cases "BRACKETS c") (auto simp: plain_char_def)
  then show ?case
  proof cases
    case left
    then have "bracket_loop [c] idx (idx + 1) s = (i, j)" using Cons.prems(1) by simp
    from bracket_loop_closes [OF this Cons.prems(2)] Cons.prems(3)
    obtain ys q where "i = idx" "s = ys @ q" "j = idx + 1 + int (length ys)" "closes [c] ys" by auto
    moreover from this obtain b r where "ys = b @ [r]" "bal b" "BRACKETS r = Some c" by auto
    ultimately show ?thesis using left
      by (intro exI [of _ "[]"] exI [of _ c] exI [of _ b] exI [of _ r] exI [of _ q]) simp
  next
    case plain
    then have "bracket_loop [] (- 1) (idx + 1) s = (i, j)" using Cons.prems(1) by (simp add: plain_char_def)
    from Cons.IH [OF this Cons.prems(2)] Cons.prems(3) obtain p l b r q where
      "s = p @ l # b @ r # q" "list_all plain_char p" "l \<in> LBRACKETS" "BRACKETS r = Some l" "bal b"
      "i = idx + 1 + int (length p)" "j = idx + 1 + int (length p) + int (length b) + 2" by auto
    then show ?thesis using plain by (intro exI [of _ "c # p"] exI [of _ l] exI [of _ b] exI [of _ r] exI [of _ q]) auto
  next
    case right
    then show ?thesis using Cons.prems by simp
  qed
qed simp

lemma bracket_loop_pair: "bracket_loop stack start idx s = (i, j) \<Longrightarrow> start = - 1 \<longrightarrow> stack = [] \<Longrightarrow> 0 \<le> idx \<Longrightarrow> i = - 1 \<Longrightarrow> j = - 1"
  by (induction stack start idx s rule: bracket_loop.induct) (auto split: if_splits option.splits)

lemma bracket_group_found:
  assumes "list_all plain_char p" "l \<in> LBRACKETS" "BRACKETS r = Some l" "bal b"
  shows "FindEnclosingBracketGroup (p @ l # b @ r # q) = (int (length p), int (length p) + int (length b) + 2)"
proof -
  have "FindEnclosingBracketGroup (p @ l # b @ r # q) = bracket_loop [l] (int (length p)) (int (length p) + 1) (b @ r # q)"
    using assms(1,2) by (simp add: FindEnclosingBracketGroup_def bracket_loop_plain)
  also have "\<dots> = bracket_loop [l] (int (length p)) (int (length p) + 1 + int (length b)) (r # q)"
    by (rule bracket_loop_bal) (use assms in auto)
  also have "\<dots> = (int (length p), int (length p) + 1 + int (length b) + 1)"
    using assms(3) right_not_left by simp
  finally show ?thesis by simp
qed

text \<open>
  C35. \<open>FindEnclosingBracketGroup\<close>: the result is the range of the group that begins at the first
  bracket of the string, if this is an opening one and what it encloses is balanced up to the
  bracket that matches it; in all other cases the result is \<open>(-1, -1)\<close>.
\<close>

theorem FindEnclosingBracketGroup_correct:
  "FindEnclosingBracketGroup s = (i, j) \<longleftrightarrow>
     (\<exists>p l b r q. s = p @ l # b @ r # q \<and> list_all plain_char p \<and> l \<in> LBRACKETS \<and> BRACKETS r = Some l \<and> bal b
        \<and> i = int (length p) \<and> j = int (length p) + int (length b) + 2)
     \<or> i = - 1 \<and> j = - 1 \<and> \<not> (\<exists>p l b r q. s = p @ l # b @ r # q \<and> list_all plain_char p \<and> l \<in> LBRACKETS \<and> BRACKETS r = Some l \<and> bal b)"
proof -
  show ?thesis
  proof (cases "\<exists>p l b r q. s = p @ l # b @ r # q \<and> list_all plain_char p \<and> l \<in> LBRACKETS \<and> BRACKETS r = Some l \<and> bal b")
    case True
    then show ?thesis using bracket_group_found by fastforce
  next
    case False
    obtain i' j' where ij: "FindEnclosingBracketGroup s = (i', j')" by fastforce
    have "i' = - 1"
    proof (rule ccontr)
      assume "i' \<noteq> - 1"
      from FindEnclosingBracketGroup_sound [OF ij [unfolded FindEnclosingBracketGroup_def] this] False show False by blast
    qed
    moreover have "j' = - 1" using bracket_loop_pair [OF ij [unfolded FindEnclosingBracketGroup_def]] \<open>i' = - 1\<close> by simp
    ultimately have "FindEnclosingBracketGroup s = (- 1, - 1)" using ij by simp
    with False show ?thesis by (auto simp del: ex_simps split_paired_Ex)
  qed
qed

section \<open>Canonical integers are what \<open>str\<close> makes\<close>

lemma digit_char: "is_digit c \<Longrightarrow> char_of (48 + (ord c - 48)) = c"
  by (simp add: is_digit_def ord_def)

lemma digits_val_snoc: "digits_val (s @ [c]) = 10 * digits_val s + (ord c - 48)"
  by (simp add: digits_val_def)

lemma nat_str_canonical:
  "s \<noteq> [] \<Longrightarrow> list_all is_digit s \<Longrightarrow> 49 \<le> ord (hd s) \<Longrightarrow> nat_str (digits_val s) = s \<and> 0 < digits_val s"
proof (induction s rule: rev_induct)
  case (snoc c s)
  have c: "is_digit c" "ord c - 48 < 10" using snoc.prems by (auto simp: is_digit_def)
  show ?case
  proof (cases "s = []")
    case True
    then have "digits_val (s @ [c]) = ord c - 48" "0 < ord c - 48" using snoc.prems by (simp_all add: digits_val_def)
    then show ?thesis using True c digit_char [OF c(1)] by (subst nat_str.simps) (simp add: ord_def)
  next
    case False
    then have IH: "nat_str (digits_val s) = s" "0 < digits_val s" using snoc by auto
    have d: "digits_val (s @ [c]) div 10 = digits_val s" "digits_val (s @ [c]) mod 10 = ord c - 48" "\<not> digits_val (s @ [c]) < 10"
      using c(2) IH(2) by (auto simp: digits_val_snoc)
    then have "nat_str (digits_val (s @ [c])) = s @ [c]"
      using IH(1) c digit_char by (subst nat_str.simps) simp
    then show ?thesis using d(3) by simp
  qed
qed simp

lemma nat_str_head: "0 < n \<Longrightarrow> 49 \<le> ord (hd (nat_str n)) \<and> ord (hd (nat_str n)) \<le> 57"
proof (induction n rule: nat_str.induct)
  case (1 n)
  show ?case
  proof (cases "n < 10")
    case True
    then show ?thesis using 1(2) ord_char_of_digit [of n] by (subst (1 2) nat_str.simps) simp
  next
    case False
    then have "49 \<le> ord (hd (nat_str (n div 10))) \<and> ord (hd (nat_str (n div 10))) \<le> 57" using 1(1) by simp
    then show ?thesis using False by (subst (1 2) nat_str.simps) simp
  qed
qed

lemma canonical_is_int_str:
  assumes c: "IsStrCanonicalInt (PStr s)"
  shows "\<exists>i. s = int_str i"
proof (cases "s = ''0''")
  case True
  have "int_str 0 = ''0''" by code_simp
  then show ?thesis using True by metis
next
  case False
  let ?t = "if hd s = CHR ''-'' then tl s else s"
  have t: "s \<noteq> []" "?t \<noteq> []" "list_all is_digit ?t" "49 \<le> ord (hd ?t)"
    using c False by (auto simp: IsStrCanonicalInt_def Let_def split: if_splits)
  note n = nat_str_canonical [OF t(2-4)]
  show ?thesis
  proof (cases "hd s = CHR ''-''")
    case True
    then have "s = CHR ''-'' # tl s" using t(1) by (cases s) auto
    then show ?thesis using True n by (intro exI [of _ "- int (digits_val (tl s))"]) (simp add: int_str_def)
  next
    case False
    then show ?thesis using n by (intro exI [of _ "int (digits_val s)"]) (simp add: int_str_def)
  qed
qed

text \<open>
  \<open>IsStrCanonicalInt\<close> accepts exactly the strings that \<open>str\<close> makes of integers, which is what its
  description says of them.
\<close>

theorem IsStrCanonicalInt_iff: "IsStrCanonicalInt (PStr s) \<longleftrightarrow> (\<exists>i. s = int_str i)"
proof
  assume "IsStrCanonicalInt (PStr s)"
  then show "\<exists>i. s = int_str i" by (rule canonical_is_int_str)
next
  assume "\<exists>i. s = int_str i"
  then obtain i where i: "s = int_str i" by blast
  have digits: "list_all is_digit (nat_str n)" for n using nat_str_digits by (auto simp: list_all_iff)
  have minus: "hd (nat_str n) \<noteq> CHR ''-''" if "0 < n" for n
    using nat_str_head [OF that] by (auto simp: ord_def)
  have zero: "nat_str 0 = ''0''" by code_simp
  consider "i = 0" | "0 < i" | "i < 0" by linarith
  then show "IsStrCanonicalInt (PStr s)"
  proof cases
    case 1
    then show ?thesis using zero by (simp add: i int_str_def IsStrCanonicalInt_def)
  next
    case 2
    then show ?thesis using digits nat_str_head [of "nat i"] minus [of "nat i"]
      by (simp add: i int_str_def IsStrCanonicalInt_def Let_def)
  next
    case 3
    then show ?thesis using digits nat_str_head [of "nat (- i)"]
      by (simp add: i int_str_def IsStrCanonicalInt_def Let_def)
  qed
qed

end
