(* ===== verification/Gyp_Write.thy ===== *)
theory Gyp_Write
  imports Py_Value Py_Path
begin

text \<open>
  \<open>WriteOnDiff\<close> and \<open>EnsureDirExists\<close> of \<open>gyp/common.py\<close> on a file system of named files and
  directories. A file has an identity that is new whenever it is created; a build tool that looks at
  modification times sees a file as changed exactly when the identity changes. Shown: what the file
  holds after \<open>close\<close>, that an equal file is left alone, and that no temporary file stays behind.
\<close>

section \<open>The file system\<close>

record ofile =
  f_data :: string
  f_mode :: nat
  f_id :: nat

record fsys =
  fs_files :: "(string, ofile) dict"
  fs_dirs :: "string list"
  fs_next :: nat

definition fs_exists :: "fsys \<Rightarrow> string \<Rightarrow> bool" where
  "fs_exists fs p = (dhas (fs_files fs) p \<or> p \<in> set (fs_dirs fs))"

text \<open>\<open>os.mkdir\<close>, \<open>os.unlink\<close>, \<open>os.rename\<close> of a file; the error is an \<open>OSError\<close>.\<close>

definition mkdir :: "string \<Rightarrow> fsys \<Rightarrow> fsys option" where
  "mkdir p fs =
     (if p = [] \<or> fs_exists fs p \<or> (dirname p \<noteq> [] \<and> dirname p \<notin> set (fs_dirs fs)) then None
      else Some (fs\<lparr>fs_dirs := fs_dirs fs @ [p]\<rparr>))"

definition unlink :: "string \<Rightarrow> fsys \<Rightarrow> fsys" where
  "unlink p fs = fs\<lparr>fs_files := ddel (fs_files fs) p\<rparr>"

definition rename :: "string \<Rightarrow> string \<Rightarrow> fsys \<Rightarrow> fsys option" where
  "rename p q fs =
     (case dget (fs_files fs) p of
        None \<Rightarrow> None
      | Some f \<Rightarrow> if q \<in> set (fs_dirs fs) then None
                  else Some (fs\<lparr>fs_files := dset (ddel (fs_files fs) p) q f\<rparr>))"

section \<open>\<open>EnsureDirExists\<close>\<close>

text \<open>\<open>os.makedirs\<close>: the state when it returns or raises. The fuel is the length of the path.\<close>

primrec makedirs :: "nat \<Rightarrow> string \<Rightarrow> fsys \<Rightarrow> fsys \<times> bool" where
  "makedirs 0 name fs = (fs, False)"
| "makedirs (Suc n) name fs =
     (let (head0, tail0) = path_split name;
          (head, tail) = (if tail0 = [] then path_split head0 else (head0, tail0));
          fs1 = (if head \<noteq> [] \<and> tail \<noteq> [] \<and> \<not> fs_exists fs head then makedirs n head fs else (fs, True))
      in if \<not> snd fs1 then fs1
         else if head \<noteq> [] \<and> tail = ''.'' \<and> \<not> fs_exists fs head then (fst fs1, True)
         else case mkdir name (fst fs1) of None \<Rightarrow> (fst fs1, False) | Some fs2 \<Rightarrow> (fs2, True))"

definition EnsureDirExists :: "string \<Rightarrow> fsys \<Rightarrow> fsys" where
  "EnsureDirExists path fs = fst (makedirs (Suc (length (dirname path))) (dirname path) fs)"

section \<open>\<open>WriteOnDiff\<close>\<close>

text \<open>
  \<open>__init__\<close>: \<open>tempfile.mkstemp\<close> makes a file beside the target; \<open>rnd\<close> is the random part of its name.
  Nothing is made when the directory is missing.
\<close>

definition tmp_path :: "string \<Rightarrow> string \<Rightarrow> string" where
  "tmp_path rnd filename = path_join2 (fst (path_split filename)) (snd (path_split filename) @ ''.gyp.'' @ rnd @ ''.tmp'')"

definition Writer_init :: "string \<Rightarrow> string \<Rightarrow> fsys \<Rightarrow> (string \<times> fsys) option" where
  "Writer_init rnd filename fs =
     (let dir = fst (path_split filename); tmp = tmp_path rnd filename in
      if dir \<noteq> [] \<and> dir \<notin> set (fs_dirs fs) then None
      else if fs_exists fs tmp then None
      else Some (tmp, fs\<lparr>fs_files := dset (fs_files fs) tmp \<lparr>f_data = [], f_mode = 384, f_id = fs_next fs\<rparr>,
                         fs_next := fs_next fs + 1\<rparr>))"

text \<open>\<open>write\<close> is delegated to the temporary file.\<close>

definition Writer_write :: "string \<Rightarrow> string \<Rightarrow> fsys \<Rightarrow> fsys" where
  "Writer_write tmp s fs =
     (case dget (fs_files fs) tmp of
        None \<Rightarrow> fs
      | Some f \<Rightarrow> fs\<lparr>fs_files := dset (fs_files fs) tmp (f\<lparr>f_data := f_data f @ s\<rparr>)\<rparr>)"

text \<open>\<open>filecmp.cmp(tmp, filename, False)\<close>; \<open>False\<close> too when there is no such file.\<close>

definition same_file :: "string \<Rightarrow> string \<Rightarrow> fsys \<Rightarrow> bool" where
  "same_file p q fs =
     (case (dget (fs_files fs) p, dget (fs_files fs) q) of (Some f, Some g) \<Rightarrow> f_data f = f_data g | _ \<Rightarrow> False)"

definition chmod :: "nat \<Rightarrow> string \<Rightarrow> fsys \<Rightarrow> fsys" where
  "chmod mode p fs =
     (case dget (fs_files fs) p of
        None \<Rightarrow> fs
      | Some f \<Rightarrow> fs\<lparr>fs_files := dset (fs_files fs) p (f\<lparr>f_mode := mode\<rparr>)\<rparr>)"

text \<open>\<open>close\<close>: the state, and whether it returned; \<open>mode\<close> is \<open>0666 & ~umask\<close>.\<close>

definition Writer_close :: "bool \<Rightarrow> nat \<Rightarrow> string \<Rightarrow> string \<Rightarrow> fsys \<Rightarrow> fsys \<times> bool" where
  "Writer_close win32 mode filename tmp fs =
     (if same_file tmp filename fs then (unlink tmp fs, True)
      else let fs1 = chmod mode tmp fs;
               fs2 = (if win32 \<and> dhas (fs_files fs1) filename then unlink filename fs1 else fs1)
           in case rename tmp filename fs2 of
                None \<Rightarrow> (unlink tmp fs2, False)
              | Some fs3 \<Rightarrow> (fs3, True))"

text \<open>What the callers do: open, write some strings, close.\<close>

definition WriteOnDiff :: "bool \<Rightarrow> nat \<Rightarrow> string \<Rightarrow> string \<Rightarrow> string list \<Rightarrow> fsys \<Rightarrow> fsys \<times> bool" where
  "WriteOnDiff win32 mode rnd filename chunks fs =
     (case Writer_init rnd filename fs of
        None \<Rightarrow> (fs, False)
      | Some (tmp, fs1) \<Rightarrow> Writer_close win32 mode filename tmp (foldl (\<lambda>s c. Writer_write tmp c s) fs1 chunks))"

section \<open>A file is replaced only when it changes\<close>

definition file_at :: "fsys \<Rightarrow> string \<Rightarrow> ofile option" where
  "file_at fs p = dget (fs_files fs) p"

lemma file_at_write [simp]:
  "file_at (Writer_write tmp s fs) p =
     (if p = tmp then map_option (\<lambda>f. f\<lparr>f_data := f_data f @ s\<rparr>) (file_at fs p) else file_at fs p)"
  by (auto simp: Writer_write_def file_at_def split: option.splits)

lemma dirs_write [simp]: "fs_dirs (Writer_write tmp s fs) = fs_dirs fs"
  by (auto simp: Writer_write_def split: option.splits)

lemma file_at_writes:
  "file_at (foldl (\<lambda>s c. Writer_write tmp c s) fs chunks) p =
     (if p = tmp then map_option (\<lambda>f. f\<lparr>f_data := f_data f @ concat chunks\<rparr>) (file_at fs p) else file_at fs p)"
  "fs_dirs (foldl (\<lambda>s c. Writer_write tmp c s) fs chunks) = fs_dirs fs"
  by (induction chunks arbitrary: fs) (auto simp: option.map_comp comp_def option.map_ident)

lemma last_split_on_append: "c \<notin> set b \<Longrightarrow> last (split_on c (a @ c # b)) = b"
proof (induction a)
  case Nil
  then show ?case by (simp add: split_on_no_sep)
next
  case (Cons x a)
  obtain y ys where s: "split_on c (a @ c # b) = y # ys" by (metis neq_Nil_conv split_on_ne)
  have "ys \<noteq> []"
  proof
    assume "ys = []"
    then have "a @ c # b = y" using join_split_on [of c "a @ c # b"] by (simp add: s)
    moreover have "c \<notin> set y" using split_on_parts [of y c "a @ c # b"] by (simp add: s)
    ultimately show False by auto
  qed
  then show ?case using Cons s by simp
qed

lemma path_tail_plain: "slash \<notin> set (path_tail p)"
  unfolding path_tail_def by (rule split_on_parts [OF last_in_set]) simp

lemma path_tail_join:
  assumes "slash \<notin> set b"
  shows "path_tail (path_join2 h b) = b"
proof -
  have b: "\<not> startswith b ''/''" using assms by (cases b) (auto simp: startswith_def slash_def)
  consider "h = []" | g where "h = g @ [slash]" | "h \<noteq> []" "\<not> endswith h ''/''"
    by (cases h rule: rev_cases) (auto simp: endswith_def slash_def)
  then show ?thesis
  proof cases
    case 1
    then show ?thesis using assms b by (simp add: path_join2_def path_tail_def split_on_no_sep)
  next
    case (2 g)
    then have "path_join2 h b = g @ slash # b" using b by (simp add: path_join2_def endswith_def slash_def)
    then show ?thesis using last_split_on_append [OF assms] by (simp add: path_tail_def)
  next
    case 3
    then have "path_join2 h b = h @ slash # b" using b by (simp add: path_join2_def slash_def)
    then show ?thesis using last_split_on_append [OF assms] by (simp add: path_tail_def)
  qed
qed

lemma tmp_not_target:
  assumes "slash \<notin> set rnd"
  shows "tmp_path rnd filename \<noteq> filename"
proof
  assume "tmp_path rnd filename = filename"
  moreover have "path_tail (tmp_path rnd filename) = path_tail filename @ ''.gyp.'' @ rnd @ ''.tmp''"
    unfolding tmp_path_def using assms path_tail_plain [of filename]
    by (subst path_tail_join) (auto simp: path_split_def slash_def)
  ultimately show False by simp
qed

text \<open>What an opened, written and closed file leaves: \<open>data\<close> in \<open>filename\<close>, the old file itself if it
  held the same, and every other file as it was.\<close>

definition replaced :: "nat \<Rightarrow> string \<Rightarrow> string \<Rightarrow> fsys \<Rightarrow> ofile option \<Rightarrow> bool" where
  "replaced mode filename data fs new =
     (case file_at fs filename of
        Some old \<Rightarrow> if f_data old = data then new = Some old
                    else new = Some \<lparr>f_data = data, f_mode = mode, f_id = fs_next fs\<rparr>
      | None \<Rightarrow> new = Some \<lparr>f_data = data, f_mode = mode, f_id = fs_next fs\<rparr>)"

lemma Writer_close_correct:
  assumes "file_at fs tmp = Some f" and "tmp \<noteq> filename" and "filename \<notin> set (fs_dirs fs)"
    and "Writer_close win32 mode filename tmp fs = (fs', ok)"
  shows "ok \<and> file_at fs' tmp = None \<and> (\<forall>p. p \<noteq> tmp \<longrightarrow> p \<noteq> filename \<longrightarrow> file_at fs' p = file_at fs p)
    \<and> file_at fs' filename = (case file_at fs filename of
        Some old \<Rightarrow> Some (if f_data old = f_data f then old else f\<lparr>f_mode := mode\<rparr>) | None \<Rightarrow> Some (f\<lparr>f_mode := mode\<rparr>))"
proof (cases "same_file tmp filename fs")
  case True
  then show ?thesis using assms
    by (auto simp: Writer_close_def same_file_def file_at_def unlink_def split: option.splits)
next
  case False
  then show ?thesis using assms
    by (auto simp: Writer_close_def Let_def chmod_def same_file_def file_at_def unlink_def rename_def split: option.splits if_splits)
qed


definition demo_fs :: fsys where
  "demo_fs = \<lparr>fs_files = [(''out/a.txt'', \<lparr>f_data = ''x'', f_mode = 420, f_id = 0\<rparr>)], fs_dirs = [''out''], fs_next = 1\<rparr>"


end
