(* ===== verification/Py_Shlex.thy ===== *)
theory Py_Shlex
  imports Gyp_Common
begin

text \<open>
  \<open>shlex.split\<close> of the standard library in POSIX mode, and \<open>repr\<close> and \<open>str\<close> of the values of GYP files.
  Shown: \<open>shlex.split\<close> reads back what \<open>EncodePOSIXShellList\<close> writes, which is how a list that was
  expanded into a string becomes a list again.
\<close>

section \<open>\<open>shlex.split\<close>\<close>

definition shlex_space :: "char \<Rightarrow> bool" where
  "shlex_space c \<longleftrightarrow> c \<in> {CHR '' '', CHR 0x09, CHR 0x0D, CHR 0x0A}"

definition shlex_quote :: "char \<Rightarrow> bool" where
  "shlex_quote c \<longleftrightarrow> c = CHR 0x22 \<or> c = CHR 0x27"

definition the_word :: "string option \<Rightarrow> string" where
  "the_word cur = (case cur of None \<Rightarrow> [] | Some w \<Rightarrow> w)"

text \<open>The quote that is open, the word so far (if one has begun), the rest of the input.\<close>

fun shlex_go :: "char option \<Rightarrow> string option \<Rightarrow> string \<Rightarrow> string list res" where
  "shlex_go None cur [] = Inr (case cur of None \<Rightarrow> [] | Some w \<Rightarrow> [w])"
| "shlex_go (Some q) cur [] = Inl (ValueError ''No closing quotation'')"
| "shlex_go None cur (c # s) =
     (if shlex_space c then
        res_bind (shlex_go None None s) (\<lambda>ws. Inr (case cur of None \<Rightarrow> ws | Some w \<Rightarrow> w # ws))
      else if c = CHR 0x5C then
        (case s of
           [] \<Rightarrow> Inl (ValueError ''No escaped character'')
         | d # t \<Rightarrow> shlex_go None (Some (the_word cur @ [d])) t)
      else if shlex_quote c then shlex_go (Some c) (Some (the_word cur)) s
      else shlex_go None (Some (the_word cur @ [c])) s)"
| "shlex_go (Some q) cur (c # s) =
     (if c = q then shlex_go None (Some (the_word cur)) s
      else if c = CHR 0x5C \<and> q = CHR 0x22 then
        (case s of
           [] \<Rightarrow> Inl (ValueError ''No escaped character'')
         | d # t \<Rightarrow> shlex_go (Some q) (Some (the_word cur @ (if d = c \<or> d = q then [d] else [c, d]))) t)
      else shlex_go (Some q) (Some (the_word cur @ [c])) s)"

definition shlex_split :: "string \<Rightarrow> string list res" where
  "shlex_split s = shlex_go None None s"

section \<open>\<open>repr\<close> and \<open>str\<close>\<close>

definition hex_digit :: "nat \<Rightarrow> char" where
  "hex_digit n = ''0123456789abcdef'' ! (n mod 16)"

definition repr_char :: "char \<Rightarrow> char \<Rightarrow> string" where
  "repr_char q c =
     (if c = q \<or> c = CHR 0x5C then [CHR 0x5C, c]
      else if c = CHR 0x09 then [CHR 0x5C, CHR ''t'']
      else if c = CHR 0x0A then [CHR 0x5C, CHR ''n'']
      else if c = CHR 0x0D then [CHR 0x5C, CHR ''r'']
      else if ord c < 32 \<or> 127 \<le> ord c then [CHR 0x5C, CHR ''x'', hex_digit (ord c div 16), hex_digit (ord c)]
      else [c])"

definition repr_str :: "string \<Rightarrow> string" where
  "repr_str s =
     (let q = (if CHR 0x27 \<in> set s \<and> CHR 0x22 \<notin> set s then CHR 0x22 else CHR 0x27)
      in [q] @ concat (map (repr_char q) s) @ [q])"

fun py_repr :: "pyval \<Rightarrow> string" where
  "py_repr (PStr s) = repr_str s"
| "py_repr (PInt i) = int_str i"
| "py_repr (PList l) = ''['' @ join '', '' (map py_repr l) @ '']''"
| "py_repr (PDict d) = ''{'' @ join '', '' (map (\<lambda>(k, v). repr_str k @ '': '' @ py_repr v) d) @ ''}''"

definition py_str :: "pyval \<Rightarrow> string" where
  "py_str v = (case v of PStr s \<Rightarrow> s | _ \<Rightarrow> py_repr v)"

section \<open>Reading back what was quoted\<close>

text \<open>Backquotes are escaped for the shell, but \<open>shlex\<close> keeps the backslash; carriage returns are not
  quoted, but \<open>shlex\<close> splits at them; a single quote is a reason to quote.\<close>

definition shlex_safe :: "string \<Rightarrow> bool" where
  "shlex_safe a \<longleftrightarrow> CHR 0x60 \<notin> set a \<and> CHR 0x0D \<notin> set a"

lemma shlex_unquoted:
  assumes "\<not> list_ex shell_quote_char a" and "shlex_safe a"
  shows "shlex_go None (Some w) (shell_escape a @ s) = shlex_go None (Some (w @ a)) s"
  using assms
proof (induction a arbitrary: w)
  case (Cons c a)
  have c: "\<not> shell_quote_char c" "c \<noteq> CHR 0x0D" "c \<noteq> CHR 0x60" and IH: "shlex_safe a" "\<not> list_ex shell_quote_char a"
    using Cons.prems by (auto simp: shlex_safe_def)
  have *: "shlex_go None (Some w) (shell_escape (c # a) @ s) = shlex_go None (Some (w @ [c])) (shell_escape a @ s)"
  proof (cases "shell_escape_char c")
    case True
    then show ?thesis by (simp add: shlex_space_def the_word_def)
  next
    case False
    then have "\<not> shlex_space c" "c \<noteq> CHR 0x5C" "\<not> shlex_quote c"
      using c by (auto simp: shlex_space_def shell_quote_char_def shlex_quote_def shell_escape_char_def)
    then show ?thesis using False by (simp add: the_word_def)
  qed
  show ?case unfolding * using Cons.IH [OF IH(2,1)] by simp
qed simp

lemma shlex_quoted:
  assumes "shlex_safe a"
  shows "shlex_go (Some (CHR 0x22)) (Some w) (shell_escape a @ CHR 0x22 # s) = shlex_go None (Some (w @ a)) s"
  using assms
proof (induction a arbitrary: w)
  case (Cons c a)
  have "c \<noteq> CHR 0x60" "shlex_safe a" using Cons.prems by (auto simp: shlex_safe_def)
  moreover have "shlex_go (Some (CHR 0x22)) (Some w) (shell_escape (c # a) @ CHR 0x22 # s)
      = shlex_go (Some (CHR 0x22)) (Some (w @ [c])) (shell_escape a @ CHR 0x22 # s)"
    using \<open>c \<noteq> CHR 0x60\<close> by (auto simp: the_word_def shell_escape_char_def)
  ultimately show ?case using Cons.IH by simp
qed (simp add: the_word_def)

lemma shlex_argument:
  assumes "shlex_safe a"
  shows "shlex_go None None (EncodePOSIXShellArgument a @ s) = shlex_go None (Some a) s"
proof (cases "list_ex shell_quote_char a \<or> a = []")
  case True
  then show ?thesis using shlex_quoted [OF assms, of "[]" s]
    by (simp add: EncodePOSIXShellArgument_def shlex_space_def shlex_quote_def the_word_def)
next
  case False
  then obtain c b where a: "a = c # b" "\<not> shell_quote_char c" by (cases a) auto
  have "shlex_go None None (shell_escape a @ s) = shlex_go None (Some []) (shell_escape a @ s)"
    using a assms by (auto simp: the_word_def shlex_space_def shell_quote_char_def shlex_safe_def shell_escape_char_def)
  then show ?thesis using False shlex_unquoted [of a "[]" s] assms by (simp add: EncodePOSIXShellArgument_def)
qed

text \<open>
  C37. Round trip between \<open>EncodePOSIXShellList\<close>, which expands a list into a string, and
  \<open>shlex.split\<close>, which expands a string into a list (\<open>ExpandVariables\<close> uses both): the list comes back,
  unless an item has a backquote or a carriage return.
\<close>

theorem shlex_EncodePOSIXShellList:
  "list_all shlex_safe args \<Longrightarrow> shlex_split (EncodePOSIXShellList args) = Inr args"
proof (induction args rule: induct_list012)
  case 1
  then show ?case by (simp add: shlex_split_def EncodePOSIXShellList_def)
next
  case (2 a)
  then show ?case using shlex_argument [of a "[]"] by (simp add: shlex_split_def EncodePOSIXShellList_def)
next
  case (3 a b args)
  then have "shlex_go None None (EncodePOSIXShellList (b # args)) = Inr (b # args)" by (simp add: shlex_split_def)
  then show ?case using shlex_argument [of a "'' '' @ EncodePOSIXShellList (b # args)"] 3
    by (simp add: shlex_split_def EncodePOSIXShellList_def shlex_space_def)
qed

theorem shlex_EncodePOSIXShellList_witness:
  "shlex_split (EncodePOSIXShellList [''-DX=a b'', [], [CHR 0x22, CHR 0x5C]]) = Inr [''-DX=a b'', [], [CHR 0x22, CHR 0x5C]]"
  by (rule shlex_EncodePOSIXShellList) code_simp

end
