(* ===== verification/Py_Heap.thy ===== *)
theory Py_Heap
  imports Py_Value
begin

text \<open>
  Lists and dictionaries as objects: a heap of cells, and values that refer to cells. The
  expansion of variables changes lists in place that several dictionaries share, so that it is
  modelled on this heap; \<open>reify\<close> reads a value off the heap and \<open>store\<close> puts one there. Shown: a stored
  value is read back, and storing leaves what was there.
\<close>

section \<open>Cells\<close>

datatype hval =
    HStr string
  | HInt int
  | HList nat
  | HDict nat

datatype cell =
    CList "hval list"
  | CDict "(string \<times> hval) list"

type_synonym heap = "cell list"

fun htype :: "hval \<Rightarrow> string" where
  "htype (HStr s) = ''str''"
| "htype (HInt i) = ''int''"
| "htype (HList a) = ''list''"
| "htype (HDict a) = ''dict''"

definition list_at :: "heap \<Rightarrow> nat \<Rightarrow> hval list" where
  "list_at h a = (if a < length h then (case h ! a of CList l \<Rightarrow> l | CDict d \<Rightarrow> []) else [])"

definition dict_at :: "heap \<Rightarrow> nat \<Rightarrow> (string, hval) dict" where
  "dict_at h a = (if a < length h then (case h ! a of CDict d \<Rightarrow> d | CList l \<Rightarrow> []) else [])"

section \<open>From the heap and back\<close>

text \<open>A value that contains itself has no reading: the recursion limit, as in \<open>deepcopy\<close>. The depth of
  any other value is at most the number of cells.\<close>

primrec reify :: "nat \<Rightarrow> heap \<Rightarrow> hval \<Rightarrow> pyval res" where
  "reify 0 h v = (case v of HStr s \<Rightarrow> Inr (PStr s) | HInt i \<Rightarrow> Inr (PInt i) | _ \<Rightarrow> Inl RecursionLimit)"
| "reify (Suc n) h v =
     (case v of
        HStr s \<Rightarrow> Inr (PStr s)
      | HInt i \<Rightarrow> Inr (PInt i)
      | HList a \<Rightarrow> res_bind (mapM (reify n h) (list_at h a)) (\<lambda>l. Inr (PList l))
      | HDict a \<Rightarrow> res_bind (mapM (\<lambda>(k, x). res_bind (reify n h x) (\<lambda>y. Inr (k, y))) (dict_at h a)) (\<lambda>d. Inr (PDict d)))"

definition read_val :: "heap \<Rightarrow> hval \<Rightarrow> pyval res" where
  "read_val h v = reify (length h) h v"

definition read_dict :: "heap \<Rightarrow> (string, hval) dict \<Rightarrow> pydict res" where
  "read_dict h d = mapM (\<lambda>(k, x). res_bind (read_val h x) (\<lambda>y. Inr (k, y))) d"

fun store :: "pyval \<Rightarrow> heap \<Rightarrow> hval \<times> heap"
  and store_list :: "pyval list \<Rightarrow> heap \<Rightarrow> hval list \<times> heap"
  and store_items :: "(string \<times> pyval) list \<Rightarrow> heap \<Rightarrow> (string \<times> hval) list \<times> heap"
where
  "store (PStr s) h = (HStr s, h)"
| "store (PInt i) h = (HInt i, h)"
| "store (PList l) h = (let (xs, h') = store_list l h in (HList (length h'), h' @ [CList xs]))"
| "store (PDict d) h = (let (xs, h') = store_items d h in (HDict (length h'), h' @ [CDict xs]))"
| "store_list [] h = ([], h)"
| "store_list (v # l) h = (let (x, h1) = store v h; (xs, h2) = store_list l h1 in (x # xs, h2))"
| "store_items [] h = ([], h)"
| "store_items ((k, v) # d) h = (let (x, h1) = store v h; (xs, h2) = store_items d h1 in ((k, x) # xs, h2))"

text \<open>
  The state after a dictionary was merged into: \<open>fro\<close> was merged into the object \<open>old\<close> and \<open>new\<close> is the
  result. A dictionary or list that is there keeps its cell, but for the lists that \<open>fro\<close> replaces (their
  keys end in \<open>=\<close>), which are new objects. The items of a list are copied.
\<close>

definition sub_dict :: "pydict \<Rightarrow> string \<Rightarrow> pydict" where
  "sub_dict d k = (case dget d k of Some (PDict e) \<Rightarrow> e | _ \<Rightarrow> [])"

fun write_back :: "pyval \<Rightarrow> pydict \<Rightarrow> hval option \<Rightarrow> heap \<Rightarrow> hval \<times> heap"
  and write_items :: "pydict \<Rightarrow> pydict \<Rightarrow> (string, hval) dict \<Rightarrow> heap \<Rightarrow> (string, hval) dict \<times> heap"
where
  "write_back (PDict d) fro (Some (HDict a)) h =
     (let (xs, h') = write_items d fro (dict_at h a) h in (HDict a, h'[a := CDict xs]))"
| "write_back (PList l) fro (Some (HList a)) h = (let (xs, h') = store_list l h in (HList a, h'[a := CList xs]))"
| "write_back v fro old h = store v h"
| "write_items [] fro old h = ([], h)"
| "write_items ((k, v) # d) fro old h =
     (let (x, h1) = write_back v (sub_dict fro k) (if dhas fro (k @ ''='') then None else dget old k) h;
          (xs, h2) = write_items d fro old h1
      in ((k, x) # xs, h2))"

section \<open>What is stored is read back\<close>

lemma list_at_append [simp]: "a < length h \<Longrightarrow> list_at (h @ g) a = list_at h a"
  by (simp add: list_at_def nth_append)

lemma dict_at_append [simp]: "a < length h \<Longrightarrow> dict_at (h @ g) a = dict_at h a"
  by (simp add: dict_at_def nth_append)

lemma store_grows:
  "\<exists>g. snd (store v h) = h @ g" "\<exists>g. snd (store_list l h) = h @ g" "\<exists>g. snd (store_items d h) = h @ g"
proof (induction v h and l h and d h rule: store_store_list_store_items.induct)
  case (6 v l h)
  then show ?case using 6(2) [OF prod.collapse prod.collapse] by (auto simp: split_beta Let_def)
next
  case (8 k v d h)
  then show ?case using 8(2) [OF prod.collapse prod.collapse] by (auto simp: split_beta Let_def)
qed (auto simp: split_beta Let_def)

text \<open>The value \<open>x\<close> on the heap is \<open>v\<close>; it stays so when cells are added.\<close>

fun denotes :: "heap \<Rightarrow> hval \<Rightarrow> pyval \<Rightarrow> bool"
  and denotes_list :: "heap \<Rightarrow> hval list \<Rightarrow> pyval list \<Rightarrow> bool"
  and denotes_items :: "heap \<Rightarrow> (string \<times> hval) list \<Rightarrow> (string \<times> pyval) list \<Rightarrow> bool"
where
  "denotes h x (PStr s) = (x = HStr s)"
| "denotes h x (PInt i) = (x = HInt i)"
| "denotes h x (PList l) = (\<exists>a<length h. x = HList a \<and> (\<exists>xs. h ! a = CList xs \<and> denotes_list (take a h) xs l))"
| "denotes h x (PDict d) = (\<exists>a<length h. x = HDict a \<and> (\<exists>xs. h ! a = CDict xs \<and> denotes_items (take a h) xs d))"
| "denotes_list h xs [] = (xs = [])"
| "denotes_list h xs (v # l) = (\<exists>y ys. xs = y # ys \<and> denotes h y v \<and> denotes_list h ys l)"
| "denotes_items h xs [] = (xs = [])"
| "denotes_items h xs ((k, v) # d) = (\<exists>y ys. xs = (k, y) # ys \<and> denotes h y v \<and> denotes_items h ys d)"

lemma denotes_append:
  "denotes h x v \<Longrightarrow> denotes (h @ g) x v"
  "denotes_list h xs l \<Longrightarrow> denotes_list (h @ g) xs l"
  "denotes_items h ys d \<Longrightarrow> denotes_items (h @ g) ys d"
proof (induction h x v and h xs l and h ys d rule: denotes_denotes_list_denotes_items.induct)
  case (3 h x l)
  then obtain a xs where "a < length h" "x = HList a" "h ! a = CList xs" "denotes_list (take a h) xs l" by auto
  then show ?case by (auto simp: nth_append)
next
  case (4 h x d)
  then obtain a xs where "a < length h" "x = HDict a" "h ! a = CDict xs" "denotes_items (take a h) xs d" by auto
  then show ?case by (auto simp: nth_append)
qed auto

lemma store_denotes:
  "denotes (snd (store v h)) (fst (store v h)) v"
  "denotes_list (snd (store_list l h)) (fst (store_list l h)) l"
  "denotes_items (snd (store_items d h)) (fst (store_items d h)) d"
proof (induction v h and l h and d h rule: store_store_list_store_items.induct)
  case (6 v l h)
  obtain g where "snd (store_list l (snd (store v h))) = snd (store v h) @ g" using store_grows(2) by blast
  then show ?case using 6(1) 6(2) [OF prod.collapse prod.collapse] denotes_append(1) [of "snd (store v h)" "fst (store v h)" v g] by (auto simp: split_beta Let_def)
next
  case (8 k v d h)
  obtain g where "snd (store_items d (snd (store v h))) = snd (store v h) @ g" using store_grows(3) by blast
  then show ?case using 8(1) 8(2) [OF prod.collapse prod.collapse] denotes_append(1) [of "snd (store v h)" "fst (store v h)" v g] by (auto simp: split_beta Let_def)
qed (auto simp: split_beta Let_def)

lemma list_at_take [simp]: "a < n \<Longrightarrow> list_at (take n h) a = list_at h a"
  by (auto simp: list_at_def)

lemma reify_denotes:
  "denotes g x v \<Longrightarrow> g = take m h \<Longrightarrow> m \<le> n \<Longrightarrow> m \<le> length h \<Longrightarrow> reify n h x = Inr v"
  "denotes_list g xs l \<Longrightarrow> g = take m h \<Longrightarrow> m \<le> n \<Longrightarrow> m \<le> length h \<Longrightarrow> mapM (reify n h) xs = Inr l"
  "denotes_items g ys d \<Longrightarrow> g = take m h \<Longrightarrow> m \<le> n \<Longrightarrow> m \<le> length h \<Longrightarrow>
     mapM (\<lambda>(k, x). res_bind (reify n h x) (\<lambda>y. Inr (k, y))) ys = Inr d"
proof (induction g x v and g xs l and g ys d arbitrary: m n and m n and m n rule: denotes_denotes_list_denotes_items.induct)
  case (1 g x s)
  then show ?case by (cases n) auto
next
  case (2 g x i)
  then show ?case by (cases n) auto
next
  case (3 g x l)
  then obtain a xs where a: "a < m" "x = HList a" "h ! a = CList xs" "denotes_list (take a h) xs l" by auto
  obtain k where k: "n = Suc k" "a \<le> k" using a 3 by (cases n) auto
  have "mapM (reify k h) xs = Inr l"
    by (rule "3.IH" [where m = a]) (use a 3 k in \<open>auto simp: min_def\<close>)
  then show ?case using a 3 k by (simp add: list_at_def)
next
  case (4 g x d)
  then obtain a xs where a: "a < m" "x = HDict a" "h ! a = CDict xs" "denotes_items (take a h) xs d" by auto
  obtain k where k: "n = Suc k" "a \<le> k" using a 4 by (cases n) auto
  have "mapM (\<lambda>(k', x). res_bind (reify k h x) (\<lambda>y. Inr (k', y))) xs = Inr d"
    by (rule "4.IH" [where m = a]) (use a 4 k in \<open>auto simp: min_def\<close>)
  then show ?case using a 4 k by (simp add: dict_at_def)
qed auto

text \<open>
  Values survive the way to the heap and back: what \<open>store\<close> puts there is what \<open>read_val\<close> reads.
\<close>

theorem read_val_store: "read_val (snd (store v h)) (fst (store v h)) = Inr v"
  unfolding read_val_def by (rule reify_denotes(1) [OF store_denotes(1), where m = "length (snd (store v h))"]) simp_all

end
