(* ===== verification/Gyp_Variables.thy ===== *)
theory Gyp_Variables
  imports Gyp_Brackets Gyp_Merge Gyp_Filters Gyp_Write Py_Shlex Py_Heap
begin

text \<open>
  The expansion of variables and commands and the evaluation of conditions in \<open>gyp/input.py\<close>:
  \<open>ExpandVariables\<close>, \<open>EvalCondition\<close>, \<open>ProcessConditionsInDict\<close>, the automatic variables, and
  \<open>ProcessVariablesAndConditionsInDict\<close> and its companion for lists, on the heap of \<open>Py_Heap\<close>. What the
  code runs but does not contain is a parameter: commands (\<open>subprocess\<close>), Python modules, and the
  evaluation of Python expressions. The three recursive functions are written over the functions they call
  (\<open>xcalls\<close>); \<open>engine\<close> ties the knot for a given depth of recursion.
\<close>

section \<open>State and parameters\<close>

datatype phase = PHASE_EARLY | PHASE_LATE | PHASE_LATELATE

definition expansion_symbol :: "phase \<Rightarrow> char" where
  "expansion_symbol p = (case p of PHASE_EARLY \<Rightarrow> CHR ''<'' | PHASE_LATE \<Rightarrow> CHR ''>'' | PHASE_LATELATE \<Rightarrow> CHR ''^'')"

text \<open>\<open>generator_filelist_paths\<close>.\<close>

record filelist_paths =
  fp_toplevel :: string
  fp_qualified_out_dir :: string

text \<open>What evaluating a condition and what running a module can end in.\<close>

datatype cond_result = CondValue bool | CondSyntaxError string string nat | CondNameError string | CondRaises py_error

datatype pymod_result = ModImportError string | ModRaises py_error | ModOutput string

text \<open>
  The parameters. Commands and modules may answer differently each time: they are given the number
  of the run. \<open>xe_popen\<close> gives the exit status, the output and the error output.
\<close>

record xenv =
  xe_gyp :: gyp_env
  xe_win32 :: bool
  xe_filelist :: "filelist_paths option"
  xe_mode :: nat
  xe_rnd :: "nat \<Rightarrow> string"
  xe_eval :: "string \<Rightarrow> pyval res"
  xe_cond :: "string \<Rightarrow> pydict \<Rightarrow> cond_result"
  xe_popen :: "nat \<Rightarrow> pyval \<Rightarrow> bool \<Rightarrow> string option \<Rightarrow> (int \<times> string \<times> string) res"
  xe_pymod :: "nat \<Rightarrow> string option \<Rightarrow> string list \<Rightarrow> pymod_result"

text \<open>The state: the heap, \<open>cached_command_results\<close>, the number of runs, the file system.\<close>

record xstate =
  xs_heap :: heap
  xs_cache :: "(string \<times> string option, string) dict"
  xs_runs :: nat
  xs_fs :: fsys

type_synonym 'a xm = "xstate \<Rightarrow> ('a \<times> xstate) res"

type_synonym vars = "(string, hval) dict"

definition xret :: "'a \<Rightarrow> 'a xm" where
  "xret x = (\<lambda>s. Inr (x, s))"

definition xerr :: "py_error \<Rightarrow> 'a xm" where
  "xerr e = (\<lambda>s. Inl e)"

definition xbind :: "'a xm \<Rightarrow> ('a \<Rightarrow> 'b xm) \<Rightarrow> 'b xm" where
  "xbind m f = (\<lambda>s. case m s of Inl e \<Rightarrow> Inl e | Inr (x, s') \<Rightarrow> f x s')"

definition xlift :: "'a res \<Rightarrow> 'a xm" where
  "xlift r = (\<lambda>s. case r of Inl e \<Rightarrow> Inl e | Inr x \<Rightarrow> Inr (x, s))"

definition xget :: "(xstate \<Rightarrow> 'a) \<Rightarrow> 'a xm" where
  "xget f = (\<lambda>s. Inr (f s, s))"

definition xput :: "(xstate \<Rightarrow> xstate) \<Rightarrow> unit xm" where
  "xput f = (\<lambda>s. Inr ((), f s))"

fun xmap :: "('a \<Rightarrow> 'b xm) \<Rightarrow> 'a list \<Rightarrow> 'b list xm" where
  "xmap f [] = xret []"
| "xmap f (x # xs) = xbind (f x) (\<lambda>y. xbind (xmap f xs) (\<lambda>ys. xret (y # ys)))"

fun xfor :: "('a \<Rightarrow> unit xm) \<Rightarrow> 'a list \<Rightarrow> unit xm" where
  "xfor f [] = xret ()"
| "xfor f (x # xs) = xbind (f x) (\<lambda>_. xfor f xs)"

text \<open>Objects.\<close>

definition get_list :: "nat \<Rightarrow> hval list xm" where
  "get_list a = xget (\<lambda>s. list_at (xs_heap s) a)"

definition get_dict :: "nat \<Rightarrow> vars xm" where
  "get_dict a = xget (\<lambda>s. dict_at (xs_heap s) a)"

definition put_cell :: "nat \<Rightarrow> cell \<Rightarrow> unit xm" where
  "put_cell a c = xput (\<lambda>s. s\<lparr>xs_heap := (xs_heap s)[a := c]\<rparr>)"

definition new_list :: "hval list \<Rightarrow> hval xm" where
  "new_list l = (\<lambda>s. Inr (HList (length (xs_heap s)), s\<lparr>xs_heap := xs_heap s @ [CList l]\<rparr>))"

definition read :: "hval \<Rightarrow> pyval xm" where
  "read v = (\<lambda>s. case read_val (xs_heap s) v of Inl e \<Rightarrow> Inl e | Inr x \<Rightarrow> Inr (x, s))"

definition read_vars :: "vars \<Rightarrow> pydict xm" where
  "read_vars d = (\<lambda>s. case read_dict (xs_heap s) d of Inl e \<Rightarrow> Inl e | Inr x \<Rightarrow> Inr (x, s))"

text \<open>\<open>str(v)\<close>.\<close>

definition hstr :: "hval \<Rightarrow> string xm" where
  "hstr v = (case v of HStr s \<Rightarrow> xret s | HInt i \<Rightarrow> xret (int_str i) | _ \<Rightarrow> xbind (read v) (\<lambda>x. xret (py_str x)))"

text \<open>The three functions that call each other.\<close>

record xcalls =
  e_expand :: "hval \<Rightarrow> phase \<Rightarrow> vars \<Rightarrow> string \<Rightarrow> hval xm"
  e_list :: "nat \<Rightarrow> phase \<Rightarrow> vars \<Rightarrow> string \<Rightarrow> unit xm"
  e_dict :: "nat \<Rightarrow> phase \<Rightarrow> vars \<Rightarrow> string \<Rightarrow> string option \<Rightarrow> unit xm"

section \<open>Running commands and writing lists\<close>

text \<open>\<open>s[a:b]\<close>: negative positions count from the end.\<close>

definition slice_pos :: "nat \<Rightarrow> int \<Rightarrow> nat" where
  "slice_pos n i = nat (if i < 0 then i + int n else i)"

definition py_slice :: "string \<Rightarrow> int \<Rightarrow> int \<Rightarrow> string" where
  "py_slice s a b = drop (slice_pos (length s) a) (take (slice_pos (length s) b) s)"

definition fix_cat :: "string \<Rightarrow> string" where
  "fix_cat s = (if startswith s ''cat '' then ''type '' @ drop 4 s else s)"

definition FixupPlatformCommand :: "bool \<Rightarrow> pyval \<Rightarrow> pyval res" where
  "FixupPlatformCommand win32 cmd =
     (if win32 then
        case cmd of
          PList l \<Rightarrow>
            (case l of
               [] \<Rightarrow> Inl IndexError
             | c # cs \<Rightarrow> res_bind (as_str c) (\<lambda>s. Inr (PList (PStr (fix_cat s) # cs))))
        | _ \<Rightarrow> res_bind (as_str cmd) (\<lambda>s. Inr (PStr (fix_cat s)))
      else Inr cmd)"

text \<open>\<open><|(name items)\<close>: the list goes to a file, and the expansion is the name of the file.\<close>

definition write_file_list :: "xenv \<Rightarrow> string \<Rightarrow> string \<Rightarrow> string xm" where
  "write_file_list env contents build_file_dir =
     (let contents_list = split_on (CHR '' '') contents; replacement = hd contents_list;
          realpath = ge_realpath (xe_gyp env)
      in if isabs replacement
         then xerr (GypError (''| cannot handle absolute paths, got '' @ [CHR 0x22] @ replacement @ [CHR 0x22]))
         else
           let path = (case xe_filelist env of
                   None \<Rightarrow> path_join build_file_dir [replacement]
                 | Some fp \<Rightarrow>
                     path_join (fp_qualified_out_dir fp)
                       [if isabs build_file_dir then RelativePath realpath build_file_dir (fp_toplevel fp) else build_file_dir,
                        replacement])
           in xbind (if xe_filelist env = None then xret () else xput (\<lambda>s. s\<lparr>xs_fs := EnsureDirExists path (xs_fs s)\<rparr>)) (\<lambda>_.
              xbind (xget (\<lambda>s. WriteOnDiff (xe_win32 env) (xe_mode env) (xe_rnd env (fs_next (xs_fs s))) path
                                 (map (\<lambda>i. i @ [nl]) (tl contents_list)) (xs_fs s))) (\<lambda>(fs, ok).
              if ok then xbind (xput (\<lambda>s. s\<lparr>xs_fs := fs\<rparr>)) (\<lambda>_. xret (RelativePath realpath path build_file_dir))
              else xerr (OSError path))))"

text \<open>\<open><!pymod_do_main(module args)\<close>.\<close>

definition run_pymod :: "xenv \<Rightarrow> pyval \<Rightarrow> string option \<Rightarrow> string xm" where
  "run_pymod env contents build_file_dir =
     xbind (xlift (case contents of PStr s \<Rightarrow> shlex_split s | _ \<Rightarrow> Inl (AttributeError ''read''))) (\<lambda>parsed_contents.
     case parsed_contents of
       [] \<Rightarrow> xerr IndexError
     | m # _ \<Rightarrow>
         xbind (xget xs_runs) (\<lambda>n.
         xbind (xput (\<lambda>s. s\<lparr>xs_runs := n + 1\<rparr>)) (\<lambda>_.
         case xe_pymod env n build_file_dir parsed_contents of
           ModImportError e \<Rightarrow> xerr (GypError (''Error importing pymod_do_mainmodule ('' @ m @ ''): '' @ e))
         | ModRaises e \<Rightarrow> xerr e
         | ModOutput out \<Rightarrow> xret (rstrip out))))"

text \<open>\<open><!(command)\<close>.\<close>

definition run_process :: "xenv \<Rightarrow> pyval \<Rightarrow> bool \<Rightarrow> string option \<Rightarrow> string xm" where
  "run_process env contents use_shell build_file_dir =
     xbind (xlift (FixupPlatformCommand (xe_win32 env) contents)) (\<lambda>cmd.
     xbind (xget xs_runs) (\<lambda>n.
     xbind (xput (\<lambda>s. s\<lparr>xs_runs := n + 1\<rparr>)) (\<lambda>_.
     xbind (xlift (xe_popen env n cmd use_shell build_file_dir)) (\<lambda>(returncode, p_stdout, p_stderr).
       if returncode \<noteq> 0 \<or> p_stderr \<noteq> []
       then xerr (GypError (''Call to '' @ sq (py_str cmd) @ '' returned exit status '' @ int_str returncode @ ''.''))
       else xret (rstrip p_stdout)))))"

definition run_command :: "xenv \<Rightarrow> var_match \<Rightarrow> string \<Rightarrow> string option \<Rightarrow> string xm" where
  "run_command env m contents build_file_dir =
     xbind (if vm_array m \<noteq> [] then xlift (xe_eval env contents) else xret (PStr contents)) (\<lambda>cmd.
     let cache_key = (py_str cmd, build_file_dir) in
     xbind (xget (\<lambda>s. dget (xs_cache s) cache_key)) (\<lambda>cached_value.
     case cached_value of
       Some v \<Rightarrow> xret v
     | None \<Rightarrow>
         xbind (case vm_command m of
                  None \<Rightarrow> run_process env cmd (vm_array m = []) build_file_dir
                | Some command_string \<Rightarrow>
                    if command_string = ''pymod_do_main'' then run_pymod env cmd build_file_dir
                    else xerr (GypError (''Unknown command string '' @ sq command_string @ '' in '' @ sq (py_str cmd) @ ''.''))) (\<lambda>replacement.
         xbind (xput (\<lambda>s. s\<lparr>xs_cache := dset (xs_cache s) cache_key replacement\<rparr>)) (\<lambda>_.
         xret replacement))))"

section \<open>\<open>ExpandVariables\<close>\<close>

definition undefined_variable :: "string \<Rightarrow> string \<Rightarrow> py_error" where
  "undefined_variable contents build_file = GypError (''Undefined variable '' @ contents @ '' in '' @ build_file)"

definition lookup_variable :: "vars \<Rightarrow> string \<Rightarrow> string \<Rightarrow> hval xm" where
  "lookup_variable variables contents build_file =
     (case dget variables contents of
        Some v \<Rightarrow> xret v
      | None \<Rightarrow>
          if contents = [] then xerr IndexError
          else if last contents \<in> {CHR ''!'', CHR ''/''} then new_list []
          else xerr (undefined_variable contents build_file))"

definition bad_variable :: "string \<Rightarrow> string \<Rightarrow> hval \<Rightarrow> py_error" where
  "bad_variable contents what v =
     GypError (''Variable '' @ contents @ '' must expand to a string or list of strings; '' @ what @ htype v)"

definition is_scalar :: "hval \<Rightarrow> bool" where
  "is_scalar v = (case v of HStr s \<Rightarrow> True | HInt i \<Rightarrow> True | _ \<Rightarrow> False)"

definition check_items :: "string \<Rightarrow> hval list \<Rightarrow> unit xm" where
  "check_items contents items =
     (if items = [] then xret ()
      else if contents = [] then xerr IndexError
      else if last contents = CHR ''/'' then xret ()
      else case filter (\<lambda>i. \<not> is_scalar i) items of
             [] \<Rightarrow> xret ()
           | i # _ \<Rightarrow> xerr (bad_variable contents ''list contains a '' i))"

text \<open>The value of a variable: a list is expanded in place.\<close>

definition expand_value :: "xcalls \<Rightarrow> phase \<Rightarrow> vars \<Rightarrow> string \<Rightarrow> string \<Rightarrow> hval \<Rightarrow> unit xm" where
  "expand_value eng phase variables build_file contents replacement =
     (case replacement of
        HList a \<Rightarrow>
          xbind (get_list a) (\<lambda>items.
          xbind (check_items contents items) (\<lambda>_.
          e_list eng a phase variables build_file))
      | HDict a \<Rightarrow> xerr (bad_variable contents ''found a '' replacement)
      | _ \<Rightarrow> xret ())"

definition list_output :: "hval \<Rightarrow> hval list xm" where
  "list_output replacement =
     (case replacement of
        HList a \<Rightarrow> get_list a
      | _ \<Rightarrow> xbind (hstr replacement) (\<lambda>t. xbind (xlift (shlex_split t)) (\<lambda>ws. xret (map HStr ws))))"

definition encoded_replacement :: "hval \<Rightarrow> string xm" where
  "encoded_replacement replacement =
     (case replacement of
        HList a \<Rightarrow> xbind (get_list a) (\<lambda>items. xbind (xmap hstr items) (\<lambda>ts. xret (EncodePOSIXShellList ts)))
      | _ \<Rightarrow> hstr replacement)"

text \<open>The contents of the parentheses, expanded. For \<open><|()\<close> the variables are first filtered, in a copy.\<close>

definition expand_contents :: "xcalls \<Rightarrow> phase \<Rightarrow> vars \<Rightarrow> string \<Rightarrow> bool \<Rightarrow> string \<Rightarrow> string xm" where
  "expand_contents eng phase variables build_file file_list contents =
     xbind (if file_list then
              xbind (read_vars variables) (\<lambda>copy.
              xbind (xlift (ProcessListFiltersInDict contents copy)) (\<lambda>filtered.
              xbind (\<lambda>s. let (d, h) = store_items filtered (xs_heap s) in Inr (d, s\<lparr>xs_heap := h\<rparr>)) (\<lambda>processed_variables.
                e_expand eng (HStr contents) phase processed_variables build_file)))
            else e_expand eng (HStr contents) phase variables build_file) (\<lambda>v.
     case v of HStr t \<Rightarrow> xret (strip t) | _ \<Rightarrow> xerr (AttributeError ''strip''))"

text \<open>What a match is replaced by.\<close>

definition match_value :: "xenv \<Rightarrow> var_match \<Rightarrow> vars \<Rightarrow> string \<Rightarrow> string \<Rightarrow> hval xm" where
  "match_value env m variables build_file contents =
     (let build_file_dir = dirname build_file in
      if CHR ''|'' \<in> set (vm_type m) then xbind (write_file_list env contents build_file_dir) (\<lambda>r. xret (HStr r))
      else if CHR ''!'' \<in> set (vm_type m)
      then xbind (run_command env m contents (if build_file_dir = [] then None else Some build_file_dir)) (\<lambda>r. xret (HStr r))
      else lookup_variable variables contents build_file)"

text \<open>One match: the items of the list, or the new string. A list results only when the match is all of
  the string, which then has no other match.\<close>

definition expand_match :: "xenv \<Rightarrow> xcalls \<Rightarrow> phase \<Rightarrow> vars \<Rightarrow> string \<Rightarrow> string \<Rightarrow> var_match \<Rightarrow> (hval list + string) xm" where
  "expand_match env eng phase variables build_file input_str m =
     (let replace_start = int (vm_start m);
          (c_start, c_end) = FindEnclosingBracketGroup (drop (vm_start m) input_str);
          replace_end = replace_start + c_end;
          replacement = py_slice input_str replace_start replace_end;
          contents0 = py_slice input_str (replace_start + c_start + 1) (replace_end - 1);
          expand_to_list = (CHR ''@'' \<in> set (vm_type m) \<and> input_str = replacement)
      in xbind (expand_contents eng phase variables build_file (CHR ''|'' \<in> set (vm_type m)) contents0) (\<lambda>contents.
         xbind (match_value env m variables build_file contents) (\<lambda>value.
         xbind (expand_value eng phase variables build_file contents value) (\<lambda>_.
         if expand_to_list then xbind (list_output value) (\<lambda>items. xret (Inl items))
         else xbind (encoded_replacement value) (\<lambda>t.
           xret (Inr (py_slice input_str 0 replace_start @ t @ drop (slice_pos (length input_str) replace_end) input_str)))))))"

fun expand_matches :: "xenv \<Rightarrow> xcalls \<Rightarrow> phase \<Rightarrow> vars \<Rightarrow> string \<Rightarrow> var_match list \<Rightarrow> string \<Rightarrow> (hval list + string) xm" where
  "expand_matches env eng phase variables build_file [] input_str = xret (Inr input_str)"
| "expand_matches env eng phase variables build_file (m # ms) input_str =
     xbind (expand_match env eng phase variables build_file input_str m) (\<lambda>output.
     case output of
       Inl items \<Rightarrow> xret (Inl items)
     | Inr t \<Rightarrow> expand_matches env eng phase variables build_file ms t)"

text \<open>Looking for more matches in the output.\<close>

definition expand_again :: "xcalls \<Rightarrow> phase \<Rightarrow> vars \<Rightarrow> string \<Rightarrow> hval \<Rightarrow> hval list + string \<Rightarrow> hval xm" where
  "expand_again eng phase variables build_file input output =
     (case output of
        Inl items \<Rightarrow>
          if items \<noteq> [] \<and> htype (hd items) = ''list'' then new_list items
          else xbind (xmap (\<lambda>i. e_expand eng i phase variables build_file) items) new_list
      | Inr t \<Rightarrow> if input = HStr t then xret input else e_expand eng (HStr t) phase variables build_file)"

definition canonical_int :: "string \<Rightarrow> int" where
  "canonical_int t = (if hd t = CHR ''-'' then - int (digits_val (tl t)) else int (digits_val t))"

definition to_int :: "hval \<Rightarrow> hval" where
  "to_int v = (case v of HStr t \<Rightarrow> if IsStrCanonicalInt (PStr t) then HInt (canonical_int t) else v | _ \<Rightarrow> v)"

definition convert_ints :: "hval \<Rightarrow> hval xm" where
  "convert_ints output =
     (case output of
        HList a \<Rightarrow> xbind (get_list a) (\<lambda>l. xbind (put_cell a (CList (map to_int l))) (\<lambda>_. xret output))
      | _ \<Rightarrow> xret (to_int output))"

definition ExpandVariables_body :: "xenv \<Rightarrow> xcalls \<Rightarrow> hval \<Rightarrow> phase \<Rightarrow> vars \<Rightarrow> string \<Rightarrow> hval xm" where
  "ExpandVariables_body env eng input phase variables build_file =
     xbind (hstr input) (\<lambda>input_str.
     if IsStrCanonicalInt (PStr input_str) then xret (HInt (canonical_int input_str))
     else if expansion_symbol phase \<notin> set input_str then xret (HStr input_str)
     else
       let matches = finditer (expansion_symbol phase) 0 input_str
       in if matches = [] then xret (HStr input_str)
          else
            xbind (expand_matches env eng phase variables build_file (rev matches) input_str) (\<lambda>output.
            xbind (expand_again eng phase variables build_file input output) convert_ints))"

section \<open>Conditions\<close>

text \<open>\<open>EvalSingleCondition\<close>: the true or the false dictionary. The cache of compiled expressions changes
  nothing but the time it takes; an integer cannot be compiled.\<close>

definition EvalSingleCondition ::
  "xenv \<Rightarrow> xcalls \<Rightarrow> hval \<Rightarrow> nat \<Rightarrow> nat option \<Rightarrow> phase \<Rightarrow> vars \<Rightarrow> string \<Rightarrow> nat option xm" where
  "EvalSingleCondition env eng cond_expr true_dict false_dict phase variables build_file =
     xbind (e_expand eng cond_expr phase variables build_file) (\<lambda>cond_expr_expanded.
     case cond_expr_expanded of
       HInt i \<Rightarrow> xerr (TypeError ''compile() arg 1 must be a string or code object'')
     | HStr expr \<Rightarrow>
         xbind (read_vars variables) (\<lambda>env_vars.
         case xe_cond env expr env_vars of
           CondValue True \<Rightarrow> xret (Some true_dict)
         | CondValue False \<Rightarrow> xret false_dict
         | CondSyntaxError e text offset \<Rightarrow>
             xerr (SyntaxError (e @ '' while evaluating condition '' @ sq text @ '' in '' @ build_file @ '' at character '' @ nat_str offset @ ''.''))
         | CondNameError e \<Rightarrow> xerr (GypError (e @ '' while evaluating condition '' @ sq expr @ '' in '' @ build_file))
         | CondRaises e \<Rightarrow> xerr e)
     | _ \<Rightarrow> xerr (ValueError (''Variable expansion in this context permits str and int only, found '' @ htype cond_expr_expanded)))"

text \<open>The loop of \<open>EvalCondition\<close>: every pair or triple is checked, the first result counts.\<close>

fun eval_chain ::
  "xenv \<Rightarrow> xcalls \<Rightarrow> string \<Rightarrow> phase \<Rightarrow> vars \<Rightarrow> string \<Rightarrow> hval list \<Rightarrow> nat option \<Rightarrow> nat option xm" where
  "eval_chain env eng key phase variables build_file [] result = xret result"
| "eval_chain env eng key phase variables build_file [cond_expr] result = xerr IndexError"
| "eval_chain env eng key phase variables build_file (cond_expr # true_dict # rest) result =
     (case true_dict of
        HDict td \<Rightarrow>
          (case rest of
             HDict fd # rest' \<Rightarrow>
               if rest' \<noteq> []
               then xbind (hstr cond_expr) (\<lambda>c.
                      xerr (GypError (key @ '' '' @ c @ '' has '' @ nat_str (length rest') @ '' unexpected trailing items'')))
               else if result = None then EvalSingleCondition env eng cond_expr td (Some fd) phase variables build_file
               else xret result
           | _ \<Rightarrow>
               xbind (if result = None then EvalSingleCondition env eng cond_expr td None phase variables build_file
                      else xret result) (\<lambda>r.
               eval_chain env eng key phase variables build_file rest r))
      | _ \<Rightarrow>
          xbind (hstr cond_expr) (\<lambda>c.
            xerr (GypError (key @ '' '' @ c @ '' must be followed by a dictionary, not <type '' @ sq (htype true_dict) @ ''>''))))"

definition EvalCondition ::
  "xenv \<Rightarrow> xcalls \<Rightarrow> hval \<Rightarrow> string \<Rightarrow> phase \<Rightarrow> vars \<Rightarrow> string \<Rightarrow> nat option xm" where
  "EvalCondition env eng condition conditions_key phase variables build_file =
     (case condition of
        HList a \<Rightarrow>
          xbind (get_list a) (\<lambda>items.
          if length items < 2
          then (case items of
                  [] \<Rightarrow> xerr IndexError
                | HStr c # _ \<Rightarrow>
                    xerr (GypError (conditions_key @ '' '' @ c @ '' must be at least length 2, not '' @ nat_str (length items)))
                | _ \<Rightarrow> xerr (TypeError ''cannot concatenate str and other objects''))
          else eval_chain env eng conditions_key phase variables build_file items None)
      | _ \<Rightarrow> xerr (GypError (conditions_key @ '' must be a list'')))"

text \<open>\<open>MergeDicts(the_dict, merge_dict, build_file, build_file)\<close> on the objects.\<close>

definition merge_objects :: "xenv \<Rightarrow> nat \<Rightarrow> nat \<Rightarrow> string \<Rightarrow> unit xm" where
  "merge_objects env the_dict merge_dict build_file =
     xbind (xbind (get_dict the_dict) read_vars) (\<lambda>to.
     xbind (xbind (get_dict merge_dict) read_vars) (\<lambda>fro.
     xbind (xlift (MergeDicts (xe_gyp env) to fro (Some build_file) (Some build_file))) (\<lambda>new.
       xput (\<lambda>s. s\<lparr>xs_heap := snd (write_back (PDict new) fro (Some (HDict the_dict)) (xs_heap s))\<rparr>))))"

definition conditions_key :: "phase \<Rightarrow> string option" where
  "conditions_key phase =
     (case phase of PHASE_EARLY \<Rightarrow> Some ''conditions'' | PHASE_LATE \<Rightarrow> Some ''target_conditions'' | PHASE_LATELATE \<Rightarrow> None)"

text \<open>\<open>for condition in conditions_list\<close>.\<close>

definition iterate :: "hval \<Rightarrow> hval list xm" where
  "iterate v = (case v of
       HList a \<Rightarrow> get_list a
     | HStr t \<Rightarrow> xret (map (\<lambda>c. HStr [c]) t)
     | HDict a \<Rightarrow> xbind (get_dict a) (\<lambda>d. xret (map (\<lambda>(k, _). HStr k) d))
     | HInt i \<Rightarrow> xerr (TypeError ''int object is not iterable''))"

definition ProcessConditionsInDict :: "xenv \<Rightarrow> xcalls \<Rightarrow> nat \<Rightarrow> phase \<Rightarrow> vars \<Rightarrow> string \<Rightarrow> unit xm" where
  "ProcessConditionsInDict env eng the_dict phase variables build_file =
     (case conditions_key phase of
        None \<Rightarrow> xret ()
      | Some key \<Rightarrow>
          xbind (get_dict the_dict) (\<lambda>d.
          case dget d key of
            None \<Rightarrow> xret ()
          | Some conditions_list \<Rightarrow>
              xbind (put_cell the_dict (CDict (ddel d key))) (\<lambda>_.
              xbind (iterate conditions_list) (\<lambda>conditions.
              xfor (\<lambda>condition.
                xbind (EvalCondition env eng condition key phase variables build_file) (\<lambda>merge_dict.
                case merge_dict of
                  None \<Rightarrow> xret ()
                | Some md \<Rightarrow>
                    xbind (e_dict eng md phase variables build_file None) (\<lambda>_.
                    merge_objects env the_dict md build_file))) conditions))))"

section \<open>The scope of a dictionary\<close>

definition LoadAutomaticVariablesFromDict :: "vars \<Rightarrow> vars \<Rightarrow> vars" where
  "LoadAutomaticVariablesFromDict variables the_dict =
     foldl (\<lambda>vs (key, value). if htype value \<noteq> ''dict'' then dset vs (''_'' @ key) value else vs) variables the_dict"

text \<open>One entry of the \<open>variables\<close> dictionary.\<close>

definition load_variable :: "vars \<Rightarrow> string option \<Rightarrow> vars \<Rightarrow> string \<times> hval \<Rightarrow> vars" where
  "load_variable the_dict the_dict_key variables = (\<lambda>(key, value).
     if htype value = ''dict'' then variables
     else if endswith key ''%'' then
       let variable_name = drop_last 1 key in
       if dhas variables variable_name then variables
       else dset variables variable_name
              (if the_dict_key = Some ''variables'' \<and> dhas the_dict variable_name then the (dget the_dict variable_name) else value)
     else dset variables key value)"

definition LoadVariablesFromVariablesDict :: "vars \<Rightarrow> vars \<Rightarrow> string option \<Rightarrow> vars xm" where
  "LoadVariablesFromVariablesDict variables the_dict the_dict_key =
     (case dget the_dict ''variables'' of
        None \<Rightarrow> xret variables
      | Some (HDict b) \<Rightarrow> xbind (get_dict b) (\<lambda>vd. xret (foldl (load_variable the_dict the_dict_key) variables vd))
      | Some _ \<Rightarrow> xerr (AttributeError ''iteritems''))"

text \<open>The variables of a scope: those of the enclosing one, the automatic ones, those of the
  \<open>variables\<close> dictionary.\<close>

definition load_scope :: "vars \<Rightarrow> nat \<Rightarrow> string option \<Rightarrow> vars xm" where
  "load_scope variables_in the_dict the_dict_key =
     xbind (get_dict the_dict) (\<lambda>d.
       LoadVariablesFromVariablesDict (LoadAutomaticVariablesFromDict variables_in d) d the_dict_key)"

text \<open>\<open>for key, value in the_dict.iteritems()\<close>: the values are those at the time of the turn.\<close>

fun dict_loop :: "nat \<Rightarrow> nat \<Rightarrow> (string \<Rightarrow> hval \<Rightarrow> unit xm) \<Rightarrow> string list \<Rightarrow> unit xm" where
  "dict_loop a n f [] =
     xbind (get_dict a) (\<lambda>d. if length d \<noteq> n then xerr (RuntimeError ''dictionary changed size during iteration'') else xret ())"
| "dict_loop a n f (key # keys) =
     xbind (get_dict a) (\<lambda>d.
     case dget d key of
       None \<Rightarrow> xerr (RuntimeError ''dictionary changed size during iteration'')
     | Some value \<Rightarrow>
         if length d \<noteq> n then xerr (RuntimeError ''dictionary changed size during iteration'')
         else xbind (f key value) (\<lambda>_. dict_loop a n f keys))"

definition iteritems_loop :: "nat \<Rightarrow> (string \<Rightarrow> hval \<Rightarrow> unit xm) \<Rightarrow> unit xm" where
  "iteritems_loop a f = xbind (get_dict a) (\<lambda>d. dict_loop a (length d) f (dkeys d))"

text \<open>The first scope, in which the \<open>variables\<close> dictionary itself is processed.\<close>

definition process_variables_dict :: "xcalls \<Rightarrow> nat \<Rightarrow> phase \<Rightarrow> vars \<Rightarrow> string \<Rightarrow> vars xm" where
  "process_variables_dict eng the_dict phase variables_in build_file =
     xbind (get_dict the_dict) (\<lambda>d.
     let variables = LoadAutomaticVariablesFromDict variables_in d in
     case dget d ''variables'' of
       None \<Rightarrow> xret variables
     | Some (HDict b) \<Rightarrow>
         xbind (get_dict b) (\<lambda>vd.
         let variables' = foldl (\<lambda>vs (key, value). dset vs key value) variables vd in
         xbind (e_dict eng b phase variables' build_file (Some ''variables'')) (\<lambda>_. xret variables'))
     | Some _ \<Rightarrow> xerr (AttributeError ''iteritems''))"

text \<open>The strings of the dictionary.\<close>

definition expand_entry :: "xcalls \<Rightarrow> nat \<Rightarrow> phase \<Rightarrow> vars \<Rightarrow> string \<Rightarrow> string \<Rightarrow> hval \<Rightarrow> unit xm" where
  "expand_entry eng the_dict phase variables build_file key value =
     (if key \<noteq> ''variables'' \<and> htype value = ''str'' then
        xbind (e_expand eng value phase variables build_file) (\<lambda>expanded.
        if is_scalar expanded
        then xbind (get_dict the_dict) (\<lambda>d. put_cell the_dict (CDict (dset d key expanded)))
        else xerr (ValueError (''Variable expansion in this context permits str and int only, found '' @ htype expanded @ '' for '' @ key)))
      else xret ())"

text \<open>The dictionaries and lists of the dictionary.\<close>

definition descend_entry :: "xcalls \<Rightarrow> phase \<Rightarrow> vars \<Rightarrow> string \<Rightarrow> string \<Rightarrow> hval \<Rightarrow> unit xm" where
  "descend_entry eng phase variables build_file key value =
     (if key = ''variables'' then xret ()
      else case value of
             HStr t \<Rightarrow> xret ()
           | HDict b \<Rightarrow> e_dict eng b phase variables build_file (Some key)
           | HList b \<Rightarrow> e_list eng b phase variables build_file
           | HInt i \<Rightarrow> xret ())"

definition ProcessVariablesAndConditionsInDict_body ::
  "xenv \<Rightarrow> xcalls \<Rightarrow> nat \<Rightarrow> phase \<Rightarrow> vars \<Rightarrow> string \<Rightarrow> string option \<Rightarrow> unit xm" where
  "ProcessVariablesAndConditionsInDict_body env eng the_dict phase variables_in build_file the_dict_key =
     xbind (process_variables_dict eng the_dict phase variables_in build_file) (\<lambda>variables0.
     xbind (xbind (get_dict the_dict) (\<lambda>d. LoadVariablesFromVariablesDict variables0 d the_dict_key)) (\<lambda>variables1.
     xbind (iteritems_loop the_dict (expand_entry eng the_dict phase variables1 build_file)) (\<lambda>_.
     xbind (load_scope variables_in the_dict the_dict_key) (\<lambda>variables2.
     xbind (ProcessConditionsInDict env eng the_dict phase variables2 build_file) (\<lambda>_.
     xbind (load_scope variables_in the_dict the_dict_key) (\<lambda>variables3.
       iteritems_loop the_dict (descend_entry eng phase variables3 build_file)))))))"

section \<open>Lists\<close>

text \<open>One item: by how much the index goes on.\<close>

definition expand_item :: "xcalls \<Rightarrow> nat \<Rightarrow> phase \<Rightarrow> vars \<Rightarrow> string \<Rightarrow> nat \<Rightarrow> nat xm" where
  "expand_item eng the_list phase variables build_file index =
     xbind (get_list the_list) (\<lambda>l.
     case l ! index of
       HDict b \<Rightarrow> xbind (e_dict eng b phase variables build_file None) (\<lambda>_. xret 1)
     | HList b \<Rightarrow> xbind (e_list eng b phase variables build_file) (\<lambda>_. xret 1)
     | HInt i \<Rightarrow> xret 1
     | HStr t \<Rightarrow>
         xbind (e_expand eng (HStr t) phase variables build_file) (\<lambda>expanded.
         xbind (get_list the_list) (\<lambda>l'.
         case expanded of
           HList b \<Rightarrow>
             xbind (get_list b) (\<lambda>items.
             xbind (put_cell the_list (CList (take index l' @ items @ drop (index + 1) l'))) (\<lambda>_. xret (length items)))
         | HDict b \<Rightarrow> xerr (TypeError ''cannot concatenate str and int objects'')
         | _ \<Rightarrow> if index < length l' then xbind (put_cell the_list (CList (l'[index := expanded]))) (\<lambda>_. xret 1)
                else xerr IndexError)))"

text \<open>The loop re-reads the list at every turn; the first argument bounds the turns.\<close>

primrec list_loop :: "nat \<Rightarrow> xcalls \<Rightarrow> nat \<Rightarrow> phase \<Rightarrow> vars \<Rightarrow> string \<Rightarrow> nat \<Rightarrow> unit xm" where
  "list_loop 0 eng the_list phase variables build_file index =
     xbind (get_list the_list) (\<lambda>l. if index < length l then xerr OutOfFuel else xret ())"
| "list_loop (Suc m) eng the_list phase variables build_file index =
     xbind (get_list the_list) (\<lambda>l.
     if index < length l then
       xbind (expand_item eng the_list phase variables build_file index) (\<lambda>n.
         list_loop m eng the_list phase variables build_file (index + n))
     else xret ())"

definition ProcessVariablesAndConditionsInList_body ::
  "nat \<Rightarrow> xcalls \<Rightarrow> nat \<Rightarrow> phase \<Rightarrow> vars \<Rightarrow> string \<Rightarrow> unit xm" where
  "ProcessVariablesAndConditionsInList_body m eng the_list phase variables build_file =
     list_loop m eng the_list phase variables build_file 0"

section \<open>Tying the knot\<close>

text \<open>\<open>m\<close> bounds the turns of a loop over a list, \<open>n\<close> is the depth of recursion that Python allows.\<close>

primrec engine :: "xenv \<Rightarrow> nat \<Rightarrow> nat \<Rightarrow> xcalls" where
  "engine env m 0 =
     \<lparr>e_expand = (\<lambda>_ _ _ _. xerr RecursionLimit), e_list = (\<lambda>_ _ _ _. xerr RecursionLimit),
      e_dict = (\<lambda>_ _ _ _ _. xerr RecursionLimit)\<rparr>"
| "engine env m (Suc n) =
     \<lparr>e_expand = ExpandVariables_body env (engine env m n),
      e_list = ProcessVariablesAndConditionsInList_body m (engine env m n),
      e_dict = ProcessVariablesAndConditionsInDict_body env (engine env m n)\<rparr>"

definition ExpandVariables :: "xenv \<Rightarrow> nat \<Rightarrow> nat \<Rightarrow> hval \<Rightarrow> phase \<Rightarrow> vars \<Rightarrow> string \<Rightarrow> hval xm" where
  "ExpandVariables env m n = e_expand (engine env m n)"

definition ProcessVariablesAndConditionsInList ::
  "xenv \<Rightarrow> nat \<Rightarrow> nat \<Rightarrow> nat \<Rightarrow> phase \<Rightarrow> vars \<Rightarrow> string \<Rightarrow> unit xm" where
  "ProcessVariablesAndConditionsInList env m n = e_list (engine env m n)"

definition ProcessVariablesAndConditionsInDict ::
  "xenv \<Rightarrow> nat \<Rightarrow> nat \<Rightarrow> nat \<Rightarrow> phase \<Rightarrow> vars \<Rightarrow> string \<Rightarrow> string option \<Rightarrow> unit xm" where
  "ProcessVariablesAndConditionsInDict env m n = e_dict (engine env m n)"

end
