(* ===== verification/Gyp_Load.thy ===== *)
theory Gyp_Load
  imports Gyp_Files Gyp_Targets Gyp_Validate Gyp_Parallel Gyp_Variables
begin

text \<open>
  \<open>LoadTargetBuildFile\<close> and \<open>Load\<close> of \<open>gyp/input.py\<close>: the loader of one build file, its recursion into
  the files of the dependencies, and the pipeline that makes the targets of a generator out of the
  loaded files, in the order in which the code composes its parts. The phases of variable expansion
  run on the heap of \<open>Py_Heap\<close>; between them the dictionaries are values. Shown: the loader marks a
  file before it descends, and what holds of the targets that \<open>Load\<close> returns.
\<close>

section \<open>Configuration and state\<close>

text \<open>\<open>generator_input_info\<close>.\<close>

record input_info =
  gi_path_sections :: "string list"
  gi_non_configuration_keys :: "string list"
  gi_multiple_toolsets :: bool
  gi_filelist_paths :: "filelist_paths option"
  gi_extra_sources_for_rules :: "string list"
  gi_adjust_static :: bool
  gi_sorted_dependencies :: bool

text \<open>What is outside: the parameters of the expansion, the files, the order in which \<open>set.pop\<close> gives
  its elements; and the bounds on loops and recursion.\<close>

record load_config =
  lc_x :: xenv
  lc_files :: file_system
  lc_multiple_toolsets :: bool
  lc_pick :: "gref list \<Rightarrow> gref"
  lc_turns :: nat
  lc_limit :: nat

text \<open>\<open>data\<close> and \<open>aux_data\<close>, \<open>data['target_build_files']\<close> (not there in a worker process), \<open>variables\<close>,
  and the state of the expansion.\<close>

record load_state =
  ls_loader :: loader
  ls_target_build_files :: "string list option"
  ls_variables :: pydict
  ls_x :: xstate

section \<open>One build file\<close>

definition process_phase ::
  "load_config \<Rightarrow> phase \<Rightarrow> string \<Rightarrow> pydict \<Rightarrow> pydict \<Rightarrow> xstate \<Rightarrow> (pydict \<times> pydict \<times> xstate) res" where
  "process_phase lc phase build_file the_dict variables xs =
     (let (vs, h1) = store_items variables []; (entries, h2) = store_items the_dict h1; a = length h2
      in case ProcessVariablesAndConditionsInDict (lc_x lc) (lc_turns lc) (lc_limit lc) a phase vs build_file None
                (xs\<lparr>xs_heap := h2 @ [CDict entries]\<rparr>) of
           Inl e \<Rightarrow> Inl e
         | Inr (_, s) \<Rightarrow>
             res_bind (read_dict (xs_heap s) (Py_Heap.dict_at (xs_heap s) a)) (\<lambda>d.
             res_bind (read_dict (xs_heap s) vs) (\<lambda>vars. Inr (d, vars, s))))"

definition set_depth :: "(string \<Rightarrow> string) \<Rightarrow> string \<Rightarrow> string \<Rightarrow> pydict \<Rightarrow> pydict" where
  "set_depth realpath depth build_file_path variables =
     (if depth = [] then variables
      else let d = RelativePath realpath depth (dirname build_file_path)
           in dset variables ''DEPTH'' (PStr (if d = [] then ''.'' else replace d [CHR 0x5C] ''/'')))"

definition set_included_files :: "(string \<Rightarrow> string) \<Rightarrow> nat \<Rightarrow> string \<Rightarrow> aux \<Rightarrow> pydict \<Rightarrow> pydict res" where
  "set_included_files realpath n build_file_path aux_data build_file_data =
     (if dhas build_file_data ''included_files''
      then Inl (GypError (build_file_path @ '' must not contain included_files key''))
      else res_bind (GetIncludedBuildFiles n build_file_path aux_data []) (\<lambda>included.
             Inr (dset build_file_data ''included_files''
               (PList (map (\<lambda>f. PStr (RelativePath realpath f (dirname build_file_path))) included)))))"

text \<open>Every target becomes a copy of \<open>target_defaults\<close> into which it is merged.\<close>

definition merge_target_defaults :: "gyp_env \<Rightarrow> string \<Rightarrow> pydict \<Rightarrow> pydict res" where
  "merge_target_defaults env build_file_path build_file_data =
     (case dget build_file_data ''target_defaults'' of
        None \<Rightarrow> Inr build_file_data
      | Some defaults \<Rightarrow>
          (case dget build_file_data ''targets'' of
             None \<Rightarrow> Inl (GypError (''Unable to find targets in build file '' @ build_file_path))
           | Some v \<Rightarrow>
               res_bind (as_list v) (\<lambda>targets.
               res_bind (mapM (\<lambda>old_target_dict.
                   res_bind (as_dict (deepcopy defaults)) (\<lambda>new_target_dict.
                   res_bind (iteritems old_target_dict) (\<lambda>old.
                   res_bind (MergeDicts env new_target_dict old (Some build_file_path) (Some build_file_path)) (\<lambda>merged.
                     Inr (PDict merged))))) targets) (\<lambda>new_targets.
                 Inr (ddel (dset build_file_data ''targets'' (PList new_targets)) ''target_defaults'')))))"

definition file_dependencies :: "(string \<Rightarrow> string) \<Rightarrow> string \<Rightarrow> pydict \<Rightarrow> string list res" where
  "file_dependencies realpath build_file_path build_file_data =
     res_bind (dicts_of build_file_data ''targets'') (\<lambda>ts.
     res_bind (mapM (dep_names ''dependencies'') ts) (\<lambda>deps.
       Inr (map (\<lambda>dependency. fst (ResolveTarget realpath build_file_path dependency None)) (concat deps))))"

text \<open>Everything that happens to the dictionary of a file after it was read and its includes were merged.\<close>

definition process_file_data ::
  "load_config \<Rightarrow> string \<Rightarrow> string \<Rightarrow> aux \<Rightarrow> pydict \<Rightarrow> pydict \<Rightarrow> xstate \<Rightarrow> (pydict \<times> pydict \<times> xstate) res" where
  "process_file_data lc depth build_file_path aux_data variables build_file_data xs =
     (let env = xe_gyp (lc_x lc) in
      res_bind (set_included_files (ge_realpath env) (lc_limit lc) build_file_path aux_data
                  (dset build_file_data ''_DEPTH'' (PStr depth))) (\<lambda>d1.
      res_bind (ProcessToolsetsInDict (lc_multiple_toolsets lc) d1) (\<lambda>d2.
      res_bind (process_phase lc PHASE_EARLY build_file_path d2 variables xs) (\<lambda>(d3, vars, xs').
      res_bind (ProcessToolsetsInDict (lc_multiple_toolsets lc) d3) (\<lambda>d4.
      res_bind (merge_target_defaults env build_file_path d4) (\<lambda>d5.
        Inr (d5, vars, xs')))))))"

text \<open>\<open>LoadTargetBuildFile\<close> up to the recursion: nothing for a file that was loaded before, otherwise the
  files that its targets depend on.\<close>

definition load_target_file ::
  "load_config \<Rightarrow> string list \<Rightarrow> string \<Rightarrow> string \<Rightarrow> load_state \<Rightarrow> (string list option \<times> load_state) res" where
  "load_target_file lc includes depth build_file_path st0 =
     (let env = xe_gyp (lc_x lc);
          st = st0\<lparr>ls_variables := set_depth (ge_realpath env) depth build_file_path (ls_variables st0)\<rparr>
      in if (case ls_target_build_files st of None \<Rightarrow> False | Some files \<Rightarrow> build_file_path \<in> set files) then Inr (None, st)
         else
           res_bind (LoadOneBuildFile (lc_limit lc) env (lc_files lc) build_file_path includes True (ls_loader st)) (\<lambda>(v, ld).
           res_bind (as_dict v) (\<lambda>d.
           res_bind (process_file_data lc depth build_file_path (ld_aux ld) (ls_variables st) d (ls_x st)) (\<lambda>(d', vars, xs).
           res_bind (file_dependencies (ge_realpath env) build_file_path d') (\<lambda>dependencies.
             Inr (Some dependencies,
                  \<lparr>ls_loader = ld\<lparr>ld_data := dset (ld_data ld) build_file_path (PDict d')\<rparr>,
                   ls_target_build_files = map_option (\<lambda>files. add_new files build_file_path) (ls_target_build_files st),
                   ls_variables = vars, ls_x = xs\<rparr>))))))"

text \<open>With \<open>load_dependencies\<close>: the dependencies one after the other.\<close>

primrec LoadTargetBuildFile ::
  "nat \<Rightarrow> load_config \<Rightarrow> string list \<Rightarrow> string \<Rightarrow> string \<Rightarrow> load_state \<Rightarrow> load_state res" where
  "LoadTargetBuildFile 0 lc includes depth build_file_path st = Inl RecursionLimit"
| "LoadTargetBuildFile (Suc n) lc includes depth build_file_path st =
     res_bind (load_target_file lc includes depth build_file_path st) (\<lambda>(dependencies, st').
       case dependencies of
         None \<Rightarrow> Inr st'
       | Some ds \<Rightarrow>
           foldM (\<lambda>s dependency.
             appending_error (LoadTargetBuildFile n lc includes depth dependency s)
               (''while loading dependencies of '' @ build_file_path)) st' ds)"

text \<open>\<open>CallLoadTargetBuildFile\<close> in a worker process: the result for the callback, if there was no
  error, and the state of the process, without the dictionary that is sent away.\<close>

definition CallLoadTargetBuildFile ::
  "load_config \<Rightarrow> string list \<Rightarrow> string \<Rightarrow> pydict \<Rightarrow> string \<Rightarrow> load_state \<Rightarrow> (string \<times> pyval \<times> string list) option \<times> load_state" where
  "CallLoadTargetBuildFile lc includes depth variables build_file_path st =
     (case load_target_file lc includes depth build_file_path (st\<lparr>ls_variables := variables\<rparr>) of
        Inl e \<Rightarrow> (None, st)
      | Inr (None, st') \<Rightarrow> (None, st')
      | Inr (Some dependencies, st') \<Rightarrow>
          (case dget (ld_data (ls_loader st')) build_file_path of
             None \<Rightarrow> (None, st')
           | Some build_file_data \<Rightarrow>
               (Some (build_file_path, build_file_data, dependencies),
                st'\<lparr>ls_loader := (ls_loader st')\<lparr>ld_data := ddel (ld_data (ls_loader st')) build_file_path\<rparr>\<rparr>)))"

section \<open>\<open>Load\<close>\<close>

text \<open>The filters of the dependency sections.\<close>

definition filter_dependencies :: "string \<Rightarrow> pydict \<Rightarrow> pydict res" where
  "filter_dependencies target_name target_dict =
     (let keys = filter (dhas target_dict) all_dependency_sections;
          tmp_dict = map (\<lambda>k. (k, the (dget target_dict k))) keys
      in res_bind (ProcessListFiltersInDict target_name tmp_dict) (\<lambda>tmp.
           Inr (foldl (\<lambda>d (k, v). dset d k v) (foldl ddel target_dict keys) tmp)))"

definition settings_types :: "string list" where
  "settings_types = [''all_dependent_settings'', ''direct_dependent_settings'', ''link_settings'']"

definition publish_settings ::
  "gyp_env \<Rightarrow> nat \<Rightarrow> string list \<Rightarrow> graph \<Rightarrow> targets \<Rightarrow> string \<Rightarrow> targets res" where
  "publish_settings env n flat_list dependency_nodes targets settings_type =
     res_bind (DoDependentSettings env n settings_type flat_list dependency_nodes targets) (\<lambda>ts.
       foldM (\<lambda>ts target. res_bind (dict_get ts target) (\<lambda>d. Inr (dset ts target (ddel d settings_type)))) ts flat_list)"

text \<open>\<open>for target in flat_list\<close> with a function on the dictionary of the target.\<close>

definition each_target :: "(string \<Rightarrow> pydict \<Rightarrow> pydict res) \<Rightarrow> string list \<Rightarrow> targets \<Rightarrow> targets res" where
  "each_target f flat_list targets =
     foldM (\<lambda>ts target. res_bind (dict_get ts target) (\<lambda>d. res_bind (f target d) (\<lambda>d'. Inr (dset ts target d')))) targets flat_list"

definition target_file :: "string \<Rightarrow> string" where
  "target_file target = (case BuildFile target of None \<Rightarrow> [] | Some f \<Rightarrow> f)"

definition phase_targets ::
  "load_config \<Rightarrow> phase \<Rightarrow> string list \<Rightarrow> targets \<times> pydict \<times> xstate \<Rightarrow> (targets \<times> pydict \<times> xstate) res" where
  "phase_targets lc phase flat_list st =
     foldM (\<lambda>(ts, variables, xs) target.
       res_bind (dict_get ts target) (\<lambda>d.
       res_bind (process_phase lc phase (target_file target) d variables xs) (\<lambda>(d', variables', xs').
         Inr (dset ts target d', variables', xs')))) st flat_list"

definition validate_target :: "string list \<Rightarrow> string \<Rightarrow> pydict \<Rightarrow> pydict res" where
  "validate_target extra_sources_for_rules target target_dict =
     res_bind (ValidateTargetType target target_dict) (\<lambda>_.
     res_bind (ValidateRulesInTarget target target_dict extra_sources_for_rules) (\<lambda>d.
     res_bind (ValidateRunAsInTarget target d (target_file target)) (\<lambda>_.
     res_bind (ValidateActionsInTarget target d (target_file target)) (\<lambda>_.
       Inr d))))"

text \<open>The dictionaries of the targets are the objects that are in \<open>data\<close>.\<close>

definition sync_file :: "targets \<Rightarrow> string \<Rightarrow> pydict \<Rightarrow> pydict res" where
  "sync_file targets build_file file_data =
     (if \<not> dhas file_data ''targets'' then Inr file_data
      else res_bind (dicts_of file_data ''targets'') (\<lambda>ts.
           res_bind (mapM (\<lambda>t. res_bind (qualified_name build_file t) (\<lambda>q.
               Inr (PDict (case dget targets q of None \<Rightarrow> t | Some d \<Rightarrow> d)))) ts) (\<lambda>new.
             Inr (dset file_data ''targets'' (PList new)))))"

definition sync_data :: "targets \<Rightarrow> string list \<Rightarrow> (string, pydict) dict \<Rightarrow> (string, pydict) dict res" where
  "sync_data targets target_build_files data =
     foldM (\<lambda>dt f. res_bind (dict_get dt f) (\<lambda>fd. res_bind (sync_file targets f fd) (\<lambda>fd'. Inr (dset dt f fd')))) data target_build_files"

definition graph_outcome :: "'a res option \<Rightarrow> 'a res" where
  "graph_outcome r = (case r of None \<Rightarrow> Inl Diverges | Some x \<Rightarrow> x)"

text \<open>The targets and their dependencies, up to the order of the targets.\<close>

definition resolve_targets ::
  "load_config \<Rightarrow> bool \<Rightarrow> string list \<Rightarrow> (string, pydict) dict \<Rightarrow> (targets \<times> graph \<times> string list) res" where
  "resolve_targets lc circular_check target_build_files data =
     (let realpath = ge_realpath (xe_gyp (lc_x lc)) in
      res_bind (BuildTargetsDict target_build_files data) (\<lambda>t1.
      res_bind (QualifyDependencies realpath (lc_multiple_toolsets lc) t1) (\<lambda>t2.
      res_bind (RemoveSelfDependencies t2) (\<lambda>t3.
      res_bind (ExpandWildcardDependencies t3 data) (\<lambda>t4.
      res_bind (RemoveLinkDependenciesFromNoneTargets t4) (\<lambda>t5.
      res_bind (mapM (\<lambda>(name, d). res_bind (filter_dependencies name d) (\<lambda>d'. Inr (name, d'))) t5) (\<lambda>t6.
      res_bind (RemoveDuplicateDependencies t6) (\<lambda>t7.
      res_bind (if circular_check then graph_outcome (VerifyNoGYPFileCircularDependencies (lc_pick lc) (lc_limit lc) t7) else Inr ()) (\<lambda>_.
      res_bind (graph_outcome (BuildDependencyList (lc_pick lc) (lc_limit lc) t7)) (\<lambda>(dependency_nodes, refs).
        Inr (t7, dependency_nodes, map the refs)))))))))))"

text \<open>The settings of dependents, the late phases, the configurations, the filters, the checks.\<close>

definition finish_targets ::
  "load_config \<Rightarrow> input_info \<Rightarrow> graph \<Rightarrow> string list \<Rightarrow> targets \<Rightarrow> pydict \<Rightarrow> xstate \<Rightarrow> targets res" where
  "finish_targets lc info dependency_nodes flat_list targets variables xs =
     (let env = xe_gyp (lc_x lc) in
      res_bind (foldM (publish_settings env (lc_limit lc) flat_list dependency_nodes) targets settings_types) (\<lambda>t1.
      res_bind (if gi_adjust_static info
                then AdjustStaticLibraryDependencies (lc_limit lc) flat_list t1 dependency_nodes (gi_sorted_dependencies info)
                else Inr t1) (\<lambda>t2.
      res_bind (phase_targets lc PHASE_LATE flat_list (t2, variables, xs)) (\<lambda>(t3, vars3, xs3).
      res_bind (each_target (SetUpConfigurations env) flat_list t3) (\<lambda>t4.
      res_bind (each_target ProcessListFiltersInDict flat_list t4) (\<lambda>t5.
      res_bind (phase_targets lc PHASE_LATELATE flat_list (t5, vars3, xs3)) (\<lambda>(t6, _, _).
        each_target (validate_target (gi_extra_sources_for_rules info)) flat_list t6)))))))"

text \<open>What follows the loading of the files, by one process or several.\<close>

definition Load_targets ::
  "load_config \<Rightarrow> input_info \<Rightarrow> bool \<Rightarrow> string list \<Rightarrow> string list \<Rightarrow> (string, pydict) dict \<Rightarrow> pydict \<Rightarrow> xstate
    \<Rightarrow> (string list \<times> targets \<times> (string, pydict) dict) res" where
  "Load_targets lc info circular_check root_targets target_build_files data variables xs =
     res_bind (resolve_targets lc circular_check target_build_files data) (\<lambda>(targets0, dependency_nodes, flat_list0).
     res_bind (if root_targets \<noteq> []
               then PruneUnwantedTargets (lc_limit lc) targets0 flat_list0 dependency_nodes root_targets target_build_files data
               else Inr (targets0, flat_list0, data)) (\<lambda>(targets1, flat_list, data1).
     res_bind (VerifyNoCollidingTargets flat_list) (\<lambda>_.
     res_bind (finish_targets lc info dependency_nodes flat_list targets1 variables xs) (\<lambda>targets2.
     res_bind (sync_data targets2 target_build_files data1) (\<lambda>data2.
       Inr (flat_list, map (\<lambda>(k, d). (k, TurnIntIntoStrInDict d)) targets2,
            map (\<lambda>(k, d). (k, TurnIntIntoStrInDict d)) data2))))))"

text \<open>\<open>SetGeneratorGlobals\<close>.\<close>

definition generator_config :: "input_info \<Rightarrow> load_config \<Rightarrow> load_config" where
  "generator_config info lc =
     lc\<lparr>lc_x := (lc_x lc)\<lparr>xe_gyp := SetGeneratorGlobals (gi_path_sections info) (gi_non_configuration_keys info) (ge_realpath (xe_gyp (lc_x lc))),
                          xe_filelist := gi_filelist_paths info\<rparr>,
        lc_multiple_toolsets := gi_multiple_toolsets info\<rparr>"

definition Load ::
  "load_config \<Rightarrow> input_info \<Rightarrow> string list \<Rightarrow> pydict \<Rightarrow> string list \<Rightarrow> string \<Rightarrow> bool \<Rightarrow> string list \<Rightarrow> xstate
    \<Rightarrow> (string list \<times> targets \<times> (string, pydict) dict) res" where
  "Load lc0 info build_files variables includes depth circular_check root_targets xs =
     (let lc = generator_config info lc0;
          st0 = \<lparr>ls_loader = \<lparr>ld_data = [], ld_aux = []\<rparr>, ls_target_build_files = Some [], ls_variables = variables, ls_x = xs\<rparr>
      in res_bind (foldM (\<lambda>st build_file.
             appending_error (LoadTargetBuildFile (lc_limit lc) lc includes depth build_file st) (''while trying to load '' @ build_file))
           st0 (remdups (map normpath build_files))) (\<lambda>st.
         res_bind (mapM (\<lambda>(f, v). res_bind (as_dict v) (\<lambda>d. Inr (f, d))) (ld_data (ls_loader st))) (\<lambda>data.
           Load_targets lc info circular_check root_targets (the (ls_target_build_files st)) data (ls_variables st) (ls_x st))))"

text \<open>With \<open>parallel\<close>, the data are those of the finished main loop.\<close>

definition Load_parallel ::
  "load_config \<Rightarrow> input_info \<Rightarrow> pydict par_state \<Rightarrow> pydict \<Rightarrow> bool \<Rightarrow> string list \<Rightarrow> xstate
    \<Rightarrow> (string list \<times> targets \<times> (string, pydict) dict) option res" where
  "Load_parallel lc0 info ps variables circular_check root_targets xs =
     res_bind (par_finish ps) (\<lambda>(exit, ps').
       case exit of
         Some code \<Rightarrow> Inr None
       | None \<Rightarrow>
           res_bind (Load_targets (generator_config info lc0) info circular_check root_targets (ps_target_build_files ps') (ps_data ps') variables xs)
             (\<lambda>r. Inr (Some r)))"


section \<open>Loading keeps what is loaded\<close>

definition keeps :: "string set \<Rightarrow> loader \<Rightarrow> loader \<Rightarrow> bool" where
  "keeps K st st' \<longleftrightarrow> (\<forall>k\<in>K. dget (ld_data st) k \<noteq> None \<longrightarrow> dget (ld_data st') k = dget (ld_data st) k)"

lemma keeps_refl [simp]: "keeps K st st"
  by (simp add: keeps_def)

lemma keeps_trans: "keeps K st st' \<Longrightarrow> keeps K st' st'' \<Longrightarrow> keeps K st st''"
  by (auto simp: keeps_def)

lemma keeps_same_data [simp]: "ld_data st' = ld_data st \<Longrightarrow> keeps K st st'"
  by (simp add: keeps_def)

lemma keeps_mono: "keeps K st st' \<Longrightarrow> L \<subseteq> K \<Longrightarrow> keeps L st st'"
  by (auto simp: keeps_def)

lemma keeps_set_dict_at: "keeps (- {path}) st (set_dict_at st path pos d)"
  by (auto simp: keeps_def set_dict_at_def split: option.splits)

lemma keeps_add_included [simp]: "keeps K st (add_included st path inc)"
  by (simp add: add_included_def)

text \<open>Reading a file changes no other file's data, and reading a file that is there changes nothing.\<close>

definition one_keeps :: "nat \<Rightarrow> gyp_env \<Rightarrow> file_system \<Rightarrow> bool" where
  "one_keeps n env fs \<longleftrightarrow>
     (\<forall>path incs is_target st v st'. LoadOneBuildFile n env fs path incs is_target st = Inr (v, st') \<longrightarrow> keeps UNIV st st')"

definition includes_keeps :: "nat \<Rightarrow> gyp_env \<Rightarrow> file_system \<Rightarrow> bool" where
  "includes_keeps n env fs \<longleftrightarrow>
     (\<forall>path pos incs st st'. LoadBuildFileIncludes n env fs path pos incs st = Inr st' \<longrightarrow> keeps (- {path}) st st')"

lemma fold_includes_keeps:
  assumes "includes_keeps n env fs"
    and "foldM (\<lambda>s p. LoadBuildFileIncludes n env fs path (pos @ [p]) [] s) st ps = Inr st'"
  shows "keeps (- {path}) st st'"
  by (rule foldM_invariant [OF assms(2)]) (use assms(1) in \<open>auto simp: includes_keeps_def intro: keeps_trans\<close>)

lemma merge_includes_keeps:
  assumes "one_keeps n env fs"
    and "foldM (\<lambda>s include.
              res_bind (LoadOneBuildFile n env fs include [] False (add_included s path include)) (\<lambda>(v, s').
              res_bind (iteritems v) (\<lambda>fro.
              res_bind (MergeDicts env (Gyp_Files.dict_at s' path pos) fro (Some path) (Some include)) (\<lambda>merged.
                Inr (set_dict_at s' path pos merged))))) st incs = Inr st'"
  shows "keeps (- {path}) st st'"
proof (rule foldM_invariant [OF assms(2)])
  fix s x s'
  assume k: "keeps (- {path}) st s"
  assume "res_bind (LoadOneBuildFile n env fs x [] False (add_included s path x)) (\<lambda>(v, s').
      res_bind (iteritems v) (\<lambda>fro. res_bind (MergeDicts env (Gyp_Files.dict_at s' path pos) fro (Some path) (Some x)) (\<lambda>merged.
        Inr (set_dict_at s' path pos merged)))) = Inr s'"
  then obtain v t merged where one: "LoadOneBuildFile n env fs x [] False (add_included s path x) = Inr (v, t)"
    and s': "s' = set_dict_at t path pos merged" by (auto simp: res_simps)
  have "keeps UNIV (add_included s path x) t" using assms(1) one unfolding one_keeps_def by blast
  then have "keeps (- {path}) s t" by (auto intro: keeps_mono keeps_trans [OF keeps_add_included])
  then show "keeps (- {path}) st s'" unfolding s' by (meson k keeps_trans keeps_set_dict_at)
qed simp

lemma one_keeps_Suc:
  assumes "includes_keeps n env fs"
  shows "one_keeps (Suc n) env fs"
  unfolding one_keeps_def
proof (intro allI impI)
  fix path incs is_target st v st'
  assume run: "LoadOneBuildFile (Suc n) env fs path incs is_target st = Inr (v, st')"
  show "keeps UNIV st st'"
  proof (cases "dget (ld_data st) path")
    case None
    show ?thesis
    proof (cases "st' = st")
      case False
      obtain contents where c: "fs_read fs path = Some contents" using None run by (cases "fs_read fs path") auto
      obtain w where w: "reading_error path (fs_eval fs contents) = Inr w"
        using None run c by (cases "reading_error path (fs_eval fs contents)") auto
      obtain d where d: "w = PDict d" using None run c w by (cases w) auto
      define st1 where st1: "st1 = st\<lparr>ld_data := dset (ld_data st) path (PDict d), ld_aux := dset (ld_aux st) path []\<rparr>"
      have rest: "st' = st1 \<or> LoadBuildFileIncludes n env fs path [] (if is_target then incs else []) st1 = Inr st'"
        using None run c w unfolding d by (cases "skip_includes d") (auto simp: Let_def st1 res_simps)
      have "keeps (- {path}) st1 st'" using rest assms unfolding includes_keeps_def by auto
      moreover have "keeps (- {path}) st st1" by (simp add: keeps_def st1)
      ultimately show ?thesis using None keeps_trans by (fastforce simp: keeps_def)
    qed simp
  next
    case (Some w)
    then show ?thesis using run by simp
  qed
qed


lemma includes_keeps_Suc:
  assumes "one_keeps n env fs" and "includes_keeps n env fs"
  shows "includes_keeps (Suc n) env fs"
  unfolding includes_keeps_def
proof (intro allI impI)
  fix path pos incs st st'
  assume run: "LoadBuildFileIncludes (Suc n) env fs path pos incs st = Inr st'"
  show "keeps (- {path}) st st'"
  proof (cases "val_at (the (dget (ld_data st) path)) pos")
    case None
    then show ?thesis using run by simp
  next
    case (Some v)
    show ?thesis
    proof (cases v)
      case (PDict subdict)
      then obtain extra subdict' st1 where
        1: "foldM (\<lambda>s include.
              res_bind (LoadOneBuildFile n env fs include [] False (add_included s path include)) (\<lambda>(v, s').
              res_bind (iteritems v) (\<lambda>fro.
              res_bind (MergeDicts env (Gyp_Files.dict_at s' path pos) fro (Some path) (Some include)) (\<lambda>merged.
                Inr (set_dict_at s' path pos merged))))) (set_dict_at st path pos subdict') (incs @ extra) = Inr st1"
        and 2: "foldM (\<lambda>s p. LoadBuildFileIncludes n env fs path (pos @ [p]) [] s) st1
            (child_positions (PDict (Gyp_Files.dict_at st1 path pos))) = Inr st'"
        using run Some by (auto simp: res_simps)
      show ?thesis
        using keeps_set_dict_at merge_includes_keeps [OF assms(1) 1] fold_includes_keeps [OF assms(2) 2] keeps_trans by meson
    next
      case (PList l)
      then show ?thesis using run Some fold_includes_keeps [OF assms(2)] by simp
    qed (use run Some in simp_all)
  qed
qed

lemma loading_keeps: "one_keeps n env fs" "includes_keeps n env fs"
proof (induction n)
  case 0
  { case 1 show ?case by (simp add: one_keeps_def) }
  { case 2 show ?case by (simp add: includes_keeps_def) }
next
  case (Suc n)
  { case 1 show ?case by (rule one_keeps_Suc [OF Suc.IH(2)]) }
  { case 2 show ?case by (rule includes_keeps_Suc [OF Suc.IH]) }
qed

section \<open>The loaded files are closed under dependencies\<close>

definition loaded :: "load_state \<Rightarrow> string set" where
  "loaded st = (case ls_target_build_files st of None \<Rightarrow> {} | Some fs \<Rightarrow> set fs)"

definition loaded_ok :: "load_state \<Rightarrow> bool" where
  "loaded_ok st \<longleftrightarrow> ls_target_build_files st \<noteq> None \<and> (\<forall>f\<in>loaded st. dget (ld_data (ls_loader st)) f \<noteq> None)"

text \<open>From a loaded file to the files that its targets depend on.\<close>

definition file_edges :: "load_config \<Rightarrow> load_state \<Rightarrow> (string \<times> string) set" where
  "file_edges lc st = {(f, g). f \<in> loaded st \<and> (\<exists>d ds. dget (ld_data (ls_loader st)) f = Some (PDict d)
     \<and> file_dependencies (ge_realpath (xe_gyp (lc_x lc))) f d = Inr ds \<and> g \<in> set ds)}"

text \<open>Between \<open>st\<close> and \<open>st'\<close> only files were added that \<open>S\<close> reaches, and all that those depend on.\<close>

definition grown :: "load_config \<Rightarrow> string set \<Rightarrow> load_state \<Rightarrow> load_state \<Rightarrow> bool" where
  "grown lc S st st' \<longleftrightarrow> loaded_ok st' \<and> loaded st \<subseteq> loaded st'
     \<and> (\<forall>f\<in>loaded st. dget (ld_data (ls_loader st')) f = dget (ld_data (ls_loader st)) f)
     \<and> (\<forall>f\<in>loaded st' - loaded st. f \<in> (file_edges lc st')\<^sup>* `` S \<and> file_edges lc st' `` {f} \<subseteq> loaded st')"

lemma load_target_file_loaded:
  assumes "load_target_file lc incs depth p st = Inr (None, st')"
  shows "loaded st' = loaded st \<and> p \<in> loaded st \<and> ls_loader st' = ls_loader st \<and> ls_target_build_files st' = ls_target_build_files st"
  using assms by (auto simp: load_target_file_def Let_def loaded_def res_simps split: if_splits option.splits)

lemma load_target_file_new:
  assumes "load_target_file lc incs depth p st = Inr (Some ds, st')" and "loaded_ok st"
  shows "loaded_ok st' \<and> loaded st' = insert p (loaded st) \<and> p \<notin> loaded st
    \<and> (\<forall>f\<in>loaded st. dget (ld_data (ls_loader st')) f = dget (ld_data (ls_loader st)) f)
    \<and> (\<exists>d. dget (ld_data (ls_loader st')) p = Some (PDict d) \<and> file_dependencies (ge_realpath (xe_gyp (lc_x lc))) p d = Inr ds)"
proof -
  obtain files where files: "ls_target_build_files st = Some files" using assms(2) by (auto simp: loaded_ok_def)
  have p: "p \<notin> set files" using assms(1) by (auto simp: load_target_file_def Let_def files split: if_splits)
  then obtain v ld d' where
    one: "LoadOneBuildFile (lc_limit lc) (xe_gyp (lc_x lc)) (lc_files lc) p incs True (ls_loader st) = Inr (v, ld)"
    and deps: "file_dependencies (ge_realpath (xe_gyp (lc_x lc))) p d' = Inr ds"
    and st': "ls_loader st' = ld\<lparr>ld_data := dset (ld_data ld) p (PDict d')\<rparr>" "ls_target_build_files st' = Some (add_new files p)"
    using assms(1) by (auto simp: load_target_file_def Let_def files res_simps split: if_splits)
  have "keeps UNIV (ls_loader st) ld" using loading_keeps(1) one unfolding one_keeps_def by blast
  then show ?thesis using assms(2) p deps st' files by (auto simp: keeps_def loaded_ok_def loaded_def)
qed


lemma file_edges_grown:
  assumes "grown lc S st st'"
  shows "file_edges lc st \<subseteq> file_edges lc st'"
    and "f \<in> loaded st \<Longrightarrow> file_edges lc st' `` {f} = file_edges lc st `` {f}"
  using assms unfolding grown_def file_edges_def by (auto simp: Image_def)

lemma grown_refl: "loaded_ok st \<Longrightarrow> grown lc S st st"
  by (simp add: grown_def)

lemma grown_trans:
  assumes "grown lc S st st1" and "grown lc T st1 st2"
  shows "grown lc (S \<union> T) st st2"
proof -
  note sub = rtrancl_mono [OF file_edges_grown(1) [OF assms(2)]]
  have "f \<in> (file_edges lc st2)\<^sup>* `` (S \<union> T) \<and> file_edges lc st2 `` {f} \<subseteq> loaded st2" if f: "f \<in> loaded st2 - loaded st" for f
  proof (cases "f \<in> loaded st1")
    case True
    then have "f \<in> (file_edges lc st1)\<^sup>* `` S" "file_edges lc st1 `` {f} \<subseteq> loaded st1" using assms(1) f by (auto simp: grown_def)
    moreover have "loaded st1 \<subseteq> loaded st2" using assms(2) by (simp add: grown_def)
    ultimately show ?thesis using sub file_edges_grown(2) [OF assms(2) True] by blast
  next
    case False
    then show ?thesis using assms(2) f by (auto simp: grown_def)
  qed
  moreover have "loaded_ok st2" "loaded st \<subseteq> loaded st2" using assms unfolding grown_def by blast+
  moreover have "dget (ld_data (ls_loader st2)) f = dget (ld_data (ls_loader st)) f" if "f \<in> loaded st" for f
    using assms that unfolding grown_def by (metis subsetD)
  ultimately show ?thesis unfolding grown_def by blast
qed

lemma load_dependencies_grown:
  assumes "\<And>d s s'. load d s = Inr s' \<Longrightarrow> loaded_ok s \<Longrightarrow> grown lc {d} s s' \<and> d \<in> loaded s'"
    and "foldM (\<lambda>s d. load d s) st ds = Inr st'" and "loaded_ok st"
  shows "grown lc (set ds) st st' \<and> set ds \<subseteq> loaded st'"
  using assms(2,3)
proof (induction ds arbitrary: st)
  case Nil
  then show ?case by (simp add: grown_refl)
next
  case (Cons d ds)
  then obtain s where s: "load d st = Inr s" "foldM (\<lambda>s d. load d s) s ds = Inr st'" by (auto simp: res_simps)
  have 1: "grown lc {d} st s" "d \<in> loaded s" using assms(1) [OF s(1) Cons.prems(2)] by auto
  then have "loaded_ok s" by (simp add: grown_def)
  then have 2: "grown lc (set ds) s st'" "set ds \<subseteq> loaded st'" using Cons.IH [OF s(2)] by auto
  then have "loaded s \<subseteq> loaded st'" by (simp add: grown_def)
  then show ?case using grown_trans [OF 1(1) 2(1)] 1(2) 2(2) by auto
qed

lemma LoadTargetBuildFile_grown:
  "LoadTargetBuildFile n lc incs depth p st = Inr st' \<Longrightarrow> loaded_ok st \<Longrightarrow> grown lc {p} st st' \<and> p \<in> loaded st'"
proof (induction n arbitrary: p st st')
  case (Suc n)
  obtain r st1 where ltf: "load_target_file lc incs depth p st = Inr (r, st1)" using Suc.prems(1) by (auto simp: res_simps)
  show ?case
  proof (cases r)
    case None
    then have "st1 = st'" using Suc.prems(1) ltf by simp
    then show ?thesis using load_target_file_loaded [OF ltf [unfolded None]] Suc.prems(2)
      by (auto simp: grown_def loaded_ok_def)
  next
    case (Some ds)
    note new = load_target_file_new [OF ltf [unfolded Some] Suc.prems(2)]
    have "foldM (\<lambda>s d. appending_error (LoadTargetBuildFile n lc incs depth d s) (''while loading dependencies of '' @ p)) st1 ds = Inr st'"
      using Suc.prems(1) ltf Some by simp
    from load_dependencies_grown [OF _ this, where lc = lc] new
    have deps: "grown lc (set ds) st1 st' \<and> set ds \<subseteq> loaded st'"
      using Suc.IH unfolding appending_error_Inr by blast
    have p1: "p \<in> loaded st1" using new by simp
    have ds: "file_edges lc st1 `` {p} = set ds" using new by (auto simp: file_edges_def)
    then have ds': "file_edges lc st' `` {p} = set ds" using file_edges_grown(2) [OF conjunct1 [OF deps] p1] by simp
    have "f \<in> (file_edges lc st')\<^sup>* `` {p} \<and> file_edges lc st' `` {f} \<subseteq> loaded st'" if f: "f \<in> loaded st' - loaded st" for f
    proof (cases "f = p")
      case True
      then show ?thesis using ds' deps by auto
    next
      case False
      then have "f \<in> loaded st' - loaded st1" using f new by auto
      then have "f \<in> (file_edges lc st')\<^sup>* `` set ds" "file_edges lc st' `` {f} \<subseteq> loaded st'" using deps by (auto simp: grown_def)
      then show ?thesis using ds' by (auto intro: converse_rtrancl_into_rtrancl)
    qed
    then show ?thesis using deps new p1 unfolding grown_def by auto
  qed
qed simp



section \<open>What \<open>Load\<close> returns\<close>

lemma each_target_result:
  assumes "each_target f flat_list targets = Inr targets'" and "t \<in> set flat_list"
  shows "\<exists>d d'. f t d = Inr d' \<and> dget targets' t = Some d'"
  using assms
proof (induction flat_list arbitrary: targets' rule: rev_induct)
  case (snoc u us)
  then obtain ts d d' where ts: "each_target f us targets = Inr ts" "f u d = Inr d'" "targets' = dset ts u d'"
    unfolding each_target_def foldM_append by (auto simp: res_simps)
  then show ?case using snoc by (cases "t = u") auto
qed simp

lemma validate_target_type:
  assumes "validate_target extra t d = Inr d'"
  shows "\<exists>ty\<in>set VALID_TARGET_TYPES. dget d' ''type'' = Some (PStr ty)"
proof -
  have "ValidateTargetType t d = Inr ()" and rules: "ValidateRulesInTarget t d extra = Inr d'"
    using assms by (auto simp: validate_target_def res_simps)
  then have "dget d ''type'' \<in> Some ` PStr ` set VALID_TARGET_TYPES" by (auto simp: ValidateTargetType_def Let_def split: if_splits)
  moreover have "dget d' ''type'' = dget d ''type''"
    using rules by (auto simp: ValidateRulesInTarget_def res_simps split: option.splits)
  ultimately show ?thesis by auto
qed

lemma dget_map_snd: "dget (map (\<lambda>(k, d). (k, f d)) xs) k = map_option f (dget xs k)"
  by (induction xs) auto

lemma TurnInt_dict: "dget (TurnIntIntoStrInDict d) k = map_option TurnIntIntoStr (dget d k)"
  unfolding TurnIntIntoStrInDict_def by (rule dget_map_snd)

text \<open>
  C15. What a generator can rely on: every target that \<open>Load\<close> lists is in the dictionary of targets, has
  one of the valid types, and no integer is left anywhere in it.
\<close>

theorem Load_targets_valid:
  assumes "Load lc info build_files variables incs depth circular_check root_targets xs = Inr (flat_list, targets, data)"
    and "t \<in> set flat_list"
  shows "\<exists>d. dget targets t = Some d \<and> (\<exists>ty\<in>set VALID_TARGET_TYPES. dget d ''type'' = Some (PStr ty)) \<and> no_int (PDict d)"
proof -
  obtain lc' root files dt vars xs' where run: "Load_targets lc' info circular_check root files dt vars xs' = Inr (flat_list, targets, data)"
    using assms(1) by (auto simp: Load_def Let_def res_simps)
  then obtain g ts t2 vars2 xs2 where fin: "finish_targets lc' info g flat_list ts vars2 xs2 = Inr t2"
    and targets: "targets = map (\<lambda>(k, d). (k, TurnIntIntoStrInDict d)) t2"
    by (auto simp: Load_targets_def res_simps)
  obtain t6 where "each_target (validate_target (gi_extra_sources_for_rules info)) flat_list t6 = Inr t2"
    using fin by (auto simp: finish_targets_def Let_def res_simps)
  from each_target_result [OF this assms(2)] obtain d d' where
    v: "validate_target (gi_extra_sources_for_rules info) t d = Inr d'" and d': "dget t2 t = Some d'" by blast
  obtain ty where "ty \<in> set VALID_TARGET_TYPES" "dget d' ''type'' = Some (PStr ty)" using validate_target_type [OF v] by blast
  moreover have "dget targets t = Some (TurnIntIntoStrInDict d')" by (simp add: targets dget_map_snd d')
  moreover have "no_int (PDict (TurnIntIntoStrInDict d'))"
    using TurnIntIntoStr_no_int [of "PDict d'"] by (simp add: TurnIntIntoStrInDict_def)
  ultimately show ?thesis by (auto simp: TurnInt_dict)
qed

section \<open>A run\<close>

definition demo_files :: file_system where
  "demo_files = \<lparr>fs_read = Some,
     fs_eval = (\<lambda>c. if c = ''a.gyp''
        then Inr (PDict [(''targets'', PList [PDict [(''target_name'', PStr ''a''), (''type'', PStr ''none'')]])])
        else Inr (PDict [])),
     fs_cwd = ''/w''\<rparr>"

definition demo_lc :: load_config where
  "demo_lc = \<lparr>lc_x = \<lparr>xe_gyp = \<lparr>ge_path_sections = base_path_sections, ge_non_configuration_keys = base_non_configuration_keys,
        ge_realpath = (\<lambda>p. normpath (path_join ''/w'' [p]))\<rparr>,
     xe_win32 = False, xe_filelist = None, xe_mode = 420, xe_rnd = nat_str, xe_eval = (\<lambda>e. Inl (SyntaxError e)),
     xe_cond = (\<lambda>e vs. CondValue False), xe_popen = (\<lambda>n cmd shell dir. Inr (0, [], [])),
     xe_pymod = (\<lambda>n dir args. ModImportError ''no module'')\<rparr>,
     lc_files = demo_files, lc_multiple_toolsets = False, lc_pick = hd, lc_turns = 5, lc_limit = 4\<rparr>"

definition demo_info :: input_info where
  "demo_info = \<lparr>gi_path_sections = [], gi_non_configuration_keys = [], gi_multiple_toolsets = False, gi_filelist_paths = None,
     gi_extra_sources_for_rules = [], gi_adjust_static = False, gi_sorted_dependencies = False\<rparr>"

definition demo_xs :: xstate where
  "demo_xs = \<lparr>xs_heap = [], xs_cache = [], xs_runs = 0, xs_fs = \<lparr>fs_files = [], fs_dirs = [], fs_next = 0\<rparr>\<rparr>"

definition demo_st :: load_state where
  "demo_st = \<lparr>ls_loader = \<lparr>ld_data = [], ld_aux = []\<rparr>, ls_target_build_files = Some [],
     ls_variables = [(''ty'', PStr ''executable'')], ls_x = demo_xs\<rparr>"


theorem Load_targets_valid_witness:
  "\<exists>flat_list targets data d. Load demo_lc demo_info [''a.gyp''] [] [] [] False [] demo_xs = Inr (flat_list, targets, data)
     \<and> dget targets ''a.gyp:a#target'' = Some d \<and> no_int (PDict d)"
proof -
  let ?run = "Load demo_lc demo_info [''a.gyp''] [] [] [] False [] demo_xs"
  have "map_sum id fst ?run = Inr [''a.gyp:a#target'']" by code_simp
  then obtain flat_list targets data where run: "?run = Inr (flat_list, targets, data)" and "flat_list = [''a.gyp:a#target'']"
    by (cases ?run) auto
  then have "''a.gyp:a#target'' \<in> set flat_list" by simp
  from Load_targets_valid [OF run this] run show ?thesis by blast
qed

end
