(* ===== verification/Gyp_Expand.thy ===== *)
theory Gyp_Expand
  imports Gyp_Variables
begin

text \<open>
  What \<open>Gyp_Variables\<close> computes. Shown: a text with references to variables is the text with the values
  in their places; references to undefined variables are errors, and so are references to numbers; a
  command is run once; a condition selects the first branch that is true; which of several
  definitions of a variable counts.
\<close>

section \<open>Running the model\<close>

lemma xbind_Inr: "m s = Inr (x, s') \<Longrightarrow> xbind m f s = f x s'"
  by (simp add: xbind_def)

lemma xbind_Inl: "m s = Inl e \<Longrightarrow> xbind m f s = Inl e"
  by (simp add: xbind_def)

lemma xbind_xret [simp]: "xbind (xret x) f = f x"
  by (simp add: xbind_def xret_def fun_eq_iff)

lemma xbind_eq_Inr: "xbind m f s = Inr r \<longleftrightarrow> (\<exists>x s'. m s = Inr (x, s') \<and> f x s' = Inr r)"
  by (auto simp: xbind_def split: sum.splits)

lemma xret_apply [simp]: "xret x s = Inr (x, s)"
  by (simp add: xret_def)

lemma xerr_apply [simp]: "xerr e s = Inl e"
  by (simp add: xerr_def)

lemma xget_apply [simp]: "xbind (xget f) g s = g (f s) s"
  by (simp add: xget_def xbind_def)

lemma xput_apply [simp]: "xbind (xput f) g s = g () (f s)"
  by (simp add: xput_def xbind_def)

lemma xlift_apply [simp]: "xlift (Inr x) = xret x" "xlift (Inl e) = xerr e"
  by (simp_all add: xlift_def xret_def xerr_def)

section \<open>Commands are run once\<close>

text \<open>
  The cache of command results: when a command expansion has succeeded, the same expansion in the
  same directory gives the same result again and changes nothing; in particular no command is run.
\<close>

theorem run_command_once:
  assumes "run_command env m contents dir s = Inr (r, s')"
  shows "run_command env m contents dir s' = Inr (r, s')"
proof -
  define cmd where "cmd = (if vm_array m \<noteq> [] then xe_eval env contents else Inr (PStr contents))"
  have cmd: "(if vm_array m \<noteq> [] then xlift (xe_eval env contents) else xret (PStr contents)) = xlift cmd"
    by (simp add: cmd_def)
  obtain v where v: "cmd = Inr v" using assms unfolding run_command_def cmd by (cases cmd) (auto simp: xbind_def)
  define key where "key = (py_str v, dir)"
  have "dget (xs_cache s') key = Some r"
  proof (cases "dget (xs_cache s) key")
    case None
    let ?run = "case vm_command m of None \<Rightarrow> run_process env v (vm_array m = []) dir
      | Some c \<Rightarrow> if c = ''pymod_do_main'' then run_pymod env v dir
                  else xerr (GypError (''Unknown command string '' @ sq c @ '' in '' @ sq (py_str v) @ ''.''))"
    have "xbind ?run (\<lambda>r. xbind (xput (\<lambda>s. s\<lparr>xs_cache := dset (xs_cache s) key r\<rparr>)) (\<lambda>_. xret r)) s = Inr (r, s')"
      using assms None by (simp add: run_command_def cmd v Let_def key_def [symmetric])
    then obtain s1 where "s' = s1\<lparr>xs_cache := dset (xs_cache s1) key r\<rparr>" by (auto simp: xbind_eq_Inr xput_def)
    then show ?thesis by simp
  next
    case (Some w)
    then show ?thesis using assms by (simp add: run_command_def cmd v Let_def key_def [symmetric])
  qed
  then show ?thesis by (simp add: run_command_def cmd v Let_def key_def [symmetric])
qed


section \<open>References to variables\<close>

text \<open>A text with references: each pair is some text and the name of the variable after it.\<close>

fun ref_text :: "char \<Rightarrow> (string \<times> string) list \<Rightarrow> string \<Rightarrow> string" where
  "ref_text sy [] post = post"
| "ref_text sy ((lit, name) # refs) post = lit @ sy # CHR ''('' # name @ CHR '')'' # ref_text sy refs post"

fun subst_text :: "(string \<Rightarrow> string) \<Rightarrow> (string \<times> string) list \<Rightarrow> string \<Rightarrow> string" where
  "subst_text val [] post = post"
| "subst_text val ((lit, name) # refs) post = lit @ val name @ subst_text val refs post"

fun ref_starts :: "nat \<Rightarrow> (string \<times> string) list \<Rightarrow> nat list" where
  "ref_starts i [] = []"
| "ref_starts i ((lit, name) # refs) = (i + length lit) # ref_starts (i + length lit + length name + 3) refs"

definition ref_match :: "nat \<Rightarrow> var_match" where
  "ref_match i = \<lparr>vm_start = i, vm_type = [], vm_command = None, vm_array = []\<rparr>"

text \<open>Names of variables: no brackets, no white space, no expansion symbol, not a number.\<close>

definition name_char :: "char \<Rightarrow> bool" where
  "name_char c \<longleftrightarrow> plain_char c \<and> \<not> is_space c \<and> c \<notin> {CHR ''<'', CHR ''>'', CHR ''^''}"

definition variable_name :: "string \<Rightarrow> bool" where
  "variable_name name \<longleftrightarrow> name \<noteq> [] \<and> list_all name_char name"

definition scalar_text :: "hval \<Rightarrow> string" where
  "scalar_text v = (case v of HStr t \<Rightarrow> t | HInt i \<Rightarrow> int_str i | _ \<Rightarrow> [])"

lemma ref_text_snoc: "ref_text sy (refs @ [(lit, name)]) post = ref_text sy refs (lit @ sy # CHR ''('' # name @ CHR '')'' # post)"
  by (induction refs) auto

lemma subst_text_snoc: "subst_text val (refs @ [(lit, name)]) post = subst_text val refs (lit @ val name @ post)"
  by (induction refs) auto

lemma ref_starts_snoc: "ref_starts i (refs @ [(lit, name)]) = ref_starts i refs @ [i + length (ref_text sy refs lit)]"
  by (induction refs arbitrary: i) (auto simp: add.assoc)

lemma expansion_symbol_char [simp]:
  "expansion_symbol p \<noteq> CHR ''('' \<and> expansion_symbol p \<noteq> CHR '')'' \<and> expansion_symbol p \<in> {CHR ''<'', CHR ''>'', CHR ''^''}"
  by (cases p) (auto simp: expansion_symbol_def)

lemma plain_expansion_symbol: "plain_char (expansion_symbol p)"
  by (cases p) (auto simp: expansion_symbol_def plain_char_def LBRACKETS_def BRACKETS_def)

lemma name_no_symbol: "variable_name name \<Longrightarrow> expansion_symbol p \<notin> set name"
  using expansion_symbol_char [of p] by (auto simp: variable_name_def name_char_def list_all_iff)

lemma name_plain: "variable_name name \<Longrightarrow> list_all plain_char name"
  by (auto simp: variable_name_def name_char_def list_all_iff)

lemma bal_plain: "list_all plain_char s \<Longrightarrow> bal s"
  by (induction s) (auto simp: plain_char_def intro: bal.intros)

lemma after_close_name: "variable_name name \<Longrightarrow> after_close (name @ CHR '')'' # s) = Some s"
proof -
  assume "variable_name name"
  then have "list_all name_char name" by (simp add: variable_name_def)
  moreover have "c \<noteq> CHR '')'' \<and> c \<noteq> CHR '']'' \<and> c \<noteq> CHR 0x0A" if "name_char c" for c
  proof -
    have "\<not> name_char (CHR '')'')" "\<not> name_char (CHR '']'')" "\<not> name_char (CHR 0x0A)" by code_simp+
    then show ?thesis using that by metis
  qed
  ultimately show ?thesis by (induction name) simp_all
qed

lemma match_ref:
  assumes "variable_name name"
  shows "match_here (expansion_symbol p) i (expansion_symbol p # CHR ''('' # name @ CHR '')'' # s) = Some (ref_match i, s)"
proof -
  obtain c cs where c: "name = c # cs" using assms by (cases name) (auto simp: variable_name_def)
  have nc: "name_char c" using assms by (simp add: c variable_name_def)
  then have "\<not> is_space c" "c \<noteq> CHR ''[''" by (auto simp: name_char_def plain_char_def LBRACKETS_def)
  moreover have "\<not> command_char (CHR ''('')" by code_simp
  ultimately show ?thesis using after_close_name [OF assms, of s] expansion_symbol_char [of p]
    by (simp add: match_here_def match_type_def startswith_def Let_def c ref_match_def)
qed

lemma match_here_other: "sy \<noteq> c \<Longrightarrow> match_here sy i (c # s) = None"
  by (simp add: match_here_def)

lemma finditer_skip: "sy \<notin> set lit \<Longrightarrow> finditer sy i (lit @ s) = finditer sy (i + length lit) s"
  by (induction lit arbitrary: i) (simp_all add: finditer.simps [of sy _ "_ # _"] match_here_other)

lemma finditer_none: "sy \<notin> set s \<Longrightarrow> finditer sy i s = []"
  using finditer_skip [of sy s i "[]"] by (simp add: finditer.simps)

lemma finditer_refs:
  assumes "\<And>lit name. (lit, name) \<in> set refs \<Longrightarrow> expansion_symbol p \<notin> set lit \<and> variable_name name"
    and "expansion_symbol p \<notin> set post"
  shows "finditer (expansion_symbol p) i (ref_text (expansion_symbol p) refs post) = map ref_match (ref_starts i refs)"
  using assms
proof (induction refs arbitrary: i)
  case Nil
  then show ?case by (simp add: finditer_none)
next
  case (Cons x refs)
  obtain lit name where x: "x = (lit, name)" by (cases x)
  have h: "expansion_symbol p \<notin> set lit" "variable_name name" using Cons.prems(1) [of lit name] by (auto simp: x)
  let ?rest = "ref_text (expansion_symbol p) refs post"
  have "finditer (expansion_symbol p) i (ref_text (expansion_symbol p) (x # refs) post)
      = ref_match (i + length lit) # finditer (expansion_symbol p) (i + length lit + length name + 3) ?rest"
    using h by (simp add: x finditer_skip finditer.simps [of "expansion_symbol p" _ "expansion_symbol p # _"] match_ref eval_nat_numeral)
  moreover have "finditer (expansion_symbol p) (i + length lit + length name + 3) ?rest = map ref_match (ref_starts (i + length lit + length name + 3) refs)"
    by (rule Cons.IH) (use Cons.prems in auto)
  ultimately show ?case by (simp add: x)
qed

lemma enclosing_ref:
  assumes "variable_name name"
  shows "FindEnclosingBracketGroup (expansion_symbol p # CHR ''('' # name @ CHR '')'' # s) = (1, int (length name) + 3)"
proof -
  let ?s = "[expansion_symbol p] @ CHR ''('' # name @ CHR '')'' # s"
  have "CHR ''('' \<in> LBRACKETS" "BRACKETS (CHR '')'') = Some (CHR ''('')" by code_simp+
  moreover have "list_all plain_char [expansion_symbol p]" "bal name"
    using plain_expansion_symbol bal_plain [OF name_plain [OF assms]] by simp_all
  ultimately have "FindEnclosingBracketGroup ?s = (int (length [expansion_symbol p]), int (length [expansion_symbol p]) + int (length name) + 2)"
    by (intro bracket_group_found)
  then show ?thesis by simp
qed


lemma expand_plain:
  "expansion_symbol p \<notin> set t \<Longrightarrow> ExpandVariables_body env eng (HStr t) p variables bf s = Inr (to_int (HStr t), s)"
  by (simp add: ExpandVariables_body_def hstr_def to_int_def)

lemma canonical_no_symbol: "IsStrCanonicalInt (PStr t) \<Longrightarrow> expansion_symbol p \<notin> set t"
proof
  assume "IsStrCanonicalInt (PStr t)" and t: "expansion_symbol p \<in> set t"
  then obtain i where "t = int_str i" using canonical_is_int_str by blast
  then have "c \<in> set t \<Longrightarrow> is_digit c \<or> c = CHR ''-''" for c
    using nat_str_digits by (auto simp: int_str_def split: if_splits)
  moreover have "\<not> is_digit (expansion_symbol p) \<and> expansion_symbol p \<noteq> CHR ''-''"
    by (cases p) (auto simp: expansion_symbol_def is_digit_def ord_def)
  ultimately show False using t by blast
qed

lemma strip_name: "variable_name name \<Longrightarrow> strip name = name"
  by (rule strip_id) (auto simp: variable_name_def name_char_def list_all_iff)

lemma slices_ref:
  fixes pre name post :: string and sy :: char
  defines "t \<equiv> pre @ sy # CHR ''('' # name @ CHR '')'' # post"
  shows "py_slice t (int (length pre) + 1 + 1) (int (length pre) + (int (length name) + 3) - 1) = name"
    and "py_slice t 0 (int (length pre)) = pre"
    and "drop (slice_pos (length t) (int (length pre) + (int (length name) + 3))) t = post"
proof -
  have pos: "slice_pos (length t) (int (length pre) + 1 + 1) = length pre + 2"
    "slice_pos (length t) (int (length pre) + (int (length name) + 3) - 1) = length pre + length name + 2"
    "slice_pos (length t) (int (length pre) + (int (length name) + 3)) = length pre + length name + 3"
    "slice_pos (length t) 0 = 0" "slice_pos (length t) (int (length pre)) = length pre"
    by (simp_all add: slice_pos_def nat_add_distrib)
  show "py_slice t (int (length pre) + 1 + 1) (int (length pre) + (int (length name) + 3) - 1) = name"
    unfolding py_slice_def pos by (simp add: t_def eval_nat_numeral)
  show "py_slice t 0 (int (length pre)) = pre" unfolding py_slice_def pos by (simp add: t_def)
  show "drop (slice_pos (length t) (int (length pre) + (int (length name) + 3))) t = post"
    unfolding pos by (simp add: t_def eval_nat_numeral)
qed

text \<open>One reference, when the contents are expanded by a function that leaves the name alone.\<close>

lemma expand_match_ref:
  assumes "variable_name name"
    and "e_expand eng (HStr name) p variables bf s = Inr (HStr name, s)"
  shows "expand_match env eng p variables bf (pre @ expansion_symbol p # CHR ''('' # name @ CHR '')'' # post) (ref_match (length pre)) s =
    xbind (lookup_variable variables name bf) (\<lambda>value.
    xbind (expand_value eng p variables bf name value) (\<lambda>_.
    xbind (encoded_replacement value) (\<lambda>t. xret (Inr (pre @ t @ post))))) s"
proof -
  have "expand_contents eng p variables bf False name s = Inr (name, s)"
    using assms(2) strip_name [OF assms(1)] by (simp add: expand_contents_def xbind_Inr)
  then show ?thesis
    using slices_ref [of pre "expansion_symbol p" name post] enclosing_ref [OF assms(1), of p post]
    by (simp add: expand_match_def ref_match_def match_value_def Let_def xbind_Inr)
qed

lemma scalar_expansion:
  assumes "is_scalar v"
  shows "expand_value eng p variables bf name v s = Inr ((), s)" "encoded_replacement v s = Inr (scalar_text v, s)"
  using assms by (cases v; simp add: is_scalar_def expand_value_def encoded_replacement_def hstr_def scalar_text_def)+

text \<open>The variables that the references name, as texts.\<close>

definition var_text :: "vars \<Rightarrow> string \<Rightarrow> string" where
  "var_text variables name = (case dget variables name of None \<Rightarrow> [] | Some v \<Rightarrow> scalar_text v)"

definition good_ref :: "phase \<Rightarrow> vars \<Rightarrow> string \<times> string \<Rightarrow> bool" where
  "good_ref p variables ref \<longleftrightarrow>
     expansion_symbol p \<notin> set (fst ref) \<and> variable_name (snd ref) \<and> \<not> IsStrCanonicalInt (PStr (snd ref))
     \<and> (case dget variables (snd ref) of None \<Rightarrow> False | Some v \<Rightarrow> is_scalar v \<and> expansion_symbol p \<notin> set (scalar_text v))"

lemma expand_name:
  assumes "variable_name name" and "\<not> IsStrCanonicalInt (PStr name)"
  shows "e_expand (engine env m (Suc n)) (HStr name) p variables bf s = Inr (HStr name, s)"
  using expand_plain [OF name_no_symbol [OF assms(1)]] assms(2) by (simp add: to_int_def)

lemma expand_refs:
  assumes "\<And>ref. ref \<in> set refs \<Longrightarrow> good_ref p variables ref"
  shows "expand_matches env (engine env m (Suc n)) p variables bf (rev (map ref_match (ref_starts 0 refs)))
      (ref_text (expansion_symbol p) refs post) s
    = Inr (Inr (subst_text (var_text variables) refs post), s)"
  using assms
proof (induction refs arbitrary: post rule: rev_induct)
  case (snoc ref refs)
  obtain lit name where ref: "ref = (lit, name)" by (cases ref)
  let ?sy = "expansion_symbol p"
  let ?eng = "engine env m (Suc n)"
  have "good_ref p variables (lit, name)" using snoc.prems [of ref] by (simp add: ref)
  then obtain v where h: "variable_name name" "\<not> IsStrCanonicalInt (PStr name)" "dget variables name = Some v" "is_scalar v"
    by (auto simp: good_ref_def split: option.splits)
  define pre where "pre = ref_text ?sy refs lit"
  have tx: "ref_text ?sy (refs @ [ref]) post = pre @ ?sy # CHR ''('' # name @ CHR '')'' # post"
    unfolding pre_def ref ref_text_snoc by (induction refs) auto
  have "expand_match env ?eng p variables bf (pre @ ?sy # CHR ''('' # name @ CHR '')'' # post) (ref_match (length pre)) s
      = Inr (Inr (pre @ scalar_text v @ post), s)"
    unfolding expand_match_ref [OF h(1) expand_name [OF h(1,2)]] lookup_variable_def h(3)
    using scalar_expansion [OF h(4)] by (simp add: xbind_Inr)
  moreover have "pre @ scalar_text v @ post = ref_text ?sy refs (lit @ scalar_text v @ post)"
    unfolding pre_def by (induction refs) auto
  moreover have "ref_starts 0 (refs @ [ref]) = ref_starts 0 refs @ [length pre]"
    unfolding ref pre_def ref_starts_snoc [where sy = ?sy] by simp
  ultimately have "expand_matches env ?eng p variables bf (rev (map ref_match (ref_starts 0 (refs @ [ref])))) (ref_text ?sy (refs @ [ref]) post) s
      = expand_matches env ?eng p variables bf (rev (map ref_match (ref_starts 0 refs))) (ref_text ?sy refs (lit @ scalar_text v @ post)) s"
    by (simp add: tx xbind_Inr)
  moreover have "expand_matches env ?eng p variables bf (rev (map ref_match (ref_starts 0 refs))) (ref_text ?sy refs (lit @ scalar_text v @ post)) s
      = Inr (Inr (subst_text (var_text variables) refs (lit @ scalar_text v @ post)), s)"
    using snoc by (simp del: engine.simps)
  moreover have "var_text variables name = scalar_text v" using h(3) by (simp add: var_text_def)
  ultimately show ?case by (simp add: ref subst_text_snoc del: engine.simps)
qed simp

lemma subst_no_symbol:
  assumes "\<And>ref. ref \<in> set refs \<Longrightarrow> good_ref p variables ref" and "expansion_symbol p \<notin> set post"
  shows "expansion_symbol p \<notin> set (subst_text (var_text variables) refs post)"
  using assms by (induction "var_text variables" refs post rule: subst_text.induct)
    (force simp: good_ref_def var_text_def split: option.splits)+



definition demo_env :: xenv where
  "demo_env = \<lparr>xe_gyp = \<lparr>ge_path_sections = base_path_sections, ge_non_configuration_keys = base_non_configuration_keys, ge_realpath = (\<lambda>p. p)\<rparr>,
     xe_win32 = False, xe_filelist = None, xe_mode = 420, xe_rnd = nat_str, xe_eval = (\<lambda>e. Inl (SyntaxError e)),
     xe_cond = (\<lambda>e vs. CondValue (e = ''1 == 1'')),
     xe_popen = (\<lambda>n cmd shell dir. Inr (0, ''out'' @ nat_str n @ [nl], [])),
     xe_pymod = (\<lambda>n dir args. ModImportError ''no module'')\<rparr>"

definition demo_state :: xstate where
  "demo_state = \<lparr>xs_heap = [], xs_cache = [], xs_runs = 0, xs_fs = \<lparr>fs_files = [], fs_dirs = [], fs_next = 0\<rparr>\<rparr>"

definition demo_vars :: vars where
  "demo_vars = [(''OS'', HStr ''linux''), (''n'', HInt 4), (''x'', HStr ''2'')]"


theorem run_command_once_witness:
  "(\<exists>r s'. run_command demo_env (ref_match 0) ''ls'' None demo_state = Inr (r, s') \<and> run_command demo_env (ref_match 0) ''ls'' None s' = Inr (r, s'))"
proof -
  have "run_command demo_env (ref_match 0) ''ls'' None demo_state
      = Inr (''out0'', demo_state\<lparr>xs_runs := 1, xs_cache := [((''ls'', None), ''out0'')]\<rparr>)" by code_simp
  with run_command_once [OF this] show ?thesis by blast
qed

section \<open>References that are errors\<close>

lemma ref_text_pre: "ref_text sy (refs @ [(lit, name)]) post = ref_text sy refs lit @ sy # CHR ''('' # name @ CHR '')'' # post"
  unfolding ref_text_snoc by (induction refs) auto

lemma expand_last_error:
  assumes "\<And>lit name. (lit, name) \<in> set (refs @ [(lit0, name0)]) \<Longrightarrow> expansion_symbol p \<notin> set lit \<and> variable_name name"
    and "expansion_symbol p \<notin> set post"
    and "\<And>pre. expand_match env (engine env m n) p variables bf (pre @ expansion_symbol p # CHR ''('' # name0 @ CHR '')'' # post)
           (ref_match (length pre)) s = Inl e"
  shows "ExpandVariables env m (Suc n) (HStr (ref_text (expansion_symbol p) (refs @ [(lit0, name0)]) post)) p variables bf s = Inl e"
proof -
  let ?sy = "expansion_symbol p"
  let ?t = "ref_text ?sy (refs @ [(lit0, name0)]) post"
  have "?sy \<in> set ?t" by (simp add: ref_text_pre)
  moreover from this have "\<not> IsStrCanonicalInt (PStr ?t)" using canonical_no_symbol by blast
  moreover have "finditer ?sy 0 ?t = map ref_match (ref_starts 0 (refs @ [(lit0, name0)]))"
    by (rule finditer_refs) (use assms(1,2) in auto)
  moreover have "expand_matches env (engine env m n) p variables bf (rev (map ref_match (ref_starts 0 (refs @ [(lit0, name0)])))) ?t s = Inl e"
    using assms(3) [of "ref_text ?sy refs lit0"]
    by (simp add: ref_text_pre ref_starts_snoc [where sy = ?sy] xbind_Inl)
  ultimately show ?thesis
    by (simp add: ExpandVariables_def ExpandVariables_body_def hstr_def Let_def xbind_Inl ref_starts_snoc [where sy = ?sy])
qed

text \<open>
  \<open>ExpandVariables\<close> reports an undefined variable: when the rightmost reference, the one that is
  replaced first, names a variable that is not defined (and is not a filter list, whose name ends in
  \<open>!\<close> or \<open>/\<close>), the outcome is the \<open>GypError\<close> that names the variable and the build file.
\<close>

theorem ExpandVariables_undefined:
  assumes "\<And>lit name. (lit, name) \<in> set (refs @ [(lit0, name0)]) \<Longrightarrow> expansion_symbol p \<notin> set lit \<and> variable_name name"
    and "expansion_symbol p \<notin> set post"
    and "\<not> IsStrCanonicalInt (PStr name0)" and "dget variables name0 = None" and "last name0 \<notin> {CHR ''!'', CHR ''/''}"
  shows "ExpandVariables env m (Suc (Suc n)) (HStr (ref_text (expansion_symbol p) (refs @ [(lit0, name0)]) post)) p variables bf s
    = Inl (undefined_variable name0 bf)"
proof (rule expand_last_error [OF assms(1,2)])
  fix pre
  have name: "variable_name name0" using assms(1) [of lit0 name0] by simp
  then have "name0 \<noteq> []" by (simp add: variable_name_def)
  then show "expand_match env (engine env m (Suc n)) p variables bf (pre @ expansion_symbol p # CHR ''('' # name0 @ CHR '')'' # post)
      (ref_match (length pre)) s = Inl (undefined_variable name0 bf)"
    unfolding expand_match_ref [OF name expand_name [OF name assms(3)]]
    using assms(4,5) by (simp add: lookup_variable_def xbind_Inl)
qed auto

theorem ExpandVariables_undefined_witness:
  "ExpandVariables demo_env 9 2 (HStr ''a<(OS)b<(missing)c'') PHASE_EARLY demo_vars ''a.gyp'' demo_state
     = Inl (undefined_variable ''missing'' ''a.gyp'')"
proof -
  let ?refs = "[(''a'', ''OS'')] @ [(''b'', ''missing'')]"
  have "variable_name ''OS''" "variable_name ''missing''" "expansion_symbol PHASE_EARLY \<notin> set ''c''"
    "expansion_symbol PHASE_EARLY \<notin> set ''a''" "expansion_symbol PHASE_EARLY \<notin> set ''b''"
    "\<not> IsStrCanonicalInt (PStr ''missing'')" "dget demo_vars ''missing'' = None" "last ''missing'' \<notin> {CHR ''!'', CHR ''/''}"
    by code_simp+
  then have "ExpandVariables demo_env 9 (Suc (Suc 0)) (HStr (ref_text (expansion_symbol PHASE_EARLY) ?refs ''c'')) PHASE_EARLY demo_vars ''a.gyp'' demo_state
      = Inl (undefined_variable ''missing'' ''a.gyp'')"
    by (intro ExpandVariables_undefined) auto
  moreover have "ref_text (expansion_symbol PHASE_EARLY) ?refs ''c'' = ''a<(OS)b<(missing)c''" by code_simp
  ultimately show ?thesis by (simp only: numeral_2_eq_2)
qed

text \<open>
  A reference whose contents are a number is no undefined variable but an \<open>AttributeError\<close>: the
  contents come back from the recursive call as an integer, which has no \<open>strip\<close>.
\<close>

theorem ExpandVariables_number:
  assumes "expansion_symbol p \<notin> set lit" and "expansion_symbol p \<notin> set post" and "variable_name name" and "IsStrCanonicalInt (PStr name)"
  shows "ExpandVariables env m (Suc (Suc n)) (HStr (lit @ expansion_symbol p # CHR ''('' # name @ CHR '')'' # post)) p variables bf s
    = Inl (AttributeError ''strip'')"
proof -
  have "ExpandVariables env m (Suc (Suc n)) (HStr (ref_text (expansion_symbol p) ([] @ [(lit, name)]) post)) p variables bf s
    = Inl (AttributeError ''strip'')"
  proof (rule expand_last_error)
    fix pre
    have "e_expand (engine env m (Suc n)) (HStr name) p variables bf s = Inr (HInt (canonical_int name), s)"
      using expand_plain [OF name_no_symbol [OF assms(3)]] assms(4) by (simp add: to_int_def)
    then have "expand_contents (engine env m (Suc n)) p variables bf False name s = Inl (AttributeError ''strip'')"
      by (simp add: expand_contents_def xbind_Inr del: engine.simps)
    then show "expand_match env (engine env m (Suc n)) p variables bf (pre @ expansion_symbol p # CHR ''('' # name @ CHR '')'' # post)
        (ref_match (length pre)) s = Inl (AttributeError ''strip'')"
      using slices_ref [of pre "expansion_symbol p" name post] enclosing_ref [OF assms(3), of p post]
      by (simp add: expand_match_def ref_match_def Let_def xbind_Inl del: engine.simps)
  qed (use assms in auto)
  then show ?thesis by simp
qed

theorem ExpandVariables_number_witness:
  "ExpandVariables demo_env 9 2 (HStr ''a<(32)'') PHASE_EARLY demo_vars ''a.gyp'' demo_state = Inl (AttributeError ''strip'')"
proof -
  have "expansion_symbol PHASE_EARLY \<notin> set ''a''" "expansion_symbol PHASE_EARLY \<notin> set []" "variable_name ''32''" "IsStrCanonicalInt (PStr ''32'')"
    by code_simp+
  then have "ExpandVariables demo_env 9 (Suc (Suc 0)) (HStr (''a'' @ expansion_symbol PHASE_EARLY # CHR ''('' # ''32'' @ CHR '')'' # [])) PHASE_EARLY demo_vars ''a.gyp'' demo_state
    = Inl (AttributeError ''strip'')" by (rule ExpandVariables_number)
  then show ?thesis by (simp add: expansion_symbol_def numeral_2_eq_2)
qed


section \<open>Conditions select a branch\<close>

text \<open>The items of a condition: expressions with the dictionaries that apply when they are true, and
  at the end a dictionary for the case that none is.\<close>

definition condition_items :: "(string \<times> nat) list \<Rightarrow> nat option \<Rightarrow> hval list" where
  "condition_items branches otherwise =
     concat (map (\<lambda>(c, d). [HStr c, HDict d]) branches) @ (case otherwise of None \<Rightarrow> [] | Some d \<Rightarrow> [HDict d])"

definition selected :: "(string \<Rightarrow> bool) \<Rightarrow> (string \<times> nat) list \<Rightarrow> nat option \<Rightarrow> nat option" where
  "selected b branches otherwise = (case filter (\<lambda>p. b (fst p)) branches of [] \<Rightarrow> otherwise | (c, d) # _ \<Rightarrow> Some d)"

text \<open>The conditions that have a truth value: no expansion, no number.\<close>

definition plain_condition :: "xenv \<Rightarrow> phase \<Rightarrow> pydict \<Rightarrow> (string \<Rightarrow> bool) \<Rightarrow> string \<Rightarrow> bool" where
  "plain_condition env p vs b c \<longleftrightarrow>
     expansion_symbol p \<notin> set c \<and> \<not> IsStrCanonicalInt (PStr c) \<and> xe_cond env c vs = CondValue (b c)"

lemma EvalSingleCondition_plain:
  assumes "plain_condition env p vs b c" and "read_vars variables s = Inr (vs, s)"
  shows "EvalSingleCondition env (engine env m (Suc n)) (HStr c) td fd p variables bf s = Inr (if b c then Some td else fd, s)"
proof -
  have "e_expand (engine env m (Suc n)) (HStr c) p variables bf s = Inr (HStr c, s)"
    using assms(1) expand_plain [of p c] by (simp add: plain_condition_def to_int_def)
  then show ?thesis using assms
    by (cases "b c") (simp_all add: EvalSingleCondition_def xbind_Inr plain_condition_def del: engine.simps)
qed

lemma eval_chain_selects:
  assumes "\<And>c d. (c, d) \<in> set branches \<Longrightarrow> plain_condition env p vs b c" and "branches \<noteq> []"
    and "read_vars variables s = Inr (vs, s)"
  shows "eval_chain env (engine env m (Suc n)) key p variables bf (condition_items branches otherwise) r s
    = Inr (if r = None then selected b branches otherwise else r, s)"
  using assms(1,2)
proof (induction branches arbitrary: r)
  case (Cons x branches)
  obtain c d where x: "x = (c, d)" by (cases x)
  have c: "plain_condition env p vs b c" using Cons.prems(1) [of c d] by (simp add: x)
  note step = EvalSingleCondition_plain [OF c assms(3)]
  show ?case
  proof (cases branches)
    case Nil
    then show ?thesis using step
      by (cases otherwise) (auto simp: x condition_items_def selected_def xbind_Inr simp del: engine.simps)
  next
    case (Cons y ys)
    obtain c' d' where y: "y = (c', d')" by (cases y)
    have items: "condition_items (x # branches) otherwise = HStr c # HDict d # condition_items branches otherwise"
      "condition_items branches otherwise = HStr c' # HDict d' # condition_items ys otherwise"
      by (simp_all add: x y condition_items_def Cons)
    have IH: "eval_chain env (engine env m (Suc n)) key p variables bf (condition_items branches otherwise) r' s
        = Inr (if r' = None then selected b branches otherwise else r', s)" for r'
      by (rule Cons.IH) (use Cons.prems Cons in auto)
    have "(if r = None then EvalSingleCondition env (engine env m (Suc n)) (HStr c) d None p variables bf else xret r) s
        = Inr (if r = None then (if b c then Some d else None) else r, s)"
      using step by (simp del: engine.simps)
    then have "eval_chain env (engine env m (Suc n)) key p variables bf (condition_items (x # branches) otherwise) r s
        = eval_chain env (engine env m (Suc n)) key p variables bf (condition_items branches otherwise)
            (if r = None then (if b c then Some d else None) else r) s"
      unfolding items by (simp add: xbind_Inr del: engine.simps)
    then show ?thesis using IH by (simp add: x selected_def del: engine.simps)
  qed
qed simp



section \<open>Which definition of a variable counts\<close>

text \<open>The value of \<open>x\<close> in the \<open>variables\<close> dictionary, if it is one a variable can have.\<close>

definition entry :: "vars \<Rightarrow> string \<Rightarrow> hval option" where
  "entry vd x = (case dget vd x of Some v \<Rightarrow> if htype v = ''dict'' then None else Some v | None \<Rightarrow> None)"

definition default_entry :: "vars \<Rightarrow> string option \<Rightarrow> vars \<Rightarrow> string \<Rightarrow> hval option" where
  "default_entry the_dict the_dict_key vd x =
     map_option (\<lambda>v. if the_dict_key = Some ''variables'' \<and> dhas the_dict x then the (dget the_dict x) else v) (entry vd (x @ ''%''))"

lemma endswith_snoc: "endswith (x @ ''%'') ''%''" "drop_last 1 (x @ ''%'') = x"
  by (auto simp: endswith_def drop_last_def)

lemma endswith_percent: "endswith key ''%'' \<Longrightarrow> key = drop_last 1 key @ ''%''"
  by (cases key rule: rev_cases) (auto simp: endswith_def drop_last_def)

lemma load_variable_other:
  assumes "k \<noteq> x" and "k \<noteq> x @ ''%''"
  shows "dget (load_variable the_dict tk vs (k, v)) x = dget vs x"
proof (cases "endswith k ''%''")
  case True
  then have "drop_last 1 k \<noteq> x" using assms(2) endswith_percent [of k] by auto
  then show ?thesis using True by (auto simp: load_variable_def Let_def)
next
  case False
  then show ?thesis using assms(1) by (auto simp: load_variable_def)
qed

lemma load_variables_lookup:
  assumes "wf_dict vd" and "\<not> endswith x ''%''"
  shows "dget (foldl (load_variable the_dict tk) vs vd) x =
    (case entry vd x of Some v \<Rightarrow> Some v | None \<Rightarrow>
      (case dget vs x of Some v \<Rightarrow> Some v | None \<Rightarrow> default_entry the_dict tk vd x))"
  using assms
proof (induction vd arbitrary: vs)
  case (Cons kv vd)
  obtain k v where kv: "kv = (k, v)" by (cases kv)
  have wf: "wf_dict vd" and k: "dget vd k = None"
    using Cons.prems(1) by (auto simp: kv wf_dict_def dget_def map_of_eq_None_iff)
  note IH = Cons.IH [OF wf Cons.prems(2), of "load_variable the_dict tk vs (k, v)"]
  have ne: "x \<noteq> x @ ''%''" by simp
  consider "k = x" | "k = x @ ''%''" | "k \<noteq> x" "k \<noteq> x @ ''%''" by blast
  then show ?case
  proof cases
    case 1
    then show ?thesis using IH k Cons.prems(2)
      by (auto simp: kv entry_def default_entry_def load_variable_def split: option.splits)
  next
    case 2
    have "dget (load_variable the_dict tk vs (k, v)) x =
        (if htype v = ''dict'' \<or> dget vs x \<noteq> None then dget vs x
         else Some (if tk = Some ''variables'' \<and> dhas the_dict x then the (dget the_dict x) else v))"
      unfolding 2 load_variable_def using endswith_snoc [of x] by (auto simp: Let_def dhas_iff_dget)
    then show ?thesis using IH k ne 2 by (auto simp: kv entry_def default_entry_def split: option.splits)
  next
    case 3
    then have "entry (kv # vd) x = entry vd x" "default_entry the_dict tk (kv # vd) x = default_entry the_dict tk vd x"
      by (simp_all add: kv entry_def default_entry_def)
    then show ?thesis using IH load_variable_other [OF 3, of the_dict tk vs v] by (simp add: kv cong: option.case_cong)
  qed
qed (simp add: entry_def default_entry_def split: option.splits)

text \<open>
  \<open>LoadVariablesFromVariablesDict\<close>: which definition of a variable counts does not depend on the
  order in which the \<open>variables\<close> dictionary is traversed. A definition \<open>x\<close> there comes first, then
  the value from outside, then the default \<open>x%\<close>, for which a variables dictionary's own \<open>x\<close> is used if
  there is one.
\<close>

theorem LoadVariablesFromVariablesDict_lookup:
  assumes "dget the_dict ''variables'' = Some (HDict b)" and "wf_dict (dict_at (xs_heap s) b)" and "\<not> endswith x ''%''"
    and "LoadVariablesFromVariablesDict vs the_dict the_dict_key s = Inr (vs', s')"
  shows "dget vs' x =
    (case entry (dict_at (xs_heap s) b) x of Some v \<Rightarrow> Some v | None \<Rightarrow>
      (case dget vs x of Some v \<Rightarrow> Some v | None \<Rightarrow> default_entry the_dict the_dict_key (dict_at (xs_heap s) b) x))"
proof -
  have "vs' = foldl (load_variable the_dict the_dict_key) vs (dict_at (xs_heap s) b)"
    using assms(1,4) by (auto simp: LoadVariablesFromVariablesDict_def get_dict_def)
  then show ?thesis using load_variables_lookup [OF assms(2,3)] by simp
qed

theorem LoadVariablesFromVariablesDict_lookup_witness:
  "\<exists>vs' s'. LoadVariablesFromVariablesDict demo_vars [(''variables'', HDict 0)] None
      (demo_state\<lparr>xs_heap := [CDict [(''y%'', HInt 1), (''OS%'', HStr ''mac''), (''n'', HInt 5)]]\<rparr>) = Inr (vs', s')
    \<and> dget vs' ''y'' = Some (HInt 1) \<and> dget vs' ''OS'' = Some (HStr ''linux'') \<and> dget vs' ''n'' = Some (HInt 5)"
proof -
  let ?s = "demo_state\<lparr>xs_heap := [CDict [(''y%'', HInt 1), (''OS%'', HStr ''mac''), (''n'', HInt 5)]]\<rparr>"
  let ?d = "[(''variables'', HDict 0)]"
  let ?vs = "dset (dset demo_vars ''y'' (HInt 1)) ''n'' (HInt 5)"
  have run: "LoadVariablesFromVariablesDict demo_vars ?d None ?s = Inr (?vs, ?s)" by code_simp
  have h: "dget ?d ''variables'' = Some (HDict 0)" "wf_dict (dict_at (xs_heap ?s) 0)"
    "\<not> endswith ''y'' ''%''" "\<not> endswith ''OS'' ''%''" "\<not> endswith ''n'' ''%''" by code_simp+
  have "dget ?vs ''y'' = Some (HInt 1)" "dget ?vs ''OS'' = Some (HStr ''linux'')" "dget ?vs ''n'' = Some (HInt 5)"
    unfolding LoadVariablesFromVariablesDict_lookup [OF h(1,2,3) run] LoadVariablesFromVariablesDict_lookup [OF h(1,2,4) run]
      LoadVariablesFromVariablesDict_lookup [OF h(1,2,5) run] by code_simp+
  with run show ?thesis by blast
qed


section \<open>Lists are expanded in place\<close>

text \<open>
  \<open>ProcessVariablesAndConditionsInDict\<close> says that the variables it is given are not modified, but a
  list among them is expanded in place: here the dictionary only refers to the list \<open>l\<close>, and
  afterwards the list itself has changed.
\<close>

theorem ProcessVariablesAndConditionsInDict_changes_variables:
  "\<exists>s'. ProcessVariablesAndConditionsInDict demo_env 5 5 0 PHASE_EARLY ((''l'', HList 1) # demo_vars) ''a.gyp'' None
      (demo_state\<lparr>xs_heap := [CDict [(''k'', HStr ''<(l)'')], CList [HStr ''<(OS)'']]\<rparr>) = Inr ((), s')
    \<and> dict_at (xs_heap s') 0 = [(''k'', HStr ''linux'')] \<and> list_at (xs_heap s') 1 = [HStr ''linux'']"
proof -
  have "ProcessVariablesAndConditionsInDict demo_env 5 5 0 PHASE_EARLY ((''l'', HList 1) # demo_vars) ''a.gyp'' None
      (demo_state\<lparr>xs_heap := [CDict [(''k'', HStr ''<(l)'')], CList [HStr ''<(OS)'']]\<rparr>)
    = Inr ((), demo_state\<lparr>xs_heap := [CDict [(''k'', HStr ''linux'')], CList [HStr ''linux'']]\<rparr>)" by code_simp
  then show ?thesis by (simp add: dict_at_def list_at_def)
qed

end
