(* ===== verification/Gyp_OrderedSet.thy ===== *)
theory Gyp_OrderedSet
  imports Py_Prelude
begin

text \<open>
  \<open>OrderedSet\<close> of \<open>gyp/common.py\<close>: a dictionary from keys to the cells of a circular doubly linked
  list with a sentinel. The cells are in a heap (address 0 is the sentinel \<open>end\<close>, a new cell gets the
  next free address). Shown here: every operation refines the obvious one on lists without
  duplicates; the contract of an ordered set is a locale, and the linked structure interprets it.
\<close>

section \<open>The structure\<close>

record 'a oset_heap =
  os_key :: "nat \<Rightarrow> 'a option"
  os_prev :: "nat \<Rightarrow> nat"
  os_next :: "nat \<Rightarrow> nat"
  os_map :: "('a, nat) dict"
  os_fresh :: nat

definition OrderedSet_init :: "'a oset_heap" where
  "OrderedSet_init = \<lparr>os_key = (\<lambda>_. None), os_prev = (\<lambda>_. 0), os_next = (\<lambda>_. 0), os_map = [], os_fresh = 1\<rparr>"

definition OrderedSet_len :: "'a oset_heap \<Rightarrow> nat" where
  "OrderedSet_len s = length (os_map s)"

definition OrderedSet_contains :: "'a oset_heap \<Rightarrow> 'a \<Rightarrow> bool" where
  "OrderedSet_contains s key = dhas (os_map s) key"

text \<open>\<open>curr[2] = end[1] = self.map[key] = [key, curr, end]\<close>: the targets are assigned from left to
  right.\<close>

definition OrderedSet_add :: "'a \<Rightarrow> 'a oset_heap \<Rightarrow> 'a oset_heap" where
  "OrderedSet_add key s =
     (if \<not> OrderedSet_contains s key then
        let n = os_fresh s; cur = os_prev s 0
        in s\<lparr>os_key := (os_key s)(n := Some key),
             os_prev := ((os_prev s)(n := cur))(0 := n),
             os_next := ((os_next s)(n := 0))(cur := n),
             os_map := dset (os_map s) key n,
             os_fresh := Suc n\<rparr>
      else s)"

definition OrderedSet_discard :: "'a \<Rightarrow> 'a oset_heap \<Rightarrow> 'a oset_heap" where
  "OrderedSet_discard key s =
     (case dget (os_map s) key of
        None \<Rightarrow> s
      | Some a \<Rightarrow>
          let prev_item = os_prev s a; next_item = os_next s a
          in s\<lparr>os_map := ddel (os_map s) key,
               os_next := (os_next s)(prev_item := next_item),
               os_prev := (os_prev s)(next_item := prev_item)\<rparr>)"

text \<open>The generators, run to their end; no result is a list that does not come back to the sentinel.\<close>

partial_function (option) OrderedSet_walk ::
  "(nat \<Rightarrow> 'a option) \<Rightarrow> (nat \<Rightarrow> nat) \<Rightarrow> nat \<Rightarrow> 'a option list \<Rightarrow> 'a option list option" where
  [code]: "OrderedSet_walk key step cur acc =
     (if cur = 0 then Some acc else OrderedSet_walk key step (step cur) (acc @ [key cur]))"

definition OrderedSet_iter :: "'a oset_heap \<Rightarrow> 'a option list option" where
  "OrderedSet_iter s = OrderedSet_walk (os_key s) (os_next s) (os_next s 0) []"

definition OrderedSet_reversed :: "'a oset_heap \<Rightarrow> 'a option list option" where
  "OrderedSet_reversed s = OrderedSet_walk (os_key s) (os_prev s) (os_prev s 0) []"

definition OrderedSet_pop :: "bool \<Rightarrow> 'a oset_heap \<Rightarrow> ('a option \<times> 'a oset_heap) res" where
  "OrderedSet_pop last' s =
     (if OrderedSet_len s = 0 then Inl (KeyError ''set is empty'')
      else let key = (if last' then os_key s (os_prev s 0) else os_key s (os_next s 0))
           in Inr (key, case key of None \<Rightarrow> s | Some k \<Rightarrow> OrderedSet_discard k s))"

definition OrderedSet_update :: "'a list \<Rightarrow> 'a oset_heap \<Rightarrow> 'a oset_heap" where
  "OrderedSet_update iterable s =
     foldl (\<lambda>s i. if \<not> OrderedSet_contains s i then OrderedSet_add i s else s) s iterable"

text \<open>\<open>__eq__\<close> with another \<open>OrderedSet\<close>.\<close>

definition OrderedSet_eq :: "'a oset_heap \<Rightarrow> 'a oset_heap \<Rightarrow> bool" where
  "OrderedSet_eq s t = (OrderedSet_len s = OrderedSet_len t \<and> OrderedSet_iter s = OrderedSet_iter t)"

section \<open>Linked segments\<close>

text \<open>From cell \<open>x\<close> the list goes through the cells \<open>as\<close> to \<open>y\<close>, in both directions.\<close>

fun dseg :: "(nat \<Rightarrow> nat) \<Rightarrow> (nat \<Rightarrow> nat) \<Rightarrow> nat \<Rightarrow> nat list \<Rightarrow> nat \<Rightarrow> bool" where
  "dseg nx pv x [] y = (nx x = y \<and> pv y = x)"
| "dseg nx pv x (a # as) y = (nx x = a \<and> pv a = x \<and> dseg nx pv a as y)"

lemma dseg_append: "dseg nx pv x (as @ b # bs) y \<longleftrightarrow> dseg nx pv x as b \<and> dseg nx pv b bs y"
  by (induction as arbitrary: x) auto

lemma dseg_cong:
  assumes "\<And>z. z \<in> set (x # as) \<Longrightarrow> nx' z = nx z" and "\<And>z. z \<in> set (as @ [y]) \<Longrightarrow> pv' z = pv z"
  shows "dseg nx' pv' x as y \<longleftrightarrow> dseg nx pv x as y"
  using assms by (induction as arbitrary: x) auto

lemma dseg_ends: "dseg nx pv x as y \<Longrightarrow> nx x = hd (as @ [y]) \<and> pv y = last (x # as)"
proof (induction as arbitrary: x)
  case (Cons a as)
  then show ?case by (cases as) auto
qed simp

lemma dseg_add:
  assumes "dseg nx pv 0 as 0" and "n \<notin> set (0 # as)" and "distinct (0 # as)"
  shows "dseg ((nx(n := 0))(pv 0 := n)) ((pv(n := pv 0))(0 := n)) 0 (as @ [n]) 0"
proof (cases as rule: rev_cases)
  case Nil
  then show ?thesis using assms by simp
next
  case (snoc bs c)
  then have d: "dseg nx pv 0 bs c" "nx c = 0" "pv 0 = c" using assms(1) by (simp_all add: dseg_append)
  have c: "c \<noteq> 0" "c \<notin> set bs" "n \<noteq> c" "n \<noteq> 0" using assms snoc by auto
  have "dseg ((nx(n := 0))(c := n)) ((pv(n := c))(0 := n)) 0 bs c"
    using d(1) assms snoc by (subst dseg_cong [where nx = nx and pv = pv]) auto
  moreover have "dseg ((nx(n := 0))(c := n)) ((pv(n := c))(0 := n)) c [n] 0" using c by simp
  ultimately show ?thesis using d(3) snoc by (simp add: dseg_append)
qed

lemma dseg_unlink:
  assumes "dseg nx pv 0 bs a" and "dseg nx pv a cs 0" and "distinct (0 # bs @ a # cs)"
  shows "dseg (nx(pv a := nx a)) (pv(nx a := pv a)) 0 (bs @ cs) 0"
proof -
  let ?p = "last (0 # bs)" and ?q = "hd (cs @ [0])"
  have pq: "pv a = ?p" "nx a = ?q" using dseg_ends [OF assms(1)] dseg_ends [OF assms(2)] by auto
  let ?nx = "nx(?p := ?q)" and ?pv = "pv(?q := ?p)"
  have "dseg ?nx ?pv 0 (bs @ cs) 0"
  proof (cases bs rule: rev_cases)
    case Nil
    show ?thesis
    proof (cases cs)
      case (Cons c cs')
      then have "dseg nx pv c cs' 0" using assms(2) by simp
      then have "dseg ?nx ?pv c cs' 0"
        using Nil Cons assms(3) by (subst dseg_cong [where nx = nx and pv = pv]) auto
      then show ?thesis using Nil Cons by simp
    qed (simp add: Nil)
  next
    case (snoc bs' b)
    then have b: "dseg nx pv 0 bs' b" using assms(1) by (simp add: dseg_append)
    have "?q \<notin> set (bs' @ [b])" using assms(3) snoc by (cases cs) auto
    moreover have "b \<notin> set (0 # bs')" using assms(3) snoc by auto
    ultimately have 1: "dseg ?nx ?pv 0 bs' b"
      using b snoc by (subst dseg_cong [where nx = nx and pv = pv]) auto
    have 2: "dseg ?nx ?pv b cs 0"
    proof (cases cs)
      case Nil
      then show ?thesis using snoc by simp
    next
      case (Cons c cs')
      then have "dseg nx pv c cs' 0" using assms(2) by simp
      then have "dseg ?nx ?pv c cs' 0"
        using snoc Cons assms(3) by (subst dseg_cong [where nx = nx and pv = pv]) auto
      then show ?thesis using snoc Cons by simp
    qed
    show ?thesis using 1 2 snoc by (simp add: dseg_append)
  qed
  then show ?thesis by (simp add: pq)
qed

section \<open>Refinement\<close>

text \<open>The structure represents the list \<open>xs\<close>: its cells \<open>as\<close> form a ring with the sentinel, hold
  the elements in order, and the dictionary leads from each element to its cell.\<close>

definition os_cells_ok :: "'a oset_heap \<Rightarrow> nat list \<Rightarrow> 'a list \<Rightarrow> bool" where
  "os_cells_ok s as xs \<longleftrightarrow> dseg (os_next s) (os_prev s) 0 as 0 \<and> distinct (0 # as)
     \<and> (\<forall>a\<in>set as. a < os_fresh s) \<and> 0 < os_fresh s
     \<and> map (os_key s) as = map Some xs \<and> distinct xs
     \<and> wf_dict (os_map s) \<and> (\<forall>k. dget (os_map s) k = map_of (zip xs as) k)"

definition os_rel :: "'a oset_heap \<Rightarrow> 'a list \<Rightarrow> bool" where
  "os_rel s xs \<longleftrightarrow> (\<exists>as. os_cells_ok s as xs)"

lemma os_cells_length: "os_cells_ok s as xs \<Longrightarrow> length as = length xs"
  unfolding os_cells_ok_def by (metis length_map)

lemma os_rel_init: "os_rel OrderedSet_init []"
  unfolding os_rel_def by (intro exI [of _ "[]"]) (simp add: os_cells_ok_def OrderedSet_init_def)

lemma os_rel_contains:
  assumes "os_rel s xs"
  shows "OrderedSet_contains s k \<longleftrightarrow> k \<in> set xs"
proof -
  obtain as where "os_cells_ok s as xs" using assms by (auto simp: os_rel_def)
  then have "dget (os_map s) k = map_of (zip xs as) k" "length as = length xs"
    using os_cells_length by (auto simp: os_cells_ok_def)
  then show ?thesis by (simp add: OrderedSet_contains_def dhas_iff_dget)
qed

lemma os_rel_len:
  assumes "os_rel s xs"
  shows "OrderedSet_len s = length xs"
proof -
  obtain as where "os_cells_ok s as xs" using assms by (auto simp: os_rel_def)
  then have m: "distinct (map fst (os_map s))" "\<forall>k. map_of (os_map s) k = map_of (zip xs as) k" "distinct xs" "length as = length xs"
    using os_cells_length by (auto simp: os_cells_ok_def wf_dict_def dget_def)
  have "fst ` set (os_map s) = set xs"
    using m(2,4) by (metis dom_map_of_conv_image_fst dom_map_of_zip ext)
  then show ?thesis
    unfolding OrderedSet_len_def using m(1,3) by (metis distinct_card length_map list.set_map)
qed

lemma os_rel_add:
  assumes "os_rel s xs"
  shows "os_rel (OrderedSet_add k s) (add_new xs k)"
proof (cases "k \<in> set xs")
  case True
  then show ?thesis using assms os_rel_contains [OF assms] by (simp add: OrderedSet_add_def add_new_def)
next
  case False
  obtain as where ok: "os_cells_ok s as xs" using assms by (auto simp: os_rel_def)
  let ?n = "os_fresh s"
  have n: "?n \<notin> set (0 # as)" using ok by (auto simp: os_cells_ok_def)
  have len: "length as = length xs" by (rule os_cells_length [OF ok])
  have "dseg (((os_next s)(?n := 0))(os_prev s 0 := ?n)) (((os_prev s)(?n := os_prev s 0))(0 := ?n)) 0 (as @ [?n]) 0"
    using ok n by (intro dseg_add) (auto simp: os_cells_ok_def)
  moreover have "map ((os_key s)(?n := Some k)) as = map (os_key s) as" using n by auto
  ultimately have "os_cells_ok (OrderedSet_add k s) (as @ [?n]) (xs @ [k])"
    using ok n False len os_rel_contains [OF assms]
    by (auto simp: os_cells_ok_def OrderedSet_add_def Let_def map_add_def zip_append
      split: option.splits dest: set_zip_leftD)
  then show ?thesis using False by (auto simp: os_rel_def add_new_def)
qed


lemma map_of_zip_split:
  assumes l: "length bs = length ys" "length cs = length zs" and d: "distinct (ys @ k # zs)"
  shows "map_of (zip (ys @ k # zs) (bs @ a # cs)) k = Some a"
    and "j \<noteq> k \<Longrightarrow> map_of (zip (ys @ k # zs) (bs @ a # cs)) j = map_of (zip (ys @ zs) (bs @ cs)) j"
    and "map_of (zip (ys @ zs) (bs @ cs)) k = None"
proof -
  have k: "map_of (zip ys bs) k = None" "map_of (zip zs cs) k = None" using l d by simp_all
  show "map_of (zip (ys @ k # zs) (bs @ a # cs)) k = Some a"
    using l by (simp add: map_add_def k(1) del: map_of_zip_is_None)
  show "map_of (zip (ys @ zs) (bs @ cs)) k = None"
    using l by (simp add: map_add_def k del: map_of_zip_is_None)
  show "j \<noteq> k \<Longrightarrow> map_of (zip (ys @ k # zs) (bs @ a # cs)) j = map_of (zip (ys @ zs) (bs @ cs)) j"
    using l by (cases "map_of (zip ys bs) j") (simp_all add: map_add_def del: map_of_zip_is_None)
qed

lemma os_rel_discard:
  assumes "os_rel s xs"
  shows "os_rel (OrderedSet_discard k s) (filter (\<lambda>x. x \<noteq> k) xs)"
proof -
  obtain as where ok: "os_cells_ok s as xs" using assms by (auto simp: os_rel_def)
  have len: "length as = length xs" by (rule os_cells_length [OF ok])
  have get: "dget (os_map s) j = map_of (zip xs as) j" for j using ok by (simp add: os_cells_ok_def)
  show ?thesis
  proof (cases "k \<in> set xs")
    case False
    then have "map_of (zip xs as) k = None" using len by simp
    then have "OrderedSet_discard k s = s" by (simp add: OrderedSet_discard_def get)
    moreover have "filter (\<lambda>x. x \<noteq> k) xs = xs" using False by (intro filter_True) auto
    ultimately show ?thesis using assms by simp
  next
    case True
    then obtain ys zs where xs: "xs = ys @ k # zs" by (meson split_list)
    define bs where "bs = take (length ys) as"
    define a where "a = as ! length ys"
    define cs where "cs = drop (Suc (length ys)) as"
    have as: "as = bs @ a # cs" unfolding bs_def a_def cs_def by (rule id_take_nth_drop) (simp add: len xs)
    have l: "length bs = length ys" "length cs = length zs" unfolding bs_def cs_def by (simp_all add: len xs)
    have dist: "distinct (ys @ k # zs)" "distinct (0 # bs @ a # cs)" using ok xs as by (auto simp: os_cells_ok_def)
    note split1 = map_of_zip_split(1) [OF l dist(1), of a, folded xs as]
    note split2 = map_of_zip_split(2) [OF l dist(1), where a = a, folded xs as]
    note split3 = map_of_zip_split(3) [OF l dist(1)]
    have "dseg (os_next s) (os_prev s) 0 bs a" "dseg (os_next s) (os_prev s) a cs 0"
      using ok as by (auto simp: os_cells_ok_def dseg_append)
    from dseg_unlink [OF this dist(2)]
    have seg: "dseg ((os_next s)(os_prev s a := os_next s a)) ((os_prev s)(os_next s a := os_prev s a)) 0 (bs @ cs) 0" .
    have key: "map (os_key s) (bs @ cs) = map Some (ys @ zs)"
      using ok as xs l by (simp add: os_cells_ok_def)
    have f: "filter (\<lambda>x. x \<noteq> k) xs = ys @ zs"
    proof -
      have "filter (\<lambda>x. x \<noteq> k) ys = ys" "filter (\<lambda>x. x \<noteq> k) zs = zs"
        using dist(1) by (auto simp: filter_id_conv)
      then show ?thesis by (simp add: xs)
    qed
    have D: "OrderedSet_discard k s = s\<lparr>os_map := ddel (os_map s) k,
        os_next := (os_next s)(os_prev s a := os_next s a), os_prev := (os_prev s)(os_next s a := os_prev s a)\<rparr>"
      by (simp add: OrderedSet_discard_def Let_def get split1)
    have wf: "wf_dict (os_map s)" and fresh: "\<forall>a\<in>set (bs @ cs). a < os_fresh s" "0 < os_fresh s"
      using ok as by (auto simp: os_cells_ok_def)
    have get': "dget (ddel (os_map s) k) j = map_of (zip (ys @ zs) (bs @ cs)) j" for j
      using split2 [of j] split3 by (cases "j = k") (simp_all add: get del: map_of_zip_is_None)
    have "os_cells_ok (OrderedSet_discard k s) (bs @ cs) (ys @ zs)"
      unfolding os_cells_ok_def D using seg key dist get' wf fresh by simp
    then show ?thesis by (auto simp: os_rel_def f)
  qed
qed

lemma walk_dseg:
  assumes "dseg nx pv x as 0" and "0 \<notin> set as"
  shows "OrderedSet_walk key nx (nx x) acc = Some (acc @ map key as)"
  using assms
proof (induction as arbitrary: x acc)
  case Nil
  then show ?case by (subst OrderedSet_walk.simps) simp
next
  case (Cons a as)
  then show ?case by (subst OrderedSet_walk.simps) simp
qed

lemma dseg_rev: "dseg nx pv x as y \<Longrightarrow> dseg pv nx y (rev as) x"
proof (induction as arbitrary: x)
  case (Cons a as)
  then show ?case by (simp add: dseg_append)
qed simp

lemma os_rel_iter:
  assumes "os_rel s xs"
  shows "OrderedSet_iter s = Some (map Some xs)" and "OrderedSet_reversed s = Some (map Some (rev xs))"
proof -
  obtain as where ok: "os_cells_ok s as xs" using assms by (auto simp: os_rel_def)
  then have d: "dseg (os_next s) (os_prev s) 0 as 0" "0 \<notin> set as" "map (os_key s) as = map Some xs"
    by (auto simp: os_cells_ok_def)
  show "OrderedSet_iter s = Some (map Some xs)"
    using walk_dseg [OF d(1,2), of "os_key s" "[]"] d(3) by (simp add: OrderedSet_iter_def)
  have "dseg (os_prev s) (os_next s) 0 (rev as) 0" using dseg_rev [OF d(1)] .
  from walk_dseg [OF this, of "os_key s" "[]"] d(2,3) show "OrderedSet_reversed s = Some (map Some (rev xs))"
    by (simp add: OrderedSet_reversed_def flip: rev_map)
qed

lemma os_rel_pop:
  assumes "os_rel s xs" and "xs \<noteq> []"
  shows "\<exists>s'. OrderedSet_pop True s = Inr (Some (last xs), s') \<and> os_rel s' (butlast xs)"
    and "\<exists>s'. OrderedSet_pop False s = Inr (Some (hd xs), s') \<and> os_rel s' (tl xs)"
proof -
  obtain as where ok: "os_cells_ok s as xs" using assms by (auto simp: os_rel_def)
  then have d: "dseg (os_next s) (os_prev s) 0 as 0" "map (os_key s) as = map Some xs" "distinct xs"
    by (auto simp: os_cells_ok_def)
  have ne: "as \<noteq> []" "OrderedSet_len s \<noteq> 0"
    using assms(2) os_cells_length [OF ok] os_rel_len [OF assms(1)] by auto
  have e: "os_next s 0 = hd as" "os_prev s 0 = last as" using dseg_ends [OF d(1)] ne(1) by auto
  have k: "os_key s (hd as) = Some (hd xs)" "os_key s (last as) = Some (last xs)"
    using d(2) ne(1) assms(2) by (metis list.map_sel(1), metis last_map)
  have f1: "filter (\<lambda>x. x \<noteq> last xs) xs = butlast xs"
    using d(3) by (cases xs rule: rev_cases) (auto simp: filter_id_conv)
  have f2: "filter (\<lambda>x. x \<noteq> hd xs) xs = tl xs"
    using d(3) by (cases xs) (auto simp: filter_id_conv)
  show "\<exists>s'. OrderedSet_pop True s = Inr (Some (last xs), s') \<and> os_rel s' (butlast xs)"
    using os_rel_discard [OF assms(1), of "last xs"] by (simp add: OrderedSet_pop_def ne(2) e k f1)
  show "\<exists>s'. OrderedSet_pop False s = Inr (Some (hd xs), s') \<and> os_rel s' (tl xs)"
    using os_rel_discard [OF assms(1), of "hd xs"] by (simp add: OrderedSet_pop_def ne(2) e k f2)
qed

section \<open>The contract\<close>

text \<open>What a client of an ordered set relies on; \<open>rep s xs\<close>: the set \<open>s\<close> has the elements \<open>xs\<close> in
  this order.\<close>

locale ordered_set =
  fixes empty :: 's and add :: "'a \<Rightarrow> 's \<Rightarrow> 's" and discard :: "'a \<Rightarrow> 's \<Rightarrow> 's"
    and contains :: "'s \<Rightarrow> 'a \<Rightarrow> bool" and rep :: "'s \<Rightarrow> 'a list \<Rightarrow> bool"
  assumes rep_empty: "rep empty []"
    and rep_add: "rep s xs \<Longrightarrow> rep (add k s) (add_new xs k)"
    and rep_discard: "rep s xs \<Longrightarrow> rep (discard k s) (filter (\<lambda>x. x \<noteq> k) xs)"
    and rep_contains: "rep s xs \<Longrightarrow> contains s k \<longleftrightarrow> k \<in> set xs"
begin

lemma rep_add_all: "rep s xs \<Longrightarrow> rep (foldl (\<lambda>s k. add k s) s ks) (foldl add_new xs ks)"
  by (induction ks arbitrary: s xs) (auto intro: rep_add)

lemma rep_guarded_add: "rep s xs \<Longrightarrow> rep (if \<not> contains s k then add k s else s) (add_new xs k)"
  using rep_add [of s xs k] rep_contains [of s xs k] by (auto simp: add_new_def)

lemma rep_update:
  "rep s xs \<Longrightarrow> rep (foldl (\<lambda>s k. if \<not> contains s k then add k s else s) s ks) (foldl add_new xs ks)"
proof (induction ks arbitrary: s xs)
  case (Cons k ks)
  then show ?case using rep_guarded_add [of s xs k] by simp
qed simp

lemma rep_discard_all: "rep s xs \<Longrightarrow> rep (foldl (\<lambda>s k. discard k s) s ks) (filter (\<lambda>x. x \<notin> set ks) xs)"
proof (induction ks arbitrary: s xs)
  case (Cons k ks)
  from Cons.IH [OF rep_discard [OF Cons.prems, of k]] show ?case
    by (simp add: filter_filter conj_commute)
qed simp

end

interpretation linked: ordered_set OrderedSet_init OrderedSet_add OrderedSet_discard OrderedSet_contains os_rel
  by unfold_locales (auto simp: os_rel_init os_rel_add os_rel_discard os_rel_contains)

section \<open>Properties\<close>

text \<open>
  C4. Refinement: from a linked set that holds the elements \<open>xs\<close>, adding, discarding and updating
  yield linked sets that hold what the operations on lists without duplicates give; iteration in
  both directions ends and shows the elements in order; the length and membership agree.
\<close>

theorem OrderedSet_refines:
  assumes "os_rel s xs"
  shows "os_rel (OrderedSet_add k s) (add_new xs k)
    \<and> os_rel (OrderedSet_discard k s) (filter (\<lambda>x. x \<noteq> k) xs)
    \<and> os_rel (OrderedSet_update ks s) (foldl add_new xs ks)
    \<and> OrderedSet_iter s = Some (map Some xs) \<and> OrderedSet_reversed s = Some (map Some (rev xs))
    \<and> OrderedSet_len s = length xs \<and> (OrderedSet_contains s k \<longleftrightarrow> k \<in> set xs)"
  using linked.rep_add [OF assms] linked.rep_discard [OF assms] linked.rep_update [OF assms]
    os_rel_iter [OF assms] os_rel_len [OF assms] os_rel_contains [OF assms]
  by (simp add: OrderedSet_update_def)

theorem OrderedSet_refines_witness:
  "OrderedSet_iter (OrderedSet_update [3, 1, 3, 2] OrderedSet_init) = Some (map Some [3, 1, 2 :: nat])"
proof -
  have "os_rel (OrderedSet_update [3, 1, 3, 2 :: nat] OrderedSet_init) (foldl add_new [] [3, 1, 3, 2])"
    using OrderedSet_refines [OF os_rel_init, of _ "[3, 1, 3, 2 :: nat]"] by simp
  from OrderedSet_refines [OF this] show ?thesis by (simp add: add_new_def)
qed

text \<open>
  \<open>pop\<close> takes the last or the first element and leaves the others in order; on the empty set it is
  a \<open>KeyError\<close>.
\<close>

theorem OrderedSet_pop_correct:
  assumes "os_rel s xs"
  shows "if xs = [] then OrderedSet_pop b s = Inl (KeyError ''set is empty'')
    else \<exists>s'. OrderedSet_pop b s = Inr (Some (if b then last xs else hd xs), s')
      \<and> os_rel s' (if b then butlast xs else tl xs)"
proof (cases "xs = []")
  case True
  then show ?thesis using os_rel_len [OF assms] by (simp add: OrderedSet_pop_def)
next
  case False
  then show ?thesis using os_rel_pop [OF assms False] by (cases b) simp_all
qed

theorem OrderedSet_pop_correct_witness:
  "\<exists>s'. OrderedSet_pop True (OrderedSet_add 7 OrderedSet_init) = Inr (Some (7 :: nat), s') \<and> os_rel s' []"
  using OrderedSet_pop_correct [OF os_rel_add [OF os_rel_init, of 7], of True] by (simp add: add_new_def)

end
