(* ===== verification/Gyp_Topo.thy ===== *)
theory Gyp_Topo
  imports Py_Prelude
begin

text \<open>
  \<open>TopologicallySorted\<close> and \<open>CycleError\<close> of \<open>gyp/common.py\<close>. The inner function \<open>Visit\<close> works on three
  shared collections; they are a record here. Its recursion depth is an argument, as Python bounds
  it too. Shown: the result is a topological order of what the graph reaches, a \<open>CycleError\<close> is raised
  exactly when what the graph reaches has a cycle, and a depth above the number of nodes is enough.
\<close>

section \<open>The search\<close>

text \<open>\<open>CycleError\<close> carries the nodes that were being visited.\<close>

datatype 'a topo_error = CycleError "'a list" | DepthExceeded

record 'a topo =
  t_visited :: "'a list"
  t_visiting :: "'a list"
  t_ordered :: "'a list"

fun topo_all :: "('a \<Rightarrow> 'a topo \<Rightarrow> 'a topo_error + 'a topo) \<Rightarrow> 'a list \<Rightarrow> 'a topo \<Rightarrow> 'a topo_error + 'a topo" where
  "topo_all visit [] s = Inr s"
| "topo_all visit (n # ns) s = (case visit n s of Inl e \<Rightarrow> Inl e | Inr s' \<Rightarrow> topo_all visit ns s')"

primrec Visit :: "nat \<Rightarrow> ('a \<Rightarrow> 'a list) \<Rightarrow> 'a \<Rightarrow> 'a topo \<Rightarrow> 'a topo_error + 'a topo" where
  "Visit 0 get_edges node s = Inl DepthExceeded"
| "Visit (Suc depth) get_edges node s =
     (if node \<in> set (t_visiting s) then Inl (CycleError (t_visiting s))
      else if node \<in> set (t_visited s) then Inr s
      else case topo_all (Visit depth get_edges) (get_edges node)
                  (s\<lparr>t_visited := node # t_visited s, t_visiting := node # t_visiting s\<rparr>) of
             Inl e \<Rightarrow> Inl e
           | Inr s' \<Rightarrow> Inr (s'\<lparr>t_visiting := remove1 node (t_visiting s'), t_ordered := node # t_ordered s'\<rparr>))"

definition TopologicallySorted :: "nat \<Rightarrow> 'a::linorder list \<Rightarrow> ('a \<Rightarrow> 'a list) \<Rightarrow> 'a topo_error + 'a list" where
  "TopologicallySorted depth graph get_edges =
     (case topo_all (Visit depth get_edges) (sort graph) \<lparr>t_visited = [], t_visiting = [], t_ordered = []\<rparr> of
        Inl e \<Rightarrow> Inl e
      | Inr s \<Rightarrow> Inr (t_ordered s))"

section \<open>Specification\<close>

definition edge_rel :: "('a \<Rightarrow> 'a list) \<Rightarrow> ('a \<times> 'a) set" where
  "edge_rel E = {(a, b). b \<in> set (E a)}"

text \<open>Every node comes before all the nodes it has edges to.\<close>

fun topo_order :: "('a \<Rightarrow> 'a list) \<Rightarrow> 'a list \<Rightarrow> bool" where
  "topo_order E [] = True"
| "topo_order E (x # xs) = (set (E x) \<subseteq> set xs \<and> x \<notin> set xs \<and> topo_order E xs)"

lemma topo_order_distinct: "topo_order E xs \<Longrightarrow> distinct xs"
  by (induction xs) auto

lemma topo_order_closed: "topo_order E xs \<Longrightarrow> a \<in> set xs \<Longrightarrow> (a, b) \<in> edge_rel E \<Longrightarrow> b \<in> set xs"
  by (induction xs) (auto simp: edge_rel_def)

lemma topo_order_closed_rtrancl:
  assumes "(a, b) \<in> (edge_rel E)\<^sup>*" and "topo_order E xs" and "a \<in> set xs"
  shows "b \<in> set xs"
  using assms by (induction rule: rtrancl_induct) (auto intro: topo_order_closed)

lemma topo_order_acyclic:
  assumes "topo_order E xs" and "a \<in> set xs"
  shows "(a, a) \<notin> (edge_rel E)\<^sup>+"
  using assms
proof (induction xs)
  case (Cons x xs)
  show ?case
  proof (cases "a = x")
    case True
    have "b \<in> set xs" if "(x, b) \<in> (edge_rel E)\<^sup>+" for b
    proof -
      from that obtain c where c: "(x, c) \<in> edge_rel E" "(c, b) \<in> (edge_rel E)\<^sup>*" by (meson tranclD)
      then show ?thesis using Cons.prems topo_order_closed_rtrancl [OF c(2)] by (auto simp: edge_rel_def)
    qed
    then show ?thesis using Cons.prems True by auto
  qed (use Cons in auto)
qed simp

section \<open>Correctness of the search\<close>

text \<open>The nodes being visited, the last first, form a path.\<close>

fun topo_path :: "('a \<Rightarrow> 'a list) \<Rightarrow> 'a list \<Rightarrow> bool" where
  "topo_path E (x # y # ys) = (x \<in> set (E y) \<and> topo_path E (y # ys))"
| "topo_path E _ = True"

lemma topo_path_reaches: "topo_path E (x # xs) \<Longrightarrow> y \<in> set (x # xs) \<Longrightarrow> (y, x) \<in> (edge_rel E)\<^sup>*"
proof (induction xs arbitrary: x)
  case (Cons z zs)
  then have "(z, x) \<in> edge_rel E" by (simp add: edge_rel_def)
  with Cons show ?case by (auto intro: rtrancl_into_rtrancl)
qed simp

definition topo_inv :: "('a \<Rightarrow> 'a list) \<Rightarrow> 'a topo \<Rightarrow> bool" where
  "topo_inv E s \<longleftrightarrow> topo_order E (t_ordered s) \<and> topo_path E (t_visiting s) \<and> distinct (t_visiting s)
     \<and> set (t_visited s) = set (t_visiting s) \<union> set (t_ordered s)
     \<and> set (t_visiting s) \<inter> set (t_ordered s) = {}"

text \<open>What a call that returns has done: the stack is as before, the order has grown at the front
  by nodes reachable from the roots, and the roots are in it.\<close>

definition topo_grown :: "('a \<Rightarrow> 'a list) \<Rightarrow> 'a list \<Rightarrow> 'a topo \<Rightarrow> 'a topo \<Rightarrow> bool" where
  "topo_grown E ns s s' \<longleftrightarrow> topo_inv E s' \<and> t_visiting s' = t_visiting s
     \<and> set (t_ordered s) \<union> set ns \<subseteq> set (t_ordered s')
     \<and> set (t_ordered s') \<subseteq> set (t_ordered s) \<union> (edge_rel E)\<^sup>* `` set ns"

text \<open>What an exception means.\<close>

definition topo_fault :: "nat \<Rightarrow> ('a \<Rightarrow> 'a list) \<Rightarrow> 'a list \<Rightarrow> 'a topo \<Rightarrow> 'a topo_error \<Rightarrow> bool" where
  "topo_fault depth E ns s e \<longleftrightarrow>
     (case e of
        CycleError vs \<Rightarrow> (\<exists>v\<in>set vs. (v, v) \<in> (edge_rel E)\<^sup>+ \<and> v \<in> set (t_visiting s) \<union> (edge_rel E)\<^sup>* `` set ns)
      | DepthExceeded \<Rightarrow> (\<forall>U. finite U \<longrightarrow> set (t_visiting s) \<union> set ns \<subseteq> U \<longrightarrow> edge_rel E `` U \<subseteq> U \<longrightarrow>
          depth + length (t_visiting s) \<le> card U))"

definition topo_spec :: "nat \<Rightarrow> ('a \<Rightarrow> 'a list) \<Rightarrow> 'a list \<Rightarrow> 'a topo \<Rightarrow> ('a topo_error + 'a topo) \<Rightarrow> bool" where
  "topo_spec depth E ns s r \<longleftrightarrow> (case r of Inl e \<Rightarrow> topo_fault depth E ns s e | Inr s' \<Rightarrow> topo_grown E ns s s')"


lemma topo_fault_mono:
  assumes "topo_fault depth E ns s e" and "set ns \<subseteq> set ns'" and "t_visiting s = t_visiting s'"
  shows "topo_fault depth E ns' s' e"
  using assms by (cases e) (fastforce simp: topo_fault_def)+

lemma topo_grown_trans:
  assumes "topo_grown E [n] s s'" and "topo_grown E ns s' s''"
  shows "topo_grown E (n # ns) s s''"
proof -
  have "set (t_ordered s'') \<subseteq> set (t_ordered s) \<union> (edge_rel E)\<^sup>* `` set (n # ns)"
    using assms unfolding topo_grown_def by (simp add: Image_def) blast
  then show ?thesis using assms unfolding topo_grown_def by auto
qed

lemma topo_all_spec:
  assumes "\<And>n s. n \<in> set ns \<Longrightarrow> topo_inv E s \<Longrightarrow> topo_path E (n # t_visiting s) \<Longrightarrow> topo_spec depth E [n] s (visit n s)"
    and "topo_inv E s" and "\<And>n. n \<in> set ns \<Longrightarrow> topo_path E (n # t_visiting s)"
  shows "topo_spec depth E ns s (topo_all visit ns s)"
  using assms
proof (induction ns arbitrary: s)
  case Nil
  then show ?case by (auto simp: topo_spec_def topo_grown_def)
next
  case (Cons n ns)
  have first: "topo_spec depth E [n] s (visit n s)" using Cons.prems by simp
  show ?case
  proof (cases "visit n s")
    case (Inl e)
    then have "topo_fault depth E [n] s e" using first by (simp add: topo_spec_def)
    then have "topo_fault depth E (n # ns) s e" by (rule topo_fault_mono) auto
    then show ?thesis using Inl by (simp add: topo_spec_def)
  next
    case (Inr s')
    then have g: "topo_grown E [n] s s'" using first by (simp add: topo_spec_def)
    then have "topo_inv E s'" "t_visiting s' = t_visiting s" by (auto simp: topo_grown_def)
    then have rest: "topo_spec depth E ns s' (topo_all visit ns s')" using Cons by simp
    show ?thesis
    proof (cases "topo_all visit ns s'")
      case (Inl e)
      then have "topo_fault depth E ns s' e" using rest by (simp add: topo_spec_def)
      then have "topo_fault depth E (n # ns) s e" by (rule topo_fault_mono) (use g in \<open>auto simp: topo_grown_def\<close>)
      then show ?thesis using Inl Inr by (simp add: topo_spec_def)
    next
      case inr: (Inr s'')
      then have "topo_grown E ns s' s''" using rest by (simp add: topo_spec_def)
      then show ?thesis using topo_grown_trans [OF g] Inr inr by (simp add: topo_spec_def)
    qed
  qed
qed

text \<open>The call enters the node and, when it returns, leaves it.\<close>

abbreviation topo_enter :: "'a \<Rightarrow> 'a topo \<Rightarrow> 'a topo" where
  "topo_enter n s \<equiv> s\<lparr>t_visited := n # t_visited s, t_visiting := n # t_visiting s\<rparr>"

lemma topo_leave:
  assumes "topo_inv E s" and "n \<notin> set (t_visited s)" and "topo_grown E (E n) (topo_enter n s) s'"
  shows "topo_grown E [n] s (s'\<lparr>t_visiting := remove1 n (t_visiting s'), t_ordered := n # t_ordered s'\<rparr>)"
proof -
  have v: "t_visiting s' = n # t_visiting s" and i: "topo_inv E s'"
    and sub: "set (t_ordered s) \<union> set (E n) \<subseteq> set (t_ordered s')"
    and sup: "set (t_ordered s') \<subseteq> set (t_ordered s) \<union> (edge_rel E)\<^sup>* `` set (E n)"
    using assms(3) by (auto simp: topo_grown_def)
  have n: "n \<notin> set (t_visiting s)" "n \<notin> set (t_ordered s')"
    using assms(1,2) i v by (auto simp: topo_inv_def)
  have p: "topo_path E (t_visiting s)" using assms(1) by (simp add: topo_inv_def)
  have inv: "topo_inv E (s'\<lparr>t_visiting := t_visiting s, t_ordered := n # t_ordered s'\<rparr>)"
    using i v n p sub by (auto simp: topo_inv_def)
  have "(edge_rel E)\<^sup>* `` set (E n) \<subseteq> (edge_rel E)\<^sup>* `` {n}"
    by (auto simp: edge_rel_def intro: converse_rtrancl_into_rtrancl)
  then have "set (t_ordered s') \<subseteq> set (t_ordered s) \<union> (edge_rel E)\<^sup>* `` {n}" using sup by blast
  then show ?thesis using inv sub v by (auto simp: topo_grown_def)
qed

lemma topo_inner_fault:
  assumes "topo_fault depth E (E n) (topo_enter n s) e" and "topo_path E (n # t_visiting s)"
  shows "topo_fault (Suc depth) E [n] s e"
proof (cases e)
  case (CycleError vs)
  then obtain v where v: "v \<in> set vs" "(v, v) \<in> (edge_rel E)\<^sup>+"
      "v \<in> insert n (set (t_visiting s)) \<union> (edge_rel E)\<^sup>* `` set (E n)"
    using assms(1) by (auto simp: topo_fault_def)
  then have "v \<in> set (t_visiting s) \<union> (edge_rel E)\<^sup>* `` {n}"
    by (auto simp: edge_rel_def intro: converse_rtrancl_into_rtrancl)
  then show ?thesis using CycleError v by (auto simp: topo_fault_def)
next
  case DepthExceeded
  have "Suc depth + length (t_visiting s) \<le> card U"
    if U: "finite U" "set (t_visiting s) \<union> set [n] \<subseteq> U" "edge_rel E `` U \<subseteq> U" for U
  proof -
    have "set (E n) \<subseteq> U" using U by (auto simp: edge_rel_def)
    then show ?thesis using assms(1) U DepthExceeded by (auto simp: topo_fault_def)
  qed
  then show ?thesis using DepthExceeded by (simp add: topo_fault_def)
qed

lemma Visit_spec:
  assumes "topo_inv E s" and "topo_path E (n # t_visiting s)"
  shows "topo_spec depth E [n] s (Visit depth E n s)"
  using assms
proof (induction depth arbitrary: n s)
  case 0
  have "length (t_visiting s) \<le> card U" if "finite U" "set (t_visiting s) \<subseteq> U" for U
    using 0 that by (metis card_mono distinct_card topo_inv_def)
  then show ?case by (auto simp: topo_spec_def topo_fault_def)
next
  case (Suc depth)
  consider "n \<in> set (t_visiting s)" | "n \<notin> set (t_visiting s)" "n \<in> set (t_visited s)" | "n \<notin> set (t_visited s)" by blast
  then show ?case
  proof cases
    case 1
    obtain z zs where z: "t_visiting s = z # zs" using 1 by (cases "t_visiting s") auto
    have "(n, z) \<in> (edge_rel E)\<^sup>*" "(z, n) \<in> edge_rel E"
      using topo_path_reaches [of E z zs n] Suc.prems 1 by (auto simp: z edge_rel_def topo_inv_def)
    then have "(n, n) \<in> (edge_rel E)\<^sup>+" by (rule rtrancl_into_trancl1)
    then show ?thesis using 1 by (auto simp: topo_spec_def topo_fault_def)
  next
    case 2
    then show ?thesis using Suc.prems by (auto simp: topo_spec_def topo_grown_def topo_inv_def)
  next
    case 3
    then have nv: "n \<notin> set (t_visiting s)" using Suc.prems by (auto simp: topo_inv_def)
    have inv: "topo_inv E (topo_enter n s)" using Suc.prems 3 by (auto simp: topo_inv_def)
    have "topo_spec depth E (E n) (topo_enter n s) (topo_all (Visit depth E) (E n) (topo_enter n s))"
      by (rule topo_all_spec) (use Suc inv in auto)
    then show ?thesis using 3 nv topo_leave [OF Suc.prems(1) 3] topo_inner_fault [OF _ Suc.prems(2)]
      by (auto simp: topo_spec_def split: sum.splits)
  qed
qed

lemma TopologicallySorted_spec:
  "topo_spec depth E graph \<lparr>t_visited = [], t_visiting = [], t_ordered = []\<rparr>
     (topo_all (Visit depth E) (sort graph) \<lparr>t_visited = [], t_visiting = [], t_ordered = []\<rparr>)"
proof -
  have "topo_spec depth E (sort graph) \<lparr>t_visited = [], t_visiting = [], t_ordered = []\<rparr>
     (topo_all (Visit depth E) (sort graph) \<lparr>t_visited = [], t_visiting = [], t_ordered = []\<rparr>)"
    by (rule topo_all_spec) (auto simp: topo_inv_def intro: Visit_spec)
  moreover have "topo_fault depth E (sort graph) = topo_fault depth E graph"
    "topo_grown E (sort graph) = topo_grown E graph"
    by (intro ext; simp only: topo_fault_def topo_grown_def set_sort)+
  ultimately show ?thesis by (simp add: topo_spec_def split: sum.splits)
qed

section \<open>Properties\<close>

text \<open>
  C11. Given a recursion depth above the number of nodes that \<open>graph\<close> can reach, \<open>TopologicallySorted\<close>
  returns, without repetition and each node before the nodes it has edges to, exactly the nodes
  reachable from \<open>graph\<close>, unless one of them is on a cycle; then, and only then, it raises
  \<open>CycleError\<close>, and the nodes it names include one on a cycle.
\<close>

theorem TopologicallySorted_correct:
  fixes graph :: "'a::linorder list"
  assumes "finite ((edge_rel E)\<^sup>* `` set graph)" and "card ((edge_rel E)\<^sup>* `` set graph) < depth"
  shows "if \<exists>v\<in>(edge_rel E)\<^sup>* `` set graph. (v, v) \<in> (edge_rel E)\<^sup>+
    then \<exists>vs. TopologicallySorted depth graph E = Inl (CycleError vs) \<and> (\<exists>v\<in>set vs. (v, v) \<in> (edge_rel E)\<^sup>+)
    else \<exists>ns. TopologicallySorted depth graph E = Inr ns \<and> set ns = (edge_rel E)\<^sup>* `` set graph
      \<and> topo_order E ns"
proof -
  let ?s = "\<lparr>t_visited = [], t_visiting = [], t_ordered = []\<rparr> :: 'a topo" and ?U = "(edge_rel E)\<^sup>* `` set graph"
  let ?r = "topo_all (Visit depth E) (sort graph) ?s"
  show ?thesis
  proof (cases ?r)
    case (Inl e)
    then have f: "topo_fault depth E graph ?s e" using TopologicallySorted_spec [of depth E graph] by (simp add: topo_spec_def)
    have U: "set graph \<subseteq> ?U" "edge_rel E `` ?U \<subseteq> ?U" by (auto intro: rtrancl_into_rtrancl)
    have "e \<noteq> DepthExceeded"
    proof
      assume "e = DepthExceeded"
      then have "depth \<le> card ?U" using f assms(1) U by (simp add: topo_fault_def)
      then show False using assms(2) by simp
    qed
    then obtain vs where e: "e = CycleError vs" by (cases e) auto
    then have "\<exists>v\<in>set vs. (v, v) \<in> (edge_rel E)\<^sup>+ \<and> v \<in> ?U" using f by (simp add: topo_fault_def)
    moreover have "TopologicallySorted depth graph E = Inl (CycleError vs)"
      using Inl e by (simp add: TopologicallySorted_def)
    ultimately show ?thesis by auto
  next
    case (Inr s')
    then have g: "topo_grown E graph ?s s'" using TopologicallySorted_spec [of depth E graph] by (simp add: topo_spec_def)
    then have t: "topo_order E (t_ordered s')" and sub: "set graph \<subseteq> set (t_ordered s')" "set (t_ordered s') \<subseteq> ?U"
      by (auto simp: topo_grown_def topo_inv_def)
    have eq: "set (t_ordered s') = ?U" using sub topo_order_closed_rtrancl [OF _ t] by blast
    have "TopologicallySorted depth graph E = Inr (t_ordered s')" using Inr by (simp add: TopologicallySorted_def)
    then show ?thesis using t eq topo_order_acyclic [OF t] by auto
  qed
qed


theorem TopologicallySorted_correct_witness:
  "\<exists>ns. TopologicallySorted 3 [5 :: nat] (\<lambda>n. if n = 5 then [2] else []) = Inr ns \<and> set ns = {5, 2}
     \<and> topo_order (\<lambda>n. if n = 5 then [2] else []) ns"
proof -
  let ?E = "\<lambda>n :: nat. if n = 5 then [2] else []"
  have e: "edge_rel ?E = {(5, 2)}" by (auto simp: edge_rel_def split: if_splits)
  have r: "{(5 :: nat, 2 :: nat)}\<^sup>* `` {5} = {5, 2}"
    by (auto elim: rtranclE converse_rtranclE intro: r_into_rtrancl)
  have "acyclic {(5 :: nat, 2 :: nat)}" by (auto simp: acyclic_insert) (simp add: acyclic_def)
  then show ?thesis using TopologicallySorted_correct [of ?E "[5]" 3]
    by (simp add: e r acyclic_def)
qed

end
