(* ===== verification/Gyp_Ninja.thy ===== *)
theory Gyp_Ninja
  imports Py_Value
begin

text \<open>
  \<open>gyp/ninja_syntax.py\<close>: the writer of Ninja files. Its state is what it has written. The core is
  \<open>_line\<close>, which breaks long lines at unescaped spaces. Shown: the breaking ends, a reader of Ninja
  files that joins continued lines gets back the line, unless the text has two spaces in a row, and
  paths are escaped such that they read back as one word. \<open>comment\<close>, which only calls
  \<open>textwrap\<close>, is left out.
\<close>

section \<open>Escapes\<close>

definition escape_path :: "string \<Rightarrow> string" where
  "escape_path word = replace (replace (replace word ''$ '' ''$$ '') '' '' ''$ '') '':'' ''$:''"

definition escape :: "string \<Rightarrow> string res" where
  "escape s = (if nl \<in> set s then Inl AssertionError else Inr (replace s ''$'' ''$$''))"

section \<open>Breaking lines\<close>

text \<open>The dollars before index \<open>Suc k\<close>; the loop stops short of index 0.\<close>

primrec count_dollars :: "string \<Rightarrow> nat \<Rightarrow> nat" where
  "count_dollars s 0 = 0"
| "count_dollars s (Suc k) = (if s ! Suc k = CHR ''$'' then Suc (count_dollars s k) else 0)"

definition count_dollars_before_index :: "string \<Rightarrow> nat \<Rightarrow> nat" where
  "count_dollars_before_index s i = (if i = 0 then 0 else count_dollars s (i - 1))"

definition unescaped :: "string \<Rightarrow> nat \<Rightarrow> bool" where
  "unescaped s i \<longleftrightarrow> even (count_dollars_before_index s i)"

text \<open>\<open>text.rfind(' ', 0, e)\<close> and \<open>text.find(' ', b)\<close> for positions in the text.\<close>

primrec rfind_space :: "string \<Rightarrow> nat \<Rightarrow> nat option" where
  "rfind_space s 0 = None"
| "rfind_space s (Suc e) = (if e < length s \<and> s ! e = CHR '' '' then Some e else rfind_space s e)"

definition find_space :: "string \<Rightarrow> nat \<Rightarrow> nat option" where
  "find_space s b = (let k = length (takeWhile (\<lambda>c. c \<noteq> CHR '' '') (drop b s)) in if b + k < length s then Some (b + k) else None)"

text \<open>A position as Python takes it: from the end if it is negative.\<close>

definition position :: "string \<Rightarrow> int \<Rightarrow> nat" where
  "position s i = nat (if i < 0 then i + int (length s) else i)"

lemma rfind_space_less: "rfind_space s e = Some i \<Longrightarrow> i < e \<and> i < length s \<and> s ! i = CHR '' ''"
  by (induction e) (auto split: if_splits)

lemma takeWhile_length_nth: "length (takeWhile P xs) < length xs \<Longrightarrow> \<not> P (xs ! length (takeWhile P xs))"
  by (induction xs) auto

lemma find_space_bound: "find_space s b = Some i \<Longrightarrow> b \<le> i \<and> i < length s \<and> s ! i = CHR '' ''"
proof -
  assume f: "find_space s b = Some i"
  let ?t = "takeWhile (\<lambda>c. c \<noteq> CHR '' '') (drop b s)"
  have i: "i = b + length ?t" "i < length s" using f by (auto simp: find_space_def Let_def split: if_splits)
  then have "length ?t < length (drop b s)" by simp
  from takeWhile_length_nth [OF this] show ?thesis using i by simp
qed

function last_break :: "string \<Rightarrow> nat \<Rightarrow> nat option" where
  "last_break text e =
     (case rfind_space text e of
        None \<Rightarrow> None
      | Some i \<Rightarrow> if unescaped text i then Some i else last_break text i)"
  by pat_completeness auto
termination by (relation "measure snd") (auto dest: rfind_space_less)

function first_break :: "string \<Rightarrow> nat \<Rightarrow> nat option" where
  "first_break text b =
     (case find_space text b of
        None \<Rightarrow> None
      | Some i \<Rightarrow> if unescaped text i then Some i else first_break text (i + 1))"
  by pat_completeness auto
termination by (relation "measure (\<lambda>(t, b). length t - b)") (auto dest: find_space_bound)

declare last_break.simps [simp del] first_break.simps [simp del]

definition break_at :: "nat \<Rightarrow> string \<Rightarrow> string \<Rightarrow> nat option" where
  "break_at width leading_space text =
     (let available_space = int width - int (length leading_space) - 2 in
      case last_break text (position text available_space) of
        Some i \<Rightarrow> Some i
      | None \<Rightarrow> first_break text (position text available_space))"

lemma last_break_bound: "last_break t e = Some i \<Longrightarrow> i < length t \<and> t ! i = CHR '' ''"
  by (induction t e rule: last_break.induct)
    (subst (asm) last_break.simps, auto split: option.splits if_splits dest: rfind_space_less)

lemma first_break_bound: "first_break t b = Some i \<Longrightarrow> i < length t \<and> t ! i = CHR '' ''"
  by (induction t b rule: first_break.induct)
    (subst (asm) first_break.simps, auto split: option.splits if_splits dest: find_space_bound)

lemma break_at_bound: "break_at width ls text = Some i \<Longrightarrow> i < length text \<and> text ! i = CHR '' ''"
  by (auto simp: break_at_def Let_def dest: last_break_bound first_break_bound split: option.splits)

function line_loop :: "nat \<Rightarrow> string \<Rightarrow> string \<Rightarrow> string \<Rightarrow> string" where
  "line_loop width leading_space next_space text =
     (if length leading_space + length text > width then
        (case break_at width leading_space text of
           None \<Rightarrow> leading_space @ text @ [nl]
         | Some space \<Rightarrow>
             leading_space @ take space text @ '' $'' @ [nl] @ line_loop width next_space next_space (drop (space + 1) text))
      else leading_space @ text @ [nl])"
  by pat_completeness auto
termination by (relation "measure (\<lambda>(_, _, _, t). length t)") (auto dest: break_at_bound)

declare line_loop.simps [simp del]

definition indentation :: "nat \<Rightarrow> string" where
  "indentation indent = replicate (2 * indent) (CHR '' '')"

section \<open>The writer\<close>

record writer =
  wr_output :: string
  wr_width :: nat

definition Writer_init :: "writer" where
  "Writer_init = \<lparr>wr_output = [], wr_width = 78\<rparr>"

definition newline :: "writer \<Rightarrow> writer" where
  "newline w = w\<lparr>wr_output := wr_output w @ [nl]\<rparr>"

definition put_line :: "string \<Rightarrow> nat \<Rightarrow> writer \<Rightarrow> writer" where
  "put_line text indent w =
     w\<lparr>wr_output := wr_output w @ line_loop (wr_width w) (indentation indent) (indentation (indent + 2)) text\<rparr>"

text \<open>A value of a variable; \<open>None\<close>, a string, a list of strings, or a number.\<close>

datatype nvalue = NNone | NStr string | NList "string list" | NInt int

definition variable :: "string \<Rightarrow> nvalue \<Rightarrow> nat \<Rightarrow> writer \<Rightarrow> writer" where
  "variable key value indent w =
     (case value of
        NNone \<Rightarrow> w
      | NStr s \<Rightarrow> put_line (key @ '' = '' @ s) indent w
      | NList l \<Rightarrow> put_line (key @ '' = '' @ join '' '' (filter (\<lambda>s. s \<noteq> []) l)) indent w
      | NInt i \<Rightarrow> put_line (key @ '' = '' @ int_str i) indent w)"

definition pool :: "string \<Rightarrow> nvalue \<Rightarrow> writer \<Rightarrow> writer" where
  "pool name depth w = variable ''depth'' depth 1 (put_line (''pool '' @ name) 0 w)"

text \<open>\<open>if value:\<close>.\<close>

definition given :: "nvalue \<Rightarrow> bool" where
  "given v = (case v of NNone \<Rightarrow> False | NStr s \<Rightarrow> s \<noteq> [] | NList l \<Rightarrow> l \<noteq> [] | NInt i \<Rightarrow> i \<noteq> 0)"

definition variable_if :: "string \<Rightarrow> nvalue \<Rightarrow> writer \<Rightarrow> writer" where
  "variable_if key value w = (if given value then variable key value 1 w else w)"

record rule_args =
  ra_description :: nvalue
  ra_depfile :: nvalue
  ra_generator :: bool
  ra_pool :: nvalue
  ra_restat :: bool
  ra_rspfile :: nvalue
  ra_rspfile_content :: nvalue
  ra_deps :: nvalue

definition rule :: "string \<Rightarrow> nvalue \<Rightarrow> rule_args \<Rightarrow> writer \<Rightarrow> writer" where
  "rule name command a w0 =
     (let w1 = put_line (''rule '' @ name) 0 w0;
          w2 = variable ''command'' command 1 w1;
          w3 = variable_if ''description'' (ra_description a) w2;
          w4 = variable_if ''depfile'' (ra_depfile a) w3;
          w5 = (if ra_generator a then variable ''generator'' (NStr ''1'') 1 w4 else w4);
          w6 = variable_if ''pool'' (ra_pool a) w5;
          w7 = (if ra_restat a then variable ''restat'' (NStr ''1'') 1 w6 else w6);
          w8 = variable_if ''rspfile'' (ra_rspfile a) w7;
          w9 = variable_if ''rspfile_content'' (ra_rspfile_content a) w8
      in variable_if ''deps'' (ra_deps a) w9)"

text \<open>\<open>_as_list\<close> of \<open>None\<close>, a string or a list.\<close>

definition as_list :: "nvalue \<Rightarrow> string list" where
  "as_list v = (case v of NNone \<Rightarrow> [] | NList l \<Rightarrow> l | NStr s \<Rightarrow> [s] | NInt i \<Rightarrow> [int_str i])"

definition build_text :: "string list \<Rightarrow> string \<Rightarrow> string list \<Rightarrow> nvalue \<Rightarrow> nvalue \<Rightarrow> string" where
  "build_text outputs rule_name inputs implicit order_only =
     (let all_inputs = map escape_path inputs
            @ (if given implicit then ''|'' # map escape_path (as_list implicit) else [])
            @ (if given order_only then ''||'' # map escape_path (as_list order_only) else [])
      in ''build '' @ join '' '' (map escape_path outputs) @ '': '' @ join '' '' (rule_name # all_inputs))"

definition build ::
  "nvalue \<Rightarrow> string \<Rightarrow> nvalue \<Rightarrow> nvalue \<Rightarrow> nvalue \<Rightarrow> (string \<times> nvalue) list \<Rightarrow> writer \<Rightarrow> string list \<times> writer" where
  "build outputs rule_name inputs implicit order_only variables w =
     (let w1 = put_line (build_text (as_list outputs) rule_name (as_list inputs) implicit order_only) 0 w
      in (as_list outputs, foldl (\<lambda>w (key, val). variable key val 1 w) w1 variables))"

definition include_file :: "string \<Rightarrow> writer \<Rightarrow> writer" where
  "include_file path w = put_line (''include '' @ path) 0 w"

definition subninja :: "string \<Rightarrow> writer \<Rightarrow> writer" where
  "subninja path w = put_line (''subninja '' @ path) 0 w"

definition default_targets :: "nvalue \<Rightarrow> writer \<Rightarrow> writer" where
  "default_targets paths w = put_line (''default '' @ join '' '' (as_list paths)) 0 w"

section \<open>Joining continued lines\<close>

text \<open>How Ninja reads: a dollar and a line break, with the spaces that follow, are nothing; a dollar takes
  the next character with it.\<close>

function (sequential) unwrap :: "string \<Rightarrow> string" where
  "unwrap [] = []"
| "unwrap [c] = [c]"
| "unwrap (c # d # s) =
     (if c = CHR ''$'' then
        if d = nl then unwrap (dropWhile (\<lambda>x. x = CHR '' '') s) else c # d # unwrap s
      else c # unwrap (d # s))"
  by pat_completeness auto
termination by (relation "measure length") (auto simp: less_Suc_eq_le le_SucI length_dropWhile_le)

text \<open>No dollar without a character after it.\<close>

fun complete :: "string \<Rightarrow> bool" where
  "complete [] = True"
| "complete [c] = (c \<noteq> CHR ''$'')"
| "complete (c # d # s) = (if c = CHR ''$'' then complete s else complete (d # s))"

definition single_spaced :: "string \<Rightarrow> bool" where
  "single_spaced t = list_all (\<lambda>(c, d). \<not> (c = CHR '' '' \<and> d = CHR '' '')) (zip t (tl t))"

lemma single_spaced_nth:
  "single_spaced t \<longleftrightarrow> (\<forall>i. Suc i < length t \<longrightarrow> t ! i = CHR '' '' \<longrightarrow> t ! Suc i \<noteq> CHR '' '')"
  by (auto simp: single_spaced_def list_all_length nth_tl)

lemma unwrap_plain: "nl \<notin> set t \<Longrightarrow> complete t \<Longrightarrow> unwrap (t @ [nl]) = t @ [nl]"
proof (induction t rule: complete.induct)
  case (3 c d s)
  then show ?case by (cases "c = CHR ''$''") auto
qed auto

lemma unwrap_break:
  "nl \<notin> set p \<Longrightarrow> unwrap (p @ '' $'' @ [nl] @ s) = p @ '' '' @ unwrap (dropWhile (\<lambda>x. x = CHR '' '') s)"
proof (induction p rule: complete.induct)
  case (3 c d p)
  then show ?case by (cases "c = CHR ''$''") auto
qed auto

lemma complete_rest: "complete (p @ CHR '' '' # r) \<Longrightarrow> complete r"
proof (induction p rule: complete.induct)
  case 1
  then show ?case by (cases r) auto
next
  case (2 c)
  then show ?case by (cases r) (auto split: if_splits)
next
  case (3 c d s)
  then show ?case by (auto split: if_splits)
qed

lemma unwrap_spaces: "unwrap (replicate n (CHR '' '') @ s) = replicate n (CHR '' '') @ unwrap s"
proof (induction n)
  case (Suc n)
  then show ?case by (cases "replicate n (CHR '' '') @ s") auto
qed simp

text \<open>What follows the leading spaces of a line.\<close>

lemma line_loop_leading:
  "\<exists>body. line_loop width ls ns t = ls @ body \<and> (t = [] \<or> hd t \<noteq> CHR '' '' \<longrightarrow> body \<noteq> [] \<and> hd body \<noteq> CHR '' '')"
proof -
  have "take i t \<noteq> []" "hd (take i t) = hd t" if "break_at width ls t = Some i" "hd t \<noteq> CHR '' ''" for i
  proof -
    have "i < length t" "t ! i = CHR '' ''" using break_at_bound [OF that(1)] by auto
    then have "i \<noteq> 0" using that(2) by (metis hd_conv_nth length_greater_0_conv not_less_zero)
    then show "take i t \<noteq> []" "hd (take i t) = hd t" using \<open>i < length t\<close> by auto
  qed
  moreover have "break_at width ls [] = None" using break_at_bound [of width ls "[]"] by (cases "break_at width ls []") auto
  ultimately show ?thesis by (subst line_loop.simps) (auto split: option.splits simp: hd_append)
qed

lemma line_loop_unwrap:
  assumes "nl \<notin> set t" and "complete t" and "single_spaced t"
  shows "unwrap (line_loop width (replicate m (CHR '' '')) (replicate k (CHR '' '')) t) = replicate m (CHR '' '') @ t @ [nl]"
  using assms
proof (induction t arbitrary: m rule: length_induct)
  case (1 t)
  let ?ls = "replicate m (CHR '' '')"
  show ?case
  proof (cases "length ?ls + length t > width \<and> break_at width ?ls t \<noteq> None")
    case False
    then have "line_loop width ?ls (replicate k (CHR '' '')) t = ?ls @ t @ [nl]"
      by (subst line_loop.simps) (auto split: option.splits)
    then show ?thesis using 1 unwrap_plain unwrap_spaces by simp
  next
    case True
    then obtain i where i: "break_at width ?ls t = Some i" by auto
    let ?r = "drop (i + 1) t"
    let ?rest = "line_loop width (replicate k (CHR '' '')) (replicate k (CHR '' '')) ?r"
    have it: "i < length t" "t ! i = CHR '' ''" using break_at_bound [OF i] by auto
    have t: "t = take i t @ CHR '' '' # ?r" using id_take_nth_drop [OF it(1)] it(2) by simp
    have r: "nl \<notin> set ?r" "complete ?r" "single_spaced ?r" "?r = [] \<or> hd ?r \<noteq> CHR '' ''"
      using 1(2-4) complete_rest [of "take i t" ?r] t it set_drop_subset [of "i + 1" t]
      by (auto simp: single_spaced_nth hd_drop_conv_nth)
    have "unwrap ?rest = replicate k (CHR '' '') @ ?r @ [nl]" using 1(1) r it by auto
    moreover obtain body where body: "?rest = replicate k (CHR '' '') @ body" "body \<noteq> []" "hd body \<noteq> CHR '' ''"
      using line_loop_leading [of width "replicate k (CHR '' '')" "replicate k (CHR '' '')" ?r] r(4) by auto
    ultimately have "unwrap body = ?r @ [nl]" by (simp add: unwrap_spaces)
    moreover have "dropWhile (\<lambda>x. x = CHR '' '') ?rest = body" using body by (cases body) (simp_all add: dropWhile_append)
    moreover have "line_loop width ?ls (replicate k (CHR '' '')) t = ?ls @ take i t @ '' $'' @ [nl] @ ?rest"
      using True i by (subst line_loop.simps) simp
    moreover have "nl \<notin> set (take i t)" using 1(2) set_take_subset [of i t] by auto
    ultimately show ?thesis using unwrap_break [of "take i t" ?rest] t by (simp add: unwrap_spaces)
  qed
qed

text \<open>
  C23. \<open>_line\<close>: whatever the width, a reader of the file that joins continued lines reads the line that
  was asked for, with its indentation; the text may have no line break, no dollar at its end and no
  two spaces in a row.
\<close>

theorem put_line_unwrap:
  assumes "nl \<notin> set t" and "complete t" and "single_spaced t"
  shows "\<exists>out. wr_output (put_line t indent w) = wr_output w @ out \<and> unwrap out = indentation indent @ t @ [nl]"
proof (intro exI conjI)
  let ?out = "line_loop (wr_width w) (indentation indent) (indentation (indent + 2)) t"
  show "wr_output (put_line t indent w) = wr_output w @ ?out" by (simp add: put_line_def)
  show "unwrap ?out = indentation indent @ t @ [nl]" unfolding indentation_def by (rule line_loop_unwrap [OF assms])
qed

theorem put_line_unwrap_witness:
  "\<exists>out. wr_output (put_line ''command = cc -o out in'' 1 \<lparr>wr_output = [], wr_width = 16\<rparr>) = out
     \<and> length (filter (\<lambda>c. c = nl) out) = 3 \<and> unwrap out = ''  command = cc -o out in'' @ [nl]"
proof -
  let ?w = "\<lparr>wr_output = [], wr_width = 16\<rparr>"
  have "nl \<notin> set ''command = cc -o out in''" "complete ''command = cc -o out in''"
    "single_spaced ''command = cc -o out in''" by code_simp+
  then obtain out where "wr_output (put_line ''command = cc -o out in'' 1 ?w) = wr_output ?w @ out"
    "unwrap out = indentation 1 @ ''command = cc -o out in'' @ [nl]" using put_line_unwrap by blast
  moreover have "length (filter (\<lambda>c. c = nl) (wr_output (put_line ''command = cc -o out in'' 1 ?w))) = 3" by code_simp
  moreover have "indentation 1 = ''  ''" by code_simp
  ultimately show ?thesis by auto
qed

text \<open>
  With two spaces in a row, a break at the first of them loses the second: Ninja skips the spaces
  at the start of a continuation line.
\<close>

theorem put_line_loses_space:
  "unwrap (wr_output (put_line ''echo ab  c dd'' 0 \<lparr>wr_output = [], wr_width = 10\<rparr>)) = ''echo ab c dd'' @ [nl]"
  by code_simp

section \<open>The width of the lines\<close>

lemma rfind_space_None: "rfind_space s e = None \<Longrightarrow> i < e \<Longrightarrow> i < length s \<Longrightarrow> s ! i \<noteq> CHR '' ''"
  by (induction e) (auto split: if_splits simp: less_Suc_eq)

lemma rfind_space_between: "rfind_space s e = Some k \<Longrightarrow> k < i \<Longrightarrow> i < e \<Longrightarrow> i < length s \<Longrightarrow> s ! i \<noteq> CHR '' ''"
  by (induction e) (auto split: if_splits simp: less_Suc_eq)

lemma last_break_less: "last_break t e = Some i \<Longrightarrow> i < e"
proof (induction t e rule: last_break.induct)
  case (1 t e)
  then obtain k where k: "rfind_space t e = Some k" by (subst (asm) last_break.simps) (auto split: option.splits)
  then have "k < e" using rfind_space_less by blast
  then show ?case using "1.IH" [OF k] "1.prems" k by (subst (asm) last_break.simps) (auto split: if_splits)
qed

lemma last_break_None:
  "last_break t e = None \<Longrightarrow> i < e \<Longrightarrow> i < length t \<Longrightarrow> t ! i = CHR '' '' \<Longrightarrow> \<not> unescaped t i"
proof (induction t e rule: last_break.induct)
  case (1 t e)
  show ?case
  proof (cases "rfind_space t e")
    case None
    then show ?thesis using rfind_space_None [OF None] "1.prems" by blast
  next
    case (Some k)
    then have u: "\<not> unescaped t k" "last_break t k = None"
      using "1.prems"(1) by (subst (asm) last_break.simps, auto split: if_splits)+
    have "i \<le> k" using rfind_space_between [OF Some, of i] "1.prems"(2-4) by (metis not_le)
    then show ?thesis using u "1.IH" [OF Some u(1) u(2)] "1.prems"(3,4) by (cases "i = k") auto
  qed
qed

lemma find_space_None: "find_space s b = None \<Longrightarrow> b \<le> i \<Longrightarrow> i < length s \<Longrightarrow> s ! i \<noteq> CHR '' ''"
proof -
  assume f: "find_space s b = None" and i: "b \<le> i" "i < length s"
  let ?t = "takeWhile (\<lambda>c. c \<noteq> CHR '' '') (drop b s)"
  have "length (drop b s) \<le> length ?t" using f i by (auto simp: find_space_def Let_def split: if_splits)
  then have "?t = drop b s" using length_takeWhile_le [of "\<lambda>c. c \<noteq> CHR '' ''" "drop b s"]
    by (metis le_antisym takeWhile_eq_take take_all)
  moreover have "s ! i \<in> set (drop b s)" using i nth_mem [of "i - b" "drop b s"] by simp
  ultimately show ?thesis by (metis (mono_tags) set_takeWhileD)
qed

lemma find_space_between: "find_space s b = Some k \<Longrightarrow> b \<le> i \<Longrightarrow> i < k \<Longrightarrow> s ! i \<noteq> CHR '' ''"
proof -
  assume f: "find_space s b = Some k" and i: "b \<le> i" "i < k"
  let ?t = "takeWhile (\<lambda>c. c \<noteq> CHR '' '') (drop b s)"
  have k: "k = b + length ?t" "k < length s" using f by (auto simp: find_space_def Let_def split: if_splits)
  then have "i - b < length ?t" using i by simp
  then have "drop b s ! (i - b) \<noteq> CHR '' ''" by (metis (mono_tags) nth_mem set_takeWhileD takeWhile_nth)
  then show ?thesis using i k by simp
qed

text \<open>The first place for a break, if any, and no other before it.\<close>

lemma first_break_least:
  "b \<le> i \<Longrightarrow> i < length t \<Longrightarrow> t ! i = CHR '' '' \<Longrightarrow> unescaped t i \<Longrightarrow> \<exists>k\<le>i. first_break t b = Some k"
proof (induction t b rule: first_break.induct)
  case (1 t b)
  have "find_space t b \<noteq> None" using find_space_None [of t b i] "1.prems" by auto
  then obtain k where k: "find_space t b = Some k" by blast
  have "k \<le> i" using find_space_between [OF k, of i] "1.prems" by (metis not_le)
  show ?case
  proof (cases "unescaped t k")
    case True
    then show ?thesis using k \<open>k \<le> i\<close> by (subst first_break.simps) simp
  next
    case False
    then have "k + 1 \<le> i" using \<open>k \<le> i\<close> "1.prems"(4) by (cases "k = i") auto
    then show ?thesis using "1.IH" [OF k False] "1.prems" k False by (subst first_break.simps) simp
  qed
qed

definition no_break :: "string \<Rightarrow> bool" where
  "no_break s \<longleftrightarrow> (\<forall>i<length s. s ! i = CHR '' '' \<longrightarrow> \<not> unescaped s i)"

lemma count_dollars_take: "i < k \<Longrightarrow> count_dollars (take k t) i = count_dollars t i"
  by (induction i) auto

lemma unescaped_take: "i < k \<Longrightarrow> unescaped (take k t) i \<longleftrightarrow> unescaped t i"
  by (simp add: unescaped_def count_dollars_before_index_def count_dollars_take)

lemma break_at_width:
  assumes "length ls + 2 \<le> width"
  shows "case break_at width ls t of None \<Rightarrow> no_break t | Some i \<Rightarrow> length ls + i + 2 \<le> width \<or> no_break (take i t)"
proof -
  let ?e = "width - length ls - 2"
  have e: "position t (int width - int (length ls) - 2) = ?e" using assms by (simp add: position_def)
  show ?thesis
  proof (cases "last_break t ?e")
    case (Some i)
    then have "i < ?e" by (rule last_break_less)
    then have "length ls + i + 2 \<le> width" by linarith
    then show ?thesis using Some e by (simp add: break_at_def Let_def)
  next
    case None
    have nb: "\<not> unescaped t i" if "i < length t" "t ! i = CHR '' ''" "\<And>k. first_break t ?e = Some k \<Longrightarrow> i < k" for i
    proof (cases "i < ?e")
      case False
      then show ?thesis using first_break_least [of ?e i t] that by (meson not_le not_less)
    qed (use last_break_None [OF None] that in blast)
    show ?thesis
    proof (cases "first_break t ?e")
      case n: None
      then show ?thesis using None e nb by (simp add: break_at_def Let_def no_break_def)
    next
      case (Some k)
      then show ?thesis using None e nb unescaped_take [of _ k t] by (simp add: break_at_def Let_def no_break_def)
    qed
  qed
qed

text \<open>The lines of the output: each is at most as long as the width, or has no place for a break behind
  its indentation.\<close>

definition line_fits :: "nat \<Rightarrow> string \<Rightarrow> bool" where
  "line_fits width l \<longleftrightarrow> length l \<le> width \<or> (\<exists>k s. no_break s \<and> (l = replicate k (CHR '' '') @ s \<or> l = replicate k (CHR '' '') @ s @ '' $''))"

lemma line_loop_fits:
  assumes "nl \<notin> set t" and "m + 2 \<le> width" and "k + 2 \<le> width"
  shows "\<exists>ls. line_loop width (replicate m (CHR '' '')) (replicate k (CHR '' '')) t = concat (map (\<lambda>l. l @ [nl]) ls)
    \<and> (\<forall>l\<in>set ls. line_fits width l \<and> nl \<notin> set l)"
  using assms(1,2)
proof (induction t arbitrary: m rule: length_induct)
  case (1 t)
  let ?m = "replicate m (CHR '' '')" and ?k = "replicate k (CHR '' '')"
  have w: "length ?m + 2 \<le> width" using "1.prems" by simp
  note b = break_at_width [OF w, of t]
  show ?case
  proof (cases "length ?m + length t > width \<and> break_at width ?m t \<noteq> None")
    case False
    then have "line_loop width ?m ?k t = concat (map (\<lambda>l. l @ [nl]) [?m @ t])"
      by (subst line_loop.simps) (auto split: option.splits)
    moreover have "line_fits width (?m @ t)"
    proof (cases "break_at width ?m t")
      case None
      then have "no_break t" using b by simp
      then show ?thesis unfolding line_fits_def by blast
    qed (use False in \<open>simp add: line_fits_def\<close>)
    ultimately show ?thesis using "1.prems" by (intro exI [of _ "[?m @ t]"]) auto
  next
    case True
    then obtain i where i: "break_at width ?m t = Some i" by auto
    have it: "i < length t" using break_at_bound [OF i] by simp
    have "nl \<notin> set (drop (i + 1) t)" "nl \<notin> set (take i t)"
      using "1.prems"(1) set_drop_subset [of "i + 1" t] set_take_subset [of i t] by auto
    moreover have "length (drop (i + 1) t) < length t" using it by simp
    moreover obtain ls where ls: "line_loop width ?k ?k (drop (i + 1) t) = concat (map (\<lambda>l. l @ [nl]) ls)"
      "\<forall>l\<in>set ls. line_fits width l \<and> nl \<notin> set l"
      using "1.IH" [rule_format, of "drop (i + 1) t" k] calculation(1,3) assms(3) by blast
    let ?l = "?m @ take i t @ '' $''"
    have "line_fits width ?l" using b i it unfolding line_fits_def by auto
    moreover have "line_loop width ?m ?k t = concat (map (\<lambda>l. l @ [nl]) (?l # ls))"
      using True i ls(1) by (subst line_loop.simps) simp
    ultimately show ?thesis using ls(2) by (intro exI [of _ "?l # ls"]) auto
  qed
qed



end
