(* ===== verification/Gyp_Analyzer.thy ===== *)
theory Gyp_Analyzer
  imports Gyp_Graph "HOL-Library.List_Lexorder" "HOL-Library.Char_ord"
begin

text \<open>
  The generator \<open>gyp/generator/analyzer.py\<close>: which targets are affected by a set of changed files, and
  which ones have to be built. This theory is the model. A \<open>Target\<close> object is created once for a
  name, so the objects are the entries of a dictionary from names to records, and sets of targets
  are lists of names without duplicates; \<open>ae_order\<close> is the order in which the interpreter goes
  through a set. Python's recursion limit is \<open>ae_limit\<close>. The progress lines that \<open>_GenerateTargets\<close>
  prints on the way are left out.
\<close>

section \<open>Sources\<close>

text \<open>\<open>_ToGypPath\<close>; \<open>windows\<close>: \<open>os.sep\<close> is a backslash and \<open>os.altsep\<close> a slash.\<close>

definition ToGypPath :: "bool \<Rightarrow> string \<Rightarrow> string" where
  "ToGypPath windows path = (if windows then replace path [CHR 0x5C] ''/'' else path)"

function strip_parents :: "string \<Rightarrow> nat \<times> string" where
  "strip_parents path =
     (if startswith path ''../'' then (case strip_parents (drop 3 path) of (depth, p) \<Rightarrow> (Suc depth, p)) else (0, path))"
  by pat_completeness auto
termination
proof (relation "measure length")
  show "startswith path ''../'' \<Longrightarrow> (drop 3 path, path) \<in> measure length" for path
    by (cases path) (auto simp: startswith_def)
qed simp

declare strip_parents.simps [simp del]

definition ResolveParent :: "string \<Rightarrow> string list \<Rightarrow> string" where
  "ResolveParent path base_path_components =
     (case strip_parents path of (depth, p) \<Rightarrow>
        if depth > length base_path_components then []
        else if depth = length base_path_components then p
        else join ''/'' (take (length base_path_components - depth) base_path_components) @ ''/'' @ p)"

definition add_source :: "string \<Rightarrow> string list \<Rightarrow> string list \<Rightarrow> string \<Rightarrow> string list" where
  "add_source base_path base_path_components result source =
     (if source = [] \<or> startswith source ''!!!'' \<or> startswith source ''$'' then result
      else let source' = hd source # replace (tl source) ''//'' ''/''
           in if startswith source' ''../''
              then let r = ResolveParent source' base_path_components in if r = [] then result else result @ [r]
              else result @ [base_path @ source'])"

definition AddSources :: "pyval \<Rightarrow> string \<Rightarrow> string list \<Rightarrow> string list \<Rightarrow> string list res" where
  "AddSources sources base_path base_path_components result =
     res_bind (str_items sources) (\<lambda>ss. Inr (foldl (add_source base_path base_path_components) result ss))"

definition ExtractSourcesFromAction :: "string \<Rightarrow> string list \<Rightarrow> string list \<Rightarrow> pyval \<Rightarrow> string list res" where
  "ExtractSourcesFromAction base_path base_path_components results action =
     res_bind (as_dict action) (\<lambda>d.
       case dget d ''inputs'' of
         None \<Rightarrow> Inr results
       | Some inputs \<Rightarrow> AddSources inputs base_path base_path_components results)"

definition ToLocalPath :: "string \<Rightarrow> string \<Rightarrow> string" where
  "ToLocalPath toplevel_dir path =
     (if path = toplevel_dir then []
      else if startswith path (toplevel_dir @ ''/'') then drop (length toplevel_dir + 1) path
      else path)"

text \<open>The inputs of the entries of \<open>actions\<close> or \<open>rules\<close>.\<close>

definition extract_inputs :: "string \<Rightarrow> pydict \<Rightarrow> string \<Rightarrow> string list \<Rightarrow> string list \<Rightarrow> string list res" where
  "extract_inputs key target_dict base_path base_path_components results =
     (case dget target_dict key of
        None \<Rightarrow> Inr results
      | Some v \<Rightarrow> res_bind (as_list v) (foldM (ExtractSourcesFromAction base_path base_path_components) results))"

definition ExtractSources :: "bool \<Rightarrow> string \<Rightarrow> pydict \<Rightarrow> string \<Rightarrow> string list res" where
  "ExtractSources windows target target_dict toplevel_dir =
     (let dir = dirname (ToLocalPath toplevel_dir (ToGypPath windows target));
          base_path_components = split_on (CHR ''/'') dir;
          base_path = (if dir = [] then [] else dir @ ''/'')
      in res_bind (case dget target_dict ''sources'' of
                     None \<Rightarrow> Inr []
                   | Some v \<Rightarrow> AddSources v base_path base_path_components []) (\<lambda>results.
         res_bind (extract_inputs ''actions'' target_dict base_path base_path_components results)
           (extract_inputs ''rules'' target_dict base_path base_path_components)))"

section \<open>Targets\<close>

datatype match_status = MATCHES | MATCHES_BY_DEPENDENCY | DOESNT_MATCH | TBD

record atarget =
  at_deps :: "string list"
  at_match_status :: match_status
  at_back_deps :: "string list"
  at_visited :: bool
  at_requires_build :: bool
  at_added_to_compile_targets :: bool
  at_in_roots :: bool
  at_is_executable :: bool

type_synonym atargets = "(string, atarget) dict"

definition Target_init :: atarget where
  "Target_init = \<lparr>at_deps = [], at_match_status = TBD, at_back_deps = [], at_visited = False, at_requires_build = False,
     at_added_to_compile_targets = False, at_in_roots = False, at_is_executable = False\<rparr>"

text \<open>The attributes of the \<open>Target\<close> with a name, and an assignment to some of them.\<close>

definition target_at :: "atargets \<Rightarrow> string \<Rightarrow> atarget" where
  "target_at targets name = (case dget targets name of None \<Rightarrow> Target_init | Some t \<Rightarrow> t)"

definition set_target :: "string \<Rightarrow> (atarget \<Rightarrow> atarget) \<Rightarrow> atargets \<Rightarrow> atargets" where
  "set_target name f targets = dset targets name (f (target_at targets name))"

definition WasBuildFileModified ::
  "bool \<Rightarrow> string option \<Rightarrow> (string, pydict) dict \<Rightarrow> string list \<Rightarrow> string \<Rightarrow> bool res" where
  "WasBuildFileModified windows build_file data files toplevel_dir =
     (case build_file of
        None \<Rightarrow> Inl (AttributeError ''startswith'')
      | Some bf \<Rightarrow>
          if ToLocalPath toplevel_dir (ToGypPath windows bf) \<in> set files then Inr True
          else res_bind (dict_get data bf) (\<lambda>d.
               res_bind (dict_get d ''included_files'') (\<lambda>v.
               res_bind (str_items v) (\<lambda>included_files.
                 Inr (list_ex (\<lambda>include_file.
                        ToLocalPath toplevel_dir (ToGypPath windows (UnrelativePath include_file bf)) \<in> set files)
                      (tl included_files))))))"

definition GetOrCreateTargetByName :: "atargets \<Rightarrow> string \<Rightarrow> bool \<times> atargets" where
  "GetOrCreateTargetByName targets target_name =
     (if dhas targets target_name then (False, targets) else (True, dset targets target_name Target_init))"

definition DoesTargetTypeRequireBuild :: "pydict \<Rightarrow> bool res" where
  "DoesTargetTypeRequireBuild target_dict =
     res_bind (dict_get target_dict ''type'') (\<lambda>ty.
       Inr (ty \<noteq> PStr ''none''
         \<or> (case dget target_dict ''actions'' of None \<Rightarrow> False | Some v \<Rightarrow> truthy v)
         \<or> (case dget target_dict ''rules'' of None \<Rightarrow> False | Some v \<Rightarrow> truthy v)))"

section \<open>The targets of a build\<close>

text \<open>The arguments of \<open>_GenerateTargets\<close> and its local variables.\<close>

record gen_input =
  gi_windows :: bool
  gi_data :: "(string, pydict) dict"
  gi_target_dicts :: "(string, pydict) dict"
  gi_toplevel_dir :: string
  gi_files :: "string list"
  gi_build_files :: "string list"

record gen_state =
  gs_targets :: atargets
  gs_matching_targets :: "string list"
  gs_targets_to_visit :: "string list"
  gs_build_file_in_files :: "(string option, bool) dict"
  gs_roots :: "string list"
  gs_build_file_targets :: "string list"

text \<open>Whether the target is one of the changed ones: its build file was modified, or one of its sources.\<close>

definition build_file_modified :: "gen_input \<Rightarrow> string option \<Rightarrow> gen_state \<Rightarrow> bool res" where
  "build_file_modified inp build_file st =
     (case dget (gs_build_file_in_files st) build_file of
        Some b \<Rightarrow> Inr b
      | None \<Rightarrow> WasBuildFileModified (gi_windows inp) build_file (gi_data inp) (gi_files inp) (gi_toplevel_dir inp))"

definition target_matches :: "gen_input \<Rightarrow> string \<Rightarrow> pydict \<Rightarrow> bool \<Rightarrow> bool res" where
  "target_matches inp target_name target_dict modified =
     (if modified then Inr True
      else res_bind (ExtractSources (gi_windows inp) target_name target_dict (gi_toplevel_dir inp)) (\<lambda>sources.
             Inr (list_ex (\<lambda>source. source \<in> set (gi_files inp)) sources)))"

text \<open>One dependency of the target: it is to be visited, it is no root, and the two know each other.\<close>

definition add_dep :: "string \<Rightarrow> gen_state \<Rightarrow> string \<Rightarrow> gen_state" where
  "add_dep target_name st dep =
     (case GetOrCreateTargetByName (gs_targets st) dep of (created_dep_target, targets) \<Rightarrow>
        st\<lparr>gs_targets_to_visit := gs_targets_to_visit st @ [dep],
           gs_roots := (if created_dep_target then gs_roots st else filter (\<lambda>r. r \<noteq> dep) (gs_roots st)),
           gs_targets := set_target dep (\<lambda>t. t\<lparr>at_back_deps := add_new (at_back_deps t) target_name\<rparr>)
             (set_target target_name (\<lambda>t. t\<lparr>at_deps := add_new (at_deps t) dep\<rparr>) targets)\<rparr>)"

text \<open>The body of the loop for a target that was not visited before: what it notes of the target, and
  then the dependencies.\<close>

definition note_target :: "gen_input \<Rightarrow> string \<Rightarrow> pydict \<Rightarrow> bool \<Rightarrow> bool \<Rightarrow> bool \<Rightarrow> gen_state \<Rightarrow> gen_state" where
  "note_target inp target_name target_dict requires_build modified matches st =
     (let build_file = fst (ParseQualifiedTarget target_name)
      in st\<lparr>gs_targets := set_target target_name (\<lambda>t. t\<lparr>at_visited := True, at_requires_build := requires_build,
              at_is_executable := (dget target_dict ''type'' = Some (PStr ''executable'')),
              at_match_status := (if matches then MATCHES else at_match_status t)\<rparr>) (gs_targets st),
            gs_build_file_in_files := dset (gs_build_file_in_files st) build_file modified,
            gs_build_file_targets :=
              (if build_file \<in> Some ` set (gi_build_files inp) then add_new (gs_build_file_targets st) target_name
               else gs_build_file_targets st),
            gs_matching_targets := (if matches then gs_matching_targets st @ [target_name] else gs_matching_targets st)\<rparr>)"

definition visit_target :: "gen_input \<Rightarrow> string \<Rightarrow> gen_state \<Rightarrow> gen_state res" where
  "visit_target inp target_name st =
     res_bind (dict_get (gi_target_dicts inp) target_name) (\<lambda>target_dict.
     res_bind (DoesTargetTypeRequireBuild target_dict) (\<lambda>requires_build.
     res_bind (build_file_modified inp (fst (ParseQualifiedTarget target_name)) st) (\<lambda>modified.
     res_bind (target_matches inp target_name target_dict modified) (\<lambda>matches.
     res_bind (dep_names ''dependencies'' target_dict) (\<lambda>deps.
       Inr (foldl (add_dep target_name)
         (note_target inp target_name target_dict requires_build modified matches st) deps))))))"

definition generate_step :: "gen_input \<Rightarrow> gen_state \<Rightarrow> gen_state res" where
  "generate_step inp st =
     (let target_name = last (gs_targets_to_visit st);
          st1 = st\<lparr>gs_targets_to_visit := butlast (gs_targets_to_visit st)\<rparr>
      in case GetOrCreateTargetByName (gs_targets st1) target_name of (created_target, targets) \<Rightarrow>
           if \<not> created_target \<and> at_visited (target_at targets target_name) then Inr st1
           else visit_target inp target_name
             (st1\<lparr>gs_targets := targets,
                  gs_roots := (if created_target then add_new (gs_roots st1) target_name else gs_roots st1)\<rparr>))"

text \<open>Targets are marked as visited one after the other, so the loop ends.\<close>

definition unvisited :: "gen_input \<Rightarrow> gen_state \<Rightarrow> nat" where
  "unvisited inp st = length (filter (\<lambda>k. \<not> at_visited (target_at (gs_targets st) k)) (dkeys (gi_target_dicts inp)))"

lemma target_at_set [simp]:
  "target_at (set_target n f targets) m = (if m = n then f (target_at targets n) else target_at targets m)"
  by (simp add: target_at_def set_target_def)

lemma dhas_set_target [simp]: "dhas (set_target n f targets) m \<longleftrightarrow> m = n \<or> dhas targets m"
  by (simp add: set_target_def dhas_iff_dget)

lemma target_at_create [simp]: "target_at (snd (GetOrCreateTargetByName targets n)) m = target_at targets m"
  by (auto simp: GetOrCreateTargetByName_def target_at_def dhas_iff_dget)

lemma dhas_create [simp]: "dhas (snd (GetOrCreateTargetByName targets n)) m \<longleftrightarrow> m = n \<or> dhas targets m"
  by (auto simp: GetOrCreateTargetByName_def dhas_iff_dget)

lemma fst_create [simp]: "fst (GetOrCreateTargetByName targets n) \<longleftrightarrow> \<not> dhas targets n"
  by (simp add: GetOrCreateTargetByName_def)

lemma visited_add_deps [simp]:
  "at_visited (target_at (gs_targets (foldl (add_dep t) st deps)) m) = at_visited (target_at (gs_targets st) m)"
  by (induction deps arbitrary: st) (simp_all add: add_dep_def split_beta)

lemma target_at_note:
  "target_at (gs_targets (note_target inp n td rb md ma st)) m =
     (if m = n then (target_at (gs_targets st) n)\<lparr>at_visited := True, at_requires_build := rb,
        at_is_executable := (dget td ''type'' = Some (PStr ''executable'')),
        at_match_status := (if ma then MATCHES else at_match_status (target_at (gs_targets st) n))\<rparr>
      else target_at (gs_targets st) m)"
  by (simp add: note_target_def Let_def)

lemma visit_targetE:
  assumes "visit_target inp t st = Inr st'"
  obtains td rb md ma deps where "dget (gi_target_dicts inp) t = Some td" "DoesTargetTypeRequireBuild td = Inr rb"
    "build_file_modified inp (fst (ParseQualifiedTarget t)) st = Inr md" "target_matches inp t td md = Inr ma"
    "dep_names ''dependencies'' td = Inr deps" "st' = foldl (add_dep t) (note_target inp t td rb md ma st) deps"
  using assms by (auto simp: visit_target_def res_simps)

lemma visit_target_visited:
  assumes "visit_target inp t st = Inr st'"
  shows "t \<in> set (dkeys (gi_target_dicts inp))"
    and "at_visited (target_at (gs_targets st') m) \<longleftrightarrow> m = t \<or> at_visited (target_at (gs_targets st) m)"
  using assms by (auto elim!: visit_targetE simp: dkeys_iff_dget target_at_note split: if_splits)

lemma generate_step_decreases:
  assumes "generate_step inp st = Inr st'" and "gs_targets_to_visit st \<noteq> []"
  shows "(st', st) \<in> measures [unvisited inp, length \<circ> gs_targets_to_visit]"
proof -
  let ?t = "last (gs_targets_to_visit st)"
  let ?N = "dkeys (gi_target_dicts inp)"
  show ?thesis
  proof (cases "dhas (gs_targets st) ?t \<and> at_visited (target_at (gs_targets st) ?t)")
    case True
    then have "st' = st\<lparr>gs_targets_to_visit := butlast (gs_targets_to_visit st)\<rparr>"
      using assms(1) by (simp add: generate_step_def Let_def split_beta)
    then show ?thesis using assms(2) by (simp add: unvisited_def)
  next
    case False
    have nv: "\<not> at_visited (target_at (gs_targets st) ?t)"
      using False by (auto simp: target_at_def dhas_iff_dget Target_init_def)
    have "\<exists>s. visit_target inp ?t s = Inr st' \<and> (\<forall>m. target_at (gs_targets s) m = target_at (gs_targets st) m)"
      using assms(1) False by (auto simp: generate_step_def Let_def split_beta)
    then obtain s where s: "visit_target inp ?t s = Inr st'" "\<And>m. target_at (gs_targets s) m = target_at (gs_targets st) m"
      by blast
    have v: "at_visited (target_at (gs_targets st') m) \<longleftrightarrow> m = ?t \<or> at_visited (target_at (gs_targets st) m)" for m
      using visit_target_visited(2) [OF s(1)] s(2) by simp
    have "filter (\<lambda>k. \<not> at_visited (target_at (gs_targets st') k)) ?N
      = filter (\<lambda>k. k \<noteq> ?t) (filter (\<lambda>k. \<not> at_visited (target_at (gs_targets st) k)) ?N)"
      by (simp add: v conj_commute)
    moreover have "length \<dots> < length (filter (\<lambda>k. \<not> at_visited (target_at (gs_targets st) k)) ?N)"
      using visit_target_visited(1) [OF s(1)] nv by (intro length_filter_less [of ?t]) simp_all
    ultimately show ?thesis by (simp add: unvisited_def)
  qed
qed

function generate_loop :: "gen_input \<Rightarrow> gen_state \<Rightarrow> gen_state res" where
  "generate_loop inp st =
     (if gs_targets_to_visit st = [] then Inr st
      else res_bind (generate_step inp st) (\<lambda>st'. generate_loop inp st'))"
  by pat_completeness auto
termination
proof (relation "measures [\<lambda>(inp, st). unvisited inp st, \<lambda>(inp, st). length (gs_targets_to_visit st)]")
  fix inp st x
  assume "gs_targets_to_visit st \<noteq> []" and "generate_step inp st = Inr x"
  then show "((inp, x), inp, st) \<in> measures [\<lambda>(inp, st). unvisited inp st, \<lambda>(inp, st). length (gs_targets_to_visit st)]"
    using generate_step_decreases [of inp st x] by simp
qed simp

declare generate_loop.simps [simp del]

definition GenerateTargets :: "gen_input \<Rightarrow> string list \<Rightarrow> (atargets \<times> string list \<times> string list) res" where
  "GenerateTargets inp target_list =
     res_bind (generate_loop inp \<lparr>gs_targets = [], gs_matching_targets = [], gs_targets_to_visit = target_list,
         gs_build_file_in_files = [], gs_roots = [], gs_build_file_targets = []\<rparr>) (\<lambda>st.
       Inr (gs_targets st, gs_matching_targets st, filter (\<lambda>r. r \<in> set (gs_build_file_targets st)) (gs_roots st)))"

section \<open>The search\<close>

text \<open>\<open>to_find\<close> are the names that are left; the loop stops when there are none.\<close>

fun unqualified_loop :: "string list \<Rightarrow> string list \<Rightarrow> (string, string) dict \<Rightarrow> (string, string) dict" where
  "unqualified_loop [] to_find result = result"
| "unqualified_loop (target_name # names) to_find result =
     (let name = fst (snd (ParseQualifiedTarget target_name))
      in if name \<in> set to_find
         then let to_find' = filter (\<lambda>n. n \<noteq> name) to_find; result' = dset result name target_name
              in if to_find' = [] then result' else unqualified_loop names to_find' result'
         else unqualified_loop names to_find result)"

definition GetUnqualifiedToTargetMapping :: "atargets \<Rightarrow> string list \<Rightarrow> (string, string) dict" where
  "GetUnqualifiedToTargetMapping all_targets to_find =
     (if to_find = [] then [] else unqualified_loop (dkeys all_targets) (remdups to_find) [])"

text \<open>The loop over the dependencies stops at the first one that matches.\<close>

fun first_match :: "(string \<Rightarrow> atargets \<Rightarrow> (bool \<times> atargets) res) \<Rightarrow> string list \<Rightarrow> atargets \<Rightarrow> (bool \<times> atargets) res" where
  "first_match depends [] targets = Inr (False, targets)"
| "first_match depends (dep # deps) targets =
     res_bind (depends dep targets) (\<lambda>(b, targets').
       if b then Inr (True, targets') else first_match depends deps targets')"

primrec DoesTargetDependOn :: "nat \<Rightarrow> (string list \<Rightarrow> string list) \<Rightarrow> string \<Rightarrow> atargets \<Rightarrow> (bool \<times> atargets) res" where
  "DoesTargetDependOn 0 order target targets = Inl RecursionLimit"
| "DoesTargetDependOn (Suc n) order target targets =
     (case at_match_status (target_at targets target) of
        DOESNT_MATCH \<Rightarrow> Inr (False, targets)
      | MATCHES \<Rightarrow> Inr (True, targets)
      | MATCHES_BY_DEPENDENCY \<Rightarrow> Inr (True, targets)
      | TBD \<Rightarrow>
          res_bind (first_match (DoesTargetDependOn n order) (order (at_deps (target_at targets target))) targets) (\<lambda>(b, targets').
            Inr (b, set_target target
              (\<lambda>t. t\<lparr>at_match_status := (if b then MATCHES_BY_DEPENDENCY else DOESNT_MATCH)\<rparr>) targets')))"

definition GetTargetsDependingOn ::
  "nat \<Rightarrow> (string list \<Rightarrow> string list) \<Rightarrow> string list \<Rightarrow> atargets \<Rightarrow> (string list \<times> atargets) res" where
  "GetTargetsDependingOn n order possible_targets targets =
     foldM (\<lambda>(found, targets) target.
       res_bind (DoesTargetDependOn n order target targets) (\<lambda>(b, targets').
         Inr (if b then found @ [target] else found, targets'))) ([], targets) possible_targets"

text \<open>The state of \<open>_AddBuildTargets\<close>: the targets and the result.\<close>

primrec AddBuildTargets ::
  "nat \<Rightarrow> (string list \<Rightarrow> string list) \<Rightarrow> string list \<Rightarrow> string \<Rightarrow> bool \<Rightarrow> atargets \<times> string list \<Rightarrow> (atargets \<times> string list) res" where
  "AddBuildTargets 0 order roots target add_if_no_ancestor st = Inl RecursionLimit"
| "AddBuildTargets (Suc n) order roots target add_if_no_ancestor st =
     (case st of (targets, result) \<Rightarrow>
        if at_visited (target_at targets target) then Inr (targets, result)
        else let t0 = target_at targets target;
                 targets0 = set_target target (\<lambda>t. t\<lparr>at_visited := True,
                   at_in_roots := (at_back_deps t = [] \<and> target \<in> set roots)\<rparr>) targets
             in res_bind (foldM (\<lambda>s back_dep_target.
                    res_bind (AddBuildTargets n order roots back_dep_target False s) (\<lambda>(targets, result).
                      let b = target_at targets back_dep_target
                      in Inr (set_target target (\<lambda>t. t\<lparr>at_added_to_compile_targets :=
                                at_added_to_compile_targets t \<or> at_added_to_compile_targets b,
                              at_in_roots := at_in_roots t \<or> at_in_roots b\<rparr>) targets, result)))
                  (targets0, result) (order (at_back_deps t0))) (\<lambda>(targets, result).
                let t = target_at targets target
                in if at_in_roots t \<and> (at_is_executable t
                       \<or> (\<not> at_added_to_compile_targets t \<and> (add_if_no_ancestor \<or> at_requires_build t)))
                   then Inr (set_target target (\<lambda>t. t\<lparr>at_added_to_compile_targets := True\<rparr>) targets, add_new result target)
                   else Inr (targets, result)))"

definition GetBuildTargets ::
  "nat \<Rightarrow> (string list \<Rightarrow> string list) \<Rightarrow> string list \<Rightarrow> string list \<Rightarrow> atargets \<Rightarrow> (atargets \<times> string list) res" where
  "GetBuildTargets n order matching_targets roots targets =
     foldM (\<lambda>st target. AddBuildTargets n order roots target True st) (targets, []) matching_targets"

section \<open>Output\<close>

text \<open>The keyword arguments of \<open>_WriteOutput\<close>, and what it does: the lines it prints and the file
  it writes.\<close>

record an_values =
  av_error :: "string option"
  av_status :: "string option"
  av_targets :: "string list option"
  av_invalid_targets :: "string list option"
  av_build_targets :: "string list option"

record an_output =
  ao_printed :: "string list"
  ao_file :: "(string \<times> string) option"

text \<open>What \<open>open\<close> and \<open>json.load\<close> make of the configuration file.\<close>

datatype json_file = Unreadable | Unparsable string | Parsed pyval

text \<open>\<open>ae_write path\<close> is the error message when the file cannot be written.\<close>

record an_env =
  ae_windows :: bool
  ae_abspath :: "string \<Rightarrow> string"
  ae_order :: "string list \<Rightarrow> string list"
  ae_limit :: nat
  ae_load :: "string \<Rightarrow> json_file"
  ae_dumps :: "an_values \<Rightarrow> string"
  ae_str :: "py_error \<Rightarrow> string"
  ae_write :: "string \<Rightarrow> string option"

record an_params =
  ap_generator_flags :: "(string, string) dict"
  ap_includes :: "string list"
  ap_toplevel_dir :: string
  ap_build_files :: "string list"

definition no_values :: an_values where
  "no_values = \<lparr>av_error = None, av_status = None, av_targets = None, av_invalid_targets = None, av_build_targets = None\<rparr>"

definition found_dependency_string :: string where "found_dependency_string = ''Found dependency''"

definition no_dependency_string :: string where "no_dependency_string = ''No dependencies''"

definition all_changed_string :: string where "all_changed_string = ''Found dependency (all)''"

definition target_lines :: "string \<Rightarrow> string list option \<Rightarrow> string list" where
  "target_lines title names = (case names of None \<Rightarrow> [] | Some ts \<Rightarrow> title # map (\<lambda>t. CHR 0x09 # t) ts)"

definition WriteOutput :: "an_env \<Rightarrow> an_params \<Rightarrow> an_values \<Rightarrow> an_output" where
  "WriteOutput env params vs =
     (let values = vs\<lparr>av_targets := map_option sort (av_targets vs), av_invalid_targets := map_option sort (av_invalid_targets vs),
            av_build_targets := map_option sort (av_build_targets vs)\<rparr>;
          printed = (case av_error values of None \<Rightarrow> [] | Some e \<Rightarrow> [''Error: '' @ e])
            @ (case av_status values of None \<Rightarrow> [] | Some s \<Rightarrow> [s])
            @ target_lines ''Supplied targets that depend on changed files:'' (av_targets values)
            @ target_lines ''The following targets were not found:'' (av_invalid_targets values)
            @ target_lines ''Targets that require a build:'' (av_build_targets values);
          output_path = (case dget (ap_generator_flags params) ''analyzer_output_path'' of None \<Rightarrow> [] | Some p \<Rightarrow> p)
      in if output_path = [] then \<lparr>ao_printed = printed @ [ae_dumps env values], ao_file = None\<rparr>
         else case ae_write env output_path of
                None \<Rightarrow> \<lparr>ao_printed = printed, ao_file = Some (output_path, ae_dumps env values @ [nl])\<rparr>
              | Some e \<Rightarrow> \<lparr>ao_printed = printed @ [''Error writing to output file '' @ output_path @ '' '' @ e], ao_file = None\<rparr>)"

text \<open>\<open>Config.Init\<close>: the files and the targets; a target occurs once.\<close>

definition Config_Init :: "an_env \<Rightarrow> an_params \<Rightarrow> (string list \<times> string list) res" where
  "Config_Init env params =
     (let config_path = (case dget (ap_generator_flags params) ''config_path'' of None \<Rightarrow> [] | Some p \<Rightarrow> p)
      in if config_path = [] then Inr ([], [])
         else case ae_load env config_path of
                Unreadable \<Rightarrow> Inl (PyException (''Unable to open file '' @ config_path))
              | Unparsable e \<Rightarrow> Inl (PyException (''Unable to parse config file '' @ config_path @ e))
              | Parsed config \<Rightarrow>
                  (case config of
                     PDict d \<Rightarrow>
                       res_bind (dep_names ''files'' d) (\<lambda>files.
                       res_bind (dep_names ''targets'' d) (\<lambda>targets. Inr (files, remdups targets)))
                   | _ \<Rightarrow> Inl (PyException ''config_path must be a JSON file containing a dictionary'')))"

definition WasGypIncludeFileModified :: "bool \<Rightarrow> an_params \<Rightarrow> string list \<Rightarrow> bool" where
  "WasGypIncludeFileModified windows params files =
     list_ex (\<lambda>include. ToGypPath windows include \<in> set files) (ap_includes params)"

definition NamesNotIn :: "string list \<Rightarrow> (string, 'v) dict \<Rightarrow> string list" where
  "NamesNotIn names mapping = filter (\<lambda>name. \<not> dhas mapping name) names"

definition LookupTargets :: "string list \<Rightarrow> (string, 'v) dict \<Rightarrow> 'v list" where
  "LookupTargets names mapping = List.map_filter (\<lambda>name. dget mapping name) names"

definition unqualified :: "string \<Rightarrow> string" where
  "unqualified target = fst (snd (ParseQualifiedTarget target))"

text \<open>The part of \<open>GenerateOutput\<close> after \<open>_GenerateTargets\<close>: the targets to report and those to build.\<close>

definition search_results ::
  "an_env \<Rightarrow> string list \<Rightarrow> (string, string) dict \<Rightarrow> atargets \<times> string list \<times> string list \<Rightarrow> (string list \<times> string list) res" where
  "search_results env config_targets mapping generated =
     (case generated of (all_targets, matching_targets, roots) \<Rightarrow>
        if matching_targets = [] then Inr ([], [])
        else res_bind (GetTargetsDependingOn (ae_limit env) (ae_order env)
                 (LookupTargets (ae_order env config_targets) mapping) all_targets) (\<lambda>(matched, targets1).
             res_bind (GetBuildTargets (ae_limit env) (ae_order env) matching_targets roots
                 (map (\<lambda>(n, t). (n, t\<lparr>at_visited := False\<rparr>)) targets1)) (\<lambda>(_, build_targets).
               Inr (map unqualified matched, map unqualified (ae_order env build_targets)))))"

definition generate_values ::
  "an_env \<Rightarrow> string list \<Rightarrow> (string, pydict) dict \<Rightarrow> (string, pydict) dict \<Rightarrow> an_params \<Rightarrow> an_values res" where
  "generate_values env target_list target_dicts data params =
     res_bind (Config_Init env params) (\<lambda>(files, config_targets).
       if files = [] then Inl (PyException ''Must specify files to analyze via config_path generator flag'')
       else if WasGypIncludeFileModified (ae_windows env) params files
       then Inr (no_values\<lparr>av_status := Some all_changed_string, av_targets := Some (ae_order env config_targets)\<rparr>)
       else res_bind (GenerateTargets
               \<lparr>gi_windows = ae_windows env, gi_data = data, gi_target_dicts = target_dicts,
                gi_toplevel_dir = ToGypPath (ae_windows env) (ae_abspath env (ap_toplevel_dir params)),
                gi_files = files, gi_build_files = ap_build_files params\<rparr> target_list) (\<lambda>generated.
            let mapping = GetUnqualifiedToTargetMapping (fst generated) config_targets;
                invalid_targets = (if length mapping \<noteq> length config_targets
                  then NamesNotIn (ae_order env config_targets) mapping else [])
            in res_bind (search_results env config_targets mapping generated) (\<lambda>(matched, build_targets).
                 Inr (no_values\<lparr>
                   av_status := Some (if fst (snd generated) \<noteq> [] then found_dependency_string else no_dependency_string),
                   av_targets := Some matched, av_build_targets := Some build_targets,
                   av_invalid_targets := (if invalid_targets = [] then None else Some invalid_targets)\<rparr>))))"

definition GenerateOutput ::
  "an_env \<Rightarrow> string list \<Rightarrow> (string, pydict) dict \<Rightarrow> (string, pydict) dict \<Rightarrow> an_params \<Rightarrow> an_output" where
  "GenerateOutput env target_list target_dicts data params =
     (case generate_values env target_list target_dicts data params of
        Inl e \<Rightarrow> WriteOutput env params (no_values\<lparr>av_error := Some (ae_str env e)\<rparr>)
      | Inr vs \<Rightarrow> WriteOutput env params vs)"

text \<open>\<open>CalculateVariables\<close>; \<open>common\<close> is \<open>msvs_emulation.CalculateCommonVariables\<close>. The names that the
  branch for \<open>win\<close> assigns are local to the function.\<close>

definition CalculateVariables ::
  "((string, string) dict \<Rightarrow> (string, string) dict) \<Rightarrow> string \<Rightarrow> (string, string) dict \<Rightarrow> (string, string) dict \<Rightarrow> (string, string) dict" where
  "CalculateVariables common platform params default_variables =
     (let flavor = GetFlavor platform params;
          setdefault = (\<lambda>v. if dhas default_variables ''OS'' then default_variables else dset default_variables ''OS'' v)
      in if flavor = ''mac'' then setdefault ''mac''
         else if flavor = ''win'' then common (setdefault ''win'')
         else setdefault (if flavor = ''android'' then ''linux'' else flavor))"

end
