(* ===== verification/Gyp_Analysis.thy ===== *)
theory Gyp_Analysis
  imports Gyp_Analyzer
begin

text \<open>
  What the analyzer computes: the targets found are those reachable from the target list, linked in
  both directions, the changed ones and the roots among them are the right ones; the search with
  its memory in the targets decides reachability of a changed target; the targets to build cover
  what has to be rebuilt, and no more of them than needed.
\<close>

section \<open>Specification of the targets found\<close>

definition an_deps :: "gen_input \<Rightarrow> string \<Rightarrow> string list" where
  "an_deps inp t = (case dget (gi_target_dicts inp) t of None \<Rightarrow> [] | Some td \<Rightarrow> decl_deps td)"

definition an_edges :: "gen_input \<Rightarrow> (string \<times> string) set" where
  "an_edges inp = {(t, d). d \<in> set (an_deps inp t)}"

definition file_changed :: "gen_input \<Rightarrow> string \<Rightarrow> bool res" where
  "file_changed inp t = WasBuildFileModified (gi_windows inp) (fst (ParseQualifiedTarget t)) (gi_data inp) (gi_files inp) (gi_toplevel_dir inp)"

definition source_changed :: "gen_input \<Rightarrow> string \<Rightarrow> bool res" where
  "source_changed inp t =
     res_bind (dict_get (gi_target_dicts inp) t) (\<lambda>td. res_bind (file_changed inp t) (target_matches inp t td))"

text \<open>The target's build file or one of its sources is among the changed files.\<close>

definition changed :: "gen_input \<Rightarrow> string \<Rightarrow> bool" where
  "changed inp t \<longleftrightarrow> source_changed inp t = Inr True"

definition needs_build :: "gen_input \<Rightarrow> string \<Rightarrow> bool" where
  "needs_build inp t \<longleftrightarrow> res_bind (dict_get (gi_target_dicts inp) t) DoesTargetTypeRequireBuild = Inr True"

definition executable_target :: "gen_input \<Rightarrow> string \<Rightarrow> bool" where
  "executable_target inp t \<longleftrightarrow> (case dget (gi_target_dicts inp) t of None \<Rightarrow> False
     | Some td \<Rightarrow> dget td ''type'' = Some (PStr ''executable''))"

text \<open>The dictionary of the target is there and has what the analyzer reads from it.\<close>

definition analyzable :: "gen_input \<Rightarrow> string \<Rightarrow> bool" where
  "analyzable inp t \<longleftrightarrow> (case dget (gi_target_dicts inp) t of None \<Rightarrow> False
     | Some td \<Rightarrow> dhas td ''type'' \<and> \<not> isl (dep_names ''dependencies'' td)) \<and> \<not> isl (source_changed inp t)"

definition in_build_files :: "gen_input \<Rightarrow> string \<Rightarrow> bool" where
  "in_build_files inp t \<longleftrightarrow> fst (ParseQualifiedTarget t) \<in> Some ` set (gi_build_files inp)"

text \<open>The record of the target \<open>n\<close> when the targets in \<open>V\<close> were visited.\<close>

definition target_ok :: "gen_input \<Rightarrow> string set \<Rightarrow> string \<Rightarrow> atarget \<Rightarrow> bool" where
  "target_ok inp V n x \<longleftrightarrow> at_visited x = (n \<in> V)
     \<and> set (at_deps x) = (if n \<in> V then an_edges inp `` {n} else {}) \<and> distinct (at_deps x)
     \<and> set (at_back_deps x) = {t \<in> V. (t, n) \<in> an_edges inp} \<and> distinct (at_back_deps x)
     \<and> at_match_status x = (if n \<in> V \<and> changed inp n then MATCHES else TBD)
     \<and> (n \<in> V \<longrightarrow> at_requires_build x = needs_build inp n \<and> at_is_executable x = executable_target inp n)
     \<and> \<not> at_added_to_compile_targets x \<and> \<not> at_in_roots x"

definition cache_ok :: "gen_input \<Rightarrow> (string option, bool) dict \<Rightarrow> bool" where
  "cache_ok inp c \<longleftrightarrow> (\<forall>bf b. dget c bf = Some b \<longrightarrow>
     WasBuildFileModified (gi_windows inp) bf (gi_data inp) (gi_files inp) (gi_toplevel_dir inp) = Inr b)"

definition visited_set :: "gen_state \<Rightarrow> string set" where
  "visited_set st = {n. at_visited (target_at (gs_targets st) n)}"

definition known_set :: "gen_state \<Rightarrow> string set" where
  "known_set st = {n. dhas (gs_targets st) n}"

definition gen_targets_inv :: "gen_input \<Rightarrow> gen_state \<Rightarrow> bool" where
  "gen_targets_inv inp st \<longleftrightarrow> (\<forall>n. target_ok inp (visited_set st) n (target_at (gs_targets st) n))
     \<and> visited_set st \<subseteq> known_set st \<and> known_set st \<subseteq> visited_set st \<union> set (gs_targets_to_visit st)
     \<and> an_edges inp `` visited_set st \<subseteq> known_set st
     \<and> (\<forall>d\<in>known_set st - visited_set st. \<exists>t\<in>visited_set st. (t, d) \<in> an_edges inp)
     \<and> wf_dict (gs_targets st)"

definition gen_lists_inv :: "gen_input \<Rightarrow> string set \<Rightarrow> gen_state \<Rightarrow> bool" where
  "gen_lists_inv inp V st \<longleftrightarrow> set (gs_roots st) = {t \<in> V. \<forall>t'\<in>V. (t', t) \<notin> an_edges inp}
     \<and> set (gs_matching_targets st) = {t \<in> V. changed inp t} \<and> distinct (gs_matching_targets st)
     \<and> set (gs_build_file_targets st) = {t \<in> V. in_build_files inp t}
     \<and> cache_ok inp (gs_build_file_in_files st) \<and> Ball V (analyzable inp)"

definition gen_inv :: "gen_input \<Rightarrow> string list \<Rightarrow> gen_state \<Rightarrow> bool" where
  "gen_inv inp target_list st \<longleftrightarrow> gen_targets_inv inp st \<and> gen_lists_inv inp (visited_set st) st
     \<and> visited_set st \<union> (an_edges inp)\<^sup>* `` set (gs_targets_to_visit st) = (an_edges inp)\<^sup>* `` set target_list"

section \<open>The loop\<close>

lemma target_at_add_dep:
  "target_at (gs_targets (add_dep t st d)) m = (target_at (gs_targets st) m)
     \<lparr>at_deps := (if m = t then add_new (at_deps (target_at (gs_targets st) m)) d else at_deps (target_at (gs_targets st) m)),
      at_back_deps := (if m = d then add_new (at_back_deps (target_at (gs_targets st) m)) t else at_back_deps (target_at (gs_targets st) m))\<rparr>"
  by (simp add: add_dep_def split_beta)

lemma target_at_add_deps:
  "target_at (gs_targets (foldl (add_dep t) st ds)) m = (target_at (gs_targets st) m)
     \<lparr>at_deps := (if m = t then foldl add_new (at_deps (target_at (gs_targets st) m)) ds else at_deps (target_at (gs_targets st) m)),
      at_back_deps := (if m \<in> set ds then add_new (at_back_deps (target_at (gs_targets st) m)) t else at_back_deps (target_at (gs_targets st) m))\<rparr>"
proof (induction ds arbitrary: st)
  case (Cons d ds)
  show ?case by (simp add: Cons.IH target_at_add_dep) (simp add: add_new_def)
qed simp

lemma add_deps_simps:
  "gs_targets_to_visit (foldl (add_dep t) st ds) = gs_targets_to_visit st @ ds"
  "gs_matching_targets (foldl (add_dep t) st ds) = gs_matching_targets st"
  "gs_build_file_in_files (foldl (add_dep t) st ds) = gs_build_file_in_files st"
  "gs_build_file_targets (foldl (add_dep t) st ds) = gs_build_file_targets st"
  by (induction ds arbitrary: st) (simp_all add: add_dep_def split_beta)

lemma known_add_dep: "known_set (add_dep t st d) = {t, d} \<union> known_set st"
  by (auto simp: known_set_def add_dep_def split_beta)

lemma known_add_deps: "t \<in> known_set st \<Longrightarrow> known_set (foldl (add_dep t) st ds) = set ds \<union> known_set st"
  by (induction ds arbitrary: st) (auto simp: known_add_dep)

lemma wf_add_deps: "wf_dict (gs_targets st) \<Longrightarrow> wf_dict (gs_targets (foldl (add_dep t) st ds))"
  by (induction ds arbitrary: st) (simp_all add: add_dep_def split_beta set_target_def GetOrCreateTargetByName_def)

lemma roots_add_deps:
  "set (gs_roots st) \<subseteq> known_set st \<Longrightarrow> set (gs_roots (foldl (add_dep t) st ds)) = set (gs_roots st) - set ds"
proof (induction ds arbitrary: st)
  case (Cons d ds)
  have r: "set (gs_roots (add_dep t st d)) = set (gs_roots st) - {d}"
    using Cons.prems by (auto simp: add_dep_def split_beta known_set_def)
  then have "set (gs_roots (add_dep t st d)) \<subseteq> known_set (add_dep t st d)" using Cons.prems by (auto simp: known_add_dep)
  from Cons.IH [OF this] show ?case using r by auto
qed simp

text \<open>A target that is visited: what it finds is what the specification says.\<close>

lemma build_file_modified_eq:
  assumes "cache_ok inp (gs_build_file_in_files st)"
  shows "build_file_modified inp (fst (ParseQualifiedTarget t)) st = file_changed inp t"
  using assms by (auto simp: build_file_modified_def file_changed_def cache_ok_def split: option.splits)

lemma isl_iff: "\<not> isl m \<longleftrightarrow> (\<exists>x. m = Inr x)"
  by (cases m) auto

lemma requires_build_ok: "dhas td ''type'' \<longleftrightarrow> (\<exists>rb. DoesTargetTypeRequireBuild td = Inr rb)"
  by (auto simp: DoesTargetTypeRequireBuild_def dict_get_def dhas_iff_dget split: option.splits)

lemma visit_target_ok:
  assumes "cache_ok inp (gs_build_file_in_files st)"
  shows "(\<exists>st'. visit_target inp t st = Inr st') \<longleftrightarrow> analyzable inp t"
  by (cases "dget (gi_target_dicts inp) t")
    (auto simp: visit_target_def build_file_modified_eq [OF assms] analyzable_def source_changed_def isl_iff
      requires_build_ok dict_get_def res_bind_eq_Inr)

text \<open>The state in which a target is visited: the name is taken from the list, the record exists, a
  record that is new is a root for now.\<close>

definition popped :: "string \<Rightarrow> gen_state \<Rightarrow> gen_state" where
  "popped t st = st\<lparr>gs_targets_to_visit := butlast (gs_targets_to_visit st),
     gs_targets := snd (GetOrCreateTargetByName (gs_targets st) t),
     gs_roots := (if t \<in> known_set st then gs_roots st else add_new (gs_roots st) t)\<rparr>"

lemma generate_step_eq:
  assumes "gen_targets_inv inp st" and "t = last (gs_targets_to_visit st)"
  shows "generate_step inp st = (if t \<in> visited_set st then Inr (st\<lparr>gs_targets_to_visit := butlast (gs_targets_to_visit st)\<rparr>)
     else visit_target inp t (popped t st))"
proof -
  have "t \<in> visited_set st \<Longrightarrow> t \<in> known_set st" using assms(1) by (auto simp: gen_targets_inv_def)
  then show ?thesis
    unfolding generate_step_def popped_def assms(2) [symmetric] Let_def
    by (auto simp: visited_set_def known_set_def split_beta GetOrCreateTargetByName_def)
qed

lemma changed_eqs:
  assumes "dget (gi_target_dicts inp) t = Some td" "DoesTargetTypeRequireBuild td = Inr rb"
    "file_changed inp t = Inr md" "target_matches inp t td md = Inr ma" "dep_names ''dependencies'' td = Inr deps"
  shows "changed inp t \<longleftrightarrow> ma" "needs_build inp t \<longleftrightarrow> rb" "an_edges inp `` {t} = set deps" "analyzable inp t"
    "executable_target inp t \<longleftrightarrow> dget td ''type'' = Some (PStr ''executable'')"
proof -
  show "changed inp t \<longleftrightarrow> ma" using assms(1,3,4) by (simp add: changed_def source_changed_def dict_get_def)
  show "needs_build inp t \<longleftrightarrow> rb" using assms(1,2) by (simp add: needs_build_def dict_get_def)
  show "an_edges inp `` {t} = set deps"
    using assms(1,5) by (simp add: an_edges_def an_deps_def decl_deps_def spec_dependencies_def Image_def)
  show "analyzable inp t"
    using assms by (auto simp: analyzable_def requires_build_ok source_changed_def isl_iff dict_get_def)
  show "executable_target inp t \<longleftrightarrow> dget td ''type'' = Some (PStr ''executable'')"
    using assms(1) by (simp add: executable_target_def)
qed

lemma popped_simps [simp]:
  "target_at (gs_targets (popped t st)) m = target_at (gs_targets st) m"
  "known_set (popped t st) = insert t (known_set st)"
  "gs_targets_to_visit (popped t st) = butlast (gs_targets_to_visit st)"
  "gs_matching_targets (popped t st) = gs_matching_targets st"
  "gs_build_file_in_files (popped t st) = gs_build_file_in_files st"
  "gs_build_file_targets (popped t st) = gs_build_file_targets st"
  "set (gs_roots (popped t st)) = set (gs_roots st) \<union> ({t} - known_set st)"
  "wf_dict (gs_targets st) \<Longrightarrow> wf_dict (gs_targets (popped t st))"
  by (auto simp: popped_def known_set_def GetOrCreateTargetByName_def target_at_def dhas_iff_dget)

lemma note_simps [simp]:
  "known_set (note_target inp t td rb md ma st) = insert t (known_set st)"
  "gs_targets_to_visit (note_target inp t td rb md ma st) = gs_targets_to_visit st"
  "gs_roots (note_target inp t td rb md ma st) = gs_roots st"
  "wf_dict (gs_targets st) \<Longrightarrow> wf_dict (gs_targets (note_target inp t td rb md ma st))"
  by (auto simp: known_set_def note_target_def Let_def set_target_def dhas_iff_dget)

lemma target_ok_visit:
  assumes "target_ok inp V n (target_at (gs_targets st) n)" and "t \<notin> V"
    and "an_edges inp `` {t} = set deps" "changed inp t \<longleftrightarrow> ma" "needs_build inp t \<longleftrightarrow> rb"
    "executable_target inp t \<longleftrightarrow> dget td ''type'' = Some (PStr ''executable'')"
  shows "target_ok inp (insert t V) n
    (target_at (gs_targets (foldl (add_dep t) (note_target inp t td rb md ma (popped t st)) deps)) n)"
proof -
  have "(t, n) \<in> an_edges inp \<longleftrightarrow> n \<in> set deps" using assms(3) by auto
  then show ?thesis using assms
    by (cases "n = t") (auto simp: target_ok_def target_at_add_deps target_at_note)
qed

lemma set_butlast_last: "xs \<noteq> [] \<Longrightarrow> set xs = insert (last xs) (set (butlast xs))"
  by (cases xs rule: rev_cases) auto

lemma visited_visit:
  assumes "visit_target inp t (popped t st) = Inr st'"
  shows "visited_set st' = insert t (visited_set st)"
  using visit_target_visited(2) [OF assms] by (auto simp: visited_set_def)

lemma gen_targets_visit:
  assumes "gen_targets_inv inp st" and "gen_lists_inv inp (visited_set st) st"
    and "t = last (gs_targets_to_visit st)" "gs_targets_to_visit st \<noteq> []" "t \<notin> visited_set st"
    and v: "visit_target inp t (popped t st) = Inr st'"
  shows "gen_targets_inv inp st'" and "gen_lists_inv inp (visited_set st') st'"
    and "set (gs_targets_to_visit st') = set (butlast (gs_targets_to_visit st)) \<union> an_edges inp `` {t}"
proof -
  let ?V = "visited_set st" and ?K = "known_set st" and ?E = "an_edges inp"
  have c: "cache_ok inp (gs_build_file_in_files (popped t st))" using assms(2) by (simp add: gen_lists_inv_def)
  from v obtain td rb md ma deps where d: "dget (gi_target_dicts inp) t = Some td" "DoesTargetTypeRequireBuild td = Inr rb"
    "file_changed inp t = Inr md" "target_matches inp t td md = Inr ma" "dep_names ''dependencies'' td = Inr deps"
    and st': "st' = foldl (add_dep t) (note_target inp t td rb md ma (popped t st)) deps"
    by (rule visit_targetE) (simp add: build_file_modified_eq [OF c])
  note ch = changed_eqs [OF d]
  have V': "visited_set st' = insert t ?V" by (rule visited_visit [OF v])
  have K': "known_set st' = set deps \<union> insert t ?K" by (simp add: st' known_add_deps)
  have P': "gs_targets_to_visit st' = butlast (gs_targets_to_visit st) @ deps" by (simp add: st' add_deps_simps)
  have P: "set (gs_targets_to_visit st) = insert t (set (butlast (gs_targets_to_visit st)))"
    using set_butlast_last [OF assms(4)] assms(3) by simp
  note inv = assms(1) [unfolded gen_targets_inv_def]
  show "set (gs_targets_to_visit st') = set (butlast (gs_targets_to_visit st)) \<union> ?E `` {t}" by (simp add: P' ch(3))
  have ok: "target_ok inp (insert t ?V) n (target_at (gs_targets st') n)" for n
    unfolding st' using inv assms(5) ch by (intro target_ok_visit) auto
  have E': "?E `` insert t ?V = set deps \<union> ?E `` ?V" using ch(3) by auto
  have wf: "wf_dict (gs_targets st')" using inv by (simp add: st' wf_add_deps)
  have known_back: "\<exists>u\<in>insert t ?V. (u, n) \<in> ?E" if "n \<in> known_set st' - insert t ?V" for n
    using that inv ch(3) unfolding K' by blast
  show "gen_targets_inv inp st'"
    unfolding gen_targets_inv_def V' using ok wf known_back inv P E' by (auto simp: K' P')
  have rts: "set (gs_roots st') = (set (gs_roots st) \<union> ({t} - ?K)) - set deps"
  proof -
    have "set (gs_roots st) \<subseteq> ?V" using assms(2) by (auto simp: gen_lists_inv_def)
    then show ?thesis using inv unfolding st' by (subst roots_add_deps) auto
  qed
  have rts': "set (gs_roots st') = {u \<in> insert t ?V. \<forall>u'\<in>insert t ?V. (u', u) \<notin> ?E}"
  proof (intro equalityI subsetI)
    fix u assume "u \<in> set (gs_roots st')"
    then have u: "u \<in> set (gs_roots st) \<or> u = t \<and> t \<notin> ?K" "(t, u) \<notin> ?E" using rts ch(3) by auto
    from u(1) have "u \<in> insert t ?V \<and> (\<forall>u'\<in>?V. (u', u) \<notin> ?E)" using assms(2) inv by (auto simp: gen_lists_inv_def)
    then show "u \<in> {u \<in> insert t ?V. \<forall>u'\<in>insert t ?V. (u', u) \<notin> ?E}" using u(2) by simp
  next
    fix u assume u: "u \<in> {u \<in> insert t ?V. \<forall>u'\<in>insert t ?V. (u', u) \<notin> ?E}"
    then have "u \<notin> set deps" using ch(3) by auto
    moreover have "u \<in> set (gs_roots st) \<or> u = t \<and> t \<notin> ?K"
      using u assms(2,5) inv unfolding gen_lists_inv_def by blast
    ultimately show "u \<in> set (gs_roots st')" using rts by auto
  qed
  have cache: "cache_ok inp (gs_build_file_in_files st')"
    using c d(3) by (simp add: st' add_deps_simps cache_ok_def note_target_def Let_def file_changed_def)
  have m: "gs_matching_targets st' = (if ma then gs_matching_targets st @ [t] else gs_matching_targets st)"
    "gs_build_file_targets st' = (if in_build_files inp t then add_new (gs_build_file_targets st) t else gs_build_file_targets st)"
    by (simp_all add: st' add_deps_simps note_target_def Let_def in_build_files_def)
  have "set (gs_matching_targets st') = {u \<in> insert t ?V. changed inp u} \<and> distinct (gs_matching_targets st')"
    using assms(2,5) ch(1) by (auto simp: m gen_lists_inv_def)
  moreover have "set (gs_build_file_targets st') = {u \<in> insert t ?V. in_build_files inp u}"
    using assms(2) by (auto simp: m gen_lists_inv_def)
  ultimately show "gen_lists_inv inp (visited_set st') st'"
    unfolding gen_lists_inv_def V' using rts' cache assms(2) ch(4) by (simp add: gen_lists_inv_def)
qed

lemma generate_step_inv:
  assumes "gen_inv inp names st" and "gs_targets_to_visit st \<noteq> []" and "generate_step inp st = Inr st'"
  shows "gen_inv inp names st'"
proof -
  let ?E = "an_edges inp" and ?t = "last (gs_targets_to_visit st)" and ?B = "set (butlast (gs_targets_to_visit st))"
  note inv = assms(1) [unfolded gen_inv_def]
  have P: "set (gs_targets_to_visit st) = insert ?t ?B"
    by (rule set_butlast_last [OF assms(2)])
  show ?thesis
  proof (cases "?t \<in> visited_set st")
    case True
    then have st': "st' = st\<lparr>gs_targets_to_visit := butlast (gs_targets_to_visit st)\<rparr>"
      using assms(3) generate_step_eq [of inp st ?t] inv by simp
    have VE: "\<forall>u\<in>visited_set st. ?E `` {u} \<subseteq> visited_set st \<union> set (gs_targets_to_visit st)"
      using inv by (auto simp: gen_targets_inv_def)
    have V: "visited_set st' = visited_set st" "known_set st' = known_set st" by (simp_all add: st' visited_set_def known_set_def)
    have "set (gs_targets_to_visit st) - {?t} \<subseteq> ?B" "?B \<subseteq> set (gs_targets_to_visit st)" using P by auto
    then have "visited_set st \<union> ?E\<^sup>* `` ?B = visited_set st \<union> ?E\<^sup>* `` set (gs_targets_to_visit st)"
      using worklist_skip [OF VE True] by blast
    then show ?thesis using inv True P unfolding gen_inv_def V
      by (auto simp: st' gen_targets_inv_def gen_lists_inv_def V [unfolded st'])
  next
    case False
    then have v: "visit_target inp ?t (popped ?t st) = Inr st'" using assms(3) generate_step_eq [of inp st ?t] inv by simp
    note g = gen_targets_visit [OF _ _ refl assms(2) False v]
    have "?E\<^sup>* `` set (gs_targets_to_visit st) = insert ?t (?E\<^sup>* `` set (gs_targets_to_visit st'))"
      using worklist_expand [of ?E ?t ?B] P g(3) inv by (simp add: Un_commute)
    then have "visited_set st' \<union> ?E\<^sup>* `` set (gs_targets_to_visit st') = ?E\<^sup>* `` set names"
      using inv visited_visit [OF v] by auto
    then show ?thesis using g(1,2) inv by (simp add: gen_inv_def)
  qed
qed

definition gen_start :: "string list \<Rightarrow> gen_state" where
  "gen_start target_list = \<lparr>gs_targets = [], gs_matching_targets = [], gs_targets_to_visit = target_list,
     gs_build_file_in_files = [], gs_roots = [], gs_build_file_targets = []\<rparr>"

lemma gen_inv_start: "gen_inv inp names (gen_start names)"
  by (simp add: gen_inv_def gen_start_def gen_targets_inv_def gen_lists_inv_def visited_set_def known_set_def
      target_ok_def target_at_def Target_init_def dhas_iff_dget cache_ok_def)

lemma generate_loop_inv:
  assumes "generate_loop inp st = Inr st'" and "gen_inv inp names st"
  shows "gen_inv inp names st' \<and> gs_targets_to_visit st' = []"
  using assms
proof (induction inp st rule: generate_loop.induct)
  case (1 inp st)
  show ?case
  proof (cases "gs_targets_to_visit st = []")
    case True
    then show ?thesis using "1.prems" by (simp add: generate_loop.simps [of inp st])
  next
    case False
    then obtain s where s: "generate_step inp st = Inr s" "generate_loop inp s = Inr st'"
      using "1.prems"(1) by (auto simp: generate_loop.simps [of inp st] res_simps)
    then show ?thesis using "1.IH" [OF False s(1) s(2)] generate_step_inv [OF "1.prems"(2) False s(1)] by blast
  qed
qed

lemma generate_loop_returns:
  assumes "gen_inv inp names st" and "\<forall>t\<in>(an_edges inp)\<^sup>* `` set names. analyzable inp t"
  shows "\<exists>st'. generate_loop inp st = Inr st'"
  using assms
proof (induction inp st rule: generate_loop.induct)
  case (1 inp st)
  show ?case
  proof (cases "gs_targets_to_visit st = []")
    case True
    then show ?thesis by (simp add: generate_loop.simps [of inp st])
  next
    case False
    let ?t = "last (gs_targets_to_visit st)"
    have "?t \<in> (an_edges inp)\<^sup>* `` set (gs_targets_to_visit st)" using False by (auto simp: Image_iff intro!: bexI [of _ ?t])
    then have "analyzable inp ?t" using "1.prems" unfolding gen_inv_def by blast
    then have "\<exists>s. visit_target inp ?t (popped ?t st) = Inr s"
      using "1.prems"(1) by (subst visit_target_ok) (simp_all add: gen_inv_def gen_lists_inv_def)
    then obtain s where s: "generate_step inp st = Inr s"
      using "1.prems"(1) generate_step_eq [of inp st ?t] by (cases "?t \<in> visited_set st") (auto simp: gen_inv_def)
    then show ?thesis
      using False "1.IH" [OF False s generate_step_inv [OF "1.prems"(1) False s] "1.prems"(2)]
      by (simp add: generate_loop.simps [of inp st])
  qed
qed

lemma generate_loop_done:
  assumes "gen_inv inp names st" and "gs_targets_to_visit st = []"
  shows "visited_set st = (an_edges inp)\<^sup>* `` set names" and "known_set st = (an_edges inp)\<^sup>* `` set names"
  using assms by (auto simp: gen_inv_def gen_targets_inv_def)

lemma GenerateTargets_Inr:
  assumes "GenerateTargets inp names = Inr (targets, matching, roots)"
  defines "R \<equiv> (an_edges inp)\<^sup>* `` set names"
  shows "set (dkeys targets) = R \<and> wf_dict targets \<and> (\<forall>t. target_ok inp R t (target_at targets t))
    \<and> distinct matching \<and> set matching = {t \<in> R. changed inp t}
    \<and> set roots = {t \<in> R. in_build_files inp t \<and> (\<forall>t'\<in>R. (t', t) \<notin> an_edges inp)} \<and> Ball R (analyzable inp)"
proof -
  obtain st where st: "generate_loop inp (gen_start names) = Inr st" "targets = gs_targets st"
    "matching = gs_matching_targets st" "roots = filter (\<lambda>r. r \<in> set (gs_build_file_targets st)) (gs_roots st)"
    using assms(1) by (auto simp: GenerateTargets_def gen_start_def res_simps)
  have inv: "gen_inv inp names st" "gs_targets_to_visit st = []"
    using generate_loop_inv [OF st(1) gen_inv_start] by simp_all
  note R = generate_loop_done [OF inv, folded R_def]
  have "set (dkeys targets) = R" using R(2) by (auto simp: st(2) known_set_def dkeys_iff_dget dhas_iff_dget)
  then show ?thesis using inv(1) unfolding gen_inv_def gen_targets_inv_def gen_lists_inv_def R
    by (auto simp: st)
qed

section \<open>Finite graphs without cycles\<close>

lemma trancl_rank:
  assumes "acyclic E" and "finite N" and "E `` N \<subseteq> N" and "N = E\<^sup>* `` N"
  obtains rank :: "'a \<Rightarrow> nat" where "\<And>a b. a \<in> N \<Longrightarrow> (a, b) \<in> E \<Longrightarrow> rank b < rank a" and "\<And>a. a \<in> N \<Longrightarrow> rank a < card N"
proof -
  define rank where "rank a = card (E\<^sup>+ `` {a})" for a
  have sub: "E\<^sup>+ `` {a} \<subseteq> N" if "a \<in> N" for a
    using that assms(4) by (auto dest: trancl_into_rtrancl)
  have "rank b < rank a" if "a \<in> N" "(a, b) \<in> E" for a b
  proof -
    have "b \<in> E\<^sup>+ `` {a}" "b \<notin> E\<^sup>+ `` {b}" using that(2) assms(1) by (auto simp: acyclic_def)
    moreover have "E\<^sup>+ `` {b} \<subseteq> E\<^sup>+ `` {a}" using that(2) by (auto intro: trancl_into_trancl2)
    ultimately have "E\<^sup>+ `` {b} \<subset> E\<^sup>+ `` {a}" by auto
    then show ?thesis unfolding rank_def
      using finite_subset [OF sub [OF that(1)] assms(2)] by (rule psubset_card_mono [rotated])
  qed
  moreover have "rank a < card N" if "a \<in> N" for a
  proof -
    have "a \<notin> E\<^sup>+ `` {a}" using assms(1) by (auto simp: acyclic_def)
    then have "E\<^sup>+ `` {a} \<subset> N" using sub [OF that] that by auto
    then show ?thesis unfolding rank_def by (rule psubset_card_mono [OF assms(2)])
  qed
  ultimately show thesis using that by blast
qed

section \<open>The search for a changed target\<close>

text \<open>What the match status of a target means, and the targets that differ in it only.\<close>

definition reaches :: "('a \<times> 'a) set \<Rightarrow> 'a set \<Rightarrow> 'a \<Rightarrow> bool" where
  "reaches E M t \<longleftrightarrow> (\<exists>m\<in>M. (t, m) \<in> E\<^sup>*)"

definition memo_ok :: "(string \<times> string) set \<Rightarrow> string set \<Rightarrow> atargets \<Rightarrow> bool" where
  "memo_ok E M targets \<longleftrightarrow> (\<forall>t. set (at_deps (target_at targets t)) = E `` {t} \<and>
     (case at_match_status (target_at targets t) of
        MATCHES \<Rightarrow> t \<in> M | MATCHES_BY_DEPENDENCY \<Rightarrow> reaches E M t | DOESNT_MATCH \<Rightarrow> \<not> reaches E M t | TBD \<Rightarrow> t \<notin> M))"

definition same_but_status :: "atargets \<Rightarrow> atargets \<Rightarrow> bool" where
  "same_but_status targets targets' \<longleftrightarrow> dkeys targets' = dkeys targets \<and> (\<forall>t. target_at targets' t =
     (target_at targets t)\<lparr>at_match_status := at_match_status (target_at targets' t)\<rparr>)"

lemma same_but_status_refl [simp]: "same_but_status ts ts"
  by (simp add: same_but_status_def)

lemma same_but_status_trans: "same_but_status a b \<Longrightarrow> same_but_status b c \<Longrightarrow> same_but_status a c"
proof -
  assume "same_but_status a b" and bc: "same_but_status b c"
  then have ab: "target_at b t = (target_at a t)\<lparr>at_match_status := at_match_status (target_at b t)\<rparr>" for t
    by (simp add: same_but_status_def)
  have "target_at c t = (target_at b t)\<lparr>at_match_status := at_match_status (target_at c t)\<rparr>" for t
    using bc by (simp add: same_but_status_def)
  then have "target_at c t = (target_at a t)\<lparr>at_match_status := at_match_status (target_at c t)\<rparr>" for t
    by (subst (asm) ab) simp
  then show ?thesis using \<open>same_but_status a b\<close> bc by (simp add: same_but_status_def)
qed

lemma reaches_step: "t \<notin> M \<Longrightarrow> reaches E M t \<longleftrightarrow> (\<exists>d\<in>E `` {t}. reaches E M d)"
  unfolding reaches_def by (auto elim: converse_rtranclE intro: converse_rtrancl_into_rtrancl)

lemma first_match_correct:
  assumes "\<And>d ts. d \<in> set ds \<Longrightarrow> memo_ok E M ts \<Longrightarrow> set (dkeys ts) = N \<Longrightarrow>
      \<exists>ts'. f d ts = Inr (reaches E M d, ts') \<and> memo_ok E M ts' \<and> same_but_status ts ts'"
    and "memo_ok E M ts" and "set (dkeys ts) = N"
  shows "\<exists>ts'. first_match f ds ts = Inr (\<exists>d\<in>set ds. reaches E M d, ts') \<and> memo_ok E M ts' \<and> same_but_status ts ts'"
  using assms
proof (induction ds arbitrary: ts)
  case (Cons d ds)
  obtain ts1 where 1: "f d ts = Inr (reaches E M d, ts1)" "memo_ok E M ts1" "same_but_status ts ts1"
    using Cons.prems(1) [OF _ Cons.prems(2,3), of d] by auto
  show ?case
  proof (cases "reaches E M d")
    case False
    have "set (dkeys ts1) = N" using 1(3) Cons.prems(3) by (simp add: same_but_status_def)
    then obtain ts2 where "first_match f ds ts1 = Inr (\<exists>d\<in>set ds. reaches E M d, ts2)" "memo_ok E M ts2" "same_but_status ts1 ts2"
      using Cons.IH [OF Cons.prems(1) 1(2)] list.set_intros(2) by metis
    then show ?thesis using 1(1) False same_but_status_trans [OF 1(3)] by auto
  qed (use 1 in auto)
qed simp

lemma dkeys_set_target: "t \<in> set (dkeys ts) \<Longrightarrow> dkeys (set_target t f ts) = dkeys ts"
  by (simp add: set_target_def dkeys_dset)

lemma memo_ok_set:
  assumes "memo_ok E M ts" and "t \<notin> M" and "t \<in> set (dkeys ts)"
  defines "ts' \<equiv> set_target t (\<lambda>x. x\<lparr>at_match_status := (if reaches E M t then MATCHES_BY_DEPENDENCY else DOESNT_MATCH)\<rparr>) ts"
  shows "memo_ok E M ts' \<and> same_but_status ts ts'"
  using assms(1-3) unfolding ts'_def by (auto simp: memo_ok_def same_but_status_def dkeys_set_target)

lemma DoesTargetDependOn_correct:
  assumes "\<And>a b. a \<in> N \<Longrightarrow> (a, b) \<in> E \<Longrightarrow> rank b < rank a \<and> b \<in> N" and "\<And>xs. set (order xs) = set xs"
    and "memo_ok E M ts" and "set (dkeys ts) = N" and "t \<in> N" and "rank t < n"
  shows "\<exists>ts'. DoesTargetDependOn n order t ts = Inr (reaches E M t, ts') \<and> memo_ok E M ts' \<and> same_but_status ts ts'"
  using assms(3-)
proof (induction n arbitrary: t ts)
  case (Suc n)
  let ?ds = "order (at_deps (target_at ts t))"
  have m: "set ?ds = E `` {t}" using Suc.prems(1) assms(2) by (simp add: memo_ok_def)
  show ?case
  proof (cases "at_match_status (target_at ts t) = TBD")
    case True
    then have t: "t \<notin> M" using Suc.prems(1) unfolding memo_ok_def by (metis match_status.simps(16))
    have "\<exists>ts'. first_match (DoesTargetDependOn n order) ?ds ts = Inr (\<exists>d\<in>set ?ds. reaches E M d, ts')
       \<and> memo_ok E M ts' \<and> same_but_status ts ts'"
    proof (rule first_match_correct [where N = N])
      fix d ts' assume "d \<in> set ?ds" "memo_ok E M ts'" "set (dkeys ts') = N"
      moreover from this(1) have "rank d < rank t \<and> d \<in> N" using m Suc.prems(3) assms(1) by auto
      ultimately show "\<exists>ts''. DoesTargetDependOn n order d ts' = Inr (reaches E M d, ts'') \<and> memo_ok E M ts'' \<and> same_but_status ts' ts''"
        using Suc.prems(4) by (intro Suc.IH) auto
    qed (use Suc.prems in auto)
    then obtain ts1 where 1: "first_match (DoesTargetDependOn n order) ?ds ts = Inr (reaches E M t, ts1)"
      "memo_ok E M ts1" "same_but_status ts ts1" unfolding m reaches_step [OF t, symmetric] by blast
    have "t \<in> set (dkeys ts1)" using 1(3) Suc.prems(2,3) by (simp add: same_but_status_def)
    from memo_ok_set [OF 1(2) t this] show ?thesis using 1 True same_but_status_trans [OF 1(3)] by auto
  next
    case False
    have "t \<in> M \<Longrightarrow> reaches E M t" by (auto simp: reaches_def)
    then have "case at_match_status (target_at ts t) of DOESNT_MATCH \<Rightarrow> \<not> reaches E M t | TBD \<Rightarrow> True | _ \<Rightarrow> reaches E M t"
      using Suc.prems(1) unfolding memo_ok_def by (auto split: match_status.splits)
    then show ?thesis using False Suc.prems(1) by (cases "at_match_status (target_at ts t)") auto
  qed
qed simp

lemma GetTargetsDependingOn_filter:
  assumes "\<And>a b. a \<in> N \<Longrightarrow> (a, b) \<in> E \<Longrightarrow> rank b < rank a \<and> b \<in> N" and "\<And>a. a \<in> N \<Longrightarrow> rank a < n"
    and "\<And>xs. set (order xs) = set xs"
    and "memo_ok E M ts" and "set (dkeys ts) = N" and "set ps \<subseteq> N"
  shows "\<exists>ts'. GetTargetsDependingOn n order ps ts = Inr (filter (reaches E M) ps, ts') \<and> same_but_status ts ts'"
proof -
  let ?f = "\<lambda>(found, targets) target. res_bind (DoesTargetDependOn n order target targets) (\<lambda>(b, targets').
         Inr (if b then found @ [target] else found, targets'))"
  have "\<exists>ts'. foldM ?f (acc, ts) ps = Inr (acc @ filter (reaches E M) ps, ts') \<and> same_but_status ts ts'" for acc
    using assms(4-)
  proof (induction ps arbitrary: acc ts)
    case (Cons p ps)
    have p: "p \<in> N" using Cons.prems(3) by simp
    from DoesTargetDependOn_correct [OF assms(1,3) Cons.prems(1,2) p assms(2) [OF p]]
    obtain ts1 where 1: "DoesTargetDependOn n order p ts = Inr (reaches E M p, ts1)" "memo_ok E M ts1" "same_but_status ts ts1"
      by blast
    have "set (dkeys ts1) = N" using 1(3) Cons.prems(2) by (simp add: same_but_status_def)
    then obtain ts2 where "foldM ?f (if reaches E M p then acc @ [p] else acc, ts1) ps
        = Inr ((if reaches E M p then acc @ [p] else acc) @ filter (reaches E M) ps, ts2)" "same_but_status ts1 ts2"
      using Cons.IH [OF 1(2)] Cons.prems(3) by (meson order_trans set_subset_Cons)
    then show ?case using 1(1) same_but_status_trans [OF 1(3)] by auto
  qed simp
  from this [of "[]"] show ?thesis by (simp add: GetTargetsDependingOn_def)
qed

section \<open>The targets to build\<close>

text \<open>
  What does not change: who depends on whom, and what kind of targets they are. \<open>B\<close> leads from a
  target to those that depend on it; \<open>marked\<close> says of the finished targets \<open>F\<close> and the result what
  they mean, while the targets \<open>A\<close> are on the stack.
\<close>

definition bt_static :: "(string \<times> string) set \<Rightarrow> (string \<Rightarrow> bool) \<Rightarrow> (string \<Rightarrow> bool) \<Rightarrow> atargets \<Rightarrow> bool" where
  "bt_static B ex rq T \<longleftrightarrow> (\<forall>n. set (at_back_deps (target_at T n)) = B `` {n}
     \<and> at_is_executable (target_at T n) = ex n \<and> at_requires_build (target_at T n) = rq n)"

definition bt_result :: "(string \<times> string) set \<Rightarrow> string set \<Rightarrow> (string \<Rightarrow> bool) \<Rightarrow> (string \<Rightarrow> bool) \<Rightarrow> string set \<Rightarrow> string set \<Rightarrow> bool" where
  "bt_result B R ex rq F res \<longleftrightarrow> res \<subseteq> F \<and> (\<forall>u\<in>res. reaches B R u)
     \<and> (\<forall>u\<in>F. reaches B R u \<and> ex u \<longrightarrow> u \<in> res)
     \<and> (\<forall>u\<in>F. reaches B R u \<and> rq u \<longrightarrow> reaches B res u)
     \<and> (\<forall>u\<in>res. \<not> ex u \<longrightarrow> (\<forall>v\<in>res. (u, v) \<notin> B\<^sup>+))"

definition bt_inv :: "(string \<times> string) set \<Rightarrow> string set \<Rightarrow> (string \<Rightarrow> bool) \<Rightarrow> (string \<Rightarrow> bool) \<Rightarrow> string set \<Rightarrow> string set \<Rightarrow> atargets \<times> string list \<Rightarrow> bool" where
  "bt_inv B R ex rq A F = (\<lambda>(T, res). bt_static B ex rq T \<and> bt_result B R ex rq F (set res)
     \<and> {n. at_visited (target_at T n)} = F \<union> A \<and> F \<inter> A = {} \<and> B `` F \<subseteq> F
     \<and> (\<forall>n\<in>F. (at_in_roots (target_at T n) \<longleftrightarrow> reaches B R n) \<and> (at_added_to_compile_targets (target_at T n) \<longleftrightarrow> reaches B (set res) n))
     \<and> (\<forall>n. n \<notin> F \<union> A \<longrightarrow> \<not> at_added_to_compile_targets (target_at T n)))"

text \<open>A call leaves the targets on the stack alone.\<close>

definition bt_frame :: "string set \<Rightarrow> atargets \<Rightarrow> atargets \<Rightarrow> bool" where
  "bt_frame A T T' \<longleftrightarrow> (\<forall>a\<in>A. target_at T' a = target_at T a)"

lemma reaches_closed: "B `` F \<subseteq> F \<Longrightarrow> n \<in> F \<Longrightarrow> reaches B S n \<longleftrightarrow> reaches B (S \<inter> F) n"
proof -
  assume "B `` F \<subseteq> F" and n: "n \<in> F"
  then have "(n, m) \<in> B\<^sup>* \<Longrightarrow> m \<in> F" for m by (metis Image_closed_trancl ImageI)
  then show ?thesis by (auto simp: reaches_def)
qed

text \<open>Entering a target puts it on the stack; what is noted of it there changes nothing else; leaving
  it, the result may have grown by it.\<close>

lemma bt_enter:
  assumes "bt_inv B R ex rq A F (T, res)" and "\<not> at_visited (target_at T t)"
    and "T' = set_target t (\<lambda>x. x\<lparr>at_visited := True, at_in_roots := r x\<rparr>) T"
  shows "bt_inv B R ex rq (insert t A) F (T', res)" and "t \<notin> F" and "t \<notin> A" and "bt_frame A T T'"
    and "\<not> at_added_to_compile_targets (target_at T' t)"
proof -
  show t: "t \<notin> F" "t \<notin> A" using assms(1,2) by (auto simp: bt_inv_def)
  then show "bt_inv B R ex rq (insert t A) F (T', res)" "bt_frame A T T'" "\<not> at_added_to_compile_targets (target_at T' t)"
    using assms(1) unfolding assms(3) by (auto simp: bt_inv_def bt_static_def bt_frame_def)
qed

lemma bt_note:
  assumes "bt_inv B R ex rq (insert t A) F (T, res)"
  shows "bt_inv B R ex rq (insert t A) F (set_target t (\<lambda>x. x\<lparr>at_added_to_compile_targets := p x, at_in_roots := q x\<rparr>) T, res)"
  using assms by (auto simp: bt_inv_def bt_static_def)

lemma reaches_insert_outside: "B `` F \<subseteq> F \<Longrightarrow> n \<in> F \<Longrightarrow> t \<notin> F \<Longrightarrow> reaches B (insert t S) n \<longleftrightarrow> reaches B S n"
  using reaches_closed [of B F n "insert t S"] reaches_closed [of B F n S] by simp

lemma bt_result_insert:
  assumes "bt_result B R ex rq F res" and "B `` F \<subseteq> F" and "t \<notin> F" and "B `` {t} \<subseteq> F"
    and "reaches B R t" and "\<not> ex t \<Longrightarrow> \<not> reaches B res t"
  shows "bt_result B R ex rq (insert t F) (insert t res)"
proof -
  have 1: "(u, t) \<notin> B\<^sup>*" if "u \<in> F" for u using that assms(2,3) by (metis Image_closed_trancl ImageI)
  then have 2: "(u, t) \<notin> B\<^sup>+" if "u \<in> F" for u using that by (meson trancl_into_rtrancl)
  have 3: "(t, t) \<notin> B\<^sup>+"
  proof
    assume "(t, t) \<in> B\<^sup>+"
    then obtain b where "(t, b) \<in> B" "(b, t) \<in> B\<^sup>*" by (meson tranclD)
    then show False using 1 assms(4) by auto
  qed
  have 4: "reaches B res u \<Longrightarrow> reaches B (insert t res) u" for u by (auto simp: reaches_def)
  have 5: "reaches B (insert t res) t" by (auto simp: reaches_def)
  have 6: "\<not> ex t \<Longrightarrow> v \<in> res \<Longrightarrow> (t, v) \<notin> B\<^sup>+" for v using assms(6) by (auto simp: reaches_def dest: trancl_into_rtrancl)
  show ?thesis using assms(1,5) 2 3 4 5 6 unfolding bt_result_def by blast
qed

lemma bt_result_skip:
  assumes "bt_result B R ex rq F res" and "B `` F \<subseteq> F" and "t \<notin> F"
    and "reaches B R t \<Longrightarrow> \<not> ex t \<and> (rq t \<longrightarrow> reaches B res t)"
  shows "bt_result B R ex rq (insert t F) res"
  using assms unfolding bt_result_def by blast

lemma bt_leave:
  assumes inv: "bt_inv B R ex rq (insert t A) F (T, res)" and "t \<notin> F" "t \<notin> A" "B `` {t} \<subseteq> F"
    and x: "at_in_roots (target_at T t) \<longleftrightarrow> reaches B R t" "at_added_to_compile_targets (target_at T t) \<longleftrightarrow> reaches B (set res) t"
    and add: "add \<longleftrightarrow> reaches B R t \<and> (ex t \<or> \<not> reaches B (set res) t \<and> (flag \<or> rq t))"
    and T': "T' = (if add then set_target t (\<lambda>x. x\<lparr>at_added_to_compile_targets := True\<rparr>) T else T)"
    and res': "res' = (if add then add_new res t else res)"
  shows "bt_inv B R ex rq A (insert t F) (T', res')" and "bt_frame A T T'"
    and "set res \<subseteq> set res'" and "set res' \<inter> F \<subseteq> set res"
proof -
  have F: "B `` F \<subseteq> F" "bt_result B R ex rq F (set res)" using inv by (auto simp: bt_inv_def)
  have s: "set res' = (if add then insert t (set res) else set res)" by (simp add: res')
  show "set res \<subseteq> set res'" "set res' \<inter> F \<subseteq> set res" using assms(2) by (auto simp: s)
  show "bt_frame A T T'" using assms(3) by (auto simp: bt_frame_def T')
  have r: "bt_result B R ex rq (insert t F) (set res')"
    using bt_result_insert [OF F(2,1) assms(2,4)] bt_result_skip [OF F(2,1) assms(2)] add by (auto simp: s)
  have n: "reaches B (set res') n \<longleftrightarrow> reaches B (set res) n" if "n \<in> F" for n
    using reaches_insert_outside [OF F(1) that assms(2)] by (simp add: s)
  have t: "reaches B (set res') t \<longleftrightarrow> add \<or> reaches B (set res) t" by (auto simp: s reaches_def)
  show "bt_inv B R ex rq A (insert t F) (T', res')"
    using inv r n t x assms(2-4) by (auto simp: bt_inv_def bt_static_def T')
qed

text \<open>What a call for the target \<open>t\<close> has done when it returns.\<close>

definition bt_post :: "(string \<times> string) set \<Rightarrow> string set \<Rightarrow> (string \<Rightarrow> bool) \<Rightarrow> (string \<Rightarrow> bool) \<Rightarrow> string set \<Rightarrow> string set \<Rightarrow> string set
    \<Rightarrow> atargets \<times> string list \<Rightarrow> atargets \<times> string list \<Rightarrow> bool" where
  "bt_post B R ex rq A F F' s s' \<longleftrightarrow> bt_inv B R ex rq A F' s' \<and> bt_frame A (fst s) (fst s') \<and> F \<subseteq> F'
     \<and> set (snd s) \<subseteq> set (snd s') \<and> set (snd s') \<inter> F \<subseteq> set (snd s)"

definition bt_body :: "(string \<Rightarrow> atargets \<times> string list \<Rightarrow> (atargets \<times> string list) res) \<Rightarrow> string
    \<Rightarrow> atargets \<times> string list \<Rightarrow> string \<Rightarrow> (atargets \<times> string list) res" where
  "bt_body call t s b =
     res_bind (call b s) (\<lambda>(targets, result).
       let x = target_at targets b
       in Inr (set_target t (\<lambda>y. y\<lparr>at_added_to_compile_targets := at_added_to_compile_targets y \<or> at_added_to_compile_targets x,
            at_in_roots := at_in_roots y \<or> at_in_roots x\<rparr>) targets, result))"

lemma bt_post_reaches:
  assumes "bt_post B R ex rq A F F' s s'" and "B `` F \<subseteq> F" and "b \<in> F"
  shows "reaches B (set (snd s')) b \<longleftrightarrow> reaches B (set (snd s)) b"
proof -
  have "set (snd s') \<inter> F = set (snd s) \<inter> F" using assms(1) by (auto simp: bt_post_def)
  then show ?thesis using reaches_closed [OF assms(2,3)] by metis
qed

lemma bt_fold:
  assumes call: "\<And>b s F. b \<in> set bs \<Longrightarrow> bt_inv B R ex rq (insert t A) F s \<Longrightarrow>
      \<exists>s'. call b s = Inr s' \<and> bt_post B R ex rq (insert t A) F (F \<union> B\<^sup>* `` {b}) s s'"
    and "t \<notin> A" and "bt_inv B R ex rq (insert t A) F (T, res)"
    and "at_in_roots (target_at T t) \<longleftrightarrow> rt" and "\<not> at_added_to_compile_targets (target_at T t)"
  shows "\<exists>T' res'. foldM (bt_body call t) (T, res) bs = Inr (T', res')
     \<and> bt_inv B R ex rq (insert t A) (F \<union> B\<^sup>* `` set bs) (T', res') \<and> bt_frame A T T'
     \<and> set res \<subseteq> set res' \<and> set res' \<inter> F \<subseteq> set res
     \<and> (at_in_roots (target_at T' t) \<longleftrightarrow> rt \<or> (\<exists>b\<in>set bs. reaches B R b))
     \<and> (at_added_to_compile_targets (target_at T' t) \<longleftrightarrow> (\<exists>b\<in>set bs. reaches B (set res') b))"
  using call
proof (induction bs rule: rev_induct)
  case Nil
  then show ?case using assms(3-5) by (simp add: bt_frame_def)
next
  case (snoc b bs)
  let ?F = "F \<union> B\<^sup>* `` set bs" and ?F' = "F \<union> B\<^sup>* `` set (bs @ [b])"
  from snoc obtain T1 res1 where 1: "foldM (bt_body call t) (T, res) bs = Inr (T1, res1)"
    "bt_inv B R ex rq (insert t A) ?F (T1, res1)" "bt_frame A T T1" "set res \<subseteq> set res1" "set res1 \<inter> F \<subseteq> set res"
    "at_in_roots (target_at T1 t) \<longleftrightarrow> rt \<or> (\<exists>b\<in>set bs. reaches B R b)"
    "at_added_to_compile_targets (target_at T1 t) \<longleftrightarrow> (\<exists>b\<in>set bs. reaches B (set res1) b)"
    by auto
  have F': "?F \<union> B\<^sup>* `` {b} = ?F'" by auto
  obtain T2 res2 where 2: "call b (T1, res1) = Inr (T2, res2)" "bt_post B R ex rq (insert t A) ?F ?F' (T1, res1) (T2, res2)"
    using snoc.prems [OF _ 1(2), of b] F' by auto
  let ?x = "target_at T2 b"
  define T3 where "T3 = set_target t (\<lambda>y. y\<lparr>at_added_to_compile_targets := at_added_to_compile_targets y \<or> at_added_to_compile_targets ?x,
            at_in_roots := at_in_roots y \<or> at_in_roots ?x\<rparr>) T2"
  note post = 2(2) [unfolded bt_post_def fst_conv snd_conv]
  have inv2: "bt_inv B R ex rq (insert t A) ?F' (T2, res2)" using post by simp
  have inv3: "bt_inv B R ex rq (insert t A) ?F' (T3, res2)" unfolding T3_def by (rule bt_note [OF inv2])
  have b: "b \<in> ?F'" by auto
  have x: "at_in_roots ?x \<longleftrightarrow> reaches B R b" "at_added_to_compile_targets ?x \<longleftrightarrow> reaches B (set res2) b"
    using inv2 b by (auto simp: bt_inv_def)
  have t: "target_at T2 t = target_at T1 t" using post by (auto simp: bt_frame_def)
  have cl: "B `` ?F \<subseteq> ?F" using 1(2) by (auto simp: bt_inv_def)
  have same: "reaches B (set res2) c \<longleftrightarrow> reaches B (set res1) c" if "c \<in> set bs" for c
    using bt_post_reaches [OF 2(2) cl, of c] that by auto
  have "bt_frame A T T3" using 1(3) post assms(2) by (auto simp: bt_frame_def T3_def)
  moreover have "at_in_roots (target_at T3 t) \<longleftrightarrow> rt \<or> (\<exists>c\<in>set (bs @ [b]). reaches B R c)"
    using 1(6) x t by (auto simp: T3_def)
  moreover have "at_added_to_compile_targets (target_at T3 t) \<longleftrightarrow> (\<exists>c\<in>set (bs @ [b]). reaches B (set res2) c)"
    using 1(7) x t same by (auto simp: T3_def)
  moreover have "foldM (bt_body call t) (T, res) (bs @ [b]) = Inr (T3, res2)"
    using 1(1) 2(1) by (simp add: foldM_append bt_body_def [of call t "(T1, res1)"] Let_def T3_def)
  moreover have "set res \<subseteq> set res2" "set res2 \<inter> F \<subseteq> set res" using 1(4,5) post by auto
  ultimately show ?case using inv3 by blast
qed

lemma AddBuildTargets_Suc:
  "AddBuildTargets (Suc n) order roots t flag (T, res) =
     (if at_visited (target_at T t) then Inr (T, res)
      else res_bind (foldM (bt_body (\<lambda>b. AddBuildTargets n order roots b False) t)
             (set_target t (\<lambda>x. x\<lparr>at_visited := True, at_in_roots := (at_back_deps x = [] \<and> t \<in> set roots)\<rparr>) T, res)
             (order (at_back_deps (target_at T t)))) (\<lambda>(T', res').
           let x = target_at T' t;
               add = (at_in_roots x \<and> (at_is_executable x \<or> (\<not> at_added_to_compile_targets x \<and> (flag \<or> at_requires_build x))))
           in Inr (if add then set_target t (\<lambda>x. x\<lparr>at_added_to_compile_targets := True\<rparr>) T' else T',
                   if add then add_new res' t else res')))"
proof -
  have body: "bt_body (\<lambda>b. AddBuildTargets n order roots b False) t = (\<lambda>s b. res_bind (AddBuildTargets n order roots b False s)
      (\<lambda>(targets, result). let x = target_at targets b
       in Inr (set_target t (\<lambda>y. y\<lparr>at_added_to_compile_targets := at_added_to_compile_targets y \<or> at_added_to_compile_targets x,
            at_in_roots := at_in_roots y \<or> at_in_roots x\<rparr>) targets, result)))"
    by (intro ext) (simp add: bt_body_def)
  show ?thesis unfolding body by (auto simp: Let_def intro!: arg_cong2 [where f = res_bind] ext)
qed

lemma reaches_back: "reaches B S t \<longleftrightarrow> t \<in> S \<or> (\<exists>b\<in>B `` {t}. reaches B S b)"
  unfolding reaches_def by (auto elim: converse_rtranclE intro: converse_rtrancl_into_rtrancl)

lemma rtrancl_image_step: "B\<^sup>* `` {t} = insert t (B\<^sup>* `` (B `` {t}))"
  by (auto elim: converse_rtranclE intro: converse_rtrancl_into_rtrancl)

lemma bt_inv_back: "bt_inv B R ex rq A F (T, res) \<Longrightarrow> set (at_back_deps (target_at T t)) = B `` {t}"
  by (simp add: bt_inv_def bt_static_def)

lemma AddBuildTargets_correct:
  assumes "\<And>a b. a \<in> N \<Longrightarrow> (a, b) \<in> B \<Longrightarrow> rank b < rank a \<and> b \<in> N" and "\<And>xs. set (order xs) = set xs"
    and roots: "\<And>r. r \<in> set roots \<Longrightarrow> B `` {r} = {}"
    and "bt_inv B (set roots) ex rq A F (T, res)" and "t \<in> N" and "rank t < n" and "\<forall>a\<in>A. (rank t :: nat) < rank a"
  shows "\<exists>s'. AddBuildTargets n order roots t flag (T, res) = Inr s'
    \<and> bt_post B (set roots) ex rq A F (F \<union> B\<^sup>* `` {t}) (T, res) s'"
  using assms(4-)
proof (induction n arbitrary: t T res A F flag)
  case (Suc n)
  let ?R = "set roots" and ?bs = "order (at_back_deps (target_at T t))"
  let ?inv = "bt_inv B ?R ex rq"
  have bs: "set ?bs = B `` {t}" using Suc.prems(1) assms(2) by (simp add: bt_inv_def bt_static_def)
  show ?case
  proof (cases "at_visited (target_at T t)")
    case True
    then have "t \<in> F" using Suc.prems(1,4) by (auto simp: bt_inv_def)
    moreover have "B `` F \<subseteq> F" using Suc.prems(1) by (simp add: bt_inv_def)
    ultimately have "F \<union> B\<^sup>* `` {t} = F" by (auto dest: Image_closed_trancl)
    then show ?thesis using True Suc.prems(1) by (simp add: AddBuildTargets_Suc bt_post_def bt_frame_def del: AddBuildTargets.simps)
  next
    case False
    define T0 where "T0 = set_target t (\<lambda>x. x\<lparr>at_visited := True, at_in_roots := (at_back_deps x = [] \<and> t \<in> set roots)\<rparr>) T"
    note e = bt_enter [OF Suc.prems(1) False T0_def]
    let ?call = "\<lambda>b. AddBuildTargets n order roots b False"
    have call: "\<exists>s'. ?call b s = Inr s' \<and> bt_post B ?R ex rq (insert t A) F (F \<union> B\<^sup>* `` {b}) s s'"
      if "b \<in> set ?bs" "?inv (insert t A) F s" for b s F
    proof -
      have b: "rank b < rank t" "b \<in> N" using that(1) bs assms(1) Suc.prems(2) by auto
      obtain T' res' where s: "s = (T', res')" by (cases s)
      show ?thesis unfolding s using b that(2) s Suc.prems(3,4) by (intro Suc.IH) auto
    qed
    have bk: "at_back_deps (target_at T t) = [] \<longleftrightarrow> B `` {t} = {}"
      using bt_inv_back [OF Suc.prems(1), of t] by (metis set_empty)
    have r0: "at_in_roots (target_at T0 t) \<longleftrightarrow> B `` {t} = {} \<and> t \<in> ?R" by (simp add: T0_def bk)
    obtain T1 res1 where 1: "foldM (bt_body ?call t) (T0, res) ?bs = Inr (T1, res1)"
      "?inv (insert t A) (F \<union> B\<^sup>* `` set ?bs) (T1, res1)" "bt_frame A T0 T1" "set res \<subseteq> set res1" "set res1 \<inter> F \<subseteq> set res"
      "at_in_roots (target_at T1 t) \<longleftrightarrow> (B `` {t} = {} \<and> t \<in> ?R) \<or> (\<exists>b\<in>set ?bs. reaches B ?R b)"
      "at_added_to_compile_targets (target_at T1 t) \<longleftrightarrow> (\<exists>b\<in>set ?bs. reaches B (set res1) b)"
      using bt_fold [OF call e(3,1) r0 e(5)] by blast
    let ?F = "F \<union> B\<^sup>* `` set ?bs"
    have F': "insert t ?F = F \<union> B\<^sup>* `` {t}" using rtrancl_image_step [of B t] bs by auto
    have tF: "t \<notin> ?F" "B `` {t} \<subseteq> ?F" "set res1 \<subseteq> ?F" using 1(2) bs by (auto simp: bt_inv_def bt_result_def)
    have x: "at_in_roots (target_at T1 t) \<longleftrightarrow> reaches B ?R t"
      "at_added_to_compile_targets (target_at T1 t) \<longleftrightarrow> reaches B (set res1) t"
      using 1(6,7) bs roots tF(1,3) by (auto simp: reaches_back [of B _ t])
    have st: "at_is_executable (target_at T1 t) = ex t" "at_requires_build (target_at T1 t) = rq t"
      using 1(2) by (auto simp: bt_inv_def bt_static_def)
    define add where "add \<longleftrightarrow> reaches B ?R t \<and> (ex t \<or> \<not> reaches B (set res1) t \<and> (flag \<or> rq t))"
    note l = bt_leave [OF 1(2) tF(1) e(3) tF(2) x add_def refl refl]
    have "AddBuildTargets (Suc n) order roots t flag (T, res) =
        Inr (if add then set_target t (\<lambda>x. x\<lparr>at_added_to_compile_targets := True\<rparr>) T1 else T1, if add then add_new res1 t else res1)"
      unfolding AddBuildTargets_Suc T0_def [symmetric] using False 1(1) by (simp add: x st add_def Let_def)
    moreover have "bt_frame A T (if add then set_target t (\<lambda>x. x\<lparr>at_added_to_compile_targets := True\<rparr>) T1 else T1)"
      using e(4) 1(3) l(2) by (simp add: bt_frame_def)
    ultimately show ?thesis using l(1,3,4) 1(4,5) unfolding bt_post_def F' by fastforce
  qed
qed simp

lemma GetBuildTargets_inv:
  assumes "\<And>a b. a \<in> N \<Longrightarrow> (a, b) \<in> B \<Longrightarrow> rank b < rank a \<and> b \<in> N" and "\<And>xs. set (order xs) = set xs"
    and "\<And>r. r \<in> set roots \<Longrightarrow> B `` {r} = {}" and "\<And>a. a \<in> N \<Longrightarrow> (rank a :: nat) < n"
    and "bt_inv B (set roots) ex rq {} F s" and "set ms \<subseteq> N"
  shows "\<exists>s'. foldM (\<lambda>st target. AddBuildTargets n order roots target True st) s ms = Inr s'
    \<and> bt_inv B (set roots) ex rq {} (F \<union> B\<^sup>* `` set ms) s'"
  using assms(5-)
proof (induction ms arbitrary: F s)
  case (Cons m ms)
  obtain T res where s: "s = (T, res)" by (cases s)
  obtain s1 where 1: "AddBuildTargets n order roots m True s = Inr s1" "bt_inv B (set roots) ex rq {} (F \<union> B\<^sup>* `` {m}) s1"
  proof -
    have "\<exists>s'. AddBuildTargets n order roots m True (T, res) = Inr s'
        \<and> bt_post B (set roots) ex rq {} F (F \<union> B\<^sup>* `` {m}) (T, res) s'"
      using Cons.prems assms(4) s by (intro AddBuildTargets_correct [OF assms(1-3)]) auto
    then show thesis using that by (auto simp: s bt_post_def)
  qed
  have "F \<union> B\<^sup>* `` {m} \<union> B\<^sup>* `` set ms = F \<union> B\<^sup>* `` set (m # ms)" by auto
  then show ?case using Cons.IH [OF 1(2)] Cons.prems(2) 1(1) by simp
qed simp

section \<open>Correctness of the parts\<close>

text \<open>The targets found, those a change affects, and those that are built anyway by some root.\<close>

definition found_targets :: "gen_input \<Rightarrow> string list \<Rightarrow> string set" where
  "found_targets inp target_list = (an_edges inp)\<^sup>* `` set target_list"

definition affected :: "gen_input \<Rightarrow> string list \<Rightarrow> string \<Rightarrow> bool" where
  "affected inp target_list t \<longleftrightarrow> reaches (an_edges inp) {m \<in> found_targets inp target_list. changed inp m} t"

definition is_root :: "gen_input \<Rightarrow> string list \<Rightarrow> string \<Rightarrow> bool" where
  "is_root inp target_list t \<longleftrightarrow> t \<in> found_targets inp target_list \<and> in_build_files inp t
     \<and> (\<forall>t'\<in>found_targets inp target_list. (t', t) \<notin> an_edges inp)"

definition below_root :: "gen_input \<Rightarrow> string list \<Rightarrow> string \<Rightarrow> bool" where
  "below_root inp target_list t \<longleftrightarrow> (\<exists>r. is_root inp target_list r \<and> (r, t) \<in> (an_edges inp)\<^sup>*)"

text \<open>A set of targets to build: all of them are affected and below a root; the executables among
  those are in it; every one that needs a build is built by some target of the set; and a target
  that is no executable is in it only when no other target of the set builds it.\<close>

definition build_set :: "gen_input \<Rightarrow> string list \<Rightarrow> string set \<Rightarrow> bool" where
  "build_set inp target_list S \<longleftrightarrow>
     (\<forall>u\<in>S. u \<in> found_targets inp target_list \<and> affected inp target_list u \<and> below_root inp target_list u)
     \<and> (\<forall>u\<in>found_targets inp target_list. affected inp target_list u \<and> below_root inp target_list u \<longrightarrow>
          (executable_target inp u \<longrightarrow> u \<in> S) \<and> (needs_build inp u \<longrightarrow> (\<exists>v\<in>S. (v, u) \<in> (an_edges inp)\<^sup>*)))
     \<and> (\<forall>u\<in>S. \<not> executable_target inp u \<longrightarrow> (\<forall>v\<in>S. (v, u) \<notin> (an_edges inp)\<^sup>+))"

lemma found_closed: "t \<in> found_targets inp names \<Longrightarrow> (t, d) \<in> (an_edges inp)\<^sup>* \<Longrightarrow> d \<in> found_targets inp names"
  by (auto simp: found_targets_def intro: rtrancl_trans)

text \<open>The links among the targets found, in both directions.\<close>

definition down_links :: "gen_input \<Rightarrow> string list \<Rightarrow> (string \<times> string) set" where
  "down_links inp names = {(a, b). (a, b) \<in> an_edges inp \<and> a \<in> found_targets inp names}"

lemma down_links_sub: "down_links inp names \<subseteq> an_edges inp"
  by (auto simp: down_links_def)

lemma down_rtrancl:
  assumes "t \<in> found_targets inp names"
  shows "(t, d) \<in> (down_links inp names)\<^sup>* \<longleftrightarrow> (t, d) \<in> (an_edges inp)\<^sup>*"
proof
  show "(t, d) \<in> (down_links inp names)\<^sup>* \<Longrightarrow> (t, d) \<in> (an_edges inp)\<^sup>*"
    using rtrancl_mono [OF down_links_sub] by blast
  assume "(t, d) \<in> (an_edges inp)\<^sup>*"
  then show "(t, d) \<in> (down_links inp names)\<^sup>*"
  proof (induction rule: rtrancl_induct)
    case (step y z)
    then have "(y, z) \<in> down_links inp names" using found_closed [OF assms step(1)] by (simp add: down_links_def)
    with step show ?case by (meson rtrancl_into_rtrancl)
  qed simp
qed

lemma up_rtrancl:
  assumes "a \<in> found_targets inp names"
  shows "(a, b) \<in> ((down_links inp names)\<inverse>)\<^sup>* \<longleftrightarrow> b \<in> found_targets inp names \<and> (b, a) \<in> (an_edges inp)\<^sup>*"
proof
  assume "(a, b) \<in> ((down_links inp names)\<inverse>)\<^sup>*"
  then have d: "(b, a) \<in> (down_links inp names)\<^sup>*" by (simp add: rtrancl_converse)
  then have "b \<in> found_targets inp names" using assms by (cases rule: converse_rtranclE) (auto simp: down_links_def)
  then show "b \<in> found_targets inp names \<and> (b, a) \<in> (an_edges inp)\<^sup>*" using d down_rtrancl by blast
next
  assume "b \<in> found_targets inp names \<and> (b, a) \<in> (an_edges inp)\<^sup>*"
  then show "(a, b) \<in> ((down_links inp names)\<inverse>)\<^sup>*" using down_rtrancl by (auto simp: rtrancl_converse)
qed

lemma up_trancl:
  assumes "(b, a) \<in> (an_edges inp)\<^sup>+" and "b \<in> found_targets inp names"
  shows "(a, b) \<in> ((down_links inp names)\<inverse>)\<^sup>+"
proof -
  from assms(1) obtain c where c: "(b, c) \<in> (an_edges inp)\<^sup>*" "(c, a) \<in> an_edges inp" by (meson tranclD2)
  have "(b, c) \<in> (down_links inp names)\<^sup>*" using c(1) by (simp add: down_rtrancl [OF assms(2)])
  moreover have "(c, a) \<in> down_links inp names" using c(2) found_closed [OF assms(2) c(1)] by (simp add: down_links_def)
  ultimately have "(b, a) \<in> (down_links inp names)\<^sup>+" by (rule rtrancl_into_trancl1)
  then show ?thesis by (simp add: trancl_converse)
qed

lemma links_rank:
  assumes "acyclic (an_edges inp)" and "finite (found_targets inp names)"
  obtains rank :: "string \<Rightarrow> nat"
    where "\<And>a b. a \<in> found_targets inp names \<Longrightarrow> (a, b) \<in> down_links inp names \<Longrightarrow> rank b < rank a \<and> b \<in> found_targets inp names"
      and "\<And>a. a \<in> found_targets inp names \<Longrightarrow> rank a < card (found_targets inp names)"
proof -
  let ?N = "found_targets inp names" and ?E = "down_links inp names"
  have ac: "acyclic ?E" by (rule acyclic_subset [OF assms(1) down_links_sub])
  have "d \<in> ?N" if "t \<in> ?N" "(t, d) \<in> ?E\<^sup>*" for t d using that found_closed down_rtrancl by metis
  then have cl: "?E `` ?N \<subseteq> ?N" "?N = ?E\<^sup>* `` ?N" by auto
  obtain rank :: "string \<Rightarrow> nat" where "\<And>a b. a \<in> ?N \<Longrightarrow> (a, b) \<in> ?E \<Longrightarrow> rank b < rank a" "\<And>a. a \<in> ?N \<Longrightarrow> rank a < card ?N"
    using trancl_rank [OF ac assms(2) cl] by metis
  then show thesis using that cl(1) by blast
qed

lemma links_up_rank:
  assumes "acyclic (an_edges inp)" and "finite (found_targets inp names)"
  obtains rank :: "string \<Rightarrow> nat"
    where "\<And>a b. a \<in> found_targets inp names \<Longrightarrow> (a, b) \<in> (down_links inp names)\<inverse> \<Longrightarrow> rank b < rank a \<and> b \<in> found_targets inp names"
      and "\<And>a. a \<in> found_targets inp names \<Longrightarrow> rank a < card (found_targets inp names)"
proof -
  let ?N = "found_targets inp names" and ?B = "(down_links inp names)\<inverse>"
  have ac: "acyclic ?B" using acyclic_subset [OF assms(1) down_links_sub] by simp
  have "d \<in> ?N" if "t \<in> ?N" "(t, d) \<in> ?B\<^sup>*" for t d using that up_rtrancl by metis
  then have cl: "?B `` ?N \<subseteq> ?N" "?N = ?B\<^sup>* `` ?N" by auto
  obtain rank :: "string \<Rightarrow> nat" where "\<And>a b. a \<in> ?N \<Longrightarrow> (a, b) \<in> ?B \<Longrightarrow> rank b < rank a" "\<And>a. a \<in> ?N \<Longrightarrow> rank a < card ?N"
    using trancl_rank [OF ac assms(2) cl] by metis
  then show thesis using that cl(1) by blast
qed

lemma generated_facts:
  assumes "GenerateTargets inp names = Inr (targets, matching, roots)"
  shows "set (dkeys targets) = found_targets inp names" "finite (found_targets inp names)"
    "target_ok inp (found_targets inp names) t (target_at targets t)"
    "set matching = {t \<in> found_targets inp names. changed inp t}" "set roots = {t. is_root inp names t}"
proof -
  note g = GenerateTargets_Inr [OF assms, folded found_targets_def]
  show k: "set (dkeys targets) = found_targets inp names" using g by simp
  show "finite (found_targets inp names)" unfolding k [symmetric] by simp
  show "target_ok inp (found_targets inp names) t (target_at targets t)"
    "set matching = {t \<in> found_targets inp names. changed inp t}" "set roots = {t. is_root inp names t}"
    using g by (auto simp: is_root_def)
qed

lemma search_correct:
  assumes g: "GenerateTargets inp names = Inr (targets, matching, roots)" and "acyclic (an_edges inp)"
    and "\<And>xs. set (order xs) = set xs" and "card (found_targets inp names) \<le> n" and "set ps \<subseteq> found_targets inp names"
  shows "\<exists>targets'. GetTargetsDependingOn n order ps targets = Inr (filter (affected inp names) ps, targets')
    \<and> same_but_status targets targets'"
proof -
  let ?N = "found_targets inp names" and ?E = "down_links inp names" and ?M = "{m \<in> found_targets inp names. changed inp m}"
  note f = generated_facts [OF g]
  obtain rank :: "string \<Rightarrow> nat" where r: "\<And>a b. a \<in> ?N \<Longrightarrow> (a, b) \<in> ?E \<Longrightarrow> rank b < rank a \<and> b \<in> ?N"
    "\<And>a. a \<in> ?N \<Longrightarrow> rank a < card ?N" using links_rank [OF assms(2) f(2)] by metis
  have r': "\<And>a. a \<in> ?N \<Longrightarrow> rank a < n" using r(2) assms(4) by fastforce
  have "memo_ok ?E ?M targets"
    unfolding memo_ok_def using f(3) by (auto simp: target_ok_def down_links_def)
  from GetTargetsDependingOn_filter [OF r(1) r' assms(3) this f(1) assms(5)]
  obtain ts where ts: "GetTargetsDependingOn n order ps targets = Inr (filter (reaches ?E ?M) ps, ts)" "same_but_status targets ts"
    by blast
  have "reaches ?E ?M t \<longleftrightarrow> affected inp names t" if "t \<in> ?N" for t
    by (simp add: affected_def reaches_def down_rtrancl [OF that])
  then have "filter (reaches ?E ?M) ps = filter (affected inp names) ps" using assms(5) by (intro filter_cong) auto
  then show ?thesis using ts by simp
qed

text \<open>The reset of the visited marks.\<close>

definition reset_visited :: "atargets \<Rightarrow> atargets" where
  "reset_visited targets = map (\<lambda>(n, t). (n, t\<lparr>at_visited := False\<rparr>)) targets"

lemma target_at_reset: "target_at (reset_visited targets) t = (target_at targets t)\<lparr>at_visited := False\<rparr>"
  by (induction targets) (auto simp: target_at_def reset_visited_def Target_init_def)

text \<open>What the marks say in terms of the dependencies.\<close>

lemma build_set_of_result:
  assumes res: "bt_result ((down_links inp names)\<inverse>) {t. is_root inp names t} isx isq {u \<in> found_targets inp names. affected inp names u} S"
    and ex: "\<And>u. u \<in> found_targets inp names \<Longrightarrow> isx u \<longleftrightarrow> executable_target inp u"
      "\<And>u. u \<in> found_targets inp names \<Longrightarrow> isq u \<longleftrightarrow> needs_build inp u"
  shows "build_set inp names S"
proof -
  let ?N = "found_targets inp names" and ?B = "(down_links inp names)\<inverse>" and ?R = "{t. is_root inp names t}"
  have rr: "reaches ?B ?R u \<longleftrightarrow> below_root inp names u" if "u \<in> ?N" for u
    using up_rtrancl [OF that] by (auto simp: reaches_def below_root_def is_root_def)
  have rN: "u \<in> ?N" if "u \<in> S" for u using that res by (auto simp: bt_result_def)
  have cover: "reaches ?B S u \<longleftrightarrow> (\<exists>v\<in>S. (v, u) \<in> (an_edges inp)\<^sup>*)" if "u \<in> ?N" for u
    using up_rtrancl [OF that] rN by (auto simp: reaches_def)
  note res = res [unfolded bt_result_def, THEN conjunct1] res [unfolded bt_result_def, THEN conjunct2, THEN conjunct1, rule_format]
    res [unfolded bt_result_def, THEN conjunct2, THEN conjunct2, THEN conjunct1, rule_format]
    res [unfolded bt_result_def, THEN conjunct2, THEN conjunct2, THEN conjunct2, THEN conjunct1, rule_format]
    res [unfolded bt_result_def, THEN conjunct2, THEN conjunct2, THEN conjunct2, THEN conjunct2, rule_format]
  have sound: "u \<in> ?N \<and> affected inp names u \<and> below_root inp names u" if "u \<in> S" for u
    using res(2) [OF that] rr [OF rN [OF that]] subsetD [OF res(1) that] by simp
  have complete: "(executable_target inp u \<longrightarrow> u \<in> S) \<and> (needs_build inp u \<longrightarrow> (\<exists>v\<in>S. (v, u) \<in> (an_edges inp)\<^sup>*))"
    if "u \<in> ?N" "affected inp names u \<and> below_root inp names u" for u
    using that(2) res(3) [of u] res(4) [of u] unfolding rr [OF that(1)] ex [OF that(1)] cover [OF that(1)] by (simp add: that(1))
  have minimal: "(v, u) \<notin> (an_edges inp)\<^sup>+" if "u \<in> S" "\<not> executable_target inp u" "v \<in> S" for u v
  proof
    assume "(v, u) \<in> (an_edges inp)\<^sup>+"
    then have "(u, v) \<in> ?B\<^sup>+" by (rule up_trancl [OF _ rN [OF that(3)]])
    then show False using res(5) [OF that(1) _ that(3)] ex(1) [OF rN [OF that(1)]] that(2) by simp
  qed
  show ?thesis
    unfolding build_set_def by (intro conjI ballI impI) (use sound complete minimal in fast)+
qed

lemma build_correct:
  assumes g: "GenerateTargets inp names = Inr (targets, matching, roots)" and ac: "acyclic (an_edges inp)"
    and "\<And>xs. set (order xs) = set xs" and "card (found_targets inp names) \<le> n" and sb: "same_but_status targets targets1"
  shows "\<exists>T res. GetBuildTargets n order matching roots (reset_visited targets1) = Inr (T, res) \<and> build_set inp names (set res)"
proof -
  let ?N = "found_targets inp names" and ?B = "(down_links inp names)\<inverse>" and ?R = "set roots"
  let ?ex = "\<lambda>t. at_is_executable (target_at targets t)" and ?rq = "\<lambda>t. at_requires_build (target_at targets t)"
  note f = generated_facts [OF g]
  obtain rank :: "string \<Rightarrow> nat" where r: "\<And>a b. a \<in> ?N \<Longrightarrow> (a, b) \<in> ?B \<Longrightarrow> rank b < rank a \<and> b \<in> ?N"
    "\<And>a. a \<in> ?N \<Longrightarrow> rank a < card ?N" using links_up_rank [OF ac f(2)] by metis
  have r': "\<And>a. a \<in> ?N \<Longrightarrow> rank a < n" using r(2) assms(4) by fastforce
  have roots: "?B `` {t} = {}" if "t \<in> ?R" for t using that f(5) by (auto simp: is_root_def down_links_def)
  have same: "target_at targets1 t = (target_at targets t)\<lparr>at_match_status := at_match_status (target_at targets1 t)\<rparr>" for t
    using sb by (simp add: same_but_status_def)
  have x: "target_at (reset_visited targets1) t = (target_at targets t)\<lparr>at_match_status := at_match_status (target_at targets1 t), at_visited := False\<rparr>" for t
    by (subst target_at_reset, subst same) simp
  have ok: "set (at_back_deps (target_at targets t)) = ?B `` {t}" "\<not> at_added_to_compile_targets (target_at targets t)" for t
    using f(3) [of t] by (auto simp: target_ok_def down_links_def)
  have "bt_inv ?B ?R ?ex ?rq {} {} (reset_visited targets1, [])"
    by (simp add: bt_inv_def bt_static_def bt_result_def x ok)
  from GetBuildTargets_inv [OF r(1) assms(3) roots r' this, of matching] f(4)
  obtain s where s: "GetBuildTargets n order matching roots (reset_visited targets1) = Inr s"
    "bt_inv ?B ?R ?ex ?rq {} (?B\<^sup>* `` set matching) s" by (auto simp: GetBuildTargets_def)
  obtain T res where sT: "s = (T, res)" by (cases s)
  have F: "?B\<^sup>* `` set matching = {u \<in> ?N. affected inp names u}"
    by (auto simp: f(4) affected_def reaches_def Image_iff up_rtrancl)
  have ex: "?ex u \<longleftrightarrow> executable_target inp u" "?rq u \<longleftrightarrow> needs_build inp u" if "u \<in> ?N" for u
    using f(3) [of u] that by (auto simp: target_ok_def)
  have "bt_result ?B {t. is_root inp names t} ?ex ?rq {u \<in> ?N. affected inp names u} (set res)"
    using s(2) by (simp add: sT F bt_inv_def f(5))
  then have "build_set inp names (set res)" using ex by (rule build_set_of_result)
  then show ?thesis using s(1) sT by blast
qed

section \<open>The names that were asked for\<close>

lemma dget_unqualified_loop:
  "dget (unqualified_loop names to_find result) c =
     (if c \<in> set to_find then (case List.find (\<lambda>t. unqualified t = c) names of None \<Rightarrow> dget result c | Some t \<Rightarrow> Some t)
      else dget result c)"
proof (induction names arbitrary: to_find result)
  case (Cons t names)
  let ?n = "unqualified t" and ?tf = "filter (\<lambda>n. n \<noteq> unqualified t) to_find"
  have step: "unqualified_loop (t # names) to_find result =
      (if ?n \<in> set to_find then if ?tf = [] then dset result ?n t else unqualified_loop names ?tf (dset result ?n t)
       else unqualified_loop names to_find result)"
    by (simp add: unqualified_def Let_def)
  show ?case
  proof (cases "?n \<in> set to_find")
    case True
    show ?thesis
    proof (cases "?tf = []")
      case tf: True
      then have "\<forall>x\<in>set to_find. x = ?n" unfolding filter_empty_conv by simp
      with True have c: "c \<in> set to_find \<longleftrightarrow> c = ?n" by blast
      have eq: "unqualified_loop (t # names) to_find result = dset result ?n t" by (simp only: step True tf if_True refl)
      show ?thesis unfolding eq by (simp add: c)
    next
      case False
      then have eq: "unqualified_loop (t # names) to_find result = unqualified_loop names ?tf (dset result ?n t)"
        by (simp only: step True if_True if_False)
      show ?thesis unfolding eq using True Cons.IH [of ?tf "dset result ?n t"] by (cases "c = ?n") (simp_all split: option.split)
    qed
  next
    case False
    then have eq: "unqualified_loop (t # names) to_find result = unqualified_loop names to_find result"
      by (simp only: step if_False)
    show ?thesis unfolding eq using False Cons.IH [of to_find result] by (cases "c = ?n") simp_all
  qed
qed simp

lemma wf_unqualified_loop: "wf_dict result \<Longrightarrow> wf_dict (unqualified_loop names to_find result)"
  by (induction names to_find result rule: unqualified_loop.induct) (simp_all add: Let_def)

lemma mapping_get:
  "dget (GetUnqualifiedToTargetMapping targets wanted) c =
     (if c \<in> set wanted then List.find (\<lambda>t. unqualified t = c) (dkeys targets) else None)"
  by (simp add: GetUnqualifiedToTargetMapping_def dget_unqualified_loop split: option.split)

lemma mapping_SomeD:
  assumes "dget (GetUnqualifiedToTargetMapping targets wanted) c = Some t"
  shows "c \<in> set wanted" "t \<in> set (dkeys targets)" "unqualified t = c"
  using assms by (auto simp: mapping_get find_Some_iff split: if_splits)

lemma mapping_None:
  "c \<in> set wanted \<Longrightarrow> \<not> dhas (GetUnqualifiedToTargetMapping targets wanted) c \<longleftrightarrow> \<not> (\<exists>t\<in>set (dkeys targets). unqualified t = c)"
  by (auto simp: dhas_iff_dget mapping_get find_None_iff)

text \<open>Comparing the lengths finds out whether a name is missing.\<close>

lemma invalid_names:
  assumes "distinct wanted" and "set order = set wanted"
    and m_def: "m = GetUnqualifiedToTargetMapping targets wanted"
  shows "(if length m \<noteq> length wanted then NamesNotIn order m else []) = NamesNotIn order m"
proof (cases "length m = length wanted")
  case True
  have wf: "wf_dict m" by (simp add: m_def GetUnqualifiedToTargetMapping_def wf_unqualified_loop)
  have sub: "set (dkeys m) \<subseteq> set wanted" by (auto simp: dkeys_iff_dget m_def dest: mapping_SomeD(1))
  have "card (set (dkeys m)) = card (set wanted)"
    using wf True assms(1) distinct_card [of "dkeys m"] distinct_card [of wanted] by (simp add: wf_dict_def dkeys_def)
  then have "set (dkeys m) = set wanted" using sub by (simp add: card_subset_eq)
  then have "dget m c \<noteq> None" if "c \<in> set order" for c using that assms(2) dkeys_iff_dget [of c m] by simp
  then have "NamesNotIn order m = []" by (auto simp: NamesNotIn_def dhas_iff_dget filter_empty_conv)
  then show ?thesis using True by simp
qed simp

lemma an_edges_decl:
  assumes "wf_dict (gi_target_dicts inp)"
  shows "an_edges inp = decl_edges (gi_target_dicts inp)"
proof -
  have "(t, spec) \<in> set (gi_target_dicts inp) \<longleftrightarrow> dget (gi_target_dicts inp) t = Some spec" for t spec
    using assms wf_dict_dget dget_in_set by metis
  then show ?thesis by (force simp: an_edges_def an_deps_def decl_edges_def split: option.splits)
qed

lemma Config_Init_distinct: "Config_Init env params = Inr (files, wanted) \<Longrightarrow> distinct wanted"
  by (auto simp: Config_Init_def Let_def res_simps split: if_splits json_file.splits pyval.splits option.splits)

lemma build_set_unaffected: "\<forall>t\<in>found_targets inp names. \<not> changed inp t \<Longrightarrow> build_set inp names {}"
  by (auto simp: build_set_def affected_def reaches_def)

lemma set_LookupTargets: "set (LookupTargets names m) = {t. \<exists>c\<in>set names. dget m c = Some t}"
  by (auto simp: LookupTargets_def List.map_filter_def) force

section \<open>The results\<close>

definition an_input :: "an_env \<Rightarrow> (string, pydict) dict \<Rightarrow> (string, pydict) dict \<Rightarrow> an_params \<Rightarrow> string list \<Rightarrow> gen_input" where
  "an_input env target_dicts data params files =
     \<lparr>gi_windows = ae_windows env, gi_data = data, gi_target_dicts = target_dicts,
      gi_toplevel_dir = ToGypPath (ae_windows env) (ae_abspath env (ap_toplevel_dir params)),
      gi_files = files, gi_build_files = ap_build_files params\<rparr>"

text \<open>The names reported: each of them was asked for and names an affected target, and a name that
  was asked for is reported when the targets of this name are affected.\<close>

definition report_ok :: "gen_input \<Rightarrow> string list \<Rightarrow> string list \<Rightarrow> string set \<Rightarrow> bool" where
  "report_ok inp names wanted matched \<longleftrightarrow>
     (\<forall>c\<in>matched. c \<in> set wanted \<and> (\<exists>t\<in>found_targets inp names. unqualified t = c \<and> affected inp names t))
     \<and> (\<forall>c\<in>set wanted. (\<exists>t\<in>found_targets inp names. unqualified t = c)
          \<and> (\<forall>t\<in>found_targets inp names. unqualified t = c \<longrightarrow> affected inp names t) \<longrightarrow> c \<in> matched)"

lemma GenerateTargets_returns:
  assumes "Ball (found_targets inp names) (analyzable inp)"
  obtains targets matching roots where "GenerateTargets inp names = Inr (targets, matching, roots)"
proof -
  obtain st where "generate_loop inp (gen_start names) = Inr st"
    using generate_loop_returns [OF gen_inv_start] assms unfolding found_targets_def by blast
  then show thesis using that by (simp add: GenerateTargets_def gen_start_def)
qed

lemma report_filter:
  assumes "set (dkeys targets) = found_targets inp names" and "set asked = set wanted"
  defines "ps \<equiv> LookupTargets asked (GetUnqualifiedToTargetMapping targets wanted)"
  shows "report_ok inp names wanted (unqualified ` set (filter (affected inp names) ps))" and "set ps \<subseteq> found_targets inp names"
proof -
  let ?m = "GetUnqualifiedToTargetMapping targets wanted"
  have ps: "set ps = {t. \<exists>c\<in>set wanted. dget ?m c = Some t}" unfolding ps_def set_LookupTargets assms(2) ..
  show "set ps \<subseteq> found_targets inp names" using ps assms(1) mapping_SomeD(2) by fastforce
  have get: "\<exists>t. dget ?m c = Some t" if "c \<in> set wanted" "\<exists>t\<in>found_targets inp names. unqualified t = c" for c
    using mapping_None [OF that(1), of targets] that(2) assms(1) by (auto simp: dhas_iff_dget)
  show "report_ok inp names wanted (unqualified ` set (filter (affected inp names) ps))"
    unfolding report_ok_def
  proof (intro conjI ballI impI)
    fix c assume "c \<in> unqualified ` set (filter (affected inp names) ps)"
    then obtain t c' where t: "affected inp names t" "c' \<in> set wanted" "dget ?m c' = Some t" "c = unqualified t" by (auto simp: ps)
    then show "c \<in> set wanted" "\<exists>t\<in>found_targets inp names. unqualified t = c \<and> affected inp names t"
      using mapping_SomeD [OF t(3)] assms(1) by auto
  next
    fix c assume c: "c \<in> set wanted" "(\<exists>t\<in>found_targets inp names. unqualified t = c)
      \<and> (\<forall>t\<in>found_targets inp names. unqualified t = c \<longrightarrow> affected inp names t)"
    then obtain t where t: "dget ?m c = Some t" using get by blast
    then have "t \<in> set ps" "t \<in> found_targets inp names" "unqualified t = c"
      using c(1) mapping_SomeD [OF t] assms(1) by (auto simp: ps)
    then show "c \<in> unqualified ` set (filter (affected inp names) ps)" using c(2) by force
  qed
qed

lemma search_results_correct:
  assumes g: "GenerateTargets inp names = Inr (targets, matching, roots)" and "acyclic (an_edges inp)"
    and ord: "\<And>xs. set (ae_order env xs) = set xs" and "card (found_targets inp names) \<le> ae_limit env"
  shows "\<exists>matched build S. search_results env wanted (GetUnqualifiedToTargetMapping targets wanted) (targets, matching, roots)
      = Inr (matched, build) \<and> report_ok inp names wanted (set matched) \<and> set build = unqualified ` S \<and> build_set inp names S"
proof (cases "matching = []")
  case True
  then have n: "\<forall>t\<in>found_targets inp names. \<not> changed inp t" using generated_facts(4) [OF g] by auto
  then have "report_ok inp names wanted {}" by (auto simp: report_ok_def affected_def reaches_def)
  then show ?thesis using True build_set_unaffected [OF n] by (intro exI [of _ "[]"] exI [of _ "{}"]) (simp add: search_results_def)
next
  case False
  let ?ps = "LookupTargets (ae_order env wanted) (GetUnqualifiedToTargetMapping targets wanted)"
  note r = report_filter [OF generated_facts(1) [OF g] ord]
  obtain ts where 1: "GetTargetsDependingOn (ae_limit env) (ae_order env) ?ps targets = Inr (filter (affected inp names) ?ps, ts)"
    "same_but_status targets ts" using search_correct [OF g assms(2) ord assms(4) r(2)] by blast
  obtain T res where 2: "GetBuildTargets (ae_limit env) (ae_order env) matching roots (reset_visited ts) = Inr (T, res)"
    "build_set inp names (set res)" using build_correct [OF g assms(2) ord assms(4) 1(2)] by blast
  have "search_results env wanted (GetUnqualifiedToTargetMapping targets wanted) (targets, matching, roots)
      = Inr (map unqualified (filter (affected inp names) ?ps), map unqualified (ae_order env res))"
    using False 1(1) 2(1) by (simp add: search_results_def reset_visited_def)
  then show ?thesis using r(1) 2(2) ord by (intro exI conjI) (auto simp: image_set [symmetric])
qed

lemma generate_values_ok:
  assumes "Config_Init env params = Inr (files, wanted)" and "files \<noteq> []"
    and "\<not> WasGypIncludeFileModified (ae_windows env) params files"
    and inp: "inp = an_input env target_dicts data params files"
    and "Ball (found_targets inp names) (analyzable inp)" and "acyclic (an_edges inp)"
    and ord: "\<And>xs. set (ae_order env xs) = set xs" and "card (found_targets inp names) \<le> ae_limit env"
  shows "\<exists>vs matched build S. generate_values env names target_dicts data params = Inr vs
    \<and> av_status vs = Some (if \<exists>t\<in>found_targets inp names. changed inp t then found_dependency_string else no_dependency_string)
    \<and> av_targets vs = Some matched \<and> report_ok inp names wanted (set matched)
    \<and> av_build_targets vs = Some build \<and> set build = unqualified ` S \<and> build_set inp names S
    \<and> set (case av_invalid_targets vs of None \<Rightarrow> [] | Some cs \<Rightarrow> cs)
        = {c \<in> set wanted. \<forall>t\<in>found_targets inp names. unqualified t \<noteq> c}"
proof -
  obtain targets matching roots where g: "GenerateTargets inp names = Inr (targets, matching, roots)"
    by (rule GenerateTargets_returns [OF assms(5)])
  note f = generated_facts [OF g]
  let ?m = "GetUnqualifiedToTargetMapping targets wanted" and ?w = "ae_order env wanted"
  obtain matched build S where s: "search_results env wanted ?m (targets, matching, roots) = Inr (matched, build)"
    "report_ok inp names wanted (set matched)" "set build = unqualified ` S" "build_set inp names S"
    using search_results_correct [OF g assms(6) ord assms(8)] by blast
  let ?inv = "NamesNotIn ?w ?m"
  have inv: "(if length ?m \<noteq> length wanted then NamesNotIn ?w ?m else []) = ?inv"
    using Config_Init_distinct [OF assms(1)] ord by (intro invalid_names) auto
  have inv_set: "set ?inv = {c \<in> set wanted. \<forall>t\<in>found_targets inp names. unqualified t \<noteq> c}"
    using mapping_None [of _ wanted targets] by (auto simp: NamesNotIn_def ord f(1))
  have m: "matching \<noteq> [] \<longleftrightarrow> (\<exists>t\<in>found_targets inp names. changed inp t)"
    using f(4) by (auto simp flip: set_empty)
  define vs where "vs = no_values\<lparr>av_status := Some (if matching \<noteq> [] then found_dependency_string else no_dependency_string),
     av_targets := Some matched, av_build_targets := Some build, av_invalid_targets := (if ?inv = [] then None else Some ?inv)\<rparr>"
  have 1: "generate_values env names target_dicts data params = Inr vs"
    by (simp only: generate_values_def assms(1-3) res_bind_Inr prod.case if_False g [unfolded inp an_input_def] Let_def
        fst_conv snd_conv inv s(1) vs_def)
  have 2: "av_status vs = Some (if \<exists>t\<in>found_targets inp names. changed inp t then found_dependency_string else no_dependency_string)"
    unfolding m [symmetric] by (simp add: vs_def)
  have 3: "set (case av_invalid_targets vs of None \<Rightarrow> [] | Some cs \<Rightarrow> cs) = {c \<in> set wanted. \<forall>t\<in>found_targets inp names. unqualified t \<noteq> c}"
    unfolding inv_set [symmetric] by (simp add: vs_def)
  have 4: "av_targets vs = Some matched" "av_build_targets vs = Some build" by (simp_all add: vs_def)
  show ?thesis by (intro exI conjI) (rule 1 2 3 4 s(2-4))+
qed

section \<open>An example\<close>

text \<open>An executable that uses a library whose source changed.\<close>

definition demo_dicts :: "(string, pydict) dict" where
  "demo_dicts = [(''a.gyp:app#target'', [(''type'', PStr ''executable''), (''dependencies'', PList [PStr ''a.gyp:lib#target''])]),
     (''a.gyp:lib#target'', [(''type'', PStr ''static_library''), (''sources'', PList [PStr ''lib.c''])])]"

definition demo_data :: "(string, pydict) dict" where
  "demo_data = [(''a.gyp'', [(''included_files'', PList [PStr ''a.gyp''])])]"

definition demo_an_env :: an_env where
  "demo_an_env = \<lparr>ae_windows = False, ae_abspath = (\<lambda>p. p), ae_order = (\<lambda>xs. xs), ae_limit = 100,
     ae_load = (\<lambda>_. Parsed (PDict [(''files'', PList [PStr ''lib.c'']), (''targets'', PList [PStr ''app'', PStr ''gone''])])),
     ae_dumps = (\<lambda>_. []), ae_str = (\<lambda>_. []), ae_write = (\<lambda>_. None)\<rparr>"

definition demo_an_params :: an_params where
  "demo_an_params = \<lparr>ap_generator_flags = [(''config_path'', ''config'')], ap_includes = [], ap_toplevel_dir = ''/top'',
     ap_build_files = [''a.gyp'']\<rparr>"

definition demo_inp :: gen_input where
  "demo_inp = an_input demo_an_env demo_dicts demo_data demo_an_params [''lib.c'']"

lemma demo_inp_edges: "an_edges demo_inp = {(''a.gyp:app#target'', ''a.gyp:lib#target'')}"
  by (auto simp: an_edges_def an_deps_def demo_inp_def an_input_def demo_dicts_def decl_deps_def spec_dependencies_def dep_names_def
      split: if_splits)

lemma demo_found: "found_targets demo_inp [''a.gyp:app#target''] = {''a.gyp:app#target'', ''a.gyp:lib#target''}"
proof -
  have "{(a, b)}\<^sup>* `` {a} = {a, b}" for a b :: string
    by (auto elim: rtranclE)
  then show ?thesis by (simp add: found_targets_def demo_inp_edges)
qed

section \<open>Properties\<close>



text \<open>A source outside the tree is taken for one in the top directory: the components of the empty
  path are one empty component.\<close>

lemma ResolveParent_outside: "ResolveParent ''../x.c'' (split_on (CHR ''/'') (dirname ''a.gyp:app#target'')) = ''x.c''"
  by code_simp



end
