(* ===== verification/Gyp_Xml.thy ===== *)
theory Gyp_Xml
  imports Py_Shlex Gyp_Write "HOL-Library.List_Lexorder" "HOL-Library.Char_ord"
begin

text \<open>
  \<open>gyp/easy_xml.py\<close>: XML documents from nested lists, and files that are written only when their
  contents change. Shown here: a reader of XML finds in the document exactly the tags, attributes
  and characters of the nested lists, with the layout of the pretty form as the only addition.
\<close>

section \<open>The model\<close>

definition xml_escape_map :: "(char, string) dict" where
  "xml_escape_map =
     [(CHR 0x22, ''&quot;''), (CHR 0x27, ''&apos;''), (CHR ''<'', ''&lt;''), (CHR ''>'', ''&gt;''), (CHR ''&'', ''&amp;''),
      (CHR 0x0A, ''&#xA;''), (CHR 0x0D, ''&#xD;'')]"

text \<open>The regular expression matches the single characters of the table; \<open>replace\<close> is what a match
  becomes.\<close>

definition xml_replace :: "bool \<Rightarrow> char \<Rightarrow> string" where
  "xml_replace attr m =
     (case dget xml_escape_map m of
        None \<Rightarrow> [m]
      | Some e \<Rightarrow> if attr \<and> m = CHR 0x27 then [m] else e)"

definition XmlEscape :: "bool \<Rightarrow> string \<Rightarrow> string" where
  "XmlEscape attr value = concat (map (xml_replace attr) value)"

text \<open>The items of a specification: a string has its characters.\<close>

fun spec_items :: "pyval \<Rightarrow> pyval list res" where
  "spec_items (PList l) = Inr l"
| "spec_items (PStr s) = Inr (map (\<lambda>c. PStr [c]) s)"
| "spec_items (PDict d) = Inl (KeyError ''0'')"
| "spec_items (PInt i) = Inl (TypeError ''int object has no attribute __getitem__'')"

text \<open>The attributes, if the second item is a dictionary, and the content.\<close>

fun split_attributes :: "pyval list \<Rightarrow> pydict \<times> pyval list" where
  "split_attributes (PDict d # rest) = (d, rest)"
| "split_attributes rest = ([], rest)"

definition xml_attribute :: "string \<times> pyval \<Rightarrow> string res" where
  "xml_attribute = (\<lambda>(at, val).
     res_bind (as_str val) (\<lambda>v. Inr ('' '' @ at @ ''='' @ [CHR 0x22] @ XmlEscape True v @ [CHR 0x22])))"

fun is_str :: "pyval \<Rightarrow> bool" where
  "is_str (PStr s) = True"
| "is_str _ = False"

definition xml_indent :: "bool \<Rightarrow> nat \<Rightarrow> string" where
  "xml_indent pretty level = (if pretty then replicate (2 * level) (CHR '' '') else [])"

definition xml_new_line :: "bool \<Rightarrow> string" where
  "xml_new_line pretty = (if pretty then [nl] else [])"

text \<open>The parts of an element, from those of its attributes and of its content.\<close>

definition element_parts :: "bool \<Rightarrow> nat \<Rightarrow> string \<Rightarrow> string list \<Rightarrow> pyval list \<Rightarrow> string list list \<Rightarrow> string list" where
  "element_parts pretty level name attributes rest children =
     (let indentation = xml_indent pretty level; new_line = xml_new_line pretty;
          multi_line = (\<not> list_all is_str rest)
      in [indentation @ ''<'' @ name] @ attributes @
         (if rest \<noteq> [] then
            [''>''] @ (if multi_line \<and> new_line \<noteq> [] then [new_line] else []) @ concat children
            @ (if multi_line \<and> indentation \<noteq> [] then [indentation] else []) @ [''</'' @ name @ ''>'' @ new_line]
          else [''/>'' @ new_line]))"

function ConstructContentList :: "bool \<Rightarrow> pyval \<Rightarrow> nat \<Rightarrow> string list res" where
  "ConstructContentList pretty specification level =
     res_bind (spec_items specification) (\<lambda>items.
       case items of
         [] \<Rightarrow> Inl IndexError
       | PStr name # rest0 \<Rightarrow>
           (case split_attributes rest0 of (d, rest) \<Rightarrow>
              res_bind (mapM xml_attribute (sort_key fst d)) (\<lambda>attributes.
              res_bind (mapM (\<lambda>child_spec. if is_str child_spec then res_bind (as_str child_spec) (\<lambda>s. Inr [XmlEscape False s])
                          else ConstructContentList pretty child_spec (level + 1)) rest) (\<lambda>children.
                Inr (element_parts pretty level name attributes rest children))))
       | _ \<Rightarrow> Inl (PyException (''The first item of an EasyXml specification should be a string.  Specification was ''
                @ py_str specification)))"
  by pat_completeness auto
termination
proof (relation "measure (\<lambda>(p, s, l). size s)")
  fix pretty :: bool and spec level items item rest0 name d rest child
  assume i: "spec_items spec = Inr items" "items = item # rest0" "(d, rest) = split_attributes rest0"
    and c: "child \<in> set rest" "\<not> is_str child"
  have "set rest \<subseteq> set rest0" using i(3) by (cases rest0 rule: split_attributes.cases) auto
  then have m: "child \<in> set items" using i(2) c(1) by auto
  then obtain l where l: "spec = PList l" "items = l" using i(1) c(2) by (cases spec) auto
  show "((pretty, child, level + 1), pretty, spec, level) \<in> measure (\<lambda>(p, s, l). size s)"
    using size_list_estimation' [OF m order_refl, of size] by (simp add: l)
qed simp

declare ConstructContentList.simps [simp del]

definition XmlToString :: "pyval \<Rightarrow> string \<Rightarrow> bool \<Rightarrow> string res" where
  "XmlToString content encoding pretty =
     res_bind (ConstructContentList pretty content 0) (\<lambda>parts.
       Inr (''<?xml version='' @ [CHR 0x22] @ ''1.0'' @ [CHR 0x22] @ '' encoding='' @ [CHR 0x22] @ encoding @ [CHR 0x22] @ ''?>''
         @ xml_new_line pretty @ concat parts))"

text \<open>\<open>crlf\<close>: \<open>os.linesep\<close> is already the one of Windows. A file that is opened for writing is a
  new one; \<open>mode\<close> is that of a file that was not there.\<close>

definition WriteXmlIfChanged ::
  "bool \<Rightarrow> nat \<Rightarrow> pyval \<Rightarrow> string \<Rightarrow> string \<Rightarrow> bool \<Rightarrow> bool \<Rightarrow> fsys \<Rightarrow> fsys res" where
  "WriteXmlIfChanged crlf mode content path encoding pretty win32 fs =
     res_bind (XmlToString content encoding pretty) (\<lambda>xml_string0.
       let xml_string = (if win32 \<and> \<not> crlf then replace xml_string0 [nl] [CHR 0x0D, nl] else xml_string0);
           existing = map_option f_data (dget (fs_files fs) path)
       in if existing \<noteq> Some xml_string then
            (if path \<in> set (fs_dirs fs) \<or> (dirname path \<noteq> [] \<and> dirname path \<notin> set (fs_dirs fs))
             then Inl (OSError path)
             else Inr (fs\<lparr>fs_files := dset (fs_files fs) path
                    \<lparr>f_data = xml_string, f_mode = (case dget (fs_files fs) path of None \<Rightarrow> mode | Some f \<Rightarrow> f_mode f), f_id = fs_next fs\<rparr>,
                    fs_next := fs_next fs + 1\<rparr>))
          else Inr fs)"

section \<open>A reader of XML\<close>

text \<open>Tags with decoded attributes, and decoded characters one by one. The third part of a start tag
  says whether the element is closed at once.\<close>

datatype xml_token = Open string "(string \<times> string) list" bool | Close string | Char char

definition xml_entities :: "(string \<times> char) list" where
  "xml_entities = [(''quot'', CHR 0x22), (''apos'', CHR 0x27), (''lt'', CHR ''<''), (''gt'', CHR ''>''), (''amp'', CHR ''&''),
     (''#xA'', CHR 0x0A), (''#xD'', CHR 0x0D)]"

definition read_char :: "string \<Rightarrow> (char \<times> string) option" where
  "read_char s =
     (case s of
        [] \<Rightarrow> None
      | c # r \<Rightarrow>
          if c = CHR ''&'' then
            (case map_of xml_entities (takeWhile (\<lambda>x. x \<noteq> CHR '';'') r) of
               None \<Rightarrow> None
             | Some ch \<Rightarrow> (case dropWhile (\<lambda>x. x \<noteq> CHR '';'') r of [] \<Rightarrow> None | _ # r' \<Rightarrow> Some (ch, r')))
          else Some (c, r))"

lemma dropWhile_shorter: "dropWhile P xs = y # ys \<Longrightarrow> length ys < length xs"
  using length_dropWhile_le [of P xs] by simp

lemma read_char_shorter: "read_char s = Some (c, r) \<Longrightarrow> length r < length s"
  by (auto simp: read_char_def split: list.splits if_splits option.splits dest!: dropWhile_shorter)

function unescape :: "string \<Rightarrow> string option" where
  "unescape s =
     (if s = [] then Some []
      else case read_char s of None \<Rightarrow> None | Some (c, r) \<Rightarrow> map_option (\<lambda>cs. c # cs) (unescape r))"
  by pat_completeness auto
termination
  by (relation "measure length") (auto dest: read_char_shorter)

declare unescape.simps [simp del]

definition xml_name_char :: "char \<Rightarrow> bool" where
  "xml_name_char c \<longleftrightarrow> c \<notin> set (CHR 0x22 # CHR 0x27 # CHR 0x0A # CHR 0x0D # CHR 0x09 # '' <>&/=?'')"

definition xml_name :: "string \<Rightarrow> bool" where
  "xml_name n \<longleftrightarrow> n \<noteq> [] \<and> list_all xml_name_char n"

text \<open>The attributes up to the end of the tag.\<close>

function read_attributes :: "string \<Rightarrow> ((string \<times> string) list \<times> bool \<times> string) option" where
  "read_attributes s =
     (case s of
        [] \<Rightarrow> None
      | c # r \<Rightarrow>
          if c = CHR ''>'' then Some ([], False, r)
          else if c = CHR ''/'' then (case r of d # r' \<Rightarrow> if d = CHR ''>'' then Some ([], True, r') else None | _ \<Rightarrow> None)
          else if c \<noteq> CHR '' '' then None
          else
            (case dropWhile xml_name_char r of
               e # q # r2 \<Rightarrow>
                 if e = CHR ''='' \<and> q = CHR 0x22 then
                   (case unescape (takeWhile (\<lambda>x. x \<noteq> CHR 0x22) r2) of
                      None \<Rightarrow> None
                    | Some v \<Rightarrow>
                        (case dropWhile (\<lambda>x. x \<noteq> CHR 0x22) r2 of
                           [] \<Rightarrow> None
                         | _ # r3 \<Rightarrow> map_option (\<lambda>(as, b, r4). ((takeWhile xml_name_char r, v) # as, b, r4)) (read_attributes r3)))
                 else None
             | _ \<Rightarrow> None))"
  by pat_completeness auto
termination
  by (relation "measure length") (auto dest!: dropWhile_shorter)

declare read_attributes.simps [simp del]

lemma read_attributes_shorter: "read_attributes s = Some (as, b, r) \<Longrightarrow> length r < length s"
proof (induction s arbitrary: as b r rule: read_attributes.induct)
  case (1 s)
  show ?case
  proof (cases s)
    case (Cons c q)
    note step = "1.prems" [unfolded read_attributes.simps [of s]]
    show ?thesis
    proof (cases "c = CHR '' ''")
      case True
      then obtain r2 n v r3 y as' where d: "dropWhile xml_name_char q = CHR ''='' # CHR 0x22 # r2"
        "unescape (takeWhile (\<lambda>x. x \<noteq> CHR 0x22) r2) = Some v" "dropWhile (\<lambda>x. x \<noteq> CHR 0x22) r2 = y # r3"
        "read_attributes r3 = Some (as', b, r)"
        using step Cons by (auto split: list.splits if_splits option.splits)
      have "length r < length r3" using "1.IH" [OF Cons _ _ _ d(1) refl _ d(2,3,4)] True by simp
      then show ?thesis using dropWhile_shorter [OF d(1)] dropWhile_shorter [OF d(3)] Cons by simp
    qed (use step Cons in \<open>auto split: list.splits if_splits\<close>)
  qed (use "1.prems" in \<open>simp add: read_attributes.simps\<close>)
qed

lemma read_tag_shorter: "read_attributes (dropWhile P s) = Some (as, b, r) \<Longrightarrow> length r < Suc (length s)"
  using read_attributes_shorter [of "dropWhile P s" as b r] length_dropWhile_le [of P s] by simp

lemma end_tag_shorter: "dropWhile P (tl s) = d # r \<Longrightarrow> length r < Suc (length s)"
  using dropWhile_shorter [of P "tl s" d r] by simp

function read_xml :: "string \<Rightarrow> xml_token list option" where
  "read_xml s =
     (case s of
        [] \<Rightarrow> Some []
      | c # r \<Rightarrow>
          if c \<noteq> CHR ''<'' then
            (case read_char s of None \<Rightarrow> None | Some (ch, r') \<Rightarrow> map_option (\<lambda>ts. Char ch # ts) (read_xml r'))
          else if startswith r ''/'' then
            (case dropWhile xml_name_char (tl r) of
               [] \<Rightarrow> None
             | d # r' \<Rightarrow> if d = CHR ''>'' then map_option (\<lambda>ts. Close (takeWhile xml_name_char (tl r)) # ts) (read_xml r') else None)
          else if takeWhile xml_name_char r = [] then None
          else
            (case read_attributes (dropWhile xml_name_char r) of
               None \<Rightarrow> None
             | Some (as, b, r') \<Rightarrow> map_option (\<lambda>ts. Open (takeWhile xml_name_char r) as b # ts) (read_xml r')))"
  by pat_completeness auto
termination
  by (relation "measure length") (auto dest: read_char_shorter read_tag_shorter end_tag_shorter)

declare read_xml.simps [simp del]

definition read_document :: "string \<Rightarrow> xml_token list option" where
  "read_document s = (if startswith s ''<?xml '' then read_xml (tl (dropWhile (\<lambda>c. c \<noteq> CHR ''>'') s)) else None)"

text \<open>What the reader should find: the tags and the characters of the specification, with the white
  space that the pretty form puts around an element and before the end tag of one that has
  elements inside.\<close>

function spec_tokens :: "bool \<Rightarrow> pyval \<Rightarrow> nat \<Rightarrow> xml_token list" where
  "spec_tokens pretty (PList (PStr name # rest0)) level =
     (case split_attributes rest0 of (d, rest) \<Rightarrow>
        let layout = map Char (xml_indent pretty level); new_line = map Char (xml_new_line pretty)
        in layout @ [Open name (map (\<lambda>(k, v). (k, py_str v)) (sort_key fst d)) (rest = [])]
           @ (if rest = [] then []
              else (if list_all is_str rest then [] else new_line)
                @ concat (map (\<lambda>c. if is_str c then map Char (py_str c) else spec_tokens pretty c (level + 1)) rest)
                @ (if list_all is_str rest then [] else layout) @ [Close name])
           @ new_line)"
| "spec_tokens pretty (PList []) level = []"
| "spec_tokens pretty (PList (PInt i # r)) level = []"
| "spec_tokens pretty (PList (PList i # r)) level = []"
| "spec_tokens pretty (PList (PDict i # r)) level = []"
| "spec_tokens pretty (PStr s) level = []"
| "spec_tokens pretty (PInt i) level = []"
| "spec_tokens pretty (PDict d) level = []"
  by pat_completeness auto
termination
proof (relation "measure (\<lambda>(p, s, l). size s)")
  fix pretty :: bool and name rest0 level d rest layout new_line child
  assume i: "(d, rest) = split_attributes rest0" and c: "child \<in> set rest"
  have "set rest \<subseteq> set rest0" using i by (cases rest0 rule: split_attributes.cases) auto
  then have m: "child \<in> set rest0" using c by auto
  show "((pretty, child, level + 1), pretty, PList (PStr name # rest0), level) \<in> measure (\<lambda>(p, s, l). size s)"
    using size_list_estimation' [OF m order_refl, of size] by simp
qed simp

text \<open>Specifications as the documentation of \<open>XmlToString\<close> has them, with names that XML can read.\<close>

function xml_spec :: "pyval \<Rightarrow> bool" where
  "xml_spec v =
     (case v of
        PList (PStr name # rest0) \<Rightarrow>
          xml_name name \<and> list_all (\<lambda>(k, w). xml_name k \<and> is_str w) (fst (split_attributes rest0))
          \<and> list_all (\<lambda>c. is_str c \<or> xml_spec c) (snd (split_attributes rest0))
      | _ \<Rightarrow> False)"
  by pat_completeness auto
termination
proof (relation "measure size")
  fix v l name rest0 item child
  assume v: "v = PList l" "l = item # rest0" and c: "child \<in> set (snd (split_attributes rest0))"
  have "set (snd (split_attributes rest0)) \<subseteq> set rest0" by (cases rest0 rule: split_attributes.cases) auto
  then have m: "child \<in> set rest0" using c by auto
  show "(child, v) \<in> measure size"
    using size_list_estimation' [OF m order_refl, of size] v by simp
qed simp

declare xml_spec.simps [simp del] spec_tokens.simps [simp del]

section \<open>Reading back\<close>

lemma read_char_replace: "read_char (xml_replace attr c @ s) = Some (c, s)"
proof (cases "dget xml_escape_map c")
  case None
  then have "c \<noteq> CHR ''&''" by (auto simp: xml_escape_map_def)
  then show ?thesis using None by (simp add: xml_replace_def read_char_def)
next
  case (Some e)
  then have "c \<in> {CHR 0x22, CHR 0x27, CHR ''<'', CHR ''>'', CHR ''&'', CHR 0x0A, CHR 0x0D}"
    by (auto simp: xml_escape_map_def split: if_splits)
  then show ?thesis by (auto simp: xml_replace_def xml_escape_map_def read_char_def xml_entities_def)
qed

lemma unescape_XmlEscape: "unescape (XmlEscape attr s) = Some s"
proof (induction s)
  case Nil
  show ?case by (simp add: XmlEscape_def unescape.simps)
next
  case (Cons c s)
  have "XmlEscape attr (c # s) = xml_replace attr c @ XmlEscape attr s" by (simp add: XmlEscape_def)
  moreover have "xml_replace attr c \<noteq> []" by (simp add: xml_replace_def xml_escape_map_def split: option.split)
  ultimately show ?case using Cons by (subst unescape.simps) (simp add: read_char_replace)
qed

lemma xml_replace_chars: "x \<in> set (xml_replace attr c) \<Longrightarrow> x \<notin> {CHR 0x22, CHR ''<'', CHR ''>'', CHR 0x0A}"
proof (cases "dget xml_escape_map c")
  case None
  assume "x \<in> set (xml_replace attr c)"
  then have "x = c" using None by (simp add: xml_replace_def)
  then show ?thesis using None by (auto simp: xml_escape_map_def)
next
  case (Some e)
  assume "x \<in> set (xml_replace attr c)"
  moreover have "c \<in> {CHR 0x22, CHR 0x27, CHR ''<'', CHR ''>'', CHR ''&'', CHR 0x0A, CHR 0x0D}"
    using Some by (auto simp: xml_escape_map_def split: if_splits)
  ultimately show ?thesis by (auto simp: xml_replace_def xml_escape_map_def split: if_splits)
qed

lemma XmlEscape_chars: "x \<in> set (XmlEscape attr s) \<Longrightarrow> x \<notin> {CHR 0x22, CHR ''<'', CHR ''>'', CHR 0x0A}"
  unfolding XmlEscape_def using xml_replace_chars by auto

lemma read_xml_char:
  assumes "read_char s = Some (c, r)" and "hd s \<noteq> CHR ''<''"
  shows "read_xml s = map_option (\<lambda>ts. Char c # ts) (read_xml r)"
proof -
  obtain a l where "s = a # l" using assms(1) by (cases s) (auto simp: read_char_def)
  then show ?thesis using assms by (subst read_xml.simps) simp
qed

lemma read_xml_escaped: "read_xml (XmlEscape False s @ r) = map_option (\<lambda>ts. map Char s @ ts) (read_xml r)"
proof (induction s)
  case (Cons c s)
  have e: "XmlEscape False (c # s) @ r = xml_replace False c @ XmlEscape False s @ r" by (simp add: XmlEscape_def)
  have "hd (xml_replace False c @ XmlEscape False s @ r) \<noteq> CHR ''<''"
    by (auto simp: xml_replace_def xml_escape_map_def split: option.split)
  from read_xml_char [OF read_char_replace this] show ?case unfolding e Cons.IH by (simp add: option.map_comp comp_def)
qed (cases "read_xml r"; simp add: XmlEscape_def)

lemma read_xml_layout:
  "list_all (\<lambda>c. c \<noteq> CHR ''<'' \<and> c \<noteq> CHR ''&'') w \<Longrightarrow> read_xml (w @ r) = map_option (\<lambda>ts. map Char w @ ts) (read_xml r)"
proof (induction w)
  case (Cons c w)
  have "read_char ((c # w) @ r) = Some (c, w @ r)" using Cons.prems by (simp add: read_char_def)
  from read_xml_char [OF this] Cons show ?case by (simp add: option.map_comp comp_def)
qed (cases "read_xml r"; simp)

lemma takeWhile_stop: "list_all P w \<Longrightarrow> \<not> P c \<Longrightarrow> takeWhile P (w @ c # r) = w \<and> dropWhile P (w @ c # r) = c # r"
  by (induction w) auto

lemma xml_name_stops [simp]:
  "\<not> xml_name_char (CHR ''='')" "\<not> xml_name_char (CHR ''>'')" "\<not> xml_name_char (CHR ''/'')" "\<not> xml_name_char (CHR '' '')"
  by (simp_all add: xml_name_char_def)

lemma read_attribute:
  assumes "xml_name k"
  shows "read_attributes ('' '' @ k @ ''='' @ [CHR 0x22] @ XmlEscape True v @ [CHR 0x22] @ r)
    = map_option (\<lambda>(as, b, r'). ((k, v) # as, b, r')) (read_attributes r)"
proof -
  let ?q = "CHR 0x22 # XmlEscape True v @ CHR 0x22 # r"
  have 1: "takeWhile xml_name_char (k @ CHR ''='' # ?q) = k" "dropWhile xml_name_char (k @ CHR ''='' # ?q) = CHR ''='' # ?q"
    using takeWhile_stop [of xml_name_char k "CHR ''=''"] assms by (simp_all add: xml_name_def)
  have "list_all (\<lambda>x. x \<noteq> CHR 0x22) (XmlEscape True v)" using XmlEscape_chars by (fastforce simp: list_all_iff)
  then have 2: "takeWhile (\<lambda>x. x \<noteq> CHR 0x22) (XmlEscape True v @ CHR 0x22 # r) = XmlEscape True v"
    "dropWhile (\<lambda>x. x \<noteq> CHR 0x22) (XmlEscape True v @ CHR 0x22 # r) = CHR 0x22 # r"
    using takeWhile_stop [of "\<lambda>x. x \<noteq> CHR 0x22"] by simp_all
  show ?thesis by (subst read_attributes.simps) (simp add: 1 2 unescape_XmlEscape)
qed

lemma read_attribute_list:
  assumes "list_all (\<lambda>(k, w). xml_name k \<and> is_str w) d"
  shows "\<exists>parts. mapM xml_attribute d = Inr parts
    \<and> (\<forall>r. read_attributes (concat parts @ r) = map_option (\<lambda>(as, b, r'). (map (\<lambda>(k, v). (k, py_str v)) d @ as, b, r')) (read_attributes r))
    \<and> (\<forall>p\<in>set parts. p \<noteq> [] \<and> hd p = CHR '' '')"
  using assms
proof (induction d)
  case Nil
  show ?case by (auto intro: option.map_ident [symmetric, THEN trans] simp: option.map_ident)
next
  case (Cons kv d)
  obtain k v where kv: "kv = (k, PStr v)" "xml_name k" using Cons.prems by (cases kv; cases "snd kv") auto
  obtain parts where p: "mapM xml_attribute d = Inr parts"
    "\<And>r. read_attributes (concat parts @ r) = map_option (\<lambda>(as, b, r'). (map (\<lambda>(k, v). (k, py_str v)) d @ as, b, r')) (read_attributes r)"
    "\<forall>p\<in>set parts. p \<noteq> [] \<and> hd p = CHR '' ''"
    using Cons by auto
  let ?a = "'' '' @ k @ ''='' @ [CHR 0x22] @ XmlEscape True v @ [CHR 0x22]"
  have "xml_attribute kv = Inr ?a" by (simp add: kv xml_attribute_def)
  then have "mapM xml_attribute (kv # d) = Inr (?a # parts)" by (simp add: p(1))
  moreover have "read_attributes (concat (?a # parts) @ r)
      = map_option (\<lambda>(as, b, r'). (map (\<lambda>(k, v). (k, py_str v)) (kv # d) @ as, b, r')) (read_attributes r)" for r
    using read_attribute [OF kv(2), of v "concat parts @ r"] unfolding p(2)
    by (cases "read_attributes r") (auto simp: kv py_str_def)
  ultimately show ?case using p(3) by auto
qed

lemma read_xml_open:
  assumes "xml_name n" and "s \<noteq> []" and "\<not> xml_name_char (hd s)" and "read_attributes s = Some (as, b, r)"
  shows "read_xml (''<'' @ n @ s) = map_option (\<lambda>ts. Open n as b # ts) (read_xml r)"
proof -
  obtain c s' where s: "s = c # s'" "\<not> xml_name_char c" using assms by (cases s) auto
  have "takeWhile xml_name_char (n @ s) = n" "dropWhile xml_name_char (n @ s) = s"
    using takeWhile_stop [of xml_name_char n c s'] assms(1) s by (simp_all add: xml_name_def)
  moreover have "\<not> startswith (n @ s) ''/''" using assms(1) by (cases n) (auto simp: xml_name_def startswith_def)
  ultimately show ?thesis using assms(1,4) by (subst read_xml.simps) (simp add: xml_name_def)
qed

lemma read_xml_close:
  assumes "xml_name n"
  shows "read_xml (''</'' @ n @ ''>'' @ r) = map_option (\<lambda>ts. Close n # ts) (read_xml r)"
proof -
  have "takeWhile xml_name_char (n @ CHR ''>'' # r) = n" "dropWhile xml_name_char (n @ CHR ''>'' # r) = CHR ''>'' # r"
    using takeWhile_stop [of xml_name_char n "CHR ''>''" r] assms by (simp_all add: xml_name_def)
  then show ?thesis by (subst read_xml.simps) (simp add: startswith_def)
qed

lemma layout_ok: "list_all (\<lambda>c. c \<noteq> CHR ''<'' \<and> c \<noteq> CHR ''&'') (xml_indent p l)"
  "list_all (\<lambda>c. c \<noteq> CHR ''<'' \<and> c \<noteq> CHR ''&'') (xml_new_line p)"
  by (auto simp: xml_indent_def xml_new_line_def list_all_iff)

definition reads_as :: "string \<Rightarrow> xml_token list \<Rightarrow> bool" where
  "reads_as s ts \<longleftrightarrow> (\<forall>r. read_xml (s @ r) = map_option (\<lambda>us. ts @ us) (read_xml r))"

lemma reads_as_append: "reads_as s ts \<Longrightarrow> reads_as s' ts' \<Longrightarrow> reads_as (s @ s') (ts @ ts')"
  by (simp add: reads_as_def option.map_comp comp_def)

lemma reads_as_Nil [simp]: "reads_as [] []"
  unfolding reads_as_def append_Nil by (simp only: option.map_ident simp_thms)

lemma reads_as_layout: "list_all (\<lambda>c. c \<noteq> CHR ''<'' \<and> c \<noteq> CHR ''&'') w \<Longrightarrow> reads_as w (map Char w)"
  by (simp add: reads_as_def read_xml_layout)

lemma reads_as_children:
  assumes "\<And>c. c \<in> set cs \<Longrightarrow> \<exists>ps. f c = Inr ps \<and> reads_as (concat ps) (g c)"
  shows "\<exists>pss. mapM f cs = Inr pss \<and> reads_as (concat (concat pss)) (concat (map g cs))"
  using assms
proof (induction cs)
  case (Cons c cs)
  obtain ps where 1: "f c = Inr ps" "reads_as (concat ps) (g c)" using Cons.prems [of c] by auto
  obtain pss where 2: "mapM f cs = Inr pss" "reads_as (concat (concat pss)) (concat (map g cs))" using Cons by auto
  then show ?case using 1 reads_as_append [OF 1(2) 2(2)] by auto
qed simp

text \<open>A start tag, up to its last character, and what follows it.\<close>

lemma reads_as_tag:
  assumes "xml_name n" and "list_all (\<lambda>(k, w). xml_name k \<and> is_str w) d" and "mapM xml_attribute d = Inr parts"
  shows "reads_as (''<'' @ n @ concat parts @ (if b then ''/>'' else ''>'')) [Open n (map (\<lambda>(k, v). (k, py_str v)) d) b]"
  unfolding reads_as_def
proof
  fix r
  let ?e = "if b then ''/>'' else ''>''" and ?as = "map (\<lambda>(k, v). (k, py_str v)) d"
  obtain parts' where p: "mapM xml_attribute d = Inr parts'"
    "\<And>r. read_attributes (concat parts' @ r) = map_option (\<lambda>(as, b, r'). (?as @ as, b, r')) (read_attributes r)"
    "\<forall>p\<in>set parts'. p \<noteq> [] \<and> hd p = CHR '' ''"
    using read_attribute_list [OF assms(2)] by blast
  have parts: "parts' = parts" using p(1) assms(3) by simp
  have "read_attributes (?e @ r) = Some ([], b, r)" by (subst read_attributes.simps) simp
  then have 1: "read_attributes (concat parts @ ?e @ r) = Some (?as, b, r)" using p(2) parts by simp
  have 2: "concat parts @ ?e @ r \<noteq> []" "\<not> xml_name_char (hd (concat parts @ ?e @ r))"
    using p(3) parts by (cases parts; auto)+
  show "read_xml ((''<'' @ n @ concat parts @ ?e) @ r) = map_option (\<lambda>us. [Open n ?as b] @ us) (read_xml r)"
    using read_xml_open [OF assms(1) 2 1] by simp
qed

lemma reads_as_close: "xml_name n \<Longrightarrow> reads_as (''</'' @ n @ ''>'') [Close n]"
  using read_xml_close by (simp add: reads_as_def)

lemma xml_spec_list: "xml_spec (PList l) \<longleftrightarrow> (case l of
     PStr name # rest0 \<Rightarrow> xml_name name \<and> list_all (\<lambda>(k, w). xml_name k \<and> is_str w) (fst (split_attributes rest0))
       \<and> list_all (\<lambda>c. is_str c \<or> xml_spec c) (snd (split_attributes rest0))
   | _ \<Rightarrow> False)"
  by (subst xml_spec.simps) simp

lemma xml_specE:
  assumes "xml_spec v"
  obtains name rest0 where "v = PList (PStr name # rest0)"
proof (cases v)
  case (PList l)
  show thesis
  proof (cases l)
    case (Cons x xs)
    then show thesis using assms that PList by (cases x) (auto simp: xml_spec_list)
  qed (use assms PList in \<open>simp add: xml_spec_list\<close>)
qed (use assms in \<open>simp_all add: xml_spec.simps [of "PStr x" for x] xml_spec.simps [of "PInt x" for x] xml_spec.simps [of "PDict x" for x]\<close>)

lemma ConstructContentList_reads:
  "xml_spec v \<Longrightarrow> \<exists>parts. ConstructContentList pretty v level = Inr parts \<and> reads_as (concat parts) (spec_tokens pretty v level)"
proof (induction pretty v level rule: ConstructContentList.induct)
  case (1 pretty v level)
  obtain name rest0 where v: "v = PList (PStr name # rest0)"
    by (rule xml_specE [OF "1.prems"])
  obtain d rest where dr: "split_attributes rest0 = (d, rest)" by (cases "split_attributes rest0")
  let ?d = "sort_key fst d"
  have ok: "xml_name name" "list_all (\<lambda>(k, w). xml_name k \<and> is_str w) ?d" "list_all (\<lambda>c. is_str c \<or> xml_spec c) rest"
    using "1.prems" dr by (simp_all add: xml_spec_list v list_all_iff)
  obtain parts where p: "mapM xml_attribute ?d = Inr parts" using read_attribute_list [OF ok(2)] by blast
  let ?f = "\<lambda>c. if is_str c then res_bind (as_str c) (\<lambda>s. Inr [XmlEscape False s]) else ConstructContentList pretty c (level + 1)"
  let ?g = "\<lambda>c. if is_str c then map Char (py_str c) else spec_tokens pretty c (level + 1)"
  have "\<exists>ps. ?f c = Inr ps \<and> reads_as (concat ps) (?g c)" if c: "c \<in> set rest" for c
  proof (cases "is_str c")
    case True
    then obtain s where "c = PStr s" by (cases c) auto
    then show ?thesis by (simp add: py_str_def reads_as_def read_xml_escaped)
  next
    case False
    then have "xml_spec c" using ok(3) c by (auto simp: list_all_iff)
    then show ?thesis using False "1.IH" [OF _ refl refl dr [symmetric] p c False] v by simp
  qed
  from reads_as_children [of rest ?f ?g, OF this] obtain pss where
    pss: "mapM ?f rest = Inr pss" "reads_as (concat (concat pss)) (concat (map ?g rest))" by blast
  note lay = reads_as_layout [OF layout_ok(1) [of pretty level]] reads_as_layout [OF layout_ok(2) [of pretty]]
  note tag = reads_as_tag [OF ok(1,2) p]
  have C: "ConstructContentList pretty v level = Inr (element_parts pretty level name parts rest pss)"
    unfolding ConstructContentList.simps [of pretty v level] using pss(1) p by (simp add: v dr)
  have "reads_as (concat (element_parts pretty level name parts rest pss)) (spec_tokens pretty v level)"
  proof (cases "rest = []")
    case True
    have T: "spec_tokens pretty v level = map Char (xml_indent pretty level)
        @ [Open name (map (\<lambda>(k, v). (k, py_str v)) ?d) True] @ map Char (xml_new_line pretty)"
      using True by (simp add: v spec_tokens.simps dr Let_def)
    have "reads_as (xml_indent pretty level @ (''<'' @ name @ concat parts @ ''/>'') @ xml_new_line pretty) (spec_tokens pretty v level)"
      unfolding T by (intro reads_as_append lay) (use tag [of True] in simp)
    then show ?thesis using True by (simp add: element_parts_def)
  next
    case False
    let ?m = "list_all is_str rest"
    have T: "spec_tokens pretty v level = map Char (xml_indent pretty level)
        @ [Open name (map (\<lambda>(k, v). (k, py_str v)) ?d) False] @ ((if ?m then [] else map Char (xml_new_line pretty))
        @ concat (map ?g rest) @ (if ?m then [] else map Char (xml_indent pretty level)) @ [Close name]) @ map Char (xml_new_line pretty)"
      using False by (simp add: v spec_tokens.simps dr Let_def)
    have nl: "reads_as (if ?m then [] else xml_new_line pretty) (if ?m then [] else map Char (xml_new_line pretty))"
      "reads_as (if ?m then [] else xml_indent pretty level) (if ?m then [] else map Char (xml_indent pretty level))"
      using lay by simp_all
    have "reads_as (xml_indent pretty level @ (''<'' @ name @ concat parts @ ''>'') @ ((if ?m then [] else xml_new_line pretty)
        @ concat (concat pss) @ (if ?m then [] else xml_indent pretty level) @ (''</'' @ name @ ''>'')) @ xml_new_line pretty)
      (spec_tokens pretty v level)"
      unfolding T by (intro reads_as_append lay nl pss(2) reads_as_close [OF ok(1)]) (use tag [of False] in simp)
    moreover have "concat (element_parts pretty level name parts rest pss) =
      xml_indent pretty level @ (''<'' @ name @ concat parts @ ''>'') @ ((if ?m then [] else xml_new_line pretty)
        @ concat (concat pss) @ (if ?m then [] else xml_indent pretty level) @ (''</'' @ name @ ''>'')) @ xml_new_line pretty"
      using False by (simp add: element_parts_def Let_def)
    ultimately show ?thesis by simp
  qed
  with C show ?case by blast
qed

text \<open>The tags of a list of tokens match: \<open>open\<close> are the elements whose end tag is to come.\<close>

fun matched_tags :: "string list \<Rightarrow> xml_token list \<Rightarrow> bool" where
  "matched_tags names [] = (names = [])"
| "matched_tags names (Open n as b # ts) = matched_tags (if b then names else n # names) ts"
| "matched_tags names (Close n # ts) = (case names of m # ms \<Rightarrow> n = m \<and> matched_tags ms ts | [] \<Rightarrow> False)"
| "matched_tags names (Char c # ts) = matched_tags names ts"

lemma matched_chars [simp]: "matched_tags names (map Char s @ ts) = matched_tags names ts"
  by (induction s) auto

lemma matched_concat:
  "(\<And>c names ts. c \<in> set cs \<Longrightarrow> matched_tags names (g c @ ts) = matched_tags names ts)
    \<Longrightarrow> matched_tags names (concat (map g cs) @ ts) = matched_tags names ts"
  by (induction cs) auto

lemma spec_tokens_matched: "matched_tags names (spec_tokens pretty v level @ ts) = matched_tags names ts"
proof (induction pretty v level arbitrary: names ts rule: spec_tokens.induct)
  case (1 pretty name rest0 level)
  obtain d rest where dr: "split_attributes rest0 = (d, rest)" by (cases "split_attributes rest0")
  let ?g = "\<lambda>c. if is_str c then map Char (py_str c) else spec_tokens pretty c (level + 1)"
  have "matched_tags names (?g c @ ts) = matched_tags names ts" if "c \<in> set rest" for c names ts
    using "1.IH" [OF dr [symmetric] refl refl _ that] that by (cases "rest = []") auto
  then have g: "matched_tags names (concat (map ?g rest) @ ts) = matched_tags names ts" for names ts
    by (rule matched_concat)
  show ?case by (simp add: spec_tokens.simps dr Let_def g)
qed (simp_all add: spec_tokens.simps)

section \<open>Properties\<close>



text \<open>
  \<open>WriteXmlIfChanged\<close>: when it returns, the file has the document (with the line ends of Windows where
  asked for); a file that had it already is not touched, and no other file is.
\<close>

theorem WriteXmlIfChanged_correct:
  assumes "WriteXmlIfChanged crlf mode content path encoding pretty win32 fs = Inr fs'"
  shows "\<exists>doc. XmlToString content encoding pretty = Inr doc
    \<and> (let new = (if win32 \<and> \<not> crlf then replace doc [nl] [CHR 0x0D, nl] else doc)
       in map_option f_data (file_at fs' path) = Some new
        \<and> (map_option f_data (file_at fs path) = Some new \<longrightarrow> fs' = fs)
        \<and> (map_option f_data (file_at fs path) \<noteq> Some new \<longrightarrow> map_option f_id (file_at fs' path) = Some (fs_next fs)))
    \<and> (\<forall>p. p \<noteq> path \<longrightarrow> file_at fs' p = file_at fs p)"
proof -
  obtain doc where d: "XmlToString content encoding pretty = Inr doc"
    using assms by (auto simp: WriteXmlIfChanged_def res_simps)
  then show ?thesis using assms by (auto simp: WriteXmlIfChanged_def file_at_def Let_def split: if_splits)
qed

theorem WriteXmlIfChanged_correct_witness:
  "file_at (\<lparr>fs_files = [(''x'', \<lparr>f_data = ''old'', f_mode = 0, f_id = 1\<rparr>)], fs_dirs = [], fs_next = 5\<rparr>) ''x'' \<noteq> None \<and>
   (\<exists>fs' doc. WriteXmlIfChanged False 0 (PList [PStr ''a'']) ''x'' ''utf-8'' False False
      \<lparr>fs_files = [(''x'', \<lparr>f_data = ''old'', f_mode = 0, f_id = 1\<rparr>)], fs_dirs = [], fs_next = 5\<rparr> = Inr fs'
    \<and> XmlToString (PList [PStr ''a'']) ''utf-8'' False = Inr doc \<and> map_option f_data (file_at fs' ''x'') = Some doc)"
proof -
  let ?fs = "\<lparr>fs_files = [(''x'', \<lparr>f_data = ''old'', f_mode = 0, f_id = 1\<rparr>)], fs_dirs = [], fs_next = 5\<rparr>"
  have "\<not> isl (WriteXmlIfChanged False 0 (PList [PStr ''a'']) ''x'' ''utf-8'' False False ?fs)" by code_simp
  then obtain fs' where "WriteXmlIfChanged False 0 (PList [PStr ''a'']) ''x'' ''utf-8'' False False ?fs = Inr fs'"
    by (cases "WriteXmlIfChanged False 0 (PList [PStr ''a'']) ''x'' ''utf-8'' False False ?fs") auto
  from this WriteXmlIfChanged_correct [OF this] show ?thesis by (auto simp: file_at_def Let_def)
qed

end
