(* ===== verification/Gyp_OrderedDict.thy ===== *)
theory Gyp_OrderedDict
  imports Gyp_OrderedSet
begin

text \<open>
  \<open>gyp/ordered_dict.py\<close>: a dictionary that remembers the order of insertion, made of a plain dictionary
  and the cells of a circular doubly linked list with a sentinel, in the heap of \<open>Gyp_OrderedSet\<close>
  (address 0 is the sentinel). Keys are strings. Shown here: it refines association lists, where a key that is set
  again keeps its place; that is the dictionary the rest of the development uses.
\<close>

section \<open>The structure\<close>

record 'v odict =
  od_dict :: "(string, 'v) dict"
  od_links :: "string oset_heap"

definition OrderedDict_empty :: "'v odict" where
  "OrderedDict_empty = \<lparr>od_dict = [], od_links = OrderedSet_init\<rparr>"

definition OrderedDict_len :: "'v odict \<Rightarrow> nat" where
  "OrderedDict_len d = length (od_dict d)"

definition OrderedDict_contains :: "'v odict \<Rightarrow> string \<Rightarrow> bool" where
  "OrderedDict_contains d key = dhas (od_dict d) key"

definition OrderedDict_getitem :: "'v odict \<Rightarrow> string \<Rightarrow> 'v res" where
  "OrderedDict_getitem d key = dict_get (od_dict d) key"

definition OrderedDict_setitem :: "'v odict \<Rightarrow> string \<Rightarrow> 'v \<Rightarrow> 'v odict" where
  "OrderedDict_setitem d key value =
     (let s = od_links d; n = os_fresh s; last_link = os_prev s 0
      in \<lparr>od_dict = dset (od_dict d) key value,
          od_links = (if \<not> OrderedDict_contains d key then
             s\<lparr>os_key := (os_key s)(n := Some key),
               os_prev := ((os_prev s)(n := last_link))(0 := n),
               os_next := ((os_next s)(n := 0))(last_link := n),
               os_map := dset (os_map s) key n,
               os_fresh := Suc n\<rparr>
           else s)\<rparr>)"

definition OrderedDict_delitem :: "'v odict \<Rightarrow> string \<Rightarrow> 'v odict res" where
  "OrderedDict_delitem d key =
     (if \<not> OrderedDict_contains d key then Inl (KeyError key)
      else let s = od_links d
           in case dget (os_map s) key of
                None \<Rightarrow> Inl (KeyError key)
              | Some a \<Rightarrow>
                  let link_prev = os_prev s a; link_next = os_next s a
                  in Inr \<lparr>od_dict = ddel (od_dict d) key,
                          od_links = s\<lparr>os_map := ddel (os_map s) key,
                            os_next := (os_next s)(link_prev := link_next),
                            os_prev := (os_prev s)(link_next := link_prev)\<rparr>\<rparr>)"

text \<open>The generators, run to their end.\<close>

definition OrderedDict_iter :: "'v odict \<Rightarrow> string option list option" where
  "OrderedDict_iter d = (let s = od_links d in OrderedSet_walk (os_key s) (os_next s) (os_next s 0) [])"

definition OrderedDict_reversed :: "'v odict \<Rightarrow> string option list option" where
  "OrderedDict_reversed d = (let s = od_links d in OrderedSet_walk (os_key s) (os_prev s) (os_prev s 0) [])"

text \<open>The cells are emptied and the ring closed.\<close>

definition OrderedDict_clear :: "'v odict \<Rightarrow> 'v odict" where
  "OrderedDict_clear d =
     (let s = od_links d
      in \<lparr>od_dict = [],
          od_links = s\<lparr>os_key := (\<lambda>a. if a \<in> snd ` set (os_map s) then None else os_key s a),
            os_next := (os_next s)(0 := 0), os_prev := (os_prev s)(0 := 0), os_map := []\<rparr>\<rparr>)"

definition OrderedDict_popitem :: "bool \<Rightarrow> 'v odict \<Rightarrow> ((string \<times> 'v) \<times> 'v odict) res" where
  "OrderedDict_popitem last_item d =
     (if OrderedDict_len d = 0 then Inl (KeyError ''dictionary is empty'')
      else let s = od_links d;
               link = (if last_item then os_prev s 0 else os_next s 0);
               s' = (if last_item
                     then let link_prev = os_prev s link
                          in s\<lparr>os_next := (os_next s)(link_prev := 0), os_prev := (os_prev s)(0 := link_prev)\<rparr>
                     else let link_next = os_next s link
                          in s\<lparr>os_next := (os_next s)(0 := link_next), os_prev := (os_prev s)(link_next := 0)\<rparr>)
           in case os_key s link of
                None \<Rightarrow> Inl (KeyError ''None'')
              | Some key \<Rightarrow>
                  res_bind (dict_get (od_dict d) key) (\<lambda>value.
                    Inr ((key, value), \<lparr>od_dict = ddel (od_dict d) key, od_links = s'\<lparr>os_map := ddel (os_map s') key\<rparr>\<rparr>)))"

text \<open>The methods that use the others. \<open>None\<close> is an iteration that does not end.\<close>

definition OrderedDict_keys :: "'v odict \<Rightarrow> string list option" where
  "OrderedDict_keys d = map_option (List.map_filter id) (OrderedDict_iter d)"

definition OrderedDict_values :: "'v odict \<Rightarrow> 'v list res option" where
  "OrderedDict_values d = map_option (mapM (OrderedDict_getitem d)) (OrderedDict_keys d)"

definition OrderedDict_items :: "'v odict \<Rightarrow> (string \<times> 'v) list res option" where
  "OrderedDict_items d =
     map_option (mapM (\<lambda>key. res_bind (OrderedDict_getitem d key) (\<lambda>v. Inr (key, v)))) (OrderedDict_keys d)"

text \<open>\<open>update\<close> from the pairs of another dictionary or of an iterable, and the keyword arguments.\<close>

definition OrderedDict_update :: "'v odict \<Rightarrow> (string \<times> 'v) list \<Rightarrow> (string, 'v) dict \<Rightarrow> 'v odict" where
  "OrderedDict_update d other kwds =
     foldl (\<lambda>d (key, value). OrderedDict_setitem d key value)
       (foldl (\<lambda>d (key, value). OrderedDict_setitem d key value) d other) kwds"

definition OrderedDict_init :: "(string \<times> 'v) list \<Rightarrow> (string, 'v) dict \<Rightarrow> 'v odict" where
  "OrderedDict_init other kwds = OrderedDict_update OrderedDict_empty other kwds"

definition OrderedDict_pop :: "'v odict \<Rightarrow> string \<Rightarrow> 'v option \<Rightarrow> ('v \<times> 'v odict) res" where
  "OrderedDict_pop d key dflt =
     (if OrderedDict_contains d key then
        res_bind (OrderedDict_getitem d key) (\<lambda>result.
        res_bind (OrderedDict_delitem d key) (\<lambda>d'. Inr (result, d')))
      else case dflt of None \<Rightarrow> Inl (KeyError key) | Some v \<Rightarrow> Inr (v, d))"

definition OrderedDict_setdefault :: "'v odict \<Rightarrow> string \<Rightarrow> 'v \<Rightarrow> ('v \<times> 'v odict) res" where
  "OrderedDict_setdefault d key dflt =
     (if OrderedDict_contains d key then res_bind (OrderedDict_getitem d key) (\<lambda>v. Inr (v, d))
      else Inr (dflt, OrderedDict_setitem d key dflt))"

text \<open>\<open>__reduce__\<close> gives the items for pickling; \<open>copy\<close> makes a new dictionary from this one.\<close>

definition OrderedDict_copy :: "'v odict \<Rightarrow> 'v odict res option" where
  "OrderedDict_copy d = map_option (\<lambda>r. res_bind r (\<lambda>items. Inr (OrderedDict_init items []))) (OrderedDict_items d)"

definition OrderedDict_fromkeys :: "string list \<Rightarrow> 'v \<Rightarrow> 'v odict" where
  "OrderedDict_fromkeys iterable value = foldl (\<lambda>d key. OrderedDict_setitem d key value) OrderedDict_empty iterable"

text \<open>\<open>__eq__\<close> with another \<open>OrderedDict\<close>.\<close>

definition OrderedDict_eq :: "'v odict \<Rightarrow> 'v odict \<Rightarrow> bool" where
  "OrderedDict_eq d e = (OrderedDict_len d = OrderedDict_len e \<and> OrderedDict_items d = OrderedDict_items e)"

section \<open>Refinement\<close>

definition od_rel :: "'v odict \<Rightarrow> (string, 'v) dict \<Rightarrow> bool" where
  "od_rel d kvs \<longleftrightarrow> os_rel (od_links d) (dkeys kvs) \<and> wf_dict kvs \<and> wf_dict (od_dict d) \<and> (\<forall>k. dget (od_dict d) k = dget kvs k)"

lemma od_rel_empty: "od_rel OrderedDict_empty []"
  by (simp add: od_rel_def OrderedDict_empty_def dkeys_def os_rel_init)

lemma od_rel_contains: "od_rel d kvs \<Longrightarrow> OrderedDict_contains d k \<longleftrightarrow> k \<in> set (dkeys kvs)"
  by (simp add: od_rel_def OrderedDict_contains_def dhas_iff_dget dkeys_iff_dget)

lemma od_rel_links: "od_rel d kvs \<Longrightarrow> OrderedDict_contains d k \<longleftrightarrow> OrderedSet_contains (od_links d) k"
  using od_rel_contains [of d kvs k] os_rel_contains [of "od_links d" "dkeys kvs" k] by (simp add: od_rel_def)

lemma od_rel_getitem: "od_rel d kvs \<Longrightarrow> OrderedDict_getitem d k = dict_get kvs k"
  by (simp add: od_rel_def OrderedDict_getitem_def dict_get_def)

lemma dkeys_dset_add_new: "dkeys (dset kvs k v) = add_new (dkeys kvs) k"
  by (simp add: dkeys_dset add_new_def)

lemma od_rel_setitem:
  assumes "od_rel d kvs"
  shows "od_rel (OrderedDict_setitem d k v) (dset kvs k v)"
proof -
  have "od_links (OrderedDict_setitem d k v) = OrderedSet_add k (od_links d)"
    using od_rel_links [OF assms, of k] by (simp add: OrderedDict_setitem_def OrderedSet_add_def Let_def)
  moreover have "od_dict (OrderedDict_setitem d k v) = dset (od_dict d) k v"
    by (simp add: OrderedDict_setitem_def Let_def)
  ultimately show ?thesis
    using assms os_rel_add [of "od_links d" "dkeys kvs" k] by (simp add: od_rel_def dkeys_dset_add_new)
qed

lemma od_rel_delitem:
  assumes "od_rel d kvs" and "k \<in> set (dkeys kvs)"
  shows "\<exists>d'. OrderedDict_delitem d k = Inr d' \<and> od_rel d' (ddel kvs k)"
proof -
  have c: "OrderedDict_contains d k" "dget (os_map (od_links d)) k \<noteq> None"
    using assms od_rel_contains [OF assms(1)] od_rel_links [OF assms(1), of k] by (auto simp: OrderedSet_contains_def dhas_iff_dget)
  then obtain a where a: "dget (os_map (od_links d)) k = Some a" by blast
  have "OrderedDict_delitem d k = Inr \<lparr>od_dict = ddel (od_dict d) k, od_links = OrderedSet_discard k (od_links d)\<rparr>"
    using c(1) by (simp add: OrderedDict_delitem_def OrderedSet_discard_def a Let_def)
  moreover have "od_rel \<lparr>od_dict = ddel (od_dict d) k, od_links = OrderedSet_discard k (od_links d)\<rparr> (ddel kvs k)"
    using assms(1) os_rel_discard [of "od_links d" "dkeys kvs" k] by (simp add: od_rel_def dkeys_ddel)
  ultimately show ?thesis by blast
qed

lemma od_rel_iter:
  assumes "od_rel d kvs"
  shows "OrderedDict_iter d = Some (map Some (dkeys kvs))" and "OrderedDict_reversed d = Some (map Some (rev (dkeys kvs)))"
  using os_rel_iter [of "od_links d" "dkeys kvs"] assms
  by (simp_all add: od_rel_def OrderedDict_iter_def OrderedDict_reversed_def OrderedSet_iter_def OrderedSet_reversed_def Let_def)

lemma map_filter_Some [simp]: "List.map_filter id (map Some xs) = xs"
  by (induction xs) (simp_all add: List.map_filter_def)

lemma od_rel_keys: "od_rel d kvs \<Longrightarrow> OrderedDict_keys d = Some (dkeys kvs)"
  by (simp add: OrderedDict_keys_def od_rel_iter)

lemma mapM_get:
  assumes "wf_dict kvs"
  shows "mapM (\<lambda>k. res_bind (dict_get kvs k) (\<lambda>v. Inr (k, v))) (dkeys kvs) = Inr kvs" and "mapM (dict_get kvs) (dkeys kvs) = Inr (map snd kvs)"
proof -
  have "mapM (\<lambda>k. res_bind (dict_get kvs k) (\<lambda>v. Inr (k, v))) (map fst l) = Inr l \<and> mapM (dict_get kvs) (map fst l) = Inr (map snd l)"
    if "set l \<subseteq> set kvs" for l
    using that
  proof (induction l)
    case (Cons p l)
    then have "dget kvs (fst p) = Some (snd p)" using wf_dict_dget [OF assms, of "fst p" "snd p"] by simp
    then show ?case using Cons by (simp add: dict_get_def)
  qed simp
  from this [of kvs] show "mapM (\<lambda>k. res_bind (dict_get kvs k) (\<lambda>v. Inr (k, v))) (dkeys kvs) = Inr kvs"
    "mapM (dict_get kvs) (dkeys kvs) = Inr (map snd kvs)" by (simp_all add: dkeys_def)
qed

lemma od_rel_items:
  assumes "od_rel d kvs"
  shows "OrderedDict_items d = Some (Inr kvs)" and "OrderedDict_values d = Some (Inr (map snd kvs))"
proof -
  have "OrderedDict_getitem d = dict_get kvs" by (rule ext) (rule od_rel_getitem [OF assms])
  then show "OrderedDict_items d = Some (Inr kvs)" "OrderedDict_values d = Some (Inr (map snd kvs))"
    using assms od_rel_keys [OF assms] mapM_get [of kvs] by (simp_all add: OrderedDict_items_def OrderedDict_values_def od_rel_def)
qed

lemma od_rel_len:
  assumes "od_rel d kvs"
  shows "OrderedDict_len d = length kvs"
proof -
  have "set (dkeys (od_dict d)) = set (dkeys kvs)" using assms by (auto simp: od_rel_def dkeys_iff_dget)
  then show ?thesis
    using assms distinct_card [of "dkeys (od_dict d)"] distinct_card [of "dkeys kvs"]
    by (simp add: od_rel_def wf_dict_def OrderedDict_len_def dkeys_def)
qed

lemma od_rel_clear:
  assumes "od_rel d kvs"
  shows "od_rel (OrderedDict_clear d) []"
proof -
  have "0 < os_fresh (od_links d)" using assms by (auto simp: od_rel_def os_rel_def os_cells_ok_def)
  then have "os_cells_ok (od_links (OrderedDict_clear d)) [] []" by (simp add: os_cells_ok_def OrderedDict_clear_def Let_def)
  then have "os_rel (od_links (OrderedDict_clear d)) []" unfolding os_rel_def by blast
  then show ?thesis by (simp add: od_rel_def dkeys_def) (simp add: OrderedDict_clear_def Let_def)
qed

text \<open>The cells at the two ends of the ring.\<close>

lemma os_ends:
  assumes "os_rel s xs" and "xs \<noteq> []"
  shows "os_key s (os_prev s 0) = Some (last xs)" "dget (os_map s) (last xs) = Some (os_prev s 0)" "os_next s (os_prev s 0) = 0"
    "os_key s (os_next s 0) = Some (hd xs)" "dget (os_map s) (hd xs) = Some (os_next s 0)" "os_prev s (os_next s 0) = 0"
proof -
  obtain as where ok: "os_cells_ok s as xs" using assms(1) by (auto simp: os_rel_def)
  then have d: "dseg (os_next s) (os_prev s) 0 as 0" "map (os_key s) as = map Some xs" "distinct xs" "\<And>k. dget (os_map s) k = map_of (zip xs as) k"
    by (auto simp: os_cells_ok_def)
  have len: "length as = length xs" by (rule os_cells_length [OF ok])
  then have ne: "as \<noteq> []" using assms(2) by auto
  have e: "os_next s 0 = hd as" "os_prev s 0 = last as" using dseg_ends [OF d(1)] ne by auto
  show "os_key s (os_next s 0) = Some (hd xs)" "os_key s (os_prev s 0) = Some (last xs)"
    unfolding e using d(2) ne assms(2) by (metis list.map_sel(1), metis last_map)
  have nth: "dget (os_map s) (xs ! i) = Some (as ! i)" if "i < length xs" for i
    using that d(3,4) len by (simp add: map_of_zip_nth)
  show "dget (os_map s) (hd xs) = Some (os_next s 0)"
    unfolding e using nth [of 0] ne assms(2) by (simp add: hd_conv_nth)
  show "dget (os_map s) (last xs) = Some (os_prev s 0)"
    unfolding e using nth [of "length xs - 1"] ne assms(2) len by (simp add: last_conv_nth)
  show "os_next s (os_prev s 0) = 0"
    unfolding e using d(1) ne by (cases as rule: rev_cases) (auto simp: dseg_append)
  show "os_prev s (os_next s 0) = 0" unfolding e using d(1) ne by (cases as) auto
qed

lemma od_rel_popitem:
  assumes "od_rel d kvs" and "kvs \<noteq> []"
  shows "\<exists>d'. OrderedDict_popitem b d = Inr (if b then last kvs else hd kvs, d') \<and> od_rel d' (if b then butlast kvs else tl kvs)"
proof -
  let ?s = "od_links d" and ?kv = "if b then last kvs else hd kvs"
  let ?k = "fst ?kv" and ?link = "if b then os_prev (od_links d) 0 else os_next (od_links d) 0"
  have os: "os_rel ?s (dkeys kvs)" "dkeys kvs \<noteq> []" "wf_dict kvs" using assms by (auto simp: od_rel_def dkeys_def)
  have k: "?k = (if b then last (dkeys kvs) else hd (dkeys kvs))" using assms(2) by (simp add: dkeys_def last_map hd_map)
  note e = os_ends [OF os(1,2)]
  have link: "os_key ?s ?link = Some ?k" "dget (os_map ?s) ?k = Some ?link" unfolding k using e by simp_all
  have "?kv \<in> set kvs" using assms(2) by simp
  then have v: "dget (od_dict d) ?k = Some (snd ?kv)"
    using wf_dict_dget [OF os(3), of ?k "snd ?kv"] assms(1) by (simp add: od_rel_def)
  have "(if b then ?s\<lparr>os_next := (os_next ?s)(os_prev ?s ?link := 0), os_prev := (os_prev ?s)(0 := os_prev ?s ?link)\<rparr>
       else ?s\<lparr>os_next := (os_next ?s)(0 := os_next ?s ?link), os_prev := (os_prev ?s)(os_next ?s ?link := 0)\<rparr>)
      \<lparr>os_map := ddel (os_map ?s) ?k\<rparr> = OrderedSet_discard ?k ?s"
    unfolding OrderedSet_discard_def link(2) using e by (simp add: Let_def)
  then have p: "OrderedDict_popitem b d = Inr (?kv, \<lparr>od_dict = ddel (od_dict d) ?k, od_links = OrderedSet_discard ?k ?s\<rparr>)"
    using assms(2) od_rel_len [OF assms(1)] link(1) v by (cases b) (simp_all add: OrderedDict_popitem_def Let_def dict_get_def)
  have D: "ddel kvs ?k = (if b then butlast kvs else tl kvs)"
  proof (cases b)
    case True
    then show ?thesis using os(3) assms(2) by (cases kvs rule: rev_cases) (auto simp: ddel_def wf_dict_def filter_id_conv rev_image_eqI)
  next
    case False
    then show ?thesis using os(3) assms(2) by (cases kvs) (auto simp: ddel_def wf_dict_def filter_id_conv rev_image_eqI)
  qed
  have "od_rel \<lparr>od_dict = ddel (od_dict d) ?k, od_links = OrderedSet_discard ?k ?s\<rparr> (ddel kvs ?k)"
    using assms(1) os_rel_discard [of ?s "dkeys kvs" ?k] by (simp add: od_rel_def dkeys_ddel)
  then show ?thesis unfolding D using p by blast
qed

section \<open>The contract\<close>

text \<open>What a client of an ordered dictionary relies on: \<open>rep d kvs\<close> says that \<open>d\<close> has the entries \<open>kvs\<close> in
  this order.\<close>

locale ordered_dict =
  fixes empty :: 'd and set_item :: "'d \<Rightarrow> string \<Rightarrow> 'v \<Rightarrow> 'd" and get_items :: "'d \<Rightarrow> (string \<times> 'v) list res option"
    and rep :: "'d \<Rightarrow> (string, 'v) dict \<Rightarrow> bool"
  assumes rep_empty: "rep empty []"
    and rep_set: "rep d kvs \<Longrightarrow> rep (set_item d k v) (dset kvs k v)"
    and rep_items: "rep d kvs \<Longrightarrow> get_items d = Some (Inr kvs)"
    and rep_wf: "rep d kvs \<Longrightarrow> wf_dict kvs"
begin

lemma rep_set_all: "rep d kvs \<Longrightarrow> rep (foldl (\<lambda>d (k, v). set_item d k v) d ps) (foldl (\<lambda>m (k, v). dset m k v) kvs ps)"
proof (induction ps arbitrary: d kvs)
  case (Cons p ps)
  then show ?case using rep_set [OF Cons.prems, of "fst p" "snd p"] by (auto simp: split_beta)
qed simp

lemma rep_unique: "rep d kvs \<Longrightarrow> rep e kvs' \<Longrightarrow> get_items d = get_items e \<longleftrightarrow> kvs = kvs'"
  using rep_items by auto

end

interpretation od: ordered_dict OrderedDict_empty OrderedDict_setitem OrderedDict_items od_rel
  by unfold_locales (auto simp: od_rel_empty od_rel_setitem od_rel_items(1), simp add: od_rel_def)

lemma dset_all_distinct:
  "wf_dict (kvs @ ps) \<Longrightarrow> foldl (\<lambda>m (k, v). dset m k v) kvs ps = kvs @ ps"
proof (induction ps arbitrary: kvs)
  case (Cons p ps)
  have n: "fst p \<notin> fst ` set kvs" using Cons.prems by (auto simp: wf_dict_def)
  have "dset kvs (fst p) (snd p) = kvs @ [p]" using n by (induction kvs) auto
  then show ?case using Cons by (simp add: split_beta)
qed simp

lemma od_rel_copy:
  assumes "od_rel d kvs"
  shows "\<exists>d'. OrderedDict_copy d = Some (Inr d') \<and> od_rel d' kvs"
proof -
  have "od_rel (OrderedDict_init kvs []) (foldl (\<lambda>m (k, v). dset m k v) [] kvs)"
    unfolding OrderedDict_init_def OrderedDict_update_def using od.rep_set_all [OF od_rel_empty, of kvs] by simp
  then have "od_rel (OrderedDict_init kvs []) kvs" using dset_all_distinct [of "[]" kvs] assms by (simp add: od_rel_def)
  then show ?thesis by (simp add: OrderedDict_copy_def od_rel_items(1) [OF assms])
qed

section \<open>Properties\<close>

text \<open>
  C19. Refinement: an \<open>OrderedDict\<close> that has the entries \<open>kvs\<close> in their order behaves as the association
  list: setting a key keeps its place or appends it, deleting one leaves the others in order and is
  a \<open>KeyError\<close> when it is missing, \<open>update\<close> sets the pairs one after the other, \<open>clear\<close> empties it,
  \<open>popitem\<close> takes the entry at either end, the iterations end and show the keys and entries in order,
  and a copy has the same entries.
\<close>

theorem OrderedDict_refines:
  assumes "od_rel d kvs"
  shows "od_rel (OrderedDict_setitem d k v) (dset kvs k v)
    \<and> (if k \<in> set (dkeys kvs) then \<exists>d'. OrderedDict_delitem d k = Inr d' \<and> od_rel d' (ddel kvs k)
       else OrderedDict_delitem d k = Inl (KeyError k))
    \<and> od_rel (OrderedDict_update d ps ws) (foldl (\<lambda>m (k, v). dset m k v) (foldl (\<lambda>m (k, v). dset m k v) kvs ps) ws)
    \<and> od_rel (OrderedDict_clear d) []
    \<and> (if kvs = [] then OrderedDict_popitem b d = Inl (KeyError ''dictionary is empty'')
       else \<exists>d'. OrderedDict_popitem b d = Inr (if b then last kvs else hd kvs, d') \<and> od_rel d' (if b then butlast kvs else tl kvs))
    \<and> OrderedDict_getitem d k = dict_get kvs k \<and> OrderedDict_len d = length kvs
    \<and> OrderedDict_items d = Some (Inr kvs) \<and> OrderedDict_reversed d = Some (map Some (rev (dkeys kvs)))
    \<and> (\<exists>d'. OrderedDict_copy d = Some (Inr d') \<and> od_rel d' kvs)"
proof -
  have del: "if k \<in> set (dkeys kvs) then \<exists>d'. OrderedDict_delitem d k = Inr d' \<and> od_rel d' (ddel kvs k)
       else OrderedDict_delitem d k = Inl (KeyError k)"
    using od_rel_delitem [OF assms, of k] od_rel_contains [OF assms, of k] by (simp add: OrderedDict_delitem_def)
  have pop: "if kvs = [] then OrderedDict_popitem b d = Inl (KeyError ''dictionary is empty'')
       else \<exists>d'. OrderedDict_popitem b d = Inr (if b then last kvs else hd kvs, d') \<and> od_rel d' (if b then butlast kvs else tl kvs)"
  proof (cases "kvs = []")
    case True
    then show ?thesis using od_rel_len [OF assms] by (simp add: OrderedDict_popitem_def)
  next
    case False
    then show ?thesis using od_rel_popitem [OF assms False, of b] by simp
  qed
  show ?thesis unfolding OrderedDict_update_def
    by (intro conjI od_rel_setitem [OF assms] del od.rep_set_all assms od_rel_clear [OF assms] pop od_rel_getitem [OF assms]
        od_rel_len [OF assms] od_rel_items(1) [OF assms] od_rel_iter(2) [OF assms] od_rel_copy [OF assms])
qed

theorem OrderedDict_refines_witness:
  "OrderedDict_items (OrderedDict_update OrderedDict_empty [(''b'', 1), (''a'', 2), (''b'', 3)] []) = Some (Inr [(''b'', 3), (''a'', 2 :: nat)])"
proof -
  have "od_rel (OrderedDict_update OrderedDict_empty [(''b'', 1), (''a'', 2), (''b'', 3 :: nat)] []) [(''b'', 3), (''a'', 2)]"
    using OrderedDict_refines [OF od_rel_empty, of _ _ "[(''b'', 1), (''a'', 2), (''b'', 3 :: nat)]" "[]"] by simp
  from OrderedDict_refines [OF this] show ?thesis by blast
qed

end
