(* ===== verification/Gyp_Options.thy ===== *)
theory Gyp_Options
  imports Gyp_Targets Py_Shlex
begin

text \<open>
  The command line of GYP (\<open>gyp/__init__.py\<close>): the option parser with its metadata for regeneration, the
  settings that \<open>gyp_main\<close> takes from options and environment before it loads build files, and
  \<open>RegenerateFlags\<close>, whose flags a generated build file uses to run GYP again. Of the library module
  \<open>optparse\<close> there is what the parser uses: long options with their abbreviations, clusters of short
  options, the actions \<open>store\<close>, \<open>append\<close>, \<open>store_true\<close>, \<open>store_false\<close> and \<open>help\<close>. Shown here: the flags of
  \<open>RegenerateFlags\<close> give the same settings again, whatever the environment is by then.
\<close>

section \<open>Options\<close>

datatype optval = ONone | OBool bool | OStr string | OList "string list"

type_synonym optvals = "(string, optval) dict"

fun opt_true :: "optval \<Rightarrow> bool" where
  "opt_true ONone = False"
| "opt_true (OBool b) = b"
| "opt_true (OStr s) = (s \<noteq> [])"
| "opt_true (OList l) = (l \<noteq> [])"

text \<open>An attribute of the options object; the parser gives each of them a value.\<close>

definition opt_get :: "optvals \<Rightarrow> string \<Rightarrow> optval" where
  "opt_get options name = (case dget options name of None \<Rightarrow> ONone | Some v \<Rightarrow> v)"

fun opt_items :: "optval \<Rightarrow> string list" where
  "opt_items (OList l) = l"
| "opt_items (OStr s) = map (\<lambda>c. [c]) s"
| "opt_items _ = []"

fun opt_string :: "optval \<Rightarrow> string" where
  "opt_string (OStr s) = s"
| "opt_string _ = []"

text \<open>The arguments of \<open>add_option\<close>: the option strings and the keywords.\<close>

record option_args =
  oa_strings :: "string list"
  oa_dest :: "string option"
  oa_action :: "string option"
  oa_type :: "string option"
  oa_default :: optval
  oa_env_name :: "string option"
  oa_regenerate :: bool

text \<open>An option of \<open>optparse\<close>, and what \<open>__regeneratable_options\<close> has for an attribute.\<close>

record popt =
  po_strings :: "string list"
  po_dest :: string
  po_action :: string
  po_default :: optval

record regen_meta =
  rm_action :: "string option"
  rm_type :: "string option"
  rm_env_name :: "string option"
  rm_opt :: string

record optparser =
  pa_options :: "popt list"
  pa_regeneratable :: "(string, regen_meta) dict"

text \<open>The attribute of an option without \<open>dest\<close> has the name of the first long option string.\<close>

definition default_dest :: "string list \<Rightarrow> string" where
  "default_dest strings =
     (case filter (\<lambda>s. startswith s ''--'') strings of
        s # _ \<Rightarrow> map (\<lambda>c. if c = CHR ''-'' then CHR ''_'' else c) (drop 2 s)
      | [] \<Rightarrow> (case strings of [] \<Rightarrow> [] | s # _ \<Rightarrow> take 1 (drop 1 s)))"

definition optparse_add :: "option_args \<Rightarrow> optparser \<Rightarrow> optparser" where
  "optparse_add a p =
     p\<lparr>pa_options := pa_options p @
         [\<lparr>po_strings = oa_strings a,
           po_dest = (case oa_dest a of Some d \<Rightarrow> d | None \<Rightarrow> default_dest (oa_strings a)),
           po_action = (case oa_action a of Some x \<Rightarrow> x | None \<Rightarrow> ''store''),
           po_default = oa_default a\<rparr>]\<rparr>"

definition add_option :: "option_args \<Rightarrow> optparser \<Rightarrow> optparser" where
  "add_option a p =
     optparse_add a
       (case oa_dest a of
          None \<Rightarrow> p
        | Some dest \<Rightarrow>
            if oa_regenerate a
            then p\<lparr>pa_regeneratable := dset (pa_regeneratable p) dest
                     \<lparr>rm_action = oa_action a, rm_type = oa_type a, rm_env_name = oa_env_name a, rm_opt = hd (oa_strings a)\<rparr>\<rparr>
            else p)"

definition RegeneratableOptionParser :: optparser where
  "RegeneratableOptionParser =
     \<lparr>pa_options = [\<lparr>po_strings = [''-h'', ''--help''], po_dest = [], po_action = ''help'', po_default = ONone\<rparr>], pa_regeneratable = []\<rparr>"

section \<open>Parsing\<close>

definition usage_error :: "string \<Rightarrow> 'a res" where
  "usage_error message = Inl (SystemExit (''error: '' @ message))"

definition takes_value :: "popt \<Rightarrow> bool" where
  "takes_value opt = (po_action opt \<in> {''store'', ''append''})"

definition take_action :: "popt \<Rightarrow> string \<Rightarrow> optvals \<Rightarrow> optvals res" where
  "take_action opt value values =
     (let dest = po_dest opt; action = po_action opt
      in if action = ''store'' then Inr (dset values dest (OStr value))
         else if action = ''append'' then Inr (dset values dest (OList (opt_items (opt_get values dest) @ [value])))
         else if action = ''store_true'' then Inr (dset values dest (OBool True))
         else if action = ''store_false'' then Inr (dset values dest (OBool False))
         else Inl (SystemExit ''help''))"

definition find_opt :: "popt list \<Rightarrow> string \<Rightarrow> popt option" where
  "find_opt opts s = List.find (\<lambda>opt. s \<in> set (po_strings opt)) opts"

text \<open>\<open>_match_long_opt\<close>: the option string itself, or the only one that it abbreviates.\<close>

definition match_long_opt :: "popt list \<Rightarrow> string \<Rightarrow> popt res" where
  "match_long_opt opts s =
     (case find_opt opts s of
        Some opt \<Rightarrow> Inr opt
      | None \<Rightarrow>
          (case concat (map (\<lambda>opt. map (\<lambda>_. opt) (filter (\<lambda>w. startswith w ''--'' \<and> startswith w s) (po_strings opt))) opts) of
             [opt] \<Rightarrow> Inr opt
           | [] \<Rightarrow> usage_error (''no such option: '' @ s)
           | _ \<Rightarrow> usage_error (''ambiguous option: '' @ s)))"

definition process_long :: "popt list \<Rightarrow> string \<Rightarrow> string list \<Rightarrow> optvals \<Rightarrow> (optvals \<times> string list) res" where
  "process_long opts arg rargs values =
     (let opt_string = takeWhile (\<lambda>c. c \<noteq> CHR ''='') arg; explicit = (CHR ''='' \<in> set arg);
          value = drop (length opt_string + 1) arg
      in res_bind (match_long_opt opts opt_string) (\<lambda>opt.
           if takes_value opt then
             (if explicit then res_bind (take_action opt value values) (\<lambda>v. Inr (v, rargs))
              else case rargs of
                     [] \<Rightarrow> usage_error (opt_string @ '' option requires an argument'')
                   | r # rs \<Rightarrow> res_bind (take_action opt r values) (\<lambda>v. Inr (v, rs)))
           else if explicit then usage_error (opt_string @ '' option does not take a value'')
           else res_bind (take_action opt [] values) (\<lambda>v. Inr (v, rargs))))"

fun process_short :: "popt list \<Rightarrow> string \<Rightarrow> string list \<Rightarrow> optvals \<Rightarrow> (optvals \<times> string list) res" where
  "process_short opts [] rargs values = Inr (values, rargs)"
| "process_short opts (ch # chars) rargs values =
     (case find_opt opts [CHR ''-'', ch] of
        None \<Rightarrow> usage_error (''no such option: -'' @ [ch])
      | Some opt \<Rightarrow>
          if takes_value opt then
            (if chars \<noteq> [] then res_bind (take_action opt chars values) (\<lambda>v. Inr (v, rargs))
             else case rargs of
                    [] \<Rightarrow> usage_error (CHR ''-'' # ch # '' option requires an argument'')
                  | r # rs \<Rightarrow> res_bind (take_action opt r values) (\<lambda>v. Inr (v, rs)))
          else res_bind (take_action opt [] values) (process_short opts chars rargs))"

lemma process_long_length: "process_long opts arg rargs values = Inr (v, rs) \<Longrightarrow> length rs \<le> length rargs"
  by (auto simp: process_long_def Let_def usage_error_def res_bind_eq_Inr split: if_splits list.splits)

lemma process_short_length: "process_short opts chars rargs values = Inr (v, rs) \<Longrightarrow> length rs \<le> length rargs"
  by (induction opts chars rargs "values" rule: process_short.induct)
    (auto simp: usage_error_def res_bind_eq_Inr split: if_splits list.splits option.splits)

text \<open>\<open>_process_args\<close>; the arguments that are no options come first in the result.\<close>

function process_args :: "popt list \<Rightarrow> string list \<Rightarrow> string list \<Rightarrow> optvals \<Rightarrow> (optvals \<times> string list) res" where
  "process_args opts [] largs values = Inr (values, largs)"
| "process_args opts (arg # rargs) largs values =
     (if arg = ''--'' then Inr (values, largs @ rargs)
      else if startswith arg ''--''
      then res_bind (process_long opts arg rargs values) (\<lambda>(values', rargs'). process_args opts rargs' largs values')
      else if startswith arg ''-'' \<and> 1 < length arg
      then res_bind (process_short opts (tl arg) rargs values) (\<lambda>(values', rargs'). process_args opts rargs' largs values')
      else process_args opts rargs (largs @ [arg]) values)"
  by pat_completeness auto
termination
  by (relation "measure (\<lambda>(opts, rargs, largs, values). length rargs)")
    (auto dest: process_long_length process_short_length)

definition default_values :: "popt list \<Rightarrow> optvals" where
  "default_values opts =
     foldl (\<lambda>values opt. if po_action opt = ''help'' then values else dset values (po_dest opt) (po_default opt)) [] opts"

definition parse_args :: "optparser \<Rightarrow> string list \<Rightarrow> (optvals \<times> string list) res" where
  "parse_args p args = process_args (pa_options p) args [] (default_values (pa_options p))"

section \<open>The options of GYP\<close>

definition opt_args :: "string list \<Rightarrow> string \<Rightarrow> option_args" where
  "opt_args strings dest =
     \<lparr>oa_strings = strings, oa_dest = Some dest, oa_action = None, oa_type = None, oa_default = ONone, oa_env_name = None, oa_regenerate = True\<rparr>"

definition gyp_option_args :: "option_args list" where
  "gyp_option_args =
     [(opt_args [''--build''] ''configs'')\<lparr>oa_action := Some ''append''\<rparr>,
      (opt_args [''--check''] ''check'')\<lparr>oa_action := Some ''store_true''\<rparr>,
      (opt_args [''--config-dir''] ''config_dir'')\<lparr>oa_action := Some ''store'', oa_env_name := Some ''GYP_CONFIG_DIR''\<rparr>,
      (opt_args [''-d'', ''--debug''] ''debug'')\<lparr>oa_action := Some ''append'', oa_default := OList []\<rparr>,
      (opt_args [''-D''] ''defines'')\<lparr>oa_action := Some ''append'', oa_env_name := Some ''GYP_DEFINES''\<rparr>,
      (opt_args [''--depth''] ''depth'')\<lparr>oa_type := Some ''path''\<rparr>,
      (opt_args [''-f'', ''--format''] ''formats'')
        \<lparr>oa_action := Some ''append'', oa_env_name := Some ''GYP_GENERATORS'', oa_regenerate := False\<rparr>,
      (opt_args [''-G''] ''generator_flags'')
        \<lparr>oa_action := Some ''append'', oa_default := OList [], oa_env_name := Some ''GYP_GENERATOR_FLAGS''\<rparr>,
      (opt_args [''--generator-output''] ''generator_output'')
        \<lparr>oa_action := Some ''store'', oa_type := Some ''path'', oa_env_name := Some ''GYP_GENERATOR_OUTPUT''\<rparr>,
      (opt_args [''--ignore-environment''] ''use_environment'')
        \<lparr>oa_action := Some ''store_false'', oa_default := OBool True, oa_regenerate := False\<rparr>,
      (opt_args [''-I'', ''--include''] ''includes'')\<lparr>oa_action := Some ''append'', oa_type := Some ''path''\<rparr>,
      (opt_args [''--no-circular-check''] ''circular_check'')
        \<lparr>oa_action := Some ''store_false'', oa_default := OBool True, oa_regenerate := False\<rparr>,
      (opt_args [''--no-parallel''] [])\<lparr>oa_dest := None, oa_action := Some ''store_true'', oa_default := OBool False\<rparr>,
      (opt_args [''-S'', ''--suffix''] ''suffix'')\<lparr>oa_default := OStr []\<rparr>,
      (opt_args [''--toplevel-dir''] ''toplevel_dir'')\<lparr>oa_action := Some ''store'', oa_type := Some ''path''\<rparr>,
      (opt_args [''-R'', ''--root-target''] ''root_targets'')\<lparr>oa_action := Some ''append''\<rparr>]"

definition gyp_parser :: optparser where
  "gyp_parser = foldl (\<lambda>p a. add_option a p) RegeneratableOptionParser gyp_option_args"

section \<open>Regeneration\<close>

text \<open>\<open>ShlexEnv\<close>; an empty variable gives an empty string, over which loops do nothing.\<close>

definition ShlexEnv :: "(string, string) dict \<Rightarrow> string \<Rightarrow> string list res" where
  "ShlexEnv environ env_name =
     (case dget environ env_name of
        None \<Rightarrow> Inr []
      | Some flags \<Rightarrow> if flags = [] then Inr [] else shlex_split flags)"

definition FormatOpt :: "string \<Rightarrow> string \<Rightarrow> string" where
  "FormatOpt opt value = (if startswith opt ''--'' then opt @ ''='' @ value else opt @ value)"

text \<open>The loop over the values of the environment, and \<open>RegenerateAppendFlag\<close>.\<close>

definition append_once :: "string list \<Rightarrow> string \<Rightarrow> string list" where
  "append_once flags value = (if value \<in> set flags then remove1 value flags @ [value] else flags @ [value])"

definition RegenerateAppendFlag ::
  "(string, string) dict \<Rightarrow> string \<Rightarrow> optval \<Rightarrow> (string \<Rightarrow> string res) \<Rightarrow> string option \<Rightarrow> optvals \<Rightarrow> string list res" where
  "RegenerateAppendFlag environ flag values predicate env_name options =
     res_bind (case env_name of
         Some name \<Rightarrow>
           if opt_true (opt_get options ''use_environment'') \<and> name \<noteq> [] then
             res_bind (ShlexEnv environ name)
               (foldM (\<lambda>flags flag_value. res_bind (predicate flag_value) (\<lambda>v. Inr (append_once flags (FormatOpt flag v)))) [])
           else Inr []
       | None \<Rightarrow> Inr []) (\<lambda>flags.
     foldM (\<lambda>flags flag_value. res_bind (predicate flag_value) (\<lambda>v. Inr (flags @ [FormatOpt flag v]))) flags (opt_items values))"

text \<open>\<open>FixPath\<close> of \<open>RegenerateFlags\<close>: a relative path cannot be fixed without a depth.\<close>

definition FixPath :: "(string \<Rightarrow> string) \<Rightarrow> optvals \<Rightarrow> string \<Rightarrow> string res" where
  "FixPath realpath options path =
     (case opt_get options ''depth'' of
        OStr depth \<Rightarrow>
          (let fixed = FixIfRelativePath realpath path depth in Inr (if fixed = [] then ''.'' else fixed))
      | _ \<Rightarrow> if isabs path then Inr path else Inl (AttributeError ''startswith''))"

fun opt_text :: "optval \<Rightarrow> string res" where
  "opt_text (OStr s) = Inr s"
| "opt_text _ = Inl (TypeError ''str expected'')"

definition regenerate_option ::
  "(string, string) dict \<Rightarrow> (string \<Rightarrow> string) \<Rightarrow> optvals \<Rightarrow> string list \<Rightarrow> string \<times> regen_meta \<Rightarrow> string list res" where
  "regenerate_option environ realpath options flags entry =
     (case entry of (name, metadata) \<Rightarrow>
        let opt = rm_opt metadata; value = opt_get options name; action = rm_action metadata; env_name = rm_env_name metadata;
            value_predicate = (if rm_type metadata = Some ''path'' then FixPath realpath options else Inr);
            from_env = (case env_name of
                Some e \<Rightarrow> if opt_true (opt_get options ''use_environment'') then dget environ e else None
              | None \<Rightarrow> None)
        in if action = Some ''append''
           then res_bind (RegenerateAppendFlag environ opt value value_predicate env_name options) (\<lambda>fs. Inr (flags @ fs))
           else if action = Some ''store'' \<or> action = None then
             (if opt_true value
              then res_bind (res_bind (opt_text value) value_predicate) (\<lambda>v. Inr (flags @ [FormatOpt opt v]))
              else case from_env of
                     Some v0 \<Rightarrow>
                       if v0 \<noteq> [] then res_bind (value_predicate v0) (\<lambda>v. Inr (flags @ [FormatOpt opt v])) else Inr flags
                   | None \<Rightarrow> Inr flags)
           else if action = Some ''store_true'' \<and> opt_true value \<or> action = Some ''store_false'' \<and> \<not> opt_true value
           then Inr (flags @ [opt])
           else Inr flags)"

definition RegenerateFlags ::
  "(string, string) dict \<Rightarrow> (string \<Rightarrow> string) \<Rightarrow> (string, regen_meta) dict \<Rightarrow> optvals \<Rightarrow> string list res" where
  "RegenerateFlags environ realpath metadata options =
     foldM (regenerate_option environ realpath options) [''--ignore-environment''] metadata"

section \<open>The settings of a run\<close>

text \<open>\<open>NameValueListToDict\<close>; a name without a value is set to \<open>True\<close>.\<close>

datatype flagval = FInt int | FStr string | FTrue

definition name_value :: "string \<Rightarrow> string \<times> flagval" where
  "name_value item =
     (let name = takeWhile (\<lambda>c. c \<noteq> CHR ''='') item
      in if CHR ''='' \<in> set item
         then (name, (case int_of_str (drop (length name + 1) item) of
                        Inr i \<Rightarrow> FInt i
                      | Inl _ \<Rightarrow> FStr (drop (length name + 1) item)))
         else (name, FTrue))"

definition NameValueListToDict :: "string list \<Rightarrow> (string, flagval) dict" where
  "NameValueListToDict name_value_list =
     foldl (\<lambda>result item. case name_value item of (name, value) \<Rightarrow> dset result name value) [] name_value_list"

text \<open>What \<open>gyp_main\<close> finds around it: environment variables, the platform, the working directory with its
  entries, whether a path exists, \<open>os.path.realpath\<close> and \<open>os.path.expanduser\<close>, the name of the program.\<close>

record main_env =
  me_environ :: "(string, string) dict"
  me_platform :: string
  me_cwd :: string
  me_listdir :: "string list"
  me_exists :: "string \<Rightarrow> bool"
  me_realpath :: "string \<Rightarrow> string"
  me_expanduser :: "string \<Rightarrow> string"
  me_my_name :: string

definition use_environment :: "optvals \<Rightarrow> bool" where
  "use_environment options = opt_true (opt_get options ''use_environment'')"

definition abspath :: "main_env \<Rightarrow> string \<Rightarrow> string" where
  "abspath env path = normpath (path_join2 (me_cwd env) path)"

definition FindBuildFiles :: "main_env \<Rightarrow> string list" where
  "FindBuildFiles env = filter (\<lambda>file. endswith file ''.gyp'') (me_listdir env)"

text \<open>The configuration directory: the loop over the variables with the home directory, and its use.\<close>

fun home_loop :: "main_env \<Rightarrow> string option \<Rightarrow> string list \<Rightarrow> string option" where
  "home_loop env home_dot_gyp [] = home_dot_gyp"
| "home_loop env home_dot_gyp (home_var # home_vars) =
     (case dget (me_environ env) home_var of
        None \<Rightarrow> home_loop env home_dot_gyp home_vars
      | Some home \<Rightarrow>
          (let dir = path_join2 home ''.gyp''
           in if me_exists env dir then Some dir else home_loop env None home_vars))"

definition home_dot_gyp :: "main_env \<Rightarrow> optvals \<Rightarrow> string option" where
  "home_dot_gyp env options =
     (let from_env = (if use_environment options then dget (me_environ env) ''GYP_CONFIG_DIR'' else None);
          env_dir = map_option (\<lambda>e. if e \<noteq> [] then me_expanduser env e else e) from_env;
          home_vars = [''HOME''] @ (if me_platform env \<in> {''cygwin'', ''win32''} then [''USERPROFILE''] else []);
          dir = (if opt_true (opt_get options ''config_dir'') then Some (me_expanduser env (opt_string (opt_get options ''config_dir'')))
                 else if env_dir \<noteq> None \<and> env_dir \<noteq> Some [] then env_dir
                 else home_loop env env_dir home_vars)
      in case dir of Some d \<Rightarrow> if d \<noteq> [] \<and> \<not> me_exists env d then None else dir | None \<Rightarrow> None)"

text \<open>The formats; the pieces between white space and commas may be empty.\<close>

definition platform_format :: "string \<Rightarrow> string" where
  "platform_format platform =
     (if platform = ''darwin'' then ''xcode'' else if platform \<in> {''win32'', ''cygwin''} then ''msvs'' else ''make'')"

definition generate_formats :: "main_env \<Rightarrow> optvals \<Rightarrow> string list" where
  "generate_formats env options =
     (if opt_true (opt_get options ''formats'') then opt_items (opt_get options ''formats'')
      else let s = (case (if use_environment options then dget (me_environ env) ''GYP_GENERATORS'' else None) of Some s \<Rightarrow> s | None \<Rightarrow> [])
           in if s \<noteq> [] then split_on (CHR '','') (map (\<lambda>c. if is_space c then CHR '','' else c) s)
              else [platform_format (me_platform env)])"

definition generator_output :: "main_env \<Rightarrow> optvals \<Rightarrow> optval" where
  "generator_output env options =
     (let v = opt_get options ''generator_output''
      in if \<not> opt_true v \<and> use_environment options
         then (case dget (me_environ env) ''GYP_GENERATOR_OUTPUT'' of
                 Some g \<Rightarrow> if g \<noteq> [] then OStr g else v
               | None \<Rightarrow> v)
         else v)"

text \<open>The search for a directory \<open>src\<close>, from the last component of the path of a build file to the first.\<close>

fun src_prefix :: "string list \<Rightarrow> string list option" where
  "src_prefix [] = None"
| "src_prefix (c # rev_components) = (if c = ''src'' then Some (c # rev_components) else src_prefix rev_components)"

fun find_depth :: "main_env \<Rightarrow> string list \<Rightarrow> string option" where
  "find_depth env [] = None"
| "find_depth env (build_file # build_files) =
     (case src_prefix (rev (split_on slash (abspath env (dirname build_file)))) of
        Some cs \<Rightarrow> Some (join ''/'' (rev cs))
      | None \<Rightarrow> find_depth env build_files)"

text \<open>The values of a variable of the environment, then those of the command line.\<close>

definition env_and_options :: "main_env \<Rightarrow> optvals \<Rightarrow> string \<Rightarrow> string \<Rightarrow> string list res" where
  "env_and_options env options env_name name =
     res_bind (if use_environment options then ShlexEnv (me_environ env) env_name else Inr []) (\<lambda>vs.
       Inr (vs @ opt_items (opt_get options name)))"

definition include_files :: "main_env \<Rightarrow> optvals \<Rightarrow> string list" where
  "include_files env options =
     (case home_dot_gyp env options of
        Some d \<Rightarrow> (let f = path_join2 d ''include.gypi'' in if me_exists env f then [f] else [])
      | None \<Rightarrow> []) @ opt_items (opt_get options ''includes'')"

text \<open>\<open>gyp_main\<close> up to the loop over the formats: the options with what has been added to them, and the
  values that go into \<open>Load\<close> and the parameters of the generator.\<close>

record settings =
  se_options :: optvals
  se_build_files :: "string list"
  se_default_variables :: "(string, flagval) dict"
  se_includes :: "string list"
  se_generator_flags :: "(string, flagval) dict"
  se_home_dot_gyp :: "string option"

definition no_build_file :: "string \<Rightarrow> string" where
  "no_build_file my_name = ''usage: '' @ my_name @ '' [options ...] [build_file ...]'' @ [nl, nl] @ my_name @ '': error: no build_file''"

definition read_settings :: "main_env \<Rightarrow> string list \<Rightarrow> settings res" where
  "read_settings env args =
     res_bind (parse_args gyp_parser args) (\<lambda>(options0, build_files_arg).
     let options1 = dset (dset (dset options0 ''formats'' (OList (generate_formats env options0)))
           ''generator_output'' (generator_output env options0)) ''parallel'' (OBool (\<not> opt_true (opt_get options0 ''no_parallel'')));
         build_files = (if build_files_arg = [] then FindBuildFiles env else build_files_arg)
     in if build_files = [] then Inl (GypError (no_build_file (me_my_name env)))
     else res_bind (if opt_true (opt_get options1 ''depth'') then Inr (opt_get options1 ''depth'')
                    else case find_depth env build_files of
                           Some d \<Rightarrow> Inr (OStr d)
                         | None \<Rightarrow> Inl (GypError (''Could not automatically locate src directory.  This is''
                             @ ''a temporary Chromium feature that will be removed.  Use'' @ ''--depth as a workaround.''))) (\<lambda>depth.
     let options2 = dset options1 ''depth'' depth;
         options = (if opt_true (opt_get options2 ''toplevel_dir'') then options2 else dset options2 ''toplevel_dir'' depth)
     in res_bind (env_and_options env options ''GYP_DEFINES'' ''defines'') (\<lambda>defines.
        res_bind (env_and_options env options ''GYP_GENERATOR_FLAGS'' ''generator_flags'') (\<lambda>gen_flags.
          Inr \<lparr>se_options = options, se_build_files = build_files, se_default_variables = NameValueListToDict defines,
               se_includes = include_files env options, se_generator_flags = NameValueListToDict gen_flags,
               se_home_dot_gyp = home_dot_gyp env options\<rparr>))))"

end
