(* ===== verification/Gyp_Regenerate.thy ===== *)
theory Gyp_Regenerate
  imports Gyp_Options
begin

text \<open>
  The flags of \<open>RegenerateFlags\<close>, parsed again: first what one option does to the values, then the flags of
  one option, of all of them, and the settings that \<open>gyp_main\<close> takes from them.
\<close>

section \<open>The value of an attribute\<close>

lemma opt_get_dset: "opt_get (dset v k x) k' = (if k' = k then x else opt_get v k')"
  by (simp add: opt_get_def)

text \<open>What an action does to the attribute of its option.\<close>

definition upd :: "popt \<Rightarrow> optval \<Rightarrow> string \<Rightarrow> optval" where
  "upd opt v x =
     (if po_action opt = ''store'' then OStr x
      else if po_action opt = ''append'' then OList (opt_items v @ [x]) else OBool (po_action opt = ''store_true''))"

definition act :: "popt \<Rightarrow> optvals \<Rightarrow> string \<Rightarrow> optvals" where
  "act opt values x = dset values (po_dest opt) (upd opt (opt_get values (po_dest opt)) x)"

abbreviation value_action :: "popt \<Rightarrow> bool" where
  "value_action opt \<equiv> po_action opt \<in> {''store'', ''append'', ''store_true'', ''store_false''}"

lemma take_action_act: "value_action opt \<Longrightarrow> take_action opt x values = Inr (act opt values x)"
  by (auto simp: take_action_def act_def upd_def Let_def)

lemma opt_get_act: "opt_get (act opt values x) k = (if k = po_dest opt then upd opt (opt_get values k) x else opt_get values k)"
  by (simp add: act_def opt_get_dset)

lemma opt_get_acts:
  "opt_get (foldl (act opt) values xs) k = (if k = po_dest opt then foldl (upd opt) (opt_get values k) xs else opt_get values k)"
  by (induction xs arbitrary: "values") (auto simp: opt_get_act)

lemma upds_append: "po_action opt = ''append'' \<Longrightarrow> opt_items (foldl (upd opt) v xs) = opt_items v @ xs"
  by (induction xs arbitrary: v) (auto simp: upd_def)

section \<open>Types of the values\<close>

text \<open>Each attribute is \<open>None\<close> or has the type that the action of its option gives it.\<close>

definition opt_ok :: "popt \<Rightarrow> optval \<Rightarrow> bool" where
  "opt_ok opt v =
     (case v of
        ONone \<Rightarrow> True
      | OStr s \<Rightarrow> po_action opt = ''store''
      | OList l \<Rightarrow> po_action opt = ''append''
      | OBool b \<Rightarrow> po_action opt \<notin> {''store'', ''append''})"

definition typed :: "popt list \<Rightarrow> optvals \<Rightarrow> bool" where
  "typed opts values \<longleftrightarrow> (\<forall>opt\<in>set opts. opt_ok opt (opt_get values (po_dest opt)))"

lemma typed_take_action:
  assumes "typed opts values" and "distinct (map po_dest opts)" and "opt \<in> set opts" and "take_action opt x values = Inr values'"
  shows "typed opts values'"
proof -
  have v: "value_action opt" using assms(4) by (auto simp: take_action_def Let_def split: if_splits)
  then have a: "values' = act opt values x" using assms(4) by (simp add: take_action_act)
  have "opt_ok opt (upd opt y x)" for y using v by (auto simp: opt_ok_def upd_def)
  moreover have "o' = opt" if "o' \<in> set opts" "po_dest o' = po_dest opt" for o'
    using assms(2,3) that by (auto simp: distinct_map dest: inj_onD)
  ultimately show ?thesis using assms(1) unfolding typed_def a opt_get_act by metis
qed

lemma find_opt_mem: "find_opt opts s = Some opt \<Longrightarrow> opt \<in> set opts"
  by (auto simp: find_opt_def find_Some_iff in_set_conv_nth)

lemma match_long_opt_mem: "match_long_opt opts s = Inr opt \<Longrightarrow> opt \<in> set opts"
proof -
  assume m: "match_long_opt opts s = Inr opt"
  define c where "c = concat (map (\<lambda>opt. map (\<lambda>_. opt) (filter (\<lambda>w. startswith w ''--'' \<and> startswith w s) (po_strings opt))) opts)"
  have "find_opt opts s = Some opt \<or> c = [opt]"
    using m unfolding match_long_opt_def c_def [symmetric] by (auto simp: usage_error_def split: option.splits list.splits)
  moreover have "set c \<subseteq> set opts" by (auto simp: c_def)
  ultimately show ?thesis using find_opt_mem by (metis list.set_intros(1) subsetD)
qed

lemma typed_process_long:
  assumes "process_long opts arg rargs values = Inr (values', rargs')" and "typed opts values" and "distinct (map po_dest opts)"
  shows "typed opts values'"
proof -
  obtain opt x where "opt \<in> set opts" "take_action opt x values = Inr values'"
    using assms(1) by (auto simp: process_long_def Let_def usage_error_def res_bind_eq_Inr dest: match_long_opt_mem
        split: if_splits list.splits)
  then show ?thesis using typed_take_action assms(2,3) by blast
qed

lemma typed_process_short:
  assumes "process_short opts chars rargs values = Inr (values', rargs')" and "typed opts values" and "distinct (map po_dest opts)"
  shows "typed opts values'"
  using assms
proof (induction opts chars rargs "values" rule: process_short.induct)
  case (2 opts ch chars rargs "values")
  obtain opt where opt: "find_opt opts [CHR ''-'', ch] = Some opt"
    using "2.prems"(1) by (auto simp: usage_error_def split: option.splits)
  note mem = find_opt_mem [OF opt]
  show ?case
  proof (cases "takes_value opt")
    case True
    then obtain x where "take_action opt x values = Inr values'"
      using "2.prems"(1) opt by (auto simp: usage_error_def res_bind_eq_Inr split: if_splits list.splits)
    then show ?thesis using typed_take_action mem "2.prems"(2,3) by blast
  next
    case False
    then obtain v where v: "take_action opt [] values = Inr v" "process_short opts chars rargs v = Inr (values', rargs')"
      using "2.prems"(1) opt by (auto simp: res_bind_eq_Inr)
    then show ?thesis using "2.IH" [OF opt False] typed_take_action mem "2.prems"(2,3) by blast
  qed
qed simp

lemma typed_process_args:
  "process_args opts rargs largs values = Inr (values', args) \<Longrightarrow> typed opts values \<Longrightarrow> distinct (map po_dest opts)
    \<Longrightarrow> typed opts values'"
proof (induction opts rargs largs "values" rule: process_args.induct)
  case (2 opts arg rargs largs "values")
  show ?case
  proof (cases "arg = ''--''")
    case False
    show ?thesis
    proof (cases "startswith arg ''--''")
      case True
      then obtain v r where l: "process_long opts arg rargs values = Inr (v, r)" "process_args opts r largs v = Inr (values', args)"
        using "2.prems"(1) False by (auto simp: res_bind_eq_Inr)
      then show ?thesis using "2.IH"(1) [OF False True l(1) refl l(2)] typed_process_long "2.prems"(2,3) by blast
    next
      case nl: False
      show ?thesis
      proof (cases "startswith arg ''-'' \<and> 1 < length arg")
        case True
        then obtain v r where l: "process_short opts (tl arg) rargs values = Inr (v, r)" "process_args opts r largs v = Inr (values', args)"
          using "2.prems"(1) False nl by (auto simp: res_bind_eq_Inr)
        then show ?thesis using "2.IH"(2) [OF False nl True l(1) refl l(2)] typed_process_short "2.prems"(2,3) by blast
      next
        case s: False
        then have "process_args opts rargs (largs @ [arg]) values = Inr (values', args)"
          using "2.prems"(1) False nl by (simp split: if_splits)
        then show ?thesis using "2.IH"(3) [OF False nl s] "2.prems"(2,3) by blast
      qed
    qed
  qed (use 2 in simp)
qed simp

section \<open>Parsing the flags of an option\<close>

text \<open>A long option string without an equals sign, or a short one.\<close>

definition flag_ok :: "string \<Rightarrow> bool" where
  "flag_ok s \<longleftrightarrow> (startswith s ''--'' \<and> 2 < length s \<and> CHR ''='' \<notin> set s)
     \<or> (length s = 2 \<and> s ! 0 = CHR ''-'' \<and> s ! 1 \<noteq> CHR ''-'')"

lemma flag_ok_cases:
  assumes "flag_ok s"
  obtains r where "s = CHR ''-'' # CHR ''-'' # r" "r \<noteq> []" "CHR ''='' \<notin> set r"
  | c where "s = [CHR ''-'', c]" "c \<noteq> CHR ''-''"
proof -
  have "(\<exists>r. s = CHR ''-'' # CHR ''-'' # r \<and> r \<noteq> [] \<and> CHR ''='' \<notin> set r) \<or> (\<exists>c. s = [CHR ''-'', c] \<and> c \<noteq> CHR ''-'')"
    using assms by (cases s; cases "tl s") (auto simp: flag_ok_def startswith_def)
  then show thesis using that by blast
qed

lemma process_args_value:
  assumes "find_opt opts s = Some opt" and "takes_value opt" and "flag_ok s" and "startswith s ''--'' \<or> x \<noteq> []"
  shows "process_args opts (FormatOpt s x # rest) largs values = process_args opts rest largs (act opt values x)"
proof -
  have a: "take_action opt x v = Inr (act opt v x)" for v using assms(2) by (intro take_action_act) (auto simp: takes_value_def)
  show ?thesis using assms(3)
  proof (cases rule: flag_ok_cases)
    case (1 r)
    have f: "FormatOpt s x = CHR ''-'' # CHR ''-'' # r @ CHR ''='' # x" by (simp add: FormatOpt_def 1 startswith_def)
    have t: "takeWhile (\<lambda>c. c \<noteq> CHR ''='') (FormatOpt s x) = s" using 1 f by (simp add: takeWhile_append)
    have "process_long opts (FormatOpt s x) rest values = Inr (act opt values x, rest)"
      unfolding process_long_def t Let_def match_long_opt_def assms(1) using assms(2) by (simp add: 1 a f [unfolded 1])
    then show ?thesis using f 1 by (simp add: startswith_def)
  next
    case (2 c)
    have f: "FormatOpt s x = CHR ''-'' # c # x" using 2 by (simp add: FormatOpt_def startswith_def)
    have "x \<noteq> []" using assms(4) 2 by (auto simp: startswith_def)
    moreover have "find_opt opts [CHR ''-'', c] = Some opt" using assms(1) 2 by simp
    ultimately have "process_short opts (c # x) rest values = Inr (act opt values x, rest)" using assms(2) a by simp
    then show ?thesis using 2(2) unfolding f by (simp add: startswith_def del: process_short.simps)
  qed
qed

lemma process_args_flag:
  assumes "find_opt opts s = Some opt" and "po_action opt \<in> {''store_true'', ''store_false''}" and "flag_ok s"
  shows "process_args opts (s # rest) largs values = process_args opts rest largs (act opt values [])"
proof -
  have a: "take_action opt [] v = Inr (act opt v [])" for v using assms(2) by (intro take_action_act) auto
  have nt: "\<not> takes_value opt" using assms(2) by (auto simp: takes_value_def)
  show ?thesis using assms(3)
  proof (cases rule: flag_ok_cases)
    case (1 r)
    have t: "takeWhile (\<lambda>c. c \<noteq> CHR ''='') s = s" using 1 by (auto simp: takeWhile_eq_all_conv)
    have "CHR ''='' \<notin> set s" using 1 by auto
    then have "process_long opts s rest values = Inr (act opt values [], rest)"
      unfolding process_long_def t Let_def match_long_opt_def assms(1) using nt by (simp add: a)
    then show ?thesis using 1 by (simp add: startswith_def)
  next
    case (2 c)
    then have "process_short opts [c] rest values = Inr (act opt values [], rest)" using assms(1) nt a by simp
    then show ?thesis using 2 by (simp add: startswith_def)
  qed
qed

text \<open>An entry of the metadata and its option.\<close>

definition meta_opt :: "popt list \<Rightarrow> string \<times> regen_meta \<Rightarrow> popt" where
  "meta_opt opts e = the (find_opt opts (rm_opt (snd e)))"

definition meta_ok :: "popt list \<Rightarrow> string \<times> regen_meta \<Rightarrow> bool" where
  "meta_ok opts e \<longleftrightarrow> find_opt opts (rm_opt (snd e)) \<noteq> None \<and> po_dest (meta_opt opts e) = fst e
     \<and> po_action (meta_opt opts e) = (case rm_action (snd e) of None \<Rightarrow> ''store'' | Some a \<Rightarrow> a)
     \<and> value_action (meta_opt opts e) \<and> flag_ok (rm_opt (snd e))"

abbreviation flag_action :: "regen_meta \<Rightarrow> bool" where
  "flag_action m \<equiv> rm_action m = Some ''store_true'' \<or> rm_action m = Some ''store_false''"

definition entry_flag :: "string \<times> regen_meta \<Rightarrow> string \<Rightarrow> string" where
  "entry_flag e x = (if flag_action (snd e) then rm_opt (snd e) else FormatOpt (rm_opt (snd e)) x)"

text \<open>The values of an entry can be written: none is empty behind a short option.\<close>

definition entry_values_ok :: "string \<times> regen_meta \<Rightarrow> string list \<Rightarrow> bool" where
  "entry_values_ok e xs \<longleftrightarrow> (if flag_action (snd e) then set xs \<subseteq> {[]} else startswith (rm_opt (snd e)) ''--'' \<or> [] \<notin> set xs)"

lemma process_entry:
  assumes "meta_ok opts e" and "entry_values_ok e xs"
  shows "process_args opts (map (entry_flag e) xs @ rest) largs values
    = process_args opts rest largs (foldl (act (meta_opt opts e)) values xs)"
  using assms(2)
proof (induction xs arbitrary: "values")
  case (Cons x xs)
  have o: "find_opt opts (rm_opt (snd e)) = Some (meta_opt opts e)" using assms(1) by (auto simp: meta_ok_def meta_opt_def)
  have v: "entry_values_ok e xs" using Cons.prems by (auto simp: entry_values_ok_def split: if_splits)
  show ?case
  proof (cases "flag_action (snd e)")
    case True
    then have "po_action (meta_opt opts e) \<in> {''store_true'', ''store_false''}" "x = []"
      using assms(1) Cons.prems by (auto simp: meta_ok_def entry_values_ok_def)
    then show ?thesis using process_args_flag [OF o] assms(1) True Cons.IH [OF v] by (simp add: entry_flag_def meta_ok_def)
  next
    case False
    have "takes_value (meta_opt opts e)" using assms(1) False by (auto simp: meta_ok_def takes_value_def split: option.splits)
    moreover have "startswith (rm_opt (snd e)) ''--'' \<or> x \<noteq> []" using Cons.prems False by (auto simp: entry_values_ok_def)
    ultimately show ?thesis
      using process_args_value [OF o] assms(1) False Cons.IH [OF v] by (simp add: entry_flag_def meta_ok_def)
  qed
qed simp

lemma meta_ok_dest: "meta_ok opts e \<Longrightarrow> po_dest (meta_opt opts e) = fst e"
  by (simp add: meta_ok_def)

text \<open>The flags of several options set each attribute on its own.\<close>

definition entries_act :: "popt list \<Rightarrow> (string \<times> regen_meta \<Rightarrow> string list) \<Rightarrow> optvals \<Rightarrow> (string \<times> regen_meta) list \<Rightarrow> optvals" where
  "entries_act opts xs values es = foldl (\<lambda>v e. foldl (act (meta_opt opts e)) v (xs e)) values es"

lemma process_entries:
  assumes "\<And>e. e \<in> set es \<Longrightarrow> meta_ok opts e \<and> entry_values_ok e (xs e)"
  shows "process_args opts (concat (map (\<lambda>e. map (entry_flag e) (xs e)) es) @ rest) largs values
    = process_args opts rest largs (entries_act opts xs values es)"
  using assms by (induction es arbitrary: "values") (auto simp: process_entry entries_act_def)

lemma entries_act_other:
  assumes "\<And>e. e \<in> set es \<Longrightarrow> meta_ok opts e" and "k \<notin> fst ` set es"
  shows "opt_get (entries_act opts xs values es) k = opt_get values k"
  using assms
proof (induction es arbitrary: "values")
  case (Cons e es)
  then have "po_dest (meta_opt opts e) \<noteq> k" using meta_ok_dest [of opts e] by auto
  then show ?case using Cons by (simp add: entries_act_def opt_get_acts)
qed (simp add: entries_act_def)

lemma entries_act_own:
  assumes "\<And>e. e \<in> set es \<Longrightarrow> meta_ok opts e" and "distinct (map fst es)" and "e \<in> set es"
  shows "opt_get (entries_act opts xs values es) (fst e) = foldl (upd (meta_opt opts e)) (opt_get values (fst e)) (xs e)"
proof -
  obtain es1 es2 where es: "es = es1 @ e # es2" using assms(3) by (meson split_list)
  let ?v1 = "entries_act opts xs values es1" and ?a = "foldl (act (meta_opt opts e))"
  have "entries_act opts xs values es = entries_act opts xs (?a ?v1 (xs e)) es2" by (simp add: entries_act_def es)
  moreover have "opt_get ?v1 (fst e) = opt_get values (fst e)"
    using assms(1,2) es by (intro entries_act_other) auto
  moreover have "opt_get (entries_act opts xs (?a ?v1 (xs e)) es2) (fst e) = opt_get (?a ?v1 (xs e)) (fst e)"
    using assms(1,2) es by (intro entries_act_other) auto
  moreover have "po_dest (meta_opt opts e) = fst e" using assms(1,3) meta_ok_dest by blast
  ultimately show ?thesis by (simp add: opt_get_acts)
qed

section \<open>The flags that are regenerated\<close>

lemma FormatOpt_inj: "inj (FormatOpt opt)"
  by (auto simp: inj_def FormatOpt_def)

lemma append_once_map: "inj f \<Longrightarrow> append_once (map f xs) (f x) = map f (append_once xs x)"
proof -
  assume f: "inj f"
  have "remove1 (f x) (map f xs) = map f (remove1 x xs)" using f by (induction xs) (auto simp: inj_eq)
  then show ?thesis using f by (simp add: append_once_def inj_image_mem_iff)
qed

lemma foldl_append_once_map: "inj f \<Longrightarrow> foldl append_once (map f acc) (map f xs) = map f (foldl append_once acc xs)"
  by (induction xs arbitrary: acc) (simp_all add: append_once_map)

lemma foldM_mapM: "foldM (\<lambda>s x. res_bind (p x) (\<lambda>v. Inr (g s v))) s xs = res_bind (mapM p xs) (\<lambda>vs. Inr (foldl g s vs))"
  by (induction xs arbitrary: s) (auto simp: res_bind_assoc intro!: res_bind_cong)

lemma foldl_snoc_map: "foldl (\<lambda>s v. s @ [f v]) s vs = s @ map f vs"
  by (induction vs arbitrary: s) simp_all

text \<open>The values for which an option is written.\<close>

definition option_values ::
  "(string, string) dict \<Rightarrow> (string \<Rightarrow> string) \<Rightarrow> optvals \<Rightarrow> string \<times> regen_meta \<Rightarrow> string list res" where
  "option_values environ realpath options e =
     (let value = opt_get options (fst e); m = snd e; env = opt_true (opt_get options ''use_environment'');
          p = (if rm_type m = Some ''path'' then FixPath realpath options else Inr)
      in if rm_action m = Some ''append'' then
           res_bind (case rm_env_name m of Some n \<Rightarrow> if env \<and> n \<noteq> [] then ShlexEnv environ n else Inr [] | None \<Rightarrow> Inr []) (\<lambda>vs.
           res_bind (mapM p vs) (\<lambda>vs'. res_bind (mapM p (opt_items value)) (\<lambda>ws. Inr (foldl append_once [] vs' @ ws))))
         else if rm_action m = Some ''store'' \<or> rm_action m = None then
           (if opt_true value then res_bind (res_bind (opt_text value) p) (\<lambda>v. Inr [v])
            else case (case rm_env_name m of Some n \<Rightarrow> if env then dget environ n else None | None \<Rightarrow> None) of
                   Some v0 \<Rightarrow> if v0 \<noteq> [] then res_bind (p v0) (\<lambda>v. Inr [v]) else Inr []
                 | None \<Rightarrow> Inr [])
         else if rm_action m = Some ''store_true'' \<and> opt_true value \<or> rm_action m = Some ''store_false'' \<and> \<not> opt_true value
         then Inr [[]] else Inr [])"

lemma RegenerateAppendFlag_values:
  "RegenerateAppendFlag environ opt value p env_name options =
     res_bind (case env_name of
         Some n \<Rightarrow> if opt_true (opt_get options ''use_environment'') \<and> n \<noteq> [] then ShlexEnv environ n else Inr []
       | None \<Rightarrow> Inr []) (\<lambda>vs.
     res_bind (mapM p vs) (\<lambda>vs'. res_bind (mapM p (opt_items value)) (\<lambda>ws. Inr (map (FormatOpt opt) (foldl append_once [] vs' @ ws)))))"
proof -
  have "foldl (\<lambda>fs v. append_once fs (FormatOpt opt v)) [] vs = map (FormatOpt opt) (foldl append_once [] vs)" for vs
    using foldl_append_once_map [OF FormatOpt_inj, of opt "[]" vs] by (simp add: foldl_map)
  then show ?thesis
    by (auto simp: RegenerateAppendFlag_def foldM_mapM foldl_snoc_map res_bind_assoc split: option.splits intro!: res_bind_cong)
qed

lemma regenerate_option_values:
  "regenerate_option environ realpath options flags e =
     res_bind (option_values environ realpath options e) (\<lambda>xs. Inr (flags @ map (entry_flag e) xs))"
proof -
  obtain name m where e: "e = (name, m)" by (cases e)
  show ?thesis
  proof (cases "rm_action m = Some ''append''")
    case True
    have "entry_flag e = FormatOpt (rm_opt m)" using True by (auto simp: entry_flag_def fun_eq_iff e)
    then show ?thesis using True
      by (simp add: regenerate_option_def option_values_def Let_def RegenerateAppendFlag_values res_bind_assoc e)
  next
    case False
    then show ?thesis
      by (auto simp: regenerate_option_def option_values_def Let_def res_bind_assoc entry_flag_def e split: option.splits)
  qed
qed

lemma RegenerateFlags_values:
  assumes "RegenerateFlags environ realpath metadata options = Inr flags"
  shows "\<exists>xs. (\<forall>e\<in>set metadata. option_values environ realpath options e = Inr (xs e))
    \<and> flags = ''--ignore-environment'' # concat (map (\<lambda>e. map (entry_flag e) (xs e)) metadata)"
proof -
  let ?xs = "\<lambda>e. projr (option_values environ realpath options e)"
  have "(\<forall>e\<in>set es. option_values environ realpath options e = Inr (?xs e)) \<and> fs' = fs @ concat (map (\<lambda>e. map (entry_flag e) (?xs e)) es)"
    if "foldM (regenerate_option environ realpath options) fs es = Inr fs'" for es fs fs'
    using that
  proof (induction es arbitrary: fs)
    case (Cons e es)
    obtain x where x: "option_values environ realpath options e = Inr x"
      "foldM (regenerate_option environ realpath options) (fs @ map (entry_flag e) x) es = Inr fs'"
      using Cons.prems by (auto simp: regenerate_option_values [of environ realpath options fs e] res_bind_eq_Inr)
    then show ?case using Cons.IH [OF x(2)] by simp
  qed simp
  from this [OF assms [unfolded RegenerateFlags_def]] show ?thesis by (intro exI [of _ ?xs]) simp
qed

section \<open>Names and values\<close>

text \<open>The last item with a name counts, so that items that occur again later may be dropped.\<close>

definition last_value :: "string \<Rightarrow> string list \<Rightarrow> flagval option" where
  "last_value k xs =
     (let ys = filter (\<lambda>x. fst (name_value x) = k) xs in if ys = [] then None else Some (snd (name_value (last ys))))"

lemma NameValueListToDict_lookup: "dget (NameValueListToDict xs) k = last_value k xs"
proof (induction xs rule: rev_induct)
  case (snoc x xs)
  then show ?case by (cases "name_value x") (auto simp: NameValueListToDict_def last_value_def Let_def)
qed (simp add: NameValueListToDict_def last_value_def dget_def)

lemma filter_remove1_other: "\<not> P x \<Longrightarrow> filter P (remove1 x xs) = filter P xs"
  by (induction xs) auto

lemma append_once_last:
  "(filter P (foldl append_once [] xs) = [] \<longleftrightarrow> filter P xs = [])
    \<and> (filter P xs \<noteq> [] \<longrightarrow> last (filter P (foldl append_once [] xs)) = last (filter P xs))"
proof (induction xs rule: rev_induct)
  case (snoc x xs)
  show ?case
  proof (cases "P x")
    case False
    then have "filter P (append_once l x) = filter P l" for l by (simp add: append_once_def filter_remove1_other)
    then show ?thesis using snoc False by simp
  qed (auto simp: append_once_def)
qed simp

lemma NameValueListToDict_append_once:
  "dget (NameValueListToDict (foldl append_once [] xs @ ys)) k = dget (NameValueListToDict (xs @ ys)) k"
  using append_once_last [of "\<lambda>x. fst (name_value x) = k" xs]
  by (auto simp: NameValueListToDict_lookup last_value_def Let_def last_append)

lemma append_once_set: "set (foldl append_once [] xs) = set xs"
proof (induction xs rule: rev_induct)
  case (snoc x xs)
  have "set (append_once l x) = insert x (set l)" for l
    by (auto simp: append_once_def dest: notin_set_remove1 in_set_remove1 [THEN iffD2, rotated])
  then show ?case using snoc by simp
qed simp

section \<open>The options of GYP\<close>

abbreviation gyp_opts :: "popt list" where
  "gyp_opts \<equiv> pa_options gyp_parser"

abbreviation meta :: "string option \<Rightarrow> string option \<Rightarrow> string option \<Rightarrow> string \<Rightarrow> regen_meta" where
  "meta action type env_name opt \<equiv> \<lparr>rm_action = action, rm_type = type, rm_env_name = env_name, rm_opt = opt\<rparr>"

lemma gyp_metadata:
  "pa_regeneratable gyp_parser =
     [(''configs'', meta (Some ''append'') None None ''--build''),
      (''check'', meta (Some ''store_true'') None None ''--check''),
      (''config_dir'', meta (Some ''store'') None (Some ''GYP_CONFIG_DIR'') ''--config-dir''),
      (''debug'', meta (Some ''append'') None None ''-d''),
      (''defines'', meta (Some ''append'') None (Some ''GYP_DEFINES'') ''-D''),
      (''depth'', meta None (Some ''path'') None ''--depth''),
      (''generator_flags'', meta (Some ''append'') None (Some ''GYP_GENERATOR_FLAGS'') ''-G''),
      (''generator_output'', meta (Some ''store'') (Some ''path'') (Some ''GYP_GENERATOR_OUTPUT'') ''--generator-output''),
      (''includes'', meta (Some ''append'') (Some ''path'') None ''-I''),
      (''suffix'', meta None None None ''-S''),
      (''toplevel_dir'', meta (Some ''store'') (Some ''path'') None ''--toplevel-dir''),
      (''root_targets'', meta (Some ''append'') None None ''-R'')]"
  by code_simp

lemma gyp_meta_ok: "list_all (meta_ok gyp_opts) (pa_regeneratable gyp_parser)"
  by code_simp

lemma gyp_dests: "distinct (map po_dest gyp_opts)" "distinct (map fst (pa_regeneratable gyp_parser))"
  by code_simp+

lemma gyp_defaults_typed: "typed gyp_opts (default_values gyp_opts)"
  unfolding typed_def list_all_iff [symmetric] by code_simp

lemma gyp_ignore:
  "find_opt gyp_opts ''--ignore-environment'' = Some \<lparr>po_strings = [''--ignore-environment''], po_dest = ''use_environment'',
     po_action = ''store_false'', po_default = OBool True\<rparr>" "flag_ok ''--ignore-environment''"
  by code_simp+

lemma gyp_defaults:
  "opt_get (default_values gyp_opts) ''configs'' = ONone" "opt_get (default_values gyp_opts) ''check'' = ONone"
  "opt_get (default_values gyp_opts) ''debug'' = OList []" "opt_get (default_values gyp_opts) ''defines'' = ONone"
  "opt_get (default_values gyp_opts) ''depth'' = ONone" "opt_get (default_values gyp_opts) ''generator_flags'' = OList []"
  "opt_get (default_values gyp_opts) ''generator_output'' = ONone" "opt_get (default_values gyp_opts) ''includes'' = ONone"
  "opt_get (default_values gyp_opts) ''suffix'' = OStr []" "opt_get (default_values gyp_opts) ''toplevel_dir'' = ONone"
  "opt_get (default_values gyp_opts) ''root_targets'' = ONone"
  by code_simp+

section \<open>The settings again\<close>

lemma join_snoc_ne: "x \<noteq> [] \<Longrightarrow> join sep (xs @ [x]) \<noteq> []"
  by (induction sep xs rule: join.induct) auto

lemma src_prefix_hd: "src_prefix cs = Some ds \<Longrightarrow> \<exists>es. ds = ''src'' # es"
  by (induction cs) (auto split: if_splits)

lemma find_depth_ne: "find_depth env fs = Some d \<Longrightarrow> d \<noteq> []"
  by (induction env fs rule: find_depth.induct) (auto split: option.splits dest!: src_prefix_hd simp: join_snoc_ne)

lemma read_settings_Inr:
  assumes "read_settings env args = Inr s"
  obtains options0 args' ds gs where "parse_args gyp_parser args = Inr (options0, args')"
    "\<And>k. k \<notin> {''formats'', ''generator_output'', ''parallel'', ''depth'', ''toplevel_dir''}
      \<Longrightarrow> opt_get (se_options s) k = opt_get options0 k"
    "opt_get (se_options s) ''generator_output'' = generator_output env options0"
    "opt_true (opt_get (se_options s) ''depth'')" "opt_get (se_options s) ''depth'' = opt_get options0 ''depth'' \<or> (\<exists>d. opt_get (se_options s) ''depth'' = OStr d)"
    "opt_true (opt_get (se_options s) ''toplevel_dir'')"
    "opt_get (se_options s) ''toplevel_dir'' \<in> {opt_get options0 ''toplevel_dir'', opt_get (se_options s) ''depth''}"
    "env_and_options env (se_options s) ''GYP_DEFINES'' ''defines'' = Inr ds" "se_default_variables s = NameValueListToDict ds"
    "env_and_options env (se_options s) ''GYP_GENERATOR_FLAGS'' ''generator_flags'' = Inr gs" "se_generator_flags s = NameValueListToDict gs"
proof -
  obtain o0 a where p: "parse_args gyp_parser args = Inr (o0, a)"
    using assms by (auto simp: read_settings_def res_bind_eq_Inr)
  define o1 where "o1 = dset (dset (dset o0 ''formats'' (OList (generate_formats env o0)))
           ''generator_output'' (generator_output env o0)) ''parallel'' (OBool (\<not> opt_true (opt_get o0 ''no_parallel'')))"
  define bs where "bs = (if a = [] then FindBuildFiles env else a)"
  define dep where "dep = (if opt_true (opt_get o1 ''depth'') then Inr (opt_get o1 ''depth'')
                    else case find_depth env bs of
                           Some d \<Rightarrow> Inr (OStr d)
                         | None \<Rightarrow> Inl (GypError (''Could not automatically locate src directory.  This is''
                             @ ''a temporary Chromium feature that will be removed.  Use'' @ ''--depth as a workaround.'')))"
  define o3 where "o3 = (\<lambda>d. if opt_true (opt_get (dset o1 ''depth'' d) ''toplevel_dir'') then dset o1 ''depth'' d
     else dset (dset o1 ''depth'' d) ''toplevel_dir'' d)"
  have "(if bs = [] then Inl (GypError (no_build_file (me_my_name env)))
     else res_bind dep (\<lambda>depth. res_bind (env_and_options env (o3 depth) ''GYP_DEFINES'' ''defines'') (\<lambda>defines.
        res_bind (env_and_options env (o3 depth) ''GYP_GENERATOR_FLAGS'' ''generator_flags'') (\<lambda>gen_flags.
          Inr \<lparr>se_options = o3 depth, se_build_files = bs, se_default_variables = NameValueListToDict defines,
               se_includes = include_files env (o3 depth), se_generator_flags = NameValueListToDict gen_flags,
               se_home_dot_gyp = home_dot_gyp env (o3 depth)\<rparr>)))) = Inr s"
    using assms unfolding read_settings_def p res_bind_Inr prod.case Let_def o1_def [symmetric] bs_def [symmetric] dep_def [symmetric] o3_def .
  then obtain d ds gs where d: "dep = Inr d" and e: "env_and_options env (o3 d) ''GYP_DEFINES'' ''defines'' = Inr ds"
      "env_and_options env (o3 d) ''GYP_GENERATOR_FLAGS'' ''generator_flags'' = Inr gs"
    and s: "se_options s = o3 d" "se_default_variables s = NameValueListToDict ds" "se_generator_flags s = NameValueListToDict gs"
    by (auto simp: res_bind_eq_Inr split: if_splits)
  have o1: "opt_get o1 k = opt_get o0 k" if "k \<notin> {''formats'', ''generator_output'', ''parallel''}" for k
    using that by (simp add: o1_def opt_get_dset)
  have "opt_true d" "d = opt_get o0 ''depth'' \<or> (\<exists>x. d = OStr x)"
    using d o1 [of "''depth''"] find_depth_ne [of env bs] by (auto simp: dep_def split: if_splits option.splits)
  then show thesis
    using that [OF p, of ds gs] e s o1 by (auto simp: o3_def opt_get_dset o1_def)
qed

lemma read_settings_ignoring:
  assumes "parse_args gyp_parser args = Inr (v, fs)" and "fs \<noteq> []" and "\<not> use_environment v"
    and "opt_get v ''depth'' = OStr d" "d \<noteq> []" and "opt_get v ''toplevel_dir'' = OStr t" "t \<noteq> []"
  shows "\<exists>s. read_settings env args = Inr s \<and> se_build_files s = fs
    \<and> se_default_variables s = NameValueListToDict (opt_items (opt_get v ''defines''))
    \<and> se_generator_flags s = NameValueListToDict (opt_items (opt_get v ''generator_flags''))
    \<and> (\<forall>k. k \<notin> {''formats'', ''parallel''} \<longrightarrow> opt_get (se_options s) k = opt_get v k)"
proof -
  have "generator_output env v = opt_get v ''generator_output''" using assms(3) by (simp add: generator_output_def Let_def)
  then show ?thesis using assms(2-) unfolding read_settings_def assms(1)
    by (auto simp: opt_get_dset env_and_options_def use_environment_def Let_def)
qed

lemma mapM_Inr: "mapM Inr xs = Inr xs"
  by (induction xs) auto

lemma mapM_total: "(\<And>x. \<exists>y. f x = Inr y) \<Longrightarrow> \<exists>ys. mapM f xs = Inr ys"
  by (induction xs) (auto, metis res_bind_Inr)

lemma FixPath_ne: "FixPath realpath options p = Inr q \<Longrightarrow> q \<noteq> []"
  by (auto simp: FixPath_def Let_def isabs_def startswith_def split: optval.splits if_splits)

lemma FixPath_total: "opt_get options ''depth'' = OStr d \<Longrightarrow> \<exists>q. FixPath realpath options p = Inr q"
  by (simp add: FixPath_def Let_def)

lemma mapM_FixPath_ne: "mapM (FixPath realpath options) ps = Inr qs \<Longrightarrow> [] \<notin> set qs"
  by (induction ps arbitrary: qs) (auto simp: res_bind_eq_Inr dest: FixPath_ne)

lemma option_values_total:
  assumes "opt_get options ''depth'' = OStr d"
    and "rm_action (snd e) = None \<or> rm_action (snd e) = Some ''store'' \<Longrightarrow> opt_true (opt_get options (fst e)) \<Longrightarrow> \<exists>x. opt_get options (fst e) = OStr x"
    and "\<And>n. rm_action (snd e) = Some ''append'' \<Longrightarrow> rm_env_name (snd e) = Some n \<Longrightarrow> opt_true (opt_get options ''use_environment'')
      \<Longrightarrow> \<exists>vs. ShlexEnv environ n = Inr vs"
  shows "\<exists>xs. option_values environ realpath options e = Inr xs"
proof -
  define p where "p = (if rm_type (snd e) = Some ''path'' then FixPath realpath options else Inr)"
  have p: "\<exists>y. p x = Inr y" for x using FixPath_total [OF assms(1)] by (simp add: p_def)
  have m: "\<exists>ys. mapM p xs = Inr ys" for xs by (rule mapM_total [OF p])
  show ?thesis
  proof (cases "rm_action (snd e) = Some ''append''")
    case True
    have "\<exists>vs. (case rm_env_name (snd e) of Some n \<Rightarrow> if opt_true (opt_get options ''use_environment'') \<and> n \<noteq> [] then ShlexEnv environ n else Inr []
        | None \<Rightarrow> Inr []) = Inr vs" using assms(3) [OF True] by (auto split: option.splits)
    then obtain vs vs' ws where "(case rm_env_name (snd e) of Some n \<Rightarrow> if opt_true (opt_get options ''use_environment'') \<and> n \<noteq> [] then ShlexEnv environ n else Inr []
        | None \<Rightarrow> Inr []) = Inr vs" "mapM p vs = Inr vs'" "mapM p (opt_items (opt_get options (fst e))) = Inr ws" using m by metis
    then show ?thesis using True unfolding option_values_def Let_def p_def [symmetric] by simp
  next
    case False
    have "opt_true (opt_get options (fst e)) \<Longrightarrow> rm_action (snd e) = None \<or> rm_action (snd e) = Some ''store'' \<Longrightarrow>
        \<exists>xs. res_bind (res_bind (opt_text (opt_get options (fst e))) p) (\<lambda>v. Inr [v]) = Inr xs"
      using assms(2) p by (metis opt_text.simps(1) res_bind_Inr)
    moreover have "\<exists>xs. res_bind (p v) (\<lambda>v. Inr [v]) = Inr xs" for v using p by (metis res_bind_Inr)
    ultimately show ?thesis using False unfolding option_values_def Let_def p_def [symmetric] by (auto split: option.splits)
  qed
qed

lemma RegenerateFlags_total:
  assumes "\<And>e. e \<in> set es \<Longrightarrow> \<exists>xs. option_values environ realpath options e = Inr xs"
  shows "\<exists>fs. RegenerateFlags environ realpath es options = Inr fs"
proof -
  have "\<exists>fs'. foldM (regenerate_option environ realpath options) fs es = Inr fs'" for fs
    using assms
  proof (induction es arbitrary: fs)
    case (Cons e es)
    obtain xs where "option_values environ realpath options e = Inr xs" using Cons.prems [of e] by auto
    then show ?case using Cons.IH Cons.prems by (simp add: regenerate_option_values [of environ realpath options fs e])
  qed simp
  then show ?thesis by (simp add: RegenerateFlags_def)
qed

lemma entry_typed:
  assumes "parse_args gyp_parser args = Inr (options, rest)" and "e \<in> set (pa_regeneratable gyp_parser)"
  shows "opt_ok (meta_opt gyp_opts e) (opt_get options (fst e))"
proof -
  have "typed gyp_opts options" using assms(1) typed_process_args [OF _ gyp_defaults_typed gyp_dests(1)] by (simp add: parse_args_def)
  moreover have ok: "meta_ok gyp_opts e" using gyp_meta_ok assms(2) by (simp add: list_all_iff)
  moreover have "meta_opt gyp_opts e \<in> set gyp_opts" using ok find_opt_mem by (force simp: meta_ok_def meta_opt_def)
  ultimately show ?thesis using meta_ok_dest [OF ok] by (auto simp: typed_def)
qed

lemma entry_action:
  "e \<in> set (pa_regeneratable gyp_parser) \<Longrightarrow> po_action (meta_opt gyp_opts e) = (case rm_action (snd e) of None \<Rightarrow> ''store'' | Some a \<Rightarrow> a)"
  using gyp_meta_ok by (simp add: list_all_iff meta_ok_def)

lemma stored_text: "opt_ok opt v \<Longrightarrow> po_action opt = ''store'' \<Longrightarrow> opt_true v \<Longrightarrow> \<exists>x. v = OStr x \<and> x \<noteq> []"
  by (cases v) (auto simp: opt_ok_def)

text \<open>The values that are written for the options of GYP, read off the options of a run.\<close>

lemma gyp_option_values:
  assumes xs: "\<And>e. e \<in> set (pa_regeneratable gyp_parser) \<Longrightarrow> option_values environ realpath S e = Inr (xs e)"
  shows "xs (''configs'', meta (Some ''append'') None None ''--build'') = opt_items (opt_get S ''configs'')"
    "xs (''check'', meta (Some ''store_true'') None None ''--check'') = (if opt_true (opt_get S ''check'') then [[]] else [])"
    "xs (''debug'', meta (Some ''append'') None None ''-d'') = opt_items (opt_get S ''debug'')"
    "xs (''root_targets'', meta (Some ''append'') None None ''-R'') = opt_items (opt_get S ''root_targets'')"
    "mapM (FixPath realpath S) (opt_items (opt_get S ''includes'')) = Inr (xs (''includes'', meta (Some ''append'') (Some ''path'') None ''-I''))"
    "if opt_true (opt_get S ''suffix'') then opt_text (opt_get S ''suffix'') = Inr (hd (xs (''suffix'', meta None None None ''-S'')))
       \<and> length (xs (''suffix'', meta None None None ''-S'')) = 1 else xs (''suffix'', meta None None None ''-S'') = []"
    "opt_true (opt_get S ''depth'') \<Longrightarrow> \<exists>p q. opt_get S ''depth'' = OStr p \<and> FixPath realpath S p = Inr q
       \<and> xs (''depth'', meta None (Some ''path'') None ''--depth'') = [q]"
    "opt_true (opt_get S ''toplevel_dir'') \<Longrightarrow> \<exists>p q. opt_get S ''toplevel_dir'' = OStr p \<and> FixPath realpath S p = Inr q
       \<and> xs (''toplevel_dir'', meta (Some ''store'') (Some ''path'') None ''--toplevel-dir'') = [q]"
    "opt_true (opt_get S ''generator_output'') \<Longrightarrow> \<exists>p q. opt_get S ''generator_output'' = OStr p \<and> FixPath realpath S p = Inr q
       \<and> xs (''generator_output'', meta (Some ''store'') (Some ''path'') (Some ''GYP_GENERATOR_OUTPUT'') ''--generator-output'') = [q]"
proof -
  have t: "\<exists>p q. v = OStr p \<and> f p = Inr q \<and> ys = [q]" if "res_bind (res_bind (opt_text v) f) (\<lambda>x. Inr [x]) = Inr ys" for v f ys
    using that by (cases v) (auto simp: res_bind_eq_Inr)
  note m = xs [unfolded gyp_metadata]
  show "xs (''configs'', meta (Some ''append'') None None ''--build'') = opt_items (opt_get S ''configs'')"
    using m [of "(''configs'', meta (Some ''append'') None None ''--build'')"] by (simp add: option_values_def mapM_Inr)
  show "xs (''check'', meta (Some ''store_true'') None None ''--check'') = (if opt_true (opt_get S ''check'') then [[]] else [])"
    using m [of "(''check'', meta (Some ''store_true'') None None ''--check'')"] by (simp add: option_values_def split: if_splits)
  show "xs (''debug'', meta (Some ''append'') None None ''-d'') = opt_items (opt_get S ''debug'')"
    using m [of "(''debug'', meta (Some ''append'') None None ''-d'')"] by (simp add: option_values_def mapM_Inr)
  show "xs (''root_targets'', meta (Some ''append'') None None ''-R'') = opt_items (opt_get S ''root_targets'')"
    using m [of "(''root_targets'', meta (Some ''append'') None None ''-R'')"] by (simp add: option_values_def mapM_Inr)
  show "mapM (FixPath realpath S) (opt_items (opt_get S ''includes'')) = Inr (xs (''includes'', meta (Some ''append'') (Some ''path'') None ''-I''))"
    using m [of "(''includes'', meta (Some ''append'') (Some ''path'') None ''-I'')"] by (auto simp: option_values_def res_bind_eq_Inr)
  show "if opt_true (opt_get S ''suffix'') then opt_text (opt_get S ''suffix'') = Inr (hd (xs (''suffix'', meta None None None ''-S'')))
       \<and> length (xs (''suffix'', meta None None None ''-S'')) = 1 else xs (''suffix'', meta None None None ''-S'') = []"
    using m [of "(''suffix'', meta None None None ''-S'')"] by (auto simp: option_values_def dest!: t split: if_splits)
  show "\<exists>p q. opt_get S ''depth'' = OStr p \<and> FixPath realpath S p = Inr q
       \<and> xs (''depth'', meta None (Some ''path'') None ''--depth'') = [q]" if "opt_true (opt_get S ''depth'')"
    using m [of "(''depth'', meta None (Some ''path'') None ''--depth'')"] that by (intro t) (simp add: option_values_def)
  show "\<exists>p q. opt_get S ''toplevel_dir'' = OStr p \<and> FixPath realpath S p = Inr q
       \<and> xs (''toplevel_dir'', meta (Some ''store'') (Some ''path'') None ''--toplevel-dir'') = [q]" if "opt_true (opt_get S ''toplevel_dir'')"
    using m [of "(''toplevel_dir'', meta (Some ''store'') (Some ''path'') None ''--toplevel-dir'')"] that by (intro t) (simp add: option_values_def)
  show "\<exists>p q. opt_get S ''generator_output'' = OStr p \<and> FixPath realpath S p = Inr q
       \<and> xs (''generator_output'', meta (Some ''store'') (Some ''path'') (Some ''GYP_GENERATOR_OUTPUT'') ''--generator-output'') = [q]"
    if "opt_true (opt_get S ''generator_output'')"
    using m [of "(''generator_output'', meta (Some ''store'') (Some ''path'') (Some ''GYP_GENERATOR_OUTPUT'') ''--generator-output'')"] that
    by (intro t) (simp add: option_values_def)
qed

lemma gyp_flag_values:
  assumes "option_values (me_environ env) realpath S (name, meta (Some ''append'') None (Some env_name) opt) = Inr xs"
    and "env_and_options env S env_name name = Inr ds" and "env_name \<noteq> []"
  shows "set xs = set ds" and "dget (NameValueListToDict xs) k = dget (NameValueListToDict ds) k"
proof -
  obtain vs where "xs = foldl append_once [] vs @ opt_items (opt_get S name)" "ds = vs @ opt_items (opt_get S name)"
    using assms by (auto simp: option_values_def env_and_options_def use_environment_def res_bind_eq_Inr mapM_Inr split: if_splits)
  then show "set xs = set ds" "dget (NameValueListToDict xs) k = dget (NameValueListToDict ds) k"
    by (simp_all add: append_once_set NameValueListToDict_append_once)
qed

lemma process_args_files:
  "(\<And>f. f \<in> set fs \<Longrightarrow> \<not> startswith f ''-'') \<Longrightarrow> process_args opts fs largs v = Inr (v, largs @ fs)"
proof (induction fs arbitrary: largs)
  case (Cons f fs)
  have "f \<noteq> ''--'' \<and> \<not> startswith f ''--'' \<and> \<not> startswith f ''-''"
    using Cons.prems [of f] by (cases f; cases "tl f") (auto simp: startswith_def)
  then show ?case using Cons by simp
qed simp

lemma parse_regenerated:
  assumes m: "set metadata = set (pa_regeneratable gyp_parser)" "distinct (map fst metadata)"
    and xs: "\<And>e. e \<in> set (pa_regeneratable gyp_parser) \<Longrightarrow> entry_values_ok e (xs e)"
    and fs: "\<And>f. f \<in> set fs \<Longrightarrow> \<not> startswith f ''-''"
  shows "\<exists>v. parse_args gyp_parser (''--ignore-environment'' # concat (map (\<lambda>e. map (entry_flag e) (xs e)) metadata) @ fs) = Inr (v, fs)
    \<and> \<not> use_environment v
    \<and> (\<forall>e\<in>set (pa_regeneratable gyp_parser).
        opt_get v (fst e) = foldl (upd (meta_opt gyp_opts e)) (opt_get (default_values gyp_opts) (fst e)) (xs e))"
proof -
  define ign where "ign = the (find_opt gyp_opts ''--ignore-environment'')"
  let ?d = "default_values gyp_opts" and ?i = "act ign (default_values gyp_opts) []"
  let ?v = "entries_act gyp_opts xs ?i metadata"
  have i: "find_opt gyp_opts ''--ignore-environment'' = Some ign" "po_action ign = ''store_false''" "po_dest ign = ''use_environment''"
    using gyp_ignore(1) by (simp_all add: ign_def)
  have ok: "meta_ok gyp_opts e" if "e \<in> set metadata" for e using gyp_meta_ok that m by (simp add: list_all_iff)
  have u: "''use_environment'' \<notin> fst ` set metadata" unfolding m(1) gyp_metadata by simp
  have "process_args gyp_opts (''--ignore-environment'' # concat (map (\<lambda>e. map (entry_flag e) (xs e)) metadata) @ fs) [] ?d
      = process_args gyp_opts fs [] ?v"
    using process_args_flag [OF i(1) _ gyp_ignore(2)] i(2) process_entries [of metadata gyp_opts xs] ok xs m(1) by simp
  then have p: "parse_args gyp_parser (''--ignore-environment'' # concat (map (\<lambda>e. map (entry_flag e) (xs e)) metadata) @ fs) = Inr (?v, fs)"
    using process_args_files [of fs gyp_opts "[]"] fs by (simp add: parse_args_def)
  have "opt_get ?v ''use_environment'' = OBool False"
    using entries_act_other [of metadata gyp_opts, OF ok u] i by (simp add: opt_get_act upd_def)
  moreover have "opt_get ?v (fst e) = foldl (upd (meta_opt gyp_opts e)) (opt_get ?d (fst e)) (xs e)"
    if e: "e \<in> set (pa_regeneratable gyp_parser)" for e
  proof -
    have "fst e \<noteq> ''use_environment''" using u e m(1) by force
    then show ?thesis using entries_act_own [of metadata gyp_opts e, OF ok m(2)] e m(1) i(3) by (simp add: opt_get_act)
  qed
  ultimately show ?thesis using p by (intro exI [of _ ?v]) (simp add: use_environment_def)
qed

text \<open>No value of an option that is written with a short flag is empty.\<close>

definition writable :: "main_env \<Rightarrow> settings \<Rightarrow> bool" where
  "writable env s \<longleftrightarrow>
     [] \<notin> set (opt_items (opt_get (se_options s) ''debug'')) \<and> [] \<notin> set (opt_items (opt_get (se_options s) ''root_targets''))
     \<and> (case env_and_options env (se_options s) ''GYP_DEFINES'' ''defines'' of Inr ds \<Rightarrow> [] \<notin> set ds | Inl _ \<Rightarrow> True)
     \<and> (case env_and_options env (se_options s) ''GYP_GENERATOR_FLAGS'' ''generator_flags'' of Inr gs \<Rightarrow> [] \<notin> set gs | Inl _ \<Rightarrow> True)"

lemma gyp_values_ok:
  assumes xs: "\<And>e. e \<in> set (pa_regeneratable gyp_parser) \<Longrightarrow> option_values (me_environ env) realpath (se_options s) e = Inr (xs e)"
    and "writable env s"
    and "env_and_options env (se_options s) ''GYP_DEFINES'' ''defines'' = Inr ds"
    and "env_and_options env (se_options s) ''GYP_GENERATOR_FLAGS'' ''generator_flags'' = Inr gs"
    and e: "e \<in> set (pa_regeneratable gyp_parser)"
  shows "entry_values_ok e (xs e)"
proof -
  let ?S = "se_options s"
  note v = gyp_option_values [OF xs, simplified]
  have D: "set (xs (''defines'', meta (Some ''append'') None (Some ''GYP_DEFINES'') ''-D'')) = set ds"
    by (rule gyp_flag_values(1) [OF xs assms(3)]) (simp_all add: gyp_metadata)
  have G: "set (xs (''generator_flags'', meta (Some ''append'') None (Some ''GYP_GENERATOR_FLAGS'') ''-G'')) = set gs"
    by (rule gyp_flag_values(1) [OF xs assms(4)]) (simp_all add: gyp_metadata)
  have S: "[] \<notin> set (xs (''suffix'', meta None None None ''-S''))"
  proof (cases "opt_true (opt_get ?S ''suffix'')")
    case True
    then obtain y where "xs (''suffix'', meta None None None ''-S'') = [y]" "opt_text (opt_get ?S ''suffix'') = Inr y"
      using v(6) by (auto simp: length_Suc_conv)
    then show ?thesis using True by (cases "opt_get ?S ''suffix''") auto
  qed (use v(6) in simp)
  have I: "[] \<notin> set (xs (''includes'', meta (Some ''append'') (Some ''path'') None ''-I''))" using mapM_FixPath_ne v(5) by blast
  have C: "set (xs (''check'', meta (Some ''store_true'') None None ''--check'')) \<subseteq> {[]}" using v(2) by auto
  have w: "[] \<notin> set ds" "[] \<notin> set gs" using assms(2-4) by (simp_all add: writable_def)
  have n: "[] \<notin> set (opt_items (opt_get ?S ''debug''))" "[] \<notin> set (opt_items (opt_get ?S ''root_targets''))"
    using assms(2) by (simp_all add: writable_def)
  show ?thesis using e unfolding gyp_metadata
    by (simp only: list.set insert_iff empty_iff, elim disjE FalseE)
      (simp_all add: entry_values_ok_def startswith_def C D G S I w n v(3,4))
qed

lemma RegenerateFlags_settings:
  assumes "read_settings env args = Inr s" and "set metadata = set (pa_regeneratable gyp_parser)"
  shows "\<exists>xs. (\<forall>e\<in>set (pa_regeneratable gyp_parser). option_values (me_environ env) (me_realpath env) (se_options s) e = Inr (xs e))
    \<and> RegenerateFlags (me_environ env) (me_realpath env) metadata (se_options s)
      = Inr (''--ignore-environment'' # concat (map (\<lambda>e. map (entry_flag e) (xs e)) metadata))"
proof -
  let ?S = "se_options s" and ?M = "set (pa_regeneratable gyp_parser)"
  obtain o0 a ds gs where r: "parse_args gyp_parser args = Inr (o0, a)"
    "\<And>k. k \<notin> {''formats'', ''generator_output'', ''parallel'', ''depth'', ''toplevel_dir''} \<Longrightarrow> opt_get ?S k = opt_get o0 k"
    "opt_get ?S ''generator_output'' = generator_output env o0"
    "opt_true (opt_get ?S ''depth'')" "opt_get ?S ''depth'' = opt_get o0 ''depth'' \<or> (\<exists>d. opt_get ?S ''depth'' = OStr d)"
    "opt_get ?S ''toplevel_dir'' \<in> {opt_get o0 ''toplevel_dir'', opt_get ?S ''depth''}"
    "env_and_options env ?S ''GYP_DEFINES'' ''defines'' = Inr ds"
    "env_and_options env ?S ''GYP_GENERATOR_FLAGS'' ''generator_flags'' = Inr gs"
    by (rule read_settings_Inr [OF assms(1)], rule that)
  have stx: "\<exists>x. opt_get o0 (fst e) = OStr x" if "e \<in> ?M" "rm_action (snd e) = None \<or> rm_action (snd e) = Some ''store''"
    "opt_true (opt_get o0 (fst e))" for e
    using stored_text [OF entry_typed [OF r(1) that(1)]] entry_action [OF that(1)] that(2,3) by fastforce
  have dep: "\<exists>d. opt_get ?S ''depth'' = OStr d"
    using r(4,5) stx [of "(''depth'', meta None (Some ''path'') None ''--depth'')"] by (auto simp: gyp_metadata)
  have sto: "\<exists>x. opt_get ?S (fst e) = OStr x" if e: "e \<in> ?M" "rm_action (snd e) = None \<or> rm_action (snd e) = Some ''store''"
    "opt_true (opt_get ?S (fst e))" for e
  proof -
    have "fst e \<notin> {''formats'', ''parallel''}" using e(1) unfolding gyp_metadata by auto
    moreover have "opt_get ?S ''generator_output'' = opt_get o0 ''generator_output'' \<or> (\<exists>g. opt_get ?S ''generator_output'' = OStr g)"
      using r(3) by (auto simp: generator_output_def Let_def split: option.splits)
    ultimately have "opt_get ?S (fst e) = opt_get o0 (fst e) \<or> (\<exists>x. opt_get ?S (fst e) = OStr x)"
      using r(2) [of "fst e"] r(5,6) dep by (metis insert_iff empty_iff)
    then show ?thesis using stx [OF e(1,2)] e(3) by auto
  qed
  have she: "\<exists>vs. ShlexEnv (me_environ env) n = Inr vs" if e: "e \<in> ?M" "rm_action (snd e) = Some ''append''" "rm_env_name (snd e) = Some n"
    "opt_true (opt_get ?S ''use_environment'')" for e n
  proof -
    have "n = ''GYP_DEFINES'' \<or> n = ''GYP_GENERATOR_FLAGS''" using e(1) unfolding gyp_metadata
      by (simp only: list.set insert_iff empty_iff, elim disjE FalseE) (use e(2,3) in simp_all)
    then show ?thesis using r(7,8) e(4) by (auto simp: env_and_options_def use_environment_def res_bind_eq_Inr)
  qed
  obtain d where "opt_get ?S ''depth'' = OStr d" using dep by blast
  then have "\<exists>xs. option_values (me_environ env) (me_realpath env) ?S e = Inr xs" if "e \<in> ?M" for e
    by (rule option_values_total [OF _ sto [OF that] she [OF that]])
  then obtain flags where f: "RegenerateFlags (me_environ env) (me_realpath env) metadata ?S = Inr flags"
    using RegenerateFlags_total assms(2) by metis
  then show ?thesis using RegenerateFlags_values [OF f] assms(2) by auto
qed

text \<open>The options that are parsed again, compared with those of a run.\<close>

definition same_options :: "main_env \<Rightarrow> settings \<Rightarrow> optvals \<Rightarrow> bool" where
  "same_options env s v \<longleftrightarrow>
     (\<forall>k. dget (NameValueListToDict (opt_items (opt_get v ''defines''))) k = dget (se_default_variables s) k)
     \<and> (\<forall>k. dget (NameValueListToDict (opt_items (opt_get v ''generator_flags''))) k = dget (se_generator_flags s) k)
     \<and> (\<forall>name\<in>{''configs'', ''debug'', ''root_targets'', ''suffix''}. opt_items (opt_get v name) = opt_items (opt_get (se_options s) name))
     \<and> opt_true (opt_get v ''check'') = opt_true (opt_get (se_options s) ''check'')
     \<and> mapM (FixPath (me_realpath env) (se_options s)) (opt_items (opt_get (se_options s) ''includes'')) = Inr (opt_items (opt_get v ''includes''))
     \<and> (\<forall>name\<in>{''depth'', ''toplevel_dir'', ''generator_output''}. opt_true (opt_get (se_options s) name) \<longrightarrow>
         (\<exists>p q. opt_get (se_options s) name = OStr p \<and> FixPath (me_realpath env) (se_options s) p = Inr q \<and> opt_get v name = OStr q))"

lemma same_options_regenerated:
  assumes xs: "\<And>e. e \<in> set (pa_regeneratable gyp_parser) \<Longrightarrow> option_values (me_environ env) (me_realpath env) (se_options s) e = Inr (xs e)"
    and v: "\<forall>e\<in>set (pa_regeneratable gyp_parser).
      opt_get v (fst e) = foldl (upd (meta_opt gyp_opts e)) (opt_get (default_values gyp_opts) (fst e)) (xs e)"
    and ds: "env_and_options env (se_options s) ''GYP_DEFINES'' ''defines'' = Inr ds" "se_default_variables s = NameValueListToDict ds"
    and gs: "env_and_options env (se_options s) ''GYP_GENERATOR_FLAGS'' ''generator_flags'' = Inr gs" "se_generator_flags s = NameValueListToDict gs"
  shows "same_options env s v"
proof -
  let ?S = "se_options s" and ?M = "set (pa_regeneratable gyp_parser)"
  have q: "opt_get v name = OStr q" if "(name, m) \<in> ?M" "xs (name, m) = [q]" "rm_action m = None \<or> rm_action m = Some ''store''" for name m q
    using v that entry_action [OF that(1)] by (auto simp: upd_def)
  have l: "opt_items (opt_get v name) = xs (name, m)" if "(name, m) \<in> ?M" "rm_action m = Some ''append''" for name m
  proof -
    have "opt_items (opt_get (default_values gyp_opts) name) = []" using that unfolding gyp_metadata by (auto simp: gyp_defaults)
    then show ?thesis using v that entry_action [OF that(1)] upds_append [of "meta_opt gyp_opts (name, m)"] by auto
  qed
  note o = gyp_option_values [OF xs]
  have dict: "dget (NameValueListToDict (opt_items (opt_get v ''defines''))) k = dget (se_default_variables s) k"
    "dget (NameValueListToDict (opt_items (opt_get v ''generator_flags''))) k = dget (se_generator_flags s) k" for k
    using gyp_flag_values(2) [OF xs ds(1)] gyp_flag_values(2) [OF xs gs(1)] l ds(2) gs(2) by (simp_all add: gyp_metadata)
  have check: "opt_true (opt_get v ''check'') = opt_true (opt_get ?S ''check'')"
    using v o(2) entry_action [of "(''check'', meta (Some ''store_true'') None None ''--check'')"] by (simp add: gyp_metadata gyp_defaults upd_def)
  have suffix: "opt_items (opt_get v ''suffix'') = opt_items (opt_get ?S ''suffix'')"
  proof (cases "opt_true (opt_get ?S ''suffix'')")
    case True
    then obtain y where "xs (''suffix'', meta None None None ''-S'') = [y]" "opt_get ?S ''suffix'' = OStr y"
      using o(6) by (cases "opt_get ?S ''suffix''") (auto simp: length_Suc_conv)
    then show ?thesis using q [of "''suffix''" "meta None None None ''-S''" y] by (simp add: gyp_metadata)
  next
    case False
    then have "opt_get v ''suffix'' = OStr []" using v o(6) by (simp add: gyp_metadata gyp_defaults)
    then show ?thesis using False by (cases "opt_get ?S ''suffix''") auto
  qed
  have paths: "\<forall>name\<in>{''depth'', ''toplevel_dir'', ''generator_output''}. opt_true (opt_get ?S name) \<longrightarrow>
      (\<exists>p q. opt_get ?S name = OStr p \<and> FixPath (me_realpath env) ?S p = Inr q \<and> opt_get v name = OStr q)"
    using o(7,8,9) q by (fastforce simp: gyp_metadata)
  show ?thesis using dict check suffix paths o(1,3,4,5) l by (simp add: same_options_def gyp_metadata)
qed

text \<open>What two runs share: the dictionaries of variables and generator flags, the lists, the suffix and the check;
  the paths of the second are those of the first, fixed relative to its depth.\<close>

definition same_settings :: "main_env \<Rightarrow> settings \<Rightarrow> settings \<Rightarrow> bool" where
  "same_settings env s s' \<longleftrightarrow>
     (\<forall>k. dget (se_default_variables s') k = dget (se_default_variables s) k)
     \<and> (\<forall>k. dget (se_generator_flags s') k = dget (se_generator_flags s) k)
     \<and> (\<forall>name\<in>{''configs'', ''debug'', ''root_targets'', ''suffix''}.
         opt_items (opt_get (se_options s') name) = opt_items (opt_get (se_options s) name))
     \<and> opt_true (opt_get (se_options s') ''check'') = opt_true (opt_get (se_options s) ''check'')
     \<and> mapM (FixPath (me_realpath env) (se_options s)) (opt_items (opt_get (se_options s) ''includes''))
         = Inr (opt_items (opt_get (se_options s') ''includes''))
     \<and> (\<forall>name\<in>{''depth'', ''toplevel_dir'', ''generator_output''}. opt_true (opt_get (se_options s) name) \<longrightarrow>
         (\<exists>p q. opt_get (se_options s) name = OStr p \<and> FixPath (me_realpath env) (se_options s) p = Inr q
           \<and> opt_get (se_options s') name = OStr q))"

section \<open>Properties\<close>

text \<open>
  C7. \<open>RegenerateFlags\<close> keeps its promise: after a run of GYP has read its options, \<open>RegenerateFlags\<close> returns
  flags, and a run with these flags and any build files reads the same settings, whatever the environment
  is then: the variables and the generator flags that came from the environment and the command line (items
  that the environment repeats are written once), the configurations, debug modes, root targets, suffix and
  check; paths are those of the first run, fixed relative to the depth. Required is that no value behind a
  short option is empty.
\<close>

theorem RegenerateFlags_same_settings:
  assumes s: "read_settings env args = Inr s" and w: "writable env s"
    and m: "set metadata = set (pa_regeneratable gyp_parser)" "distinct (map fst metadata)"
    and fs: "fs \<noteq> []" "\<forall>f\<in>set fs. \<not> startswith f ''-''"
  shows "\<exists>flags. RegenerateFlags (me_environ env) (me_realpath env) metadata (se_options s) = Inr flags
    \<and> (\<forall>env'. \<exists>s'. read_settings env' (flags @ fs) = Inr s' \<and> se_build_files s' = fs \<and> same_settings env s s')"
proof -
  let ?S = "se_options s" and ?M = "set (pa_regeneratable gyp_parser)"
  obtain o0 a ds gs where r: "parse_args gyp_parser args = Inr (o0, a)"
    "\<And>k. k \<notin> {''formats'', ''generator_output'', ''parallel'', ''depth'', ''toplevel_dir''} \<Longrightarrow> opt_get ?S k = opt_get o0 k"
    "opt_get ?S ''generator_output'' = generator_output env o0"
    "opt_true (opt_get ?S ''depth'')" "opt_get ?S ''depth'' = opt_get o0 ''depth'' \<or> (\<exists>d. opt_get ?S ''depth'' = OStr d)"
    "opt_true (opt_get ?S ''toplevel_dir'')" "opt_get ?S ''toplevel_dir'' \<in> {opt_get o0 ''toplevel_dir'', opt_get ?S ''depth''}"
    "env_and_options env ?S ''GYP_DEFINES'' ''defines'' = Inr ds" "se_default_variables s = NameValueListToDict ds"
    "env_and_options env ?S ''GYP_GENERATOR_FLAGS'' ''generator_flags'' = Inr gs" "se_generator_flags s = NameValueListToDict gs"
    by (rule read_settings_Inr [OF s], rule that)
  obtain xs where xs: "\<And>e. e \<in> ?M \<Longrightarrow> option_values (me_environ env) (me_realpath env) ?S e = Inr (xs e)"
    and flags: "RegenerateFlags (me_environ env) (me_realpath env) metadata ?S
      = Inr (''--ignore-environment'' # concat (map (\<lambda>e. map (entry_flag e) (xs e)) metadata))"
    using RegenerateFlags_settings [OF s m(1)] by blast
  let ?flags = "''--ignore-environment'' # concat (map (\<lambda>e. map (entry_flag e) (xs e)) metadata)"
  obtain v where p: "parse_args gyp_parser (?flags @ fs) = Inr (v, fs)" "\<not> use_environment v"
    "\<forall>e\<in>?M. opt_get v (fst e) = foldl (upd (meta_opt gyp_opts e)) (opt_get (default_values gyp_opts) (fst e)) (xs e)"
    using parse_regenerated [OF m, of xs fs] gyp_values_ok [OF xs w r(8,10)] fs(2) by auto
  have same: "same_options env s v" by (rule same_options_regenerated [OF xs p(3) r(8-11)])
  then obtain d t where dt: "opt_get v ''depth'' = OStr d" "d \<noteq> []" "opt_get v ''toplevel_dir'' = OStr t" "t \<noteq> []"
    using r(4,6) FixPath_ne unfolding same_options_def by fastforce
  have "\<exists>s'. read_settings env' (?flags @ fs) = Inr s' \<and> se_build_files s' = fs \<and> same_settings env s s'" for env'
  proof -
    from read_settings_ignoring [OF p(1) fs(1) p(2) dt, of env']
    obtain s' where s': "read_settings env' (?flags @ fs) = Inr s' \<and> se_build_files s' = fs
      \<and> se_default_variables s' = NameValueListToDict (opt_items (opt_get v ''defines''))
      \<and> se_generator_flags s' = NameValueListToDict (opt_items (opt_get v ''generator_flags''))
      \<and> (\<forall>k. k \<notin> {''formats'', ''parallel''} \<longrightarrow> opt_get (se_options s') k = opt_get v k)" ..
    then have "same_settings env s s'" using same by (simp add: same_options_def same_settings_def)
    then show ?thesis using s' by blast
  qed
  then show ?thesis using flags by blast
qed

definition demo_env :: main_env where
  "demo_env = \<lparr>me_environ = [(''GYP_DEFINES'', ''a=1 b=x a=1'')], me_platform = ''linux2'', me_cwd = ''/r'', me_listdir = [], me_exists = (\<lambda>p. False),
     me_realpath = (\<lambda>p. ''/r/'' @ p), me_expanduser = id, me_my_name = ''gyp''\<rparr>"

definition demo_args :: "string list" where
  "demo_args = [''-Dc=3'', ''--depth'', ''build'', ''-I'', ''common.gypi'', ''node.gyp'']"

theorem RegenerateFlags_same_settings_witness:
  "\<exists>flags. RegenerateFlags (me_environ demo_env) (me_realpath demo_env) (pa_regeneratable gyp_parser)
       (se_options (projr (read_settings demo_env demo_args))) = Inr flags
     \<and> (\<forall>env'. \<exists>s'. read_settings env' (flags @ [''node.gyp'']) = Inr s' \<and> se_build_files s' = [''node.gyp'']
       \<and> same_settings demo_env (projr (read_settings demo_env demo_args)) s')"
proof -
  have "isl (read_settings demo_env demo_args) = False" by code_simp
  then have "read_settings demo_env demo_args = Inr (projr (read_settings demo_env demo_args))" by (cases "read_settings demo_env demo_args") auto
  moreover have "writable demo_env (projr (read_settings demo_env demo_args))" by code_simp
  moreover have "\<forall>f\<in>set [''node.gyp'']. \<not> startswith f ''-''" by code_simp
  ultimately show ?thesis by (intro RegenerateFlags_same_settings) (simp_all add: gyp_dests)
qed

text \<open>
  With an empty value behind a short option the flags are read differently: the option takes the flag that
  follows it.
\<close>

theorem RegenerateFlags_empty_value:
  "RegenerateFlags [] id (pa_regeneratable gyp_parser)
      (fst (projr (parse_args gyp_parser [''-D'', [], ''--depth=/r'']))) = Inr [''--ignore-environment'', ''-D'', ''--depth=/r'']"
  "map_sum id (\<lambda>(v, rest). (opt_get v ''defines'', opt_get v ''depth'')) (parse_args gyp_parser [''--ignore-environment'', ''-D'', ''--depth=/r''])
     = Inr (OList [''--depth=/r''], ONone)"
  by code_simp+

end
