(* ===== verification/Gyp_Shard.thy ===== *)
theory Gyp_Shard
  imports Gyp_Targets "HOL-Library.Multiset"
begin

text \<open>
  \<open>ShardTargets\<close> of \<open>gyp/MSVSUtil.py\<close>, which splits a target with the key \<open>msvs_shard\<close> into several, so that
  each has a part of the sources. Shown here: the shards have the sources of the target between them, each
  source in one, and whatever depended on the target depends on all of its shards.
\<close>

section \<open>Shards\<close>

definition SuffixName :: "string \<Rightarrow> string \<Rightarrow> string" where
  "SuffixName name suffix =
     (case rsplit1 (CHR ''#'') name of
        Some (target, toolset) \<Rightarrow> target @ ''_'' @ suffix @ ''#'' @ toolset
      | None \<Rightarrow> name @ ''_'' @ suffix)"

definition ShardName :: "string \<Rightarrow> nat \<Rightarrow> string" where
  "ShardName name number = SuffixName name (nat_str number)"

text \<open>The targets to shard, and into how many pieces; a negative number leaves no piece.\<close>

definition targets_to_shard :: "(string, pydict) dict \<Rightarrow> (string, int) dict res" where
  "targets_to_shard target_dicts =
     foldM (\<lambda>ts (t, d).
       res_bind (case dget d ''msvs_shard'' of None \<Rightarrow> Inr 0 | Some v \<Rightarrow> py_int v) (\<lambda>shards.
         Inr (if shards \<noteq> 0 then dset ts t shards else ts))) [] target_dicts"

definition shard_names :: "(string, int) dict \<Rightarrow> string \<Rightarrow> string list" where
  "shard_names ts t = (case dget ts t of Some n \<Rightarrow> map (ShardName t) [0..<nat n] | None \<Rightarrow> [t])"

text \<open>\<open>range(start, stop, step)\<close>.\<close>

definition py_range :: "nat \<Rightarrow> nat \<Rightarrow> nat \<Rightarrow> nat list" where
  "py_range start stop step = map (\<lambda>k. start + k * step) [0..<(stop - start + step - 1) div step]"

text \<open>The sources, with the characters of a string; a dictionary has no positions.\<close>

definition source_items :: "pydict \<Rightarrow> pyval list res" where
  "source_items d =
     (case dget d ''sources'' of
        None \<Rightarrow> Inr []
      | Some (PList l) \<Rightarrow> Inr l
      | Some (PStr s) \<Rightarrow> Inr (map (\<lambda>c. PStr [c]) s)
      | Some _ \<Rightarrow> Inl (TypeError ''sources''))"

definition shard_dict :: "nat \<Rightarrow> pydict \<Rightarrow> nat \<Rightarrow> pydict res" where
  "shard_dict n d i =
     res_bind (dict_get d ''target_name'') (\<lambda>target_name.
     res_bind (case target_name of PStr s \<Rightarrow> Inr (ShardName s i) | _ \<Rightarrow> Inl (AttributeError ''rsplit'')) (\<lambda>name.
     res_bind (source_items (dset d ''target_name'' (PStr name))) (\<lambda>sources.
       Inr (dset (dset d ''target_name'' (PStr name)) ''sources''
         (PList (map (\<lambda>pos. sources ! pos) (py_range i (length sources) n)))))))"

definition add_shards :: "(string, int) dict \<Rightarrow> (string, pydict) dict \<Rightarrow> string \<times> pydict \<Rightarrow> (string, pydict) dict res" where
  "add_shards ts new_target_dicts entry =
     (case entry of (t, d) \<Rightarrow>
        case dget ts t of
          Some n \<Rightarrow> foldM (\<lambda>new i. res_bind (shard_dict (nat n) d i) (\<lambda>d'. Inr (dset new (ShardName t i) d'))) new_target_dicts [0..<nat n]
        | None \<Rightarrow> Inr (dset new_target_dicts t d))"

definition shard_dependencies :: "(string, int) dict \<Rightarrow> pydict \<Rightarrow> string \<Rightarrow> pydict res" where
  "shard_dependencies ts d deptype =
     res_bind (dep_names deptype d) (\<lambda>dependencies.
       Inr (dset d deptype (PList (map PStr (concat (map (shard_names ts) dependencies))))))"

definition ShardTargets :: "string list \<Rightarrow> (string, pydict) dict \<Rightarrow> (string list \<times> (string, pydict) dict) res" where
  "ShardTargets target_list target_dicts =
     res_bind (targets_to_shard target_dicts) (\<lambda>ts.
     res_bind (foldM (add_shards ts) [] target_dicts) (\<lambda>new_target_dicts.
     res_bind (mapM (\<lambda>(t, d).
         res_bind (foldM (shard_dependencies ts) d [''dependencies'', ''dependencies_original'']) (\<lambda>d'. Inr (t, d'))) new_target_dicts) (\<lambda>new.
       Inr (concat (map (shard_names ts) target_list), new))))"

section \<open>The parts of the sources\<close>

lemma py_range_set: "0 < n \<Longrightarrow> i < n \<Longrightarrow> set (py_range i l n) = {p. p < l \<and> p mod n = i}"
proof -
  assume n: "0 < n" "i < n"
  have k: "k < (l - i + n - 1) div n \<longleftrightarrow> i + k * n < l" for k
  proof -
    have "k < (l - i + n - 1) div n \<longleftrightarrow> Suc k * n \<le> l - i + n - 1"
      using n less_eq_div_iff_mult_less_eq [of n "Suc k" "l - i + n - 1"] by (simp add: less_eq_Suc_le)
    also have "\<dots> \<longleftrightarrow> i + k * n < l" using n by auto
    finally show ?thesis .
  qed
  have "{0..<(l - i + n - 1) div n} = {k. i + k * n < l}" unfolding k [symmetric] by auto
  then have r: "p \<in> set (py_range i l n) \<longleftrightarrow> (\<exists>k. i + k * n < l \<and> p = i + k * n)" for p
    unfolding py_range_def set_map set_upt by auto
  have "p mod n = i \<longleftrightarrow> (\<exists>k. p = i + k * n)" for p
  proof
    assume "p mod n = i"
    then show "\<exists>k. p = i + k * n" by (metis mod_div_decomp add.commute)
  qed (use n in auto)
  then show ?thesis using r by auto
qed

lemma py_range_distinct: "0 < n \<Longrightarrow> distinct (py_range i l n)"
  by (auto simp: py_range_def distinct_map inj_on_def)

lemma shard_positions:
  assumes "0 < n"
  shows "mset (concat (map (\<lambda>i. py_range i l n) [0..<n])) = mset [0..<l]"
proof -
  let ?ps = "\<lambda>m. concat (map (\<lambda>i. py_range i l n) [0..<m])"
  have "distinct (?ps m) \<and> set (?ps m) = {p. p < l \<and> p mod n < m}" if "m \<le> n" for m
    using that
  proof (induction m)
    case (Suc m)
    then have "set (py_range m l n) = {p. p < l \<and> p mod n = m}" using py_range_set [of n m l] assms by simp
    then show ?case using Suc py_range_distinct [OF assms] by auto
  qed simp
  from this [of n] have "distinct (?ps n)" "set (?ps n) = set [0..<l]" using assms by auto
  then show ?thesis by (metis distinct_upt set_eq_iff_mset_eq_distinct)
qed

lemma shard_sources:
  assumes "0 < n"
  shows "mset (concat (map (\<lambda>i. map ((!) xs) (py_range i (length xs) n)) [0..<n])) = mset xs"
proof -
  have "concat (map (\<lambda>i. map ((!) xs) (py_range i (length xs) n)) [0..<n]) = map ((!) xs) (concat (map (\<lambda>i. py_range i (length xs) n) [0..<n]))"
    by (simp add: map_concat comp_def)
  also have "mset \<dots> = image_mset ((!) xs) (mset [0..<length xs])" using shard_positions [OF assms] by simp
  also have "\<dots> = mset xs" by (metis map_nth mset_map)
  finally show ?thesis .
qed

section \<open>The new dictionaries\<close>

lemma dset_new_key: "k \<notin> set (dkeys d) \<Longrightarrow> dset d k v = d @ [(k, v)]"
  by (simp add: dkeys_iff_dget dset_fresh)

lemma foldM_dset_fresh:
  assumes "foldM (\<lambda>new i. res_bind (f i) (\<lambda>d. Inr (dset new (g i) d))) new is = Inr new'" and "distinct (dkeys new @ map g is)"
  shows "\<exists>ds. mapM f is = Inr ds \<and> new' = new @ zip (map g is) ds"
  using assms
proof (induction "is" arbitrary: new)
  case (Cons i "is")
  then obtain d where d: "f i = Inr d" "foldM (\<lambda>new i. res_bind (f i) (\<lambda>d. Inr (dset new (g i) d))) (dset new (g i) d) is = Inr new'"
    by (auto simp: res_bind_eq_Inr)
  have "dset new (g i) d = new @ [(g i, d)]" using Cons.prems(2) by (intro dset_new_key) auto
  then show ?case using Cons.IH [of "new @ [(g i, d)]"] Cons.prems(2) d by (auto simp: dkeys_def)
qed simp

text \<open>The entries that one target becomes.\<close>

definition expand_target :: "(string, int) dict \<Rightarrow> string \<times> pydict \<Rightarrow> (string, pydict) dict res" where
  "expand_target ts e =
     (case dget ts (fst e) of
        Some n \<Rightarrow> res_bind (mapM (shard_dict (nat n) (snd e)) [0..<nat n]) (\<lambda>ds. Inr (zip (shard_names ts (fst e)) ds))
      | None \<Rightarrow> Inr [e])"

lemma add_shards_eq:
  assumes "add_shards ts new e = Inr new'" and "distinct (dkeys new @ shard_names ts (fst e))"
  shows "\<exists>es. expand_target ts e = Inr es \<and> new' = new @ es \<and> dkeys es = shard_names ts (fst e)"
proof (cases "dget ts (fst e)")
  case None
  then show ?thesis using assms dset_new_key [of "fst e" new "snd e"]
    by (cases e) (auto simp: add_shards_def expand_target_def shard_names_def dkeys_def)
next
  case (Some n)
  then obtain ds where ds: "mapM (shard_dict (nat n) (snd e)) [0..<nat n] = Inr ds" "new' = new @ zip (map (ShardName (fst e)) [0..<nat n]) ds"
    using assms foldM_dset_fresh [of "shard_dict (nat n) (snd e)" "ShardName (fst e)" new "[0..<nat n]" new']
    by (cases e) (auto simp: add_shards_def shard_names_def)
  then show ?thesis using Some mapM_Inr_length [OF ds(1)] by (auto simp: expand_target_def shard_names_def dkeys_def)
qed

lemma add_shards_all:
  assumes "foldM (add_shards ts) new es = Inr new'" and "distinct (dkeys new @ concat (map (\<lambda>e. shard_names ts (fst e)) es))"
  shows "\<exists>ess. mapM (expand_target ts) es = Inr ess \<and> new' = new @ concat ess \<and> dkeys (concat ess) = concat (map (\<lambda>e. shard_names ts (fst e)) es)"
  using assms
proof (induction es arbitrary: new)
  case (Cons e es)
  then obtain new1 where n: "add_shards ts new e = Inr new1" "foldM (add_shards ts) new1 es = Inr new'" by (auto simp: res_bind_eq_Inr)
  obtain es1 where e: "expand_target ts e = Inr es1" "new1 = new @ es1" "dkeys es1 = shard_names ts (fst e)"
    using add_shards_eq [OF n(1)] Cons.prems(2) by auto
  have "dkeys new1 = dkeys new @ shard_names ts (fst e)" using e(2,3) by (simp add: dkeys_def)
  then have "distinct (dkeys new1 @ concat (map (\<lambda>e. shard_names ts (fst e)) es))" using Cons.prems(2) by simp
  from Cons.IH [OF n(2) this] show ?case using e by (auto simp: dkeys_def)
qed (simp add: dkeys_def)

lemma shard_dependencies_both:
  assumes "foldM (shard_dependencies ts) d [''dependencies'', ''dependencies_original''] = Inr d'"
  shows "\<exists>deps. dep_names ''dependencies'' d = Inr deps \<and> dep_names ''dependencies'' d' = Inr (concat (map (shard_names ts) deps))"
    and "dget d' ''sources'' = dget d ''sources''" "dget d' ''target_name'' = dget d ''target_name''"
  using assms by (auto simp: shard_dependencies_def dep_names_def res_bind_eq_Inr simp del: str_items.simps)

lemma shard_dict_eq:
  assumes "shard_dict n d i = Inr d'"
  shows "\<exists>sources. source_items d = Inr sources \<and> source_items d' = Inr (map ((!) sources) (py_range i (length sources) n))"
    and "dep_names k d' = (if k = ''target_name'' \<or> k = ''sources'' then dep_names k d' else dep_names k d)"
  using assms by (auto simp: shard_dict_def source_items_def dep_names_def res_bind_eq_Inr)

lemma expand_target_mem:
  assumes "expand_target ts e = Inr es" and "t \<in> set (shard_names ts (fst e))"
  shows "\<exists>d. (t, d) \<in> set es \<and> dep_names ''dependencies'' d = dep_names ''dependencies'' (snd e)"
proof (cases "dget ts (fst e)")
  case None
  then show ?thesis using assms by (cases e) (auto simp: expand_target_def shard_names_def)
next
  case (Some n)
  then obtain ds where ds: "mapM (shard_dict (nat n) (snd e)) [0..<nat n] = Inr ds" "es = zip (shard_names ts (fst e)) ds"
    using assms(1) by (auto simp: expand_target_def res_bind_eq_Inr)
  obtain i where i: "i < nat n" "t = ShardName (fst e) i" using assms(2) Some by (auto simp: shard_names_def)
  have "shard_dict (nat n) (snd e) i = Inr (ds ! i)" using mapM_Inr_nth [OF ds(1), of i] i by simp
  moreover have "i < length es" "es ! i = (t, ds ! i)" using ds(2) i mapM_Inr_length [OF ds(1)] Some by (simp_all add: shard_names_def)
  then have "(t, ds ! i) \<in> set es" by (metis nth_mem)
  ultimately show ?thesis using shard_dict_eq(2) [of "nat n" "snd e" i "ds ! i" "''dependencies''"] by auto
qed

lemma expand_target_sources:
  assumes "expand_target ts (t, d) = Inr es" and "dget ts t = Some n" "0 < n"
  shows "\<exists>sources ds. source_items d = Inr sources \<and> length ds = nat n
    \<and> (\<forall>i<nat n. (ShardName t i, ds ! i) \<in> set es \<and> source_items (ds ! i) = Inr (map ((!) sources) (py_range i (length sources) (nat n))))"
proof -
  obtain ds where ds: "mapM (shard_dict (nat n) d) [0..<nat n] = Inr ds" "es = zip (shard_names ts t) ds"
    using assms by (auto simp: expand_target_def res_bind_eq_Inr)
  note len = mapM_Inr_length [OF ds(1)]
  have s: "shard_dict (nat n) d i = Inr (ds ! i)" if "i < nat n" for i using mapM_Inr_nth [OF ds(1), of i] that by simp
  obtain sources where "source_items d = Inr sources" using shard_dict_eq(1) [OF s [of 0]] assms(3) by auto
  moreover have "(ShardName t i, ds ! i) \<in> set es" if "i < nat n" for i
  proof -
    have "i < length es" "es ! i = (ShardName t i, ds ! i)" using ds(2) that len assms(2) by (simp_all add: shard_names_def)
    then show ?thesis by (metis nth_mem)
  qed
  ultimately show ?thesis using len shard_dict_eq(1) [OF s] by (intro exI [of _ sources] exI [of _ ds]) auto
qed

lemma ShardTargets_cases:
  assumes "ShardTargets target_list target_dicts = Inr (target_list', target_dicts')" and "targets_to_shard target_dicts = Inr ts"
    and "distinct (concat (map (shard_names ts) (dkeys target_dicts)))"
  obtains new where "target_list' = concat (map (shard_names ts) target_list)"
    "dkeys target_dicts' = concat (map (shard_names ts) (dkeys target_dicts))"
    "\<And>e. e \<in> set target_dicts \<Longrightarrow> \<exists>es. expand_target ts e = Inr es \<and> set es \<subseteq> set new"
    "\<And>k d. (k, d) \<in> set new \<Longrightarrow> \<exists>d'. dget target_dicts' k = Some d' \<and> foldM (shard_dependencies ts) d [''dependencies'', ''dependencies_original''] = Inr d'"
proof -
  define f where "f = (\<lambda>(t :: string, d). res_bind (foldM (shard_dependencies ts) d [''dependencies'', ''dependencies_original'']) (\<lambda>d'. Inr (t, d')))"
  obtain new where new: "foldM (add_shards ts) [] target_dicts = Inr new" "mapM f new = Inr target_dicts'"
    and l: "target_list' = concat (map (shard_names ts) target_list)"
    using assms(1,2) by (auto simp: ShardTargets_def f_def res_bind_eq_Inr simp del: foldM.simps)
  have c: "concat (map (\<lambda>e. shard_names ts (fst e)) target_dicts) = concat (map (shard_names ts) (dkeys target_dicts))"
    by (simp add: dkeys_def comp_def)
  obtain ess where ess: "mapM (expand_target ts) target_dicts = Inr ess" "new = concat ess" "dkeys new = concat (map (shard_names ts) (dkeys target_dicts))"
    using add_shards_all [OF new(1)] assms(3) c by (auto simp: dkeys_def)
  have keys: "dkeys target_dicts' = dkeys new"
    using new(2) by (induction new arbitrary: target_dicts') (auto simp: f_def dkeys_def res_bind_eq_Inr simp del: foldM.simps)
  have wf: "wf_dict target_dicts'" using keys ess(3) assms(3) by (simp add: wf_dict_def dkeys_def)
  have "\<exists>d'. dget target_dicts' k = Some d' \<and> foldM (shard_dependencies ts) d [''dependencies'', ''dependencies_original''] = Inr d'"
    if "(k, d) \<in> set new" for k d
  proof -
    obtain i where i: "i < length new" "new ! i = (k, d)" using \<open>(k, d) \<in> set new\<close> by (auto simp: in_set_conv_nth)
    have "f (k, d) = Inr (target_dicts' ! i)" "target_dicts' ! i \<in> set target_dicts'"
      using mapM_Inr_nth [OF new(2) i(1)] mapM_Inr_length [OF new(2)] i by simp_all
    then show ?thesis using wf_dict_dget [OF wf] by (auto simp: f_def res_bind_eq_Inr simp del: foldM.simps)
  qed
  moreover have "\<exists>es. expand_target ts e = Inr es \<and> set es \<subseteq> set new" if "e \<in> set target_dicts" for e
  proof -
    obtain i where i: "i < length target_dicts" "target_dicts ! i = e" using \<open>e \<in> set target_dicts\<close> by (auto simp: in_set_conv_nth)
    have "expand_target ts e = Inr (ess ! i)" "ess ! i \<in> set ess"
      using mapM_Inr_nth [OF ess(1) i(1)] mapM_Inr_length [OF ess(1)] i by simp_all
    then show ?thesis using ess(2) by auto
  qed
  ultimately show thesis using that [OF l] keys ess(3) by metis
qed

section \<open>Properties\<close>

text \<open>
  C20. \<open>ShardTargets\<close>, when the names of the shards are new: in the list and in the dictionary the shards of a
  target stand in its place; each source of a sharded target is in exactly one of its shards; and where a
  target depended on a sharded one, it (or each of its own shards) depends on all the shards, in order.
\<close>

theorem ShardTargets_correct:
  assumes "ShardTargets target_list target_dicts = Inr (target_list', target_dicts')" and "targets_to_shard target_dicts = Inr ts"
    and "distinct (concat (map (shard_names ts) (dkeys target_dicts)))"
  shows "target_list' = concat (map (shard_names ts) target_list)
    \<and> dkeys target_dicts' = concat (map (shard_names ts) (dkeys target_dicts))
    \<and> (\<forall>(t, d)\<in>set target_dicts.
        (\<forall>n. dget ts t = Some n \<and> 0 < n \<longrightarrow>
          (\<exists>sources parts. source_items d = Inr sources
            \<and> mapM (\<lambda>i. source_items (the (dget target_dicts' (ShardName t i)))) [0..<nat n] = Inr parts \<and> mset (concat parts) = mset sources))
        \<and> (\<forall>t'\<in>set (shard_names ts t). \<exists>d' deps. dget target_dicts' t' = Some d' \<and> dep_names ''dependencies'' d = Inr deps
            \<and> dep_names ''dependencies'' d' = Inr (concat (map (shard_names ts) deps))))"
proof (rule ShardTargets_cases [OF assms], intro conjI ballI, goal_cases)
  case (3 new e)
  obtain t d where e: "e = (t, d)" by (cases e)
  obtain es where es: "expand_target ts (t, d) = Inr es" "set es \<subseteq> set new" using 3 e by blast
  have "\<exists>sources parts. source_items d = Inr sources
      \<and> mapM (\<lambda>i. source_items (the (dget target_dicts' (ShardName t i)))) [0..<nat n] = Inr parts \<and> mset (concat parts) = mset sources"
    if n: "dget ts t = Some n" "0 < n" for n
  proof -
    obtain sources ds where s: "source_items d = Inr sources"
      "\<forall>i<nat n. (ShardName t i, ds ! i) \<in> set es \<and> source_items (ds ! i) = Inr (map ((!) sources) (py_range i (length sources) (nat n)))"
      using expand_target_sources [OF es(1) n] by blast
    let ?p = "\<lambda>i. map ((!) sources) (py_range i (length sources) (nat n))"
    have "source_items (the (dget target_dicts' (ShardName t i))) = Inr (?p i)" if "i < nat n" for i
      using 3(4) [of "ShardName t i" "ds ! i"] s(2) that es(2) shard_dependencies_both(2) by (fastforce simp: source_items_def)
    then have "mapM (\<lambda>i. source_items (the (dget target_dicts' (ShardName t i)))) [0..<nat n] = mapM (\<lambda>i. Inr (?p i)) [0..<nat n]"
      by (intro mapM_cong) auto
    then show ?thesis using s(1) shard_sources [of "nat n" sources] n(2) by (simp add: mapM_pure)
  qed
  moreover have "\<exists>d' deps. dget target_dicts' t' = Some d' \<and> dep_names ''dependencies'' d = Inr deps
      \<and> dep_names ''dependencies'' d' = Inr (concat (map (shard_names ts) deps))" if t': "t' \<in> set (shard_names ts t)" for t'
  proof -
    obtain d1 where d1: "(t', d1) \<in> set new" "dep_names ''dependencies'' d1 = dep_names ''dependencies'' d"
      using expand_target_mem [OF es(1), of t'] t' es(2) by auto
    obtain d' where d': "dget target_dicts' t' = Some d'"
      "foldM (shard_dependencies ts) d1 [''dependencies'', ''dependencies_original''] = Inr d'" using 3(4) [OF d1(1)] by blast
    show ?thesis using shard_dependencies_both(1) [OF d'(2)] d'(1) d1(2) by auto
  qed
  ultimately show ?case using e by blast
qed

definition demo_shards :: "(string, pydict) dict" where
  "demo_shards =
     [(''a.gyp:big#target'', [(''target_name'', PStr ''big''), (''msvs_shard'', PInt 2), (''sources'', PList (map PStr [''a.cc'', ''b.cc'', ''c.cc'']))]),
      (''a.gyp:app#target'', [(''target_name'', PStr ''app''), (''dependencies'', PList [PStr ''a.gyp:big#target''])])]"

theorem ShardTargets_correct_witness:
  "\<exists>td. ShardTargets (dkeys demo_shards) demo_shards = Inr ([''a.gyp:big_0#target'', ''a.gyp:big_1#target'', ''a.gyp:app#target''], td)
     \<and> (\<exists>parts. mapM (\<lambda>i. source_items (the (dget td (ShardName ''a.gyp:big#target'' i)))) [0..<2] = Inr parts
       \<and> mset (concat parts) = mset (map PStr [''a.cc'', ''b.cc'', ''c.cc'']))
     \<and> dep_names ''dependencies'' (the (dget td ''a.gyp:app#target'')) = Inr [''a.gyp:big_0#target'', ''a.gyp:big_1#target'']"
proof -
  let ?r = "ShardTargets (dkeys demo_shards) demo_shards" and ?ts = "[(''a.gyp:big#target'', 2 :: int)]"
  have "\<not> isl ?r" by code_simp
  then obtain tl' td where r: "?r = Inr (tl', td)" by (cases ?r) auto
  have ts: "targets_to_shard demo_shards = Inr ?ts" by code_simp
  have d: "distinct (concat (map (shard_names ?ts) (dkeys demo_shards)))" by code_simp
  note c = ShardTargets_correct [OF r ts d]
  have n: "concat (map (shard_names ?ts) (dkeys demo_shards)) = [''a.gyp:big_0#target'', ''a.gyp:big_1#target'', ''a.gyp:app#target'']"
    "shard_names ?ts ''a.gyp:app#target'' = [''a.gyp:app#target'']"
    "concat (map (shard_names ?ts) [''a.gyp:big#target'']) = [''a.gyp:big_0#target'', ''a.gyp:big_1#target'']" by code_simp+
  show ?thesis using c r n by (auto simp: demo_shards_def source_items_def dep_names_def)
qed

end
