(* ===== verification/Node_Js2c.thy ===== *)
theory Node_Js2c
  imports Py_Value Py_Path
begin

text \<open>
  \<open>tools/js2c.py\<close>, which turns the JavaScript files of \<open>lib/\<close> into the C header \<open>node_natives.h\<close>: constants and
  macros are expanded, and each file becomes an array of character codes. Shown here: the codes of an
  array are those of the text, followed by a zero; what the expansion of a macro call is.
\<close>

section \<open>Arrays of characters\<close>

text \<open>\<open>row\<close> and \<open>col\<close> count for the message; the array grows in \<open>result\<close>.\<close>

fun ToCArray_loop :: "string \<Rightarrow> nat \<Rightarrow> nat \<Rightarrow> string \<Rightarrow> string list \<Rightarrow> string list res" where
  "ToCArray_loop filename row col [] result = Inr result"
| "ToCArray_loop filename row col (chr # lines) result =
     (let newline = (chr = CHR 0x0A \<or> chr = CHR 0x0D);
          row' = (if newline then row + 1 else row);
          col' = (if newline then 0 else col + 1);
          value = ord chr
      in if 128 \<le> value
         then Inl (SystemExit (''non-ascii value '' @ filename @ '':'' @ nat_str row' @ '':'' @ nat_str col'))
         else ToCArray_loop filename row' col' lines (result @ [nat_str value]))"

definition ToCArray :: "string \<Rightarrow> string \<Rightarrow> string res" where
  "ToCArray filename lines =
     res_bind (ToCArray_loop filename 1 0 lines []) (\<lambda>result. Inr (join '', '' (result @ [''0''])))"

text \<open>\<open>CompressScript\<close>: the name \<open>JavaScriptMinifier\<close> is not defined, since only the module \<open>jsmin\<close> is
  imported.\<close>

definition CompressScript :: "string \<Rightarrow> bool \<Rightarrow> string res" where
  "CompressScript lines do_jsmin = (if do_jsmin then Inl (NameError ''JavaScriptMinifier'') else Inr lines)"

section \<open>Files\<close>

type_synonym text_files = "(string, string) dict"

definition ReadFile :: "text_files \<Rightarrow> string \<Rightarrow> string res" where
  "ReadFile files filename = (case dget files filename of None \<Rightarrow> Inl (OSError filename) | Some s \<Rightarrow> Inr s)"

definition ReadLines :: "text_files \<Rightarrow> string \<Rightarrow> string list res" where
  "ReadLines files filename =
     res_bind (ReadFile files filename) (\<lambda>contents.
       Inr (filter (\<lambda>line. line \<noteq> []) (map (\<lambda>line. strip (takeWhile (\<lambda>c. c \<noteq> CHR ''#'') line)) (split_on nl contents))))"

definition ParseValue :: "string \<Rightarrow> string list + string" where
  "ParseValue str =
     (let s = strip str
      in if startswith s ''['' \<and> endswith s '']''
         then Inl (split_ws (rev (dropWhile (\<lambda>c. c = CHR '']'') (rev (dropWhile (\<lambda>c. c = CHR ''['') s)))))
         else Inr s)"

section \<open>Constants and macros\<close>

definition ExpandConstants :: "string \<Rightarrow> (string, string) dict \<Rightarrow> string" where
  "ExpandConstants lines constants = foldl (\<lambda>lines (key, value). replace lines key value) lines constants"

text \<open>The function of a Python macro gives the string of its result.\<close>

datatype macro =
    TextMacro "string list" string
  | PythonMacro "string list" "string list \<Rightarrow> string res"

fun macro_args :: "macro \<Rightarrow> string list" where
  "macro_args (TextMacro args body) = args"
| "macro_args (PythonMacro args f) = args"

fun macro_expand :: "macro \<Rightarrow> (string, string) dict \<Rightarrow> string res" where
  "macro_expand (TextMacro args body) mapping = Inr (foldl (\<lambda>result (key, value). replace result key value) body mapping)"
| "macro_expand (PythonMacro args f) mapping = res_bind (mapM (dict_get mapping) args) f"

definition slice :: "nat \<Rightarrow> nat \<Rightarrow> string \<Rightarrow> string" where
  "slice i j s = drop i (take j s)"

text \<open>The scan over the arguments of a call: the text of the arguments, and the position behind it.\<close>

function scan_arguments :: "string \<Rightarrow> nat \<Rightarrow> nat \<Rightarrow> nat \<Rightarrow> string list \<Rightarrow> string list \<times> nat" where
  "scan_arguments lines end_pos height last_match args =
     (if end_pos < length lines \<and> 0 < height then
        (let c = lines ! end_pos
         in if c = CHR '','' \<and> height = 1
            then scan_arguments lines (end_pos + 1) height (end_pos + 1) (args @ [slice last_match end_pos lines])
            else if c \<in> set ''({['' then scan_arguments lines (end_pos + 1) (height + 1) last_match args
            else if c \<in> set '')}]'' then scan_arguments lines (end_pos + 1) (height - 1) last_match args
            else scan_arguments lines (end_pos + 1) height last_match args)
      else (args @ [slice last_match (end_pos - 1) lines], end_pos))"
  by pat_completeness auto
termination
  by (relation "measure (\<lambda>(lines, end_pos, height, last_match, args). length lines - end_pos)") auto

declare scan_arguments.simps [simp del]

text \<open>\<open>add_arg\<close>: every argument is bound to the first parameter, since \<open>arg_index\<close> stays 0.\<close>

definition add_arg :: "(string \<Rightarrow> string res) \<Rightarrow> macro \<Rightarrow> (string, string) dict \<Rightarrow> string \<Rightarrow> (string, string) dict res" where
  "add_arg expand macro mapping str =
     res_bind (expand (strip str)) (\<lambda>replacement.
     res_bind (nth_res (macro_args macro) 0) (\<lambda>arg. Inr (dset mapping arg replacement)))"

text \<open>The calls of one macro, from a position on; the fuel bounds the number of calls.\<close>

definition expand_call :: "(string \<Rightarrow> string res) \<Rightarrow> string \<Rightarrow> macro \<Rightarrow> string \<Rightarrow> nat \<Rightarrow> string res" where
  "expand_call expand name macro lines start =
     (case scan_arguments lines (start + length name + 1) 1 (start + length name + 1) [] of (args, end_pos) \<Rightarrow>
        res_bind (foldM (add_arg expand macro) [] args) (\<lambda>mapping.
        res_bind (macro_expand macro mapping) (\<lambda>result.
          Inr (take start lines @ result @ drop end_pos lines))))"

definition find_call :: "string \<Rightarrow> string \<Rightarrow> nat \<Rightarrow> nat option" where
  "find_call name lines start = map_option (\<lambda>i. start + i) (find_from (drop start lines) (name @ ''(''))"

primrec expand_calls :: "nat \<Rightarrow> (string \<Rightarrow> string res) \<Rightarrow> string \<Rightarrow> macro \<Rightarrow> string \<Rightarrow> nat option \<Rightarrow> string res" where
  "expand_calls 0 expand name macro lines start = (if start = None then Inr lines else Inl OutOfFuel)"
| "expand_calls (Suc n) expand name macro lines start =
     (case start of
        None \<Rightarrow> Inr lines
      | Some i \<Rightarrow> res_bind (expand_call expand name macro lines i) (\<lambda>lines'.
          expand_calls n expand name macro lines' (find_call name lines' i)))"

text \<open>\<open>depth\<close> bounds the recursion into arguments, \<open>n\<close> the calls of a macro in a text.\<close>

primrec ExpandMacros :: "nat \<Rightarrow> nat \<Rightarrow> (string, macro) dict \<Rightarrow> string \<Rightarrow> string res" where
  "ExpandMacros 0 n macros lines = Inl RecursionLimit"
| "ExpandMacros (Suc depth) n macros lines =
     foldM (\<lambda>lines (name, macro).
       expand_calls n (ExpandMacros depth n macros) name macro lines (find_call name lines 0)) lines macros"

section \<open>The definitions of macros\<close>

text \<open>The regular expressions: white space, a name, an equals sign, the rest up to the semicolon that
  ends the line.\<close>

definition after_word :: "string \<Rightarrow> string \<Rightarrow> string option" where
  "after_word word s =
     (if startswith s word \<and> lstrip (drop (length word) s) \<noteq> drop (length word) s
      then Some (lstrip (drop (length word) s)) else None)"

definition definition_body :: "string \<Rightarrow> string option" where
  "definition_body s =
     (case lstrip s of
        [] \<Rightarrow> None
      | c # r \<Rightarrow>
          if c = CHR ''='' \<and> dropWhile (\<lambda>c. c \<noteq> CHR '';'') (lstrip r) = '';''
          then Some (takeWhile (\<lambda>c. c \<noteq> CHR '';'') (lstrip r)) else None)"

definition match_const :: "string \<Rightarrow> (string \<times> string) option" where
  "match_const line =
     (case after_word ''const'' line of
        None \<Rightarrow> None
      | Some r \<Rightarrow>
          if takeWhile is_word r = [] then None
          else map_option (\<lambda>value. (takeWhile is_word r, value)) (definition_body (dropWhile is_word r)))"

definition match_params :: "string \<Rightarrow> (string \<times> string \<times> string) option" where
  "match_params r =
     (if takeWhile is_word r = [] then None
      else case lstrip (dropWhile is_word r) of
             [] \<Rightarrow> None
           | c # q \<Rightarrow>
               if c = CHR ''('' \<and> dropWhile (\<lambda>c. c \<noteq> CHR '')'') q \<noteq> [] then
                 map_option (\<lambda>body. (takeWhile is_word r, takeWhile (\<lambda>c. c \<noteq> CHR '')'') q, body))
                   (definition_body (tl (dropWhile (\<lambda>c. c \<noteq> CHR '')'') q)))
               else None)"

definition match_macro :: "string \<Rightarrow> (string \<times> string \<times> string) option" where
  "match_macro line = (case after_word ''macro'' line of None \<Rightarrow> None | Some r \<Rightarrow> match_params r)"

definition match_python_macro :: "string \<Rightarrow> (string \<times> string \<times> string) option" where
  "match_python_macro line =
     (case after_word ''python'' line of
        None \<Rightarrow> None
      | Some r \<Rightarrow> (case after_word ''macro'' r of None \<Rightarrow> None | Some q \<Rightarrow> match_params q))"

text \<open>\<open>py_lambda\<close> is \<open>eval\<close> of the source of a lambda expression.\<close>

definition read_macro_line ::
  "(string \<Rightarrow> (string list \<Rightarrow> string res) res) \<Rightarrow> (string, string) dict \<times> (string, macro) dict \<Rightarrow> string
    \<Rightarrow> ((string, string) dict \<times> (string, macro) dict) res" where
  "read_macro_line py_lambda st line0 =
     (case st of (constants, macros) \<Rightarrow>
        let line = strip (takeWhile (\<lambda>c. c \<noteq> CHR ''#'') line0);
            params = (\<lambda>s. map strip (split_on (CHR '','') s))
        in if line = [] then Inr st
           else case match_const line of
             Some (name, value) \<Rightarrow> Inr (dset constants name (strip value), macros)
           | None \<Rightarrow>
          (case match_macro line of
             Some (name, args, body) \<Rightarrow> Inr (constants, dset macros name (TextMacro (params args) (strip body)))
           | None \<Rightarrow>
          (case match_python_macro line of
             Some (name, args, body) \<Rightarrow>
               res_bind (py_lambda (''lambda '' @ join '','' (params args) @ '': '' @ strip body)) (\<lambda>f.
                 Inr (constants, dset macros name (PythonMacro (params args) f)))
           | None \<Rightarrow> Inl (PyException (''Illegal line: '' @ line)))))"

definition ReadMacros ::
  "(string \<Rightarrow> (string list \<Rightarrow> string res) res) \<Rightarrow> string list \<Rightarrow> ((string, string) dict \<times> (string, macro) dict) res" where
  "ReadMacros py_lambda lines = foldM (read_macro_line py_lambda) ([], []) lines"

section \<open>The header\<close>

definition quoted :: "string \<Rightarrow> string" where
  "quoted s = [CHR 0x22] @ s @ [CHR 0x22]"

definition SOURCE_DECLARATION :: "string \<Rightarrow> string \<Rightarrow> string" where
  "SOURCE_DECLARATION escaped_id data = ''  const char '' @ escaped_id @ ''_native[] = { '' @ data @ '' };'' @ [nl]"

definition NATIVE_DECLARATION :: "string \<Rightarrow> string \<Rightarrow> string" where
  "NATIVE_DECLARATION ident escaped_id =
     ''  { '' @ quoted ident @ '', '' @ escaped_id @ ''_native, sizeof('' @ escaped_id @ ''_native)-1 },'' @ [nl]"

definition HEADER_TEMPLATE :: "string \<Rightarrow> string \<Rightarrow> string" where
  "HEADER_TEMPLATE source_lines native_lines =
     join [nl] [''#ifndef node_natives_h'', ''#define node_natives_h'', ''namespace node {'', '''', source_lines]
     @ join [nl] ['''', ''struct _native {'', ''  const char* name;'', ''  const char* source;'', ''  size_t source_len;'', ''};'', '''',
         ''static const struct _native natives[] = {'', '''', native_lines]
     @ join [nl] ['''', ''  { NULL, NULL, 0 } /* sentinel */'', '''', ''};'', '''', ''}'', ''#endif'', '''']"

definition is_delay :: "string \<Rightarrow> bool" where
  "is_delay s = endswith s ''-delay.js''"

definition module_id :: "string \<Rightarrow> string" where
  "module_id s =
     (let is_sep = (\<lambda>c. c = CHR ''/'' \<or> c = CHR 0x5C);
          id0 = (if list_ex is_sep s
                 then join ''/'' (tl (split_on (CHR ''/'') (map (\<lambda>c. if is_sep c then CHR ''/'' else c) s))) else s);
          id1 = takeWhile (\<lambda>c. c \<noteq> CHR ''.'') id0
      in if is_delay s then drop_last 6 id1 else id1)"

text \<open>One module: its declaration and its entry in the table.\<close>

definition compile_module ::
  "nat \<Rightarrow> nat \<Rightarrow> text_files \<Rightarrow> (string, string) dict \<Rightarrow> (string, macro) dict \<Rightarrow> string \<Rightarrow> (string \<times> string) res" where
  "compile_module depth n files consts macros s =
     res_bind (ReadFile files s) (\<lambda>lines0.
     let do_jsmin = (find_from lines0 ''// jsminify this file, js2c: jsmin'' \<noteq> None)
     in res_bind (ExpandMacros depth n macros (ExpandConstants lines0 consts)) (\<lambda>lines.
        res_bind (CompressScript lines do_jsmin) (\<lambda>lines.
        res_bind (ToCArray s lines) (\<lambda>data.
          let ident = module_id s; escaped_id = map (\<lambda>c. if c = CHR ''/'' then CHR ''$'' else c) ident
          in Inr (SOURCE_DECLARATION escaped_id data, NATIVE_DECLARATION ident escaped_id)))))"

text \<open>\<open>JS2C\<close>: the files after it, and whether it returned. A second target lacks \<open>native_lines\<close>, which
  the template asks for. The cases of the delay functions, which are computed from the identifiers and
  never reach the template, are left out.\<close>

definition is_macros_file :: "string \<Rightarrow> bool" where
  "is_macros_file s = endswith (snd (path_split s)) ''macros.py''"

definition JS2C ::
  "(string \<Rightarrow> (string list \<Rightarrow> string res) res) \<Rightarrow> nat \<Rightarrow> nat \<Rightarrow> string list \<Rightarrow> string list \<Rightarrow> text_files \<Rightarrow> text_files \<times> unit res" where
  "JS2C py_lambda depth n source target files =
     (case res_bind (mapM (ReadLines files) (filter is_macros_file source)) (\<lambda>macro_lines.
           res_bind (ReadMacros py_lambda (concat macro_lines)) (\<lambda>(consts, macros).
           mapM (compile_module depth n files consts macros) (filter (\<lambda>s. \<not> is_macros_file s) source))) of
        Inl e \<Rightarrow> (files, Inl e)
      | Inr decls \<Rightarrow>
          (case target of
             [] \<Rightarrow> (files, Inl IndexError)
           | t # ts \<Rightarrow>
               let files' = dset files t (HEADER_TEMPLATE (join [nl] (map fst decls)) (join [nl] (map snd decls)))
               in (case ts of [] \<Rightarrow> (files', Inr ()) | t2 # _ \<Rightarrow> (dset files' t2 [], Inl (KeyError ''native_lines'')))))"

definition js2c_main ::
  "(string \<Rightarrow> (string list \<Rightarrow> string res) res) \<Rightarrow> nat \<Rightarrow> nat \<Rightarrow> string list \<Rightarrow> text_files \<Rightarrow> text_files \<times> unit res" where
  "js2c_main py_lambda depth n argv files =
     (case argv of _ # natives # source_files \<Rightarrow> JS2C py_lambda depth n source_files [natives] files | _ \<Rightarrow> (files, Inl IndexError))"

section \<open>Reading arrays back\<close>

text \<open>The numbers of an initializer list.\<close>

definition read_c_array :: "string \<Rightarrow> nat list" where
  "read_c_array data = map (digits_val \<circ> lstrip) (split_on (CHR '','') data)"

lemma split_join_comma:
  assumes "xs \<noteq> []" and "\<And>x. x \<in> set xs \<Longrightarrow> CHR '','' \<notin> set x"
  shows "split_on (CHR '','') (join '', '' xs) = hd xs # map (\<lambda>x. CHR '' '' # x) (tl xs)"
  using assms
proof (induction xs rule: list_nonempty_induct)
  case (single x)
  then show ?case by (simp add: split_on_no_sep)
next
  case (cons x xs)
  obtain y ys where xs: "xs = y # ys" using cons.hyps by (cases xs) auto
  have "split_on (CHR '','') (join '', '' xs) = y # map (\<lambda>x. CHR '' '' # x) ys" using cons xs by simp
  moreover have "join '', '' (x # xs) = x @ CHR '','' # CHR '' '' # join '', '' xs" by (simp add: xs)
  ultimately show ?case using cons.prems [of x] by (simp add: split_on_append xs)
qed

lemma lstrip_digits:
  assumes "d \<noteq> []" and "\<And>c. c \<in> set d \<Longrightarrow> is_digit c"
  shows "lstrip (CHR '' '' # d) = d" "lstrip d = d"
proof -
  obtain c r where d: "d = c # r" using assms(1) by (cases d) auto
  have "\<not> is_space c" using assms(2) [of c] by (auto simp: d char_defs)
  moreover have "is_space (CHR '' '')" by (simp add: char_defs)
  ultimately show "lstrip (CHR '' '' # d) = d" "lstrip d = d" by (simp_all add: d lstrip_def)
qed

lemma read_c_array_join:
  assumes "ns \<noteq> []"
  shows "read_c_array (join '', '' (map nat_str ns)) = ns"
proof -
  have comma: "CHR '','' \<notin> set (nat_str n)" for n
  proof
    assume "CHR '','' \<in> set (nat_str n)"
    then have "is_digit (CHR '','')" by (rule nat_str_digits)
    then show False by (simp add: char_defs)
  qed
  then have "split_on (CHR '','') (join '', '' (map nat_str ns)) = hd (map nat_str ns) # map (\<lambda>x. CHR '' '' # x) (tl (map nat_str ns))"
    using assms by (intro split_join_comma) auto
  moreover obtain m ms where "ns = m # ms" using assms by (cases ns) auto
  moreover have "lstrip (CHR '' '' # nat_str n) = nat_str n" "lstrip (nat_str n) = nat_str n" for n
    using lstrip_digits [OF nat_str_ne nat_str_digits] by auto
  ultimately show ?thesis by (simp add: read_c_array_def comp_def)
qed

text \<open>Where the position of the message is: the row counts the line ends before it, the column the
  characters since the last of them.\<close>

definition line_end :: "char \<Rightarrow> bool" where
  "line_end c \<longleftrightarrow> c = CHR 0x0A \<or> c = CHR 0x0D"

definition ascii :: "char \<Rightarrow> bool" where
  "ascii c \<longleftrightarrow> ord c < 128"

definition row_at :: "nat \<Rightarrow> string \<Rightarrow> nat" where
  "row_at row s = row + length (filter line_end s)"

definition col_at :: "nat \<Rightarrow> string \<Rightarrow> nat" where
  "col_at col s = (if list_ex line_end s then 0 else col) + length (takeWhile (Not \<circ> line_end) (rev s))"

lemma row_col_Cons:
  "row_at row (c # s) = row_at (if line_end c then row + 1 else row) s"
  "col_at col (c # s) = col_at (if line_end c then 0 else col + 1) s"
proof -
  show "row_at row (c # s) = row_at (if line_end c then row + 1 else row) s" by (simp add: row_at_def)
  have 1: "list_ex line_end s \<Longrightarrow> takeWhile (Not \<circ> line_end) (rev s @ [c]) = takeWhile (Not \<circ> line_end) (rev s)"
    by (rule takeWhile_append1 [where x = "SOME x. x \<in> set s \<and> line_end x"]) (auto simp: list_ex_iff intro: someI2_ex)
  have 2: "takeWhile (Not \<circ> line_end) (rev s @ [c]) = rev s @ takeWhile (Not \<circ> line_end) [c]"
    "takeWhile (Not \<circ> line_end) (rev s) = rev s" if "\<not> list_ex line_end s"
  proof -
    have all: "(Not \<circ> line_end) x" if "x \<in> set (rev s)" for x using that \<open>\<not> list_ex line_end s\<close> by (simp add: list_ex_iff)
    show "takeWhile (Not \<circ> line_end) (rev s @ [c]) = rev s @ takeWhile (Not \<circ> line_end) [c]"
      using all by (rule takeWhile_append2)
    show "takeWhile (Not \<circ> line_end) (rev s) = rev s" using all by (simp add: takeWhile_eq_all_conv)
  qed
  show "col_at col (c # s) = col_at (if line_end c then 0 else col + 1) s"
    by (cases "list_ex line_end s") (simp_all add: col_at_def 1 2)
qed

lemma ToCArray_loop_eq:
  "ToCArray_loop f row col s result =
     (if list_all ascii s then Inr (result @ map (nat_str \<circ> ord) s)
      else Inl (SystemExit (''non-ascii value '' @ f @ '':'' @ nat_str (row_at row (takeWhile ascii s))
        @ '':'' @ nat_str (Suc (col_at col (takeWhile ascii s))))))"
proof (induction s arbitrary: row col result)
  case (Cons c s)
  have na: "\<not> ascii c \<Longrightarrow> \<not> line_end c" by (auto simp: ascii_def line_end_def char_defs)
  show ?case
  proof (cases "ascii c")
    case True
    then have "ToCArray_loop f row col (c # s) result =
        ToCArray_loop f (if line_end c then row + 1 else row) (if line_end c then 0 else col + 1) s (result @ [nat_str (ord c)])"
      by (auto simp: ascii_def line_end_def Let_def)
    then show ?thesis using True by (simp add: Cons.IH row_col_Cons)
  next
    case False
    then show ?thesis using na [OF False] by (auto simp: ascii_def line_end_def Let_def row_at_def col_at_def)
  qed
qed simp

section \<open>Calls of macros\<close>

text \<open>The nesting depth behind a text, if it does not end the argument.\<close>

fun nest :: "nat \<Rightarrow> string \<Rightarrow> nat option" where
  "nest h [] = Some h"
| "nest h (c # s) =
     (if c = CHR '','' \<and> h = 1 then None
      else if c \<in> set ''({['' then nest (h + 1) s
      else if c \<in> set '')}]'' then (if h \<le> 1 then None else nest (h - 1) s)
      else nest h s)"

definition plain_arg :: "string \<Rightarrow> bool" where
  "plain_arg a \<longleftrightarrow> nest 1 a = Some 1"

lemma scan_nest:
  assumes "nest h a = Some h'" and "0 < h"
  shows "scan_arguments (p @ a @ r) (length p) h lm args = scan_arguments (p @ a @ r) (length p + length a) h' lm args"
  using assms
proof (induction a arbitrary: h p)
  case (Cons c a)
  have IH: "nest k a = Some h' \<Longrightarrow> 0 < k \<Longrightarrow>
      scan_arguments (p @ (c # a) @ r) (Suc (length p)) k lm args = scan_arguments (p @ (c # a) @ r) (length p + length (c # a)) h' lm args" for k
    using Cons.IH [of k "p @ [c]"] by simp
  let ?l = "p @ (c # a) @ r"
  have nth: "?l ! length p = c" "length p < length ?l" by simp_all
  note step = scan_arguments.simps [of ?l "length p" h lm args, unfolded nth(1) Let_def]
  have nc: "\<not> (c = CHR '','' \<and> h = 1)" using Cons.prems(1) by auto
  show ?case
  proof (cases "c \<in> set ''({[''")
    case True
    then have "nest (h + 1) a = Some h'" using Cons.prems(1) nc by (simp split: if_splits)
    then show ?thesis using IH [of "h + 1"] by (simp only: step nc True nth(2) Cons.prems(2) if_True if_False simp_thms) simp
  next
    case no: False
    show ?thesis
    proof (cases "c \<in> set '')}]''")
      case True
      then have "nest (h - 1) a = Some h' \<and> 1 < h" using Cons.prems(1) nc no by (simp split: if_splits)
      then show ?thesis using IH [of "h - 1"] by (simp only: step nc no True nth(2) Cons.prems(2) if_True if_False simp_thms) simp
    next
      case False
      then have "nest h a = Some h'" using Cons.prems(1) nc no by (simp split: if_splits)
      then show ?thesis using IH [of h] Cons.prems(2) by (simp only: step nc no False nth(2) if_True if_False simp_thms) simp
    qed
  qed
qed simp

lemma scan_args:
  assumes "as \<noteq> []" and "list_all plain_arg as"
  shows "scan_arguments (p @ join '','' as @ CHR '')'' # r) (length p) 1 (length p) args
    = (args @ as, length p + length (join '','' as) + 1)"
  using assms
proof (induction as arbitrary: p args rule: list_nonempty_induct)
  case (single a)
  let ?l = "p @ a @ CHR '')'' # r" and ?q = "length p + length a"
  have n: "nest 1 a = Some 1" using single by (simp add: plain_arg_def)
  have c: "?l ! ?q = CHR '')''" "?q < length ?l" by (simp_all add: nth_append)
  have "scan_arguments ?l (length p) 1 (length p) args = scan_arguments ?l ?q 1 (length p) args"
    by (rule scan_nest [OF n]) simp
  also have "\<dots> = scan_arguments ?l (?q + 1) 0 (length p) args"
    by (subst scan_arguments.simps) (simp add: c)
  also have "\<dots> = (args @ [slice (length p) ?q ?l], ?q + 1)"
    by (subst scan_arguments.simps) simp
  finally show ?case by (simp add: slice_def)
next
  case (cons a as)
  let ?l = "p @ a @ CHR '','' # join '','' as @ CHR '')'' # r" and ?q = "length p + length a"
  have n: "nest 1 a = Some 1" "list_all plain_arg as" using cons.prems by (simp_all add: plain_arg_def [of a])
  have j: "join '','' (a # as) = a @ CHR '','' # join '','' as" using cons.hyps by (cases as) auto
  have c: "?l ! ?q = CHR '',''" "?q < length ?l" by (simp_all add: nth_append)
  have "scan_arguments ?l (length p) 1 (length p) args = scan_arguments ?l ?q 1 (length p) args"
    by (rule scan_nest [OF n(1)]) simp
  also have "\<dots> = scan_arguments ?l (?q + 1) 1 (?q + 1) (args @ [slice (length p) ?q ?l])"
    by (subst scan_arguments.simps) (simp add: c Let_def)
  also have "slice (length p) ?q ?l = a" by (simp add: slice_def)
  also have "scan_arguments ?l (?q + 1) 1 (?q + 1) (args @ [a])
      = ((args @ [a]) @ as, ?q + 1 + length (join '','' as) + 1)"
    using cons.IH [OF n(2), of "p @ a @ '',''" "args @ [a]"] by simp
  finally show ?case by (simp add: j)
qed

lemma add_args:
  assumes "as \<noteq> []" and "\<And>a. a \<in> set as \<Longrightarrow> expand (strip a) = Inr (f a)" and "macro_args mac = x # xs"
    and "mapping = [] \<or> mapping = [(x, v)]"
  shows "foldM (add_arg expand mac) mapping as = Inr [(x, f (last as))]"
  using assms
proof (induction as arbitrary: mapping v rule: list_nonempty_induct)
  case (single a)
  then show ?case by (auto simp: add_arg_def nth_res_def)
next
  case (cons a as)
  have "add_arg expand mac mapping a = Inr [(x, f a)]" using cons.prems by (auto simp: add_arg_def nth_res_def)
  moreover have "foldM (add_arg expand mac) [(x, f a)] as = Inr [(x, f (last as))]"
    using cons.prems cons.hyps by (intro cons.IH) auto
  ultimately show ?case using cons.hyps by simp
qed

lemma expand_call_text:
  assumes "as \<noteq> []" and "list_all plain_arg as" and "\<And>a. a \<in> set as \<Longrightarrow> expand (strip a) = Inr (f a)"
  shows "expand_call expand name (TextMacro (x # xs) body) (pre @ name @ ''('' @ join '','' as @ '')'' @ post) (length pre)
    = Inr (pre @ replace body x (f (last as)) @ post)"
proof -
  let ?p = "pre @ name @ ''(''"
  have s: "scan_arguments (?p @ join '','' as @ CHR '')'' # post) (length ?p) 1 (length ?p) [] = (as, length ?p + length (join '','' as) + 1)"
    using scan_args [OF assms(1,2), of ?p post "[]"] by simp
  have m: "foldM (add_arg expand (TextMacro (x # xs) body)) [] as = Inr [(x, f (last as))]"
    using assms by (intro add_args) auto
  show ?thesis using s by (simp add: expand_call_def m)
qed

lemma ExpandMacros_none:
  assumes "\<And>name mac. (name, mac) \<in> set macros \<Longrightarrow> find_from s (name @ ''('') = None"
  shows "ExpandMacros (Suc depth) n macros s = Inr s"
proof -
  have "expand_calls n e name mac s (find_call name s 0) = Inr s" if "(name, mac) \<in> set macros" for e name mac
    using assms [OF that] by (cases n) (simp_all add: find_call_def)
  then have "foldM (\<lambda>lines (name, mac). expand_calls n e name mac lines (find_call name lines 0)) s ms = Inr s"
    if "set ms \<subseteq> set macros" for e ms
    using that by (induction ms) auto
  then show ?thesis by simp
qed

section \<open>Properties\<close>

text \<open>
  C21. \<open>ToCArray\<close> of an ASCII text is the list of its character codes and a final zero, as a C compiler reads
  it; for any other text it stops the program with a message that has the row and the column of the
  first character that is not ASCII.
\<close>

theorem ToCArray_correct:
  "if list_all ascii s then \<exists>data. ToCArray filename s = Inr data \<and> read_c_array data = map ord s @ [0]
   else ToCArray filename s = Inl (SystemExit (''non-ascii value '' @ filename @ '':'' @ nat_str (row_at 1 (takeWhile ascii s))
     @ '':'' @ nat_str (Suc (col_at 0 (takeWhile ascii s)))))"
proof (cases "list_all ascii s")
  case True
  have "''0'' = nat_str 0" by code_simp
  then have "map (nat_str \<circ> ord) s @ [''0''] = map nat_str (map ord s @ [0])" by simp
  then show ?thesis using True read_c_array_join [of "map ord s @ [0]"] by (simp add: ToCArray_def ToCArray_loop_eq)
next
  case False
  then show ?thesis by (simp add: ToCArray_def ToCArray_loop_eq)
qed

text \<open>
  C22. The expansion of a call of a text macro, with arguments that have no further call and balanced
  brackets: the call is replaced by the body in which the last argument, without white space around it,
  stands for the first parameter. With one parameter and one argument this is the expansion; with
  several, the other parameters stay in the text and the other arguments are lost.
\<close>

theorem ExpandMacros_call:
  assumes "as \<noteq> []" and "list_all plain_arg as" and "\<forall>a\<in>set as. find_from (strip a) (name @ ''('') = None"
    and "find_from (pre @ name @ ''('' @ join '','' as @ '')'' @ post) (name @ ''('') = Some (length pre)"
    and "find_from (replace body x (strip (last as)) @ post) (name @ ''('') = None"
  shows "ExpandMacros (Suc (Suc depth)) (Suc n) [(name, TextMacro (x # xs) body)] (pre @ name @ ''('' @ join '','' as @ '')'' @ post)
    = Inr (pre @ replace body x (strip (last as)) @ post)"
proof -
  let ?ms = "[(name, TextMacro (x # xs) body)]" and ?l = "pre @ name @ ''('' @ join '','' as @ '')'' @ post"
  let ?e = "ExpandMacros (Suc depth) (Suc n) ?ms" and ?r = "replace body x (strip (last as))"
  have e: "?e (strip a) = Inr (strip a)" if "a \<in> set as" for a
    using assms(3) that by (intro ExpandMacros_none) auto
  have call: "expand_call ?e name (TextMacro (x # xs) body) ?l (length pre) = Inr (pre @ ?r @ post)"
    using expand_call_text [OF assms(1,2), of ?e strip] e by simp
  have f: "find_call name ?l 0 = Some (length pre)" using assms(4) by (simp add: find_call_def)
  have g: "find_call name (pre @ ?r @ post) (length pre) = None" using assms(5) by (simp add: find_call_def)
  have "expand_calls (Suc n) ?e name (TextMacro (x # xs) body) ?l (Some (length pre)) = Inr (pre @ ?r @ post)"
    unfolding expand_calls.simps option.case call res_bind_Inr g by (cases n) simp_all
  then show ?thesis unfolding ExpandMacros.simps(2) [of "Suc depth"] foldM.simps prod.case f by simp
qed

theorem ExpandMacros_call_witness:
  "ExpandMacros 2 1 [(''MIN'', TextMacro [''x'', ''y''] ''(x < y)'')] ''if MIN(1, 2) {'' = Inr ''if (2 < y) {''"
proof -
  have "ExpandMacros (Suc (Suc 0)) (Suc 0) [(''MIN'', TextMacro [''x'', ''y''] ''(x < y)'')]
      (''if '' @ ''MIN'' @ ''('' @ join '','' [''1'', '' 2''] @ '')'' @ '' {'')
    = Inr (''if '' @ replace ''(x < y)'' ''x'' (strip (last [''1'', '' 2''])) @ '' {'')"
    by (rule ExpandMacros_call) (simp, code_simp, code_simp, code_simp, code_simp)
  moreover have "strip '' 2'' = ''2''" "replace ''(x < y)'' ''x'' ''2'' = ''(2 < y)''" by code_simp+
  ultimately show ?thesis by (simp add: numeral_2_eq_2)
qed

end
