(* ===== verification/Spec2Isabelle.thy ===== *)
theory Spec2Isabelle
  imports Test_Progress Gyp_Load Gyp_Expand Gyp_OrderedSet Gyp_Topo Gyp_Ninja Gyp_Analysis Gyp_Xml Gyp_OrderedDict
    Gyp_Regenerate Gyp_Shard Node_Js2c
begin

text \<open>
  The Python programs of the io.js repository that decide what is built and what is tested, as HOL
  functions: the front end of GYP (\<open>tools/gyp/pylib/gyp\<close>), which reads the build files of the project
  and of the libraries under \<open>deps/\<close> and makes a list of targets for a generator, the generator that finds what a change affects, the writers that
  generators share, \<open>tools/js2c.py\<close>, which embeds the JavaScript library in the binary, and the test runner
  \<open>tools/test.py\<close>.

  \<^bold>\<open>The programs.\<close> \<open>Load\<close> of \<open>gyp/input.py\<close> loads build files, one after the other or in worker processes,
  with what they include; it expands variables and conditions in three phases, merges dictionaries with
  list policies, resolves dependencies between targets, orders the targets, hands settings on to
  dependents, sets up configurations, applies filters and validates the result. It uses \<open>gyp/common.py\<close>
  for names, paths, quoting, ordered sets, topological order and files that are written only when they
  change, and \<open>gyp/simple_copy.py\<close> for copies. Generators use \<open>gyp/ninja_syntax.py\<close>,
  \<open>gyp/easy_xml.py\<close> and \<open>gyp/ordered_dict.py\<close>; the generator \<open>gyp/generator/analyzer.py\<close> writes no build files, but
  says which targets a list of changed files affects. \<open>js2c.py\<close> expands constants and macros in the files of
  \<open>lib/\<close> and writes a C header with their characters. The test runner reads
  status files (a tokenizer, a parser, expressions over outcomes), classifies test cases, runs them in
  several threads and reports.

  \<^bold>\<open>How Python is modelled.\<close> \<open>Py_Prelude\<close> has exceptions as a datatype, results as sums, loops that stop at
  an exception, and dictionaries as association lists in the order in which Python would iterate them.
  \<open>Py_Str\<close>, \<open>Py_Path\<close> and \<open>Py_Regex\<close> have the parts of strings, \<open>os.path\<close> (on POSIX) and \<open>re\<close> that are used;
  \<open>Py_Shlex\<close> has \<open>shlex.split\<close>, \<open>repr\<close> and \<open>str\<close>. \<open>Py_Value\<close> has the values of build files. Lists and
  dictionaries are values, and functions that change their arguments return the new value; where
  objects are shared and changed in place and this can be seen, they are cells of a heap: the
  expansion of variables (\<open>Py_Heap\<close>), the ordered set (\<open>Gyp_OrderedSet\<close>), the ordered dictionary (\<open>Gyp_OrderedDict\<close>) and
  the \<open>Target\<close> objects of the analyzer (\<open>Gyp_Analyzer\<close>). Recursion that Python bounds
  by its recursion limit has a depth argument, and the outcome \<open>RecursionLimit\<close> when it is used up;
  theorems that say that such a function returns give a depth that is enough. Loops that may run for ever
  are partial functions (\<open>strip_policies\<close> in \<open>Gyp_Merge\<close>, \<open>FlattenToList_loop\<close> in \<open>Gyp_Graph\<close>) or have a
  bound on their turns (\<open>list_loop\<close> in \<open>Gyp_Variables\<close>, \<open>expand_calls\<close> in \<open>Node_Js2c\<close>, with the outcome
  \<open>OutOfFuel\<close>); all other loops are
  total functions.

  \<^bold>\<open>GYP.\<close> Each theory has the functions of the source under their names, in their order.
  \<^item> \<open>Gyp_Common\<close> (\<open>common.py\<close>): qualified names are parsed back, a relative path leads back to where it came
    from, quoted arguments are read back by a shell, transitive dependencies are reachability.
  \<^item> \<open>Gyp_OrderedSet\<close>: the linked list of \<open>OrderedSet\<close> refines lists without duplicates. The contract is the
    locale \<open>ordered_set\<close>, its clients' lemmas are proved there, and it is interpreted on the linked list.
  \<^item> \<open>Gyp_Topo\<close>: \<open>TopologicallySorted\<close> orders what it reaches or reports a cycle.
  \<^item> \<open>Gyp_Write\<close>: \<open>WriteOnDiff\<close> replaces a file exactly when its contents change.
  \<^item> \<open>Gyp_Graph\<close> (\<open>DependencyGraphNode\<close> and its clients): the flattened list has every target once and after
    its dependencies, or there is a cycle and an exception; reported cycles are cycles.
  \<^item> \<open>Gyp_Merge\<close>: what merging lists and dictionaries keeps, and the order of appended and prepended items.
  \<^item> \<open>Gyp_Filters\<close>: which items the filters of a list keep; no filter is left at any depth.
  \<^item> \<open>Gyp_Settings\<close>: the shape of configurations, the dependencies that static libraries keep.
  \<^item> \<open>Gyp_Targets\<close>: collecting, wildcards, pruning, collisions. \<open>Gyp_Validate\<close>: accepted rules.
  \<^item> \<open>Gyp_Files\<close>: the checked evaluator accepts exactly the trees without repeated keys; the included files
    are a closure; toolset expansion is idempotent.
  \<^item> \<open>Gyp_Parallel\<close>: the main loop and the callbacks of the worker processes as a step relation; whatever
    the order in which workers end, the files that are reached are loaded, once each; no deadlock, and an
    end.
  \<^item> \<open>Gyp_Brackets\<close>, \<open>Gyp_Variables\<close>, \<open>Gyp_Expand\<close>: the syntax of references, the expansion itself, and its
    theorems: expansion is substitution, conditions choose the first true branch, which definition of a
    variable counts, commands are run once. The recursion between \<open>ExpandVariables\<close> and the traversals of
    dictionaries and lists goes through a record of the functions they call, which \<open>engine\<close> defines for
    each depth.
  \<^item> \<open>Gyp_Load\<close>: one build file, the recursion into dependencies, the pipeline of \<open>Load\<close>; the loaded files are
    closed under dependencies, and what the returned targets satisfy.
  \<^item> \<open>Gyp_Ninja\<close> (\<open>ninja_syntax.py\<close>): broken lines are read back as the lines that were written, and they keep
    to the width wherever there is a place for a break.
  \<^item> \<open>Gyp_Analyzer\<close> (\<open>generator/analyzer.py\<close>), \<open>Gyp_Analysis\<close>: the traversal makes the graph of the targets that
    the requested ones reach, with the matching ones marked; the memoised searches find the targets that
    depend on a changed file, and the targets to build for them.
  \<^item> \<open>Gyp_Xml\<close> (\<open>easy_xml.py\<close>): the document is read back as the specification; a file is written only when it
    changes.
  \<^item> \<open>Gyp_OrderedDict\<close> (\<open>ordered_dict.py\<close>): the linked list and the maps refine association lists; the contract
    is the locale \<open>ordered_dict\<close>, interpreted on them.

  \<^item> \<open>Gyp_Options\<close> (\<open>gyp/__init__.py\<close>), \<open>Gyp_Regenerate\<close>: the command line and the settings that \<open>gyp_main\<close> makes of
    it and of the environment; the flags that \<open>RegenerateFlags\<close> puts into build files give the same settings
    again in any environment.
  \<^item> \<open>Gyp_Shard\<close> (\<open>MSVSUtil.py\<close>): \<open>ShardTargets\<close> divides the sources of a target among its shards.

  \<^bold>\<open>The build.\<close> \<open>Node_Js2c\<close>: an array holds the codes of the text, a text that is not ASCII is reported with
  its position, what the expansion of a macro call is.

  \<^bold>\<open>The test runner.\<close> \<open>Test_Expr\<close>, \<open>Test_Lexer\<close>, \<open>Test_Parser\<close>: expressions over outcomes, their tokenizer and
  parser; evaluation of well-typed expressions does not fail, printing and parsing is a round trip.
  \<open>Test_Config\<close>: status files, patterns and \<open>ClassifyTests\<close>. \<open>Test_Output\<close>: running one test, with the polling
  loop and its deadline. \<open>Test_Progress\<close>: the threads as a step relation on the shared queues and counters,
  the indicators, the report, the main program.

  \<^bold>\<open>Parameters.\<close> What the sources call but do not contain is an argument: the file system and the parser
  of Python syntax (\<open>file_system\<close>), commands, Python modules and the evaluation of Python expressions
  (\<open>xenv\<close>), \<open>os.path.realpath\<close>, the order in which a set gives its elements (\<open>pick\<close>, and
  \<open>ae_order\<close> for the analyzer), the reading and writing of JSON, the evaluation of a lambda expression
  (\<open>py_lambda\<close> in \<open>Node_Js2c\<close>), the environment of the command (\<open>main_env\<close>), processes and the clock
  of the test runner. Hypotheses on them are those of their documentation, such as that \<open>pick\<close> chooses an
  element of the set.

  \<^bold>\<open>Not modelled.\<close> Debug output; signal handling; Windows paths; the cache of compiled conditions; the
  generators that print build files, the support for MSVS and Xcode other than shards, the loop of \<open>gyp_main\<close> over the formats
  with the import of generator modules, the linters,
  the installation and release scripts, and the runtime itself with its third-party dependencies. Between the phases of \<open>Load\<close>,
  dictionaries are values, so that a list that an expansion made two dictionaries share is no longer
  shared in the next phase.
\<close>

end
